(* ===== verification/Prelude.thy ===== *)
theory Prelude
  imports Main "HOL-Library.AList" "HOL-Library.Multiset"
begin

text \<open>
  The vocabulary every component theory shares.

  \<^item> Go maps are association lists, read with \<open>go_get\<close>, written with \<open>go_set\<close>, shrunk with
    \<open>go_del\<close>; \<open>go_keys\<close> enumerates them (Go leaves the order open, so a statement about a
    loop over a map is proved for every list that represents it) and \<open>go_wf\<close> says that no key
    occurs twice, which is what makes \<open>len(m)\<close> the length of the list.
  \<^item> A Go \<open>map[K]struct{}\<close> is a list without repetitions, extended with \<open>List.insert\<close>.
  \<^item> A SQL table is a list of rows; \<open>sql_update\<close>, \<open>sql_delete\<close>, \<open>sql_where\<close> and
    \<open>sql_count\<close> are the statements the panel issues against it.
  \<^item> A call that can fail returns \<open>'e + 'a\<close>, the error on the left.
  \<^item> The locale \<open>invariant_machine\<close> is the one induction over runs of a component: an invariant
    that every operation keeps holds after every sequence of operations.
\<close>

section \<open>Collections of facts\<close>

named_theorems table_simps \<open>how the SQL statements act on rows and keys\<close>
named_theorems gomap_simps \<open>how the Go map operations act on lookups and keys\<close>

section \<open>Go maps\<close>

type_synonym ('k, 'v) gomap = "('k \<times> 'v) list"

abbreviation go_get :: "('k, 'v) gomap \<Rightarrow> 'k \<Rightarrow> 'v option" where
  "go_get m k \<equiv> map_of m k"

abbreviation go_set :: "'k \<Rightarrow> 'v \<Rightarrow> ('k, 'v) gomap \<Rightarrow> ('k, 'v) gomap" where
  "go_set k v m \<equiv> AList.update k v m"

abbreviation go_del :: "'k \<Rightarrow> ('k, 'v) gomap \<Rightarrow> ('k, 'v) gomap" where
  "go_del k m \<equiv> AList.delete k m"

abbreviation go_keys :: "('k, 'v) gomap \<Rightarrow> 'k list" where
  "go_keys m \<equiv> map fst m"

abbreviation go_wf :: "('k, 'v) gomap \<Rightarrow> bool" where
  "go_wf m \<equiv> distinct (map fst m)"

text \<open>The zero value of a missing key, for maps whose values are slices or sets.\<close>

definition go_list :: "('k, 'v list) gomap \<Rightarrow> 'k \<Rightarrow> 'v list" where
  "go_list m k = (case go_get m k of None \<Rightarrow> [] | Some xs \<Rightarrow> xs)"

lemma go_get_set [simp, gomap_simps]:
  "go_get (go_set k v m) k' = (if k' = k then Some v else go_get m k')"
  by (simp add: update_conv')

lemma go_get_del [simp, gomap_simps]:
  "go_get (go_del k m) k' = (if k' = k then None else go_get m k')"
  by (simp add: delete_conv')

lemma go_wf_set [simp]: "go_wf m \<Longrightarrow> go_wf (go_set k v m)"
  by (rule distinct_update)

lemma go_wf_del [simp]: "go_wf m \<Longrightarrow> go_wf (go_del k m)"
  by (rule distinct_delete)

lemma go_list_set [simp, gomap_simps]:
  "go_list (go_set k v m) k' = (if k' = k then v else go_list m k')"
  by (simp add: go_list_def)

lemma go_list_del [simp, gomap_simps]:
  "go_list (go_del k m) k' = (if k' = k then [] else go_list m k')"
  by (simp add: go_list_def)

lemma go_list_Nil [simp]: "go_list [] k = []"
  by (simp add: go_list_def)

lemma go_keys_set: "k \<in> set (go_keys m) \<longleftrightarrow> (\<exists>v. go_get m k = Some v)"
  using map_of_eq_None_iff [of m k] by auto

lemma go_get_in_set: "go_wf m \<Longrightarrow> go_get m k = Some v \<longleftrightarrow> (k, v) \<in> set m"
  by simp

lemma go_len_set_fresh: "go_get m k = None \<Longrightarrow> length (go_set k v m) = Suc (length m)"
  by (induction m) auto

section \<open>SQL tables\<close>

definition sql_where :: "('r \<Rightarrow> bool) \<Rightarrow> 'r list \<Rightarrow> 'r list" where
  "sql_where P rows = filter P rows"

definition sql_update :: "('r \<Rightarrow> bool) \<Rightarrow> ('r \<Rightarrow> 'r) \<Rightarrow> 'r list \<Rightarrow> 'r list" where
  "sql_update P f rows = map (\<lambda>r. if P r then f r else r) rows"

definition sql_delete :: "('r \<Rightarrow> bool) \<Rightarrow> 'r list \<Rightarrow> 'r list" where
  "sql_delete P rows = filter (\<lambda>r. \<not> P r) rows"

definition sql_count :: "('r \<Rightarrow> bool) \<Rightarrow> 'r list \<Rightarrow> nat" where
  "sql_count P rows = length (sql_where P rows)"

text \<open>A query by a key that is unique in the table: the first matching row, if any.\<close>

definition sql_one :: "('r \<Rightarrow> bool) \<Rightarrow> 'r list \<Rightarrow> 'r option" where
  "sql_one P rows = List.find P rows"

text \<open>The rowid SQLite gives a new row of an \<open>INTEGER PRIMARY KEY\<close> table: one past the largest.\<close>

definition next_rowid :: "('r \<Rightarrow> int) \<Rightarrow> 'r list \<Rightarrow> int" where
  "next_rowid key rows = foldr (\<lambda>r m. max (key r) m) rows 0 + 1"

lemma sql_update_keys [simp, table_simps]:
  "(\<And>r. P r \<Longrightarrow> key (f r) = key r) \<Longrightarrow> map key (sql_update P f rows) = map key rows"
  by (induction rows) (auto simp: sql_update_def)

lemma set_sql_update [table_simps]:
  "set (sql_update P f rows) = {r. \<exists>r' \<in> set rows. r = (if P r' then f r' else r')}"
  by (auto simp: sql_update_def)

lemma sql_update_mem: "r \<in> set rows \<Longrightarrow> (if P r then f r else r) \<in> set (sql_update P f rows)"
  by (auto simp: sql_update_def)

lemma sql_update_Nil [simp]: "sql_update P f [] = []"
  by (simp add: sql_update_def)

lemma sql_update_Cons [simp]:
  "sql_update P f (r # rs) = (if P r then f r else r) # sql_update P f rs"
  by (simp add: sql_update_def)

lemma bex_sql_update [table_simps]:
  "(\<exists>r \<in> set (sql_update P f rows). Q r) \<longleftrightarrow> (\<exists>r \<in> set rows. Q (if P r then f r else r))"
  by (induction rows) auto

lemma ball_sql_update [table_simps]:
  "(\<forall>r \<in> set (sql_update P f rows). Q r) \<longleftrightarrow> (\<forall>r \<in> set rows. Q (if P r then f r else r))"
  by (induction rows) auto

lemma set_sql_delete [simp, table_simps]: "set (sql_delete P rows) = {r \<in> set rows. \<not> P r}"
  by (simp add: sql_delete_def)

lemma set_sql_where [simp, table_simps]: "set (sql_where P rows) = {r \<in> set rows. P r}"
  by (simp add: sql_where_def)

lemma sql_one_Some: "sql_one P rows = Some r \<Longrightarrow> r \<in> set rows \<and> P r"
  by (auto simp: sql_one_def find_Some_iff)

lemma sql_one_None: "sql_one P rows = None \<longleftrightarrow> (\<forall>r \<in> set rows. \<not> P r)"
  by (auto simp: sql_one_def find_None_iff)

lemma sql_one_key:
  "distinct (map key rows) \<Longrightarrow> sql_one (\<lambda>r. key r = k) rows = Some r
     \<longleftrightarrow> r \<in> set rows \<and> key r = k"
  by (induction rows) (auto simp: sql_one_def)

lemma sql_one_Nil [simp]: "sql_one P [] = None"
  by (simp add: sql_one_def)

lemma sql_one_Cons [simp]: "sql_one P (r # rs) = (if P r then Some r else sql_one P rs)"
  by (simp add: sql_one_def)

lemma sql_one_update_key:
  assumes "\<And>r. P r \<Longrightarrow> key (f r) = key r"
  shows "sql_one (\<lambda>r. key r = k) (sql_update P f rows)
           = map_option (\<lambda>r. if P r then f r else r) (sql_one (\<lambda>r. key r = k) rows)"
  using assms by (induction rows) auto

lemma sql_one_append:
  "sql_one P (xs @ ys) = (case sql_one P xs of None \<Rightarrow> sql_one P ys | Some r \<Rightarrow> Some r)"
  by (induction xs) auto

lemma next_rowid_greater: "r \<in> set rows \<Longrightarrow> key r < next_rowid key rows"
  by (induction rows) (auto simp: next_rowid_def)

lemma next_rowid_pos: "0 < next_rowid key rows"
  by (induction rows) (auto simp: next_rowid_def)

lemma next_rowid_fresh: "next_rowid key rows \<notin> set (map key rows)"
  using next_rowid_greater [of _ rows key] by fastforce

section \<open>Sorting\<close>

text \<open>A row that sorts after every other keeps its place at the end.\<close>

lemma sort_key_append_max:
  assumes "\<forall>y \<in> set xs. f y \<le> f x"
  shows "sort_key f (xs @ [x]) = sort_key f xs @ [x]"
proof (rule properties_for_sort_key)
  show "mset (sort_key f xs @ [x]) = mset (xs @ [x])" by simp
  show "sorted (map f (sort_key f xs @ [x]))" using assms by (simp add: sorted_append)
  fix k assume "k \<in> set (sort_key f xs @ [x])"
  have "filter (\<lambda>y. f y = f k) (sort_key f xs @ [x]) = filter (\<lambda>y. f y = f k) (xs @ [x])"
    by (simp add: sort_key_stable)
  then show "filter (\<lambda>y. f k = f y) (sort_key f xs @ [x]) = filter (\<lambda>y. f k = f y) (xs @ [x])"
    by (simp add: eq_commute)
qed

section \<open>Decimal numbers\<close>

text \<open>Go's \<open>%d\<close>.\<close>

fun nat_digits :: "nat \<Rightarrow> string" where
  "nat_digits n = (if n < 10 then [char_of (48 + n)] else nat_digits (n div 10) @ [char_of (48 + n mod 10)])"

declare nat_digits.simps [simp del]

definition fmt_d :: "int \<Rightarrow> string" where
  "fmt_d i = (if i < 0 then CHR ''-'' # nat_digits (nat (- i)) else nat_digits (nat i))"

section \<open>Strings\<close>

text \<open>\<open>strings.TrimSpace\<close> and the NOCASE collation of SQLite, on ASCII text.\<close>

definition is_space :: "char \<Rightarrow> bool" where
  "is_space c \<longleftrightarrow> of_char c \<in> {9, 10, 11, 12, 13, 32 :: nat}"

definition trim_space :: "string \<Rightarrow> string" where
  "trim_space s = rev (dropWhile is_space (rev (dropWhile is_space s)))"

definition lower_char :: "char \<Rightarrow> char" where
  "lower_char c = (let n = of_char c :: nat in if 65 \<le> n \<and> n \<le> 90 then char_of (n + 32) else c)"

definition nocase :: "string \<Rightarrow> string" where
  "nocase s = map lower_char s"

section \<open>Errors as values\<close>

definition is_ok :: "'e + 'a \<Rightarrow> bool" where
  "is_ok r = (case r of Inl _ \<Rightarrow> False | Inr _ \<Rightarrow> True)"

lemma is_ok_simps [simp]: "is_ok (Inr x)" "\<not> is_ok (Inl e)"
  by (simp_all add: is_ok_def)

definition bind_result :: "'e + 'a \<Rightarrow> ('a \<Rightarrow> 'e + 'b) \<Rightarrow> 'e + 'b" where
  "bind_result r f = (case r of Inl e \<Rightarrow> Inl e | Inr x \<Rightarrow> f x)"

lemma bind_result_simps [simp]:
  "bind_result (Inl e) f = Inl e" "bind_result (Inr x) f = f x"
  by (simp_all add: bind_result_def)

lemma bind_result_Inr: "bind_result r f = Inr y \<longleftrightarrow> (\<exists>x. r = Inr x \<and> f x = Inr y)"
  by (cases r) auto

section \<open>Runs of a component\<close>

text \<open>
  A component is a step function on its state. An invariant that every step keeps (for the
  operations the environment is allowed to call, \<open>ok\<close>) holds after every run of such operations.
\<close>

locale invariant_machine =
  fixes step :: "'op \<Rightarrow> 's \<Rightarrow> 's"
    and ok :: "'op \<Rightarrow> bool"
    and inv :: "'s \<Rightarrow> bool"
  assumes step_inv: "ok a \<Longrightarrow> inv s \<Longrightarrow> inv (step a s)"
begin

lemma run_inv: "list_all ok ops \<Longrightarrow> inv s \<Longrightarrow> inv (fold step ops s)"
  by (induction ops arbitrary: s) (auto intro: step_inv)

lemma run_prefix_inv:
  assumes "list_all ok ops" and "inv s"
  shows "inv (fold step (take n ops) s)"
proof -
  have "list_all ok (take n ops)"
    using assms(1) by (auto simp: list_all_iff dest: in_set_takeD)
  then show ?thesis
    using assms(2) by (rule run_inv)
qed

end

end
