(* ===== verification/Store.thy ===== *)
theory Store
  imports Prelude
begin

text \<open>
  The panel's SQLite database: the tables and the columns the modelled code reads or writes
  (\<open>src/internal/panel/store/migrations/\<close>), the write transaction \<open>Store.Write\<close>
  (\<open>src/internal/panel/store/store.go\<close>) and the audit log \<open>audit.InTx\<close>
  (\<open>src/internal/panel/audit/audit.go\<close>).

  A table is a list of rows. A declared constraint that an insert or update can violate makes the
  statement return \<open>ErrConstraint\<close>; failures of the disk or the driver are not modelled. Times
  are unix seconds. A callback of \<open>Store.Write\<close> is a function from the database to an error or a
  result with the new database.
\<close>

section \<open>Rows\<close>

record node_row =
  n_id :: int
  n_name :: string
  n_status :: string
  n_adapter_kinds :: "string list"
  n_desired_revision :: int
  n_applied_revision :: int
  n_last_seen_at :: "int option"
  n_last_error :: "string option"
  n_default_outbound_tag :: string
  n_dns_config :: string
  n_usage_coefficient :: int

record service_row =
  sv_id :: int
  sv_node_id :: int
  sv_adapter_kind :: string
  sv_enabled :: bool
  sv_params :: string
  sv_usage_coefficient :: int

record subject_row =
  s_id :: int
  s_name :: string
  s_enabled :: bool
  s_expires_at :: "int option"
  s_expired_at :: "int option"
  s_created_at :: int
  s_note :: string
  s_frozen_at :: "int option"
  s_frozen_reason :: "string option"
  s_quota_bytes :: "int option"
  s_quota_used_bytes :: int
  s_quota_reset_at :: "int option"
  s_quota_period_start :: "int option"
  s_quota_period_seconds :: "int option"
  s_usage_coefficient :: int
  s_subscription_token :: string
  s_max_devices :: "int option"
  s_max_ips :: "int option"
  s_max_connections :: "int option"
  s_speed_limit_up_kbps :: "int option"
  s_speed_limit_down_kbps :: "int option"
  s_on_hold_seconds :: "int option"
  s_status_changed_at :: "int option"

record credential_row =
  cr_subject_id :: int
  cr_kind :: string
  cr_value_enc :: string
  cr_rotation :: int

record outbound_row =
  ob_id :: int
  ob_node_id :: int
  ob_tag :: string
  ob_kind :: string
  ob_params :: string
  ob_enabled :: bool
  ob_usage_coefficient :: int

record rule_row =
  rr_id :: int
  rr_node_id :: int
  rr_priority :: int
  rr_domains :: string
  rr_ip_cidrs :: string
  rr_geoip :: string
  rr_geosite :: string
  rr_ports :: string
  rr_inbound_tags :: string
  rr_subject_ids :: string
  rr_network :: string
  rr_outbound_tag :: string
  rr_balancer_tag :: string
  rr_enabled :: bool

record balancer_row =
  ba_id :: int
  ba_node_id :: int
  ba_tag :: string
  ba_selector :: string
  ba_strategy :: string
  ba_enabled :: bool

record revision_row =
  rev_node_id :: int
  rev_revision :: int
  rev_created_at :: int
  rev_actor_type :: string
  rev_actor_admin_id :: "int option"
  rev_actor_label :: string
  rev_reason :: string
  rev_doc_sha256 :: string

record apply_run_row =
  run_id :: int
  run_node_id :: int
  run_target_revision :: int
  run_started_at :: int
  run_finished_at :: "int option"
  run_outcome :: string

record apply_step_row =
  step_run_id :: int
  step_seq :: int
  step_kind :: string
  step_disruption :: string
  step_outcome :: string
  step_error :: string
  step_duration_ms :: int

record adapter_row =
  ad_node_id :: int
  ad_kind :: string
  ad_version :: string
  ad_capabilities :: "string list"
  ad_reported_at :: int
  ad_service_schema :: "string option"
  ad_hot_user_add :: bool
  ad_self_accounting :: bool
  ad_requires_pki :: bool
  ad_geo_updated_at :: "int option"
  ad_geo_geoip_sha256 :: "string option"
  ad_geo_geosite_sha256 :: "string option"
  ad_core_upgraded_at :: "int option"

text \<open>\<open>load1\<close> is a finite double, given by its mantissa and exponent.\<close>

record health_row =
  nh_node_id :: int
  nh_at :: int
  nh_load1 :: "int \<times> int"
  nh_mem_used :: int
  nh_uptime_s :: int
  nh_rtt_ms :: int
  nh_adapter_status :: "(string \<times> bool \<times> string) list"

record capability_row =
  nc_node_id :: int
  nc_protocol :: string
  nc_available :: bool
  nc_version :: "string option"
  nc_detected_at :: int
  nc_last_check_at :: int

record enroll_row =
  et_token_hash :: string
  et_node_id :: int
  et_expires_at :: int
  et_used_at :: "int option"
  et_created_at :: int

record delta_row =
  ud_id :: int
  ud_node_id :: int
  ud_subject_id :: int
  ud_service_id :: "int option"
  ud_outbound_id :: "int option"
  ud_sequence :: int
  ud_uplink :: int
  ud_downlink :: int
  ud_created_at :: int

text \<open>Hourly and daily rollups have the same columns; \<open>ru_start\<close> is the hour or the day.\<close>

record rollup_row =
  ru_subject_id :: int
  ru_node_id :: "int option"
  ru_service_id :: "int option"
  ru_outbound_id :: "int option"
  ru_start :: int
  ru_uplink :: int
  ru_downlink :: int

record reseller_row =
  rs_id :: int
  rs_admin_id :: int
  rs_display_name :: string
  rs_enabled :: bool
  rs_max_subjects :: "int option"
  rs_max_quota_bytes :: "int option"
  rs_credit_floor :: int
  rs_created_at :: int
  rs_updated_at :: int
  rs_usage_coefficient :: int

record ledger_row =
  lg_id :: int
  lg_reseller_id :: int
  lg_delta :: int
  lg_reason :: string
  lg_subject_id :: "int option"
  lg_actor_admin_id :: "int option"
  lg_note :: string
  lg_idempotency_key :: string
  lg_at :: int

record ownership_row =
  ow_subject_id :: int
  ow_reseller_id :: int
  ow_cost :: int
  ow_created_at :: int

record role_row =
  rl_id :: int
  rl_name :: string
  rl_permissions :: string

record admin_row =
  am_id :: int
  am_role_id :: int
  am_status :: string
  am_delete_cap_bytes :: "int option"

datatype jval = JInt int | JStr string | JNull | JBool bool

record audit_row =
  au_at :: int
  au_actor_type :: string
  au_actor_admin_id :: "int option"
  au_actor_label :: string
  au_request_id :: string
  au_action :: string
  au_target_type :: string
  au_target_id :: "int option"
  au_after :: "(string \<times> jval) list"
  au_result :: string

text \<open>
  \<open>t_delta_seq\<close> is the \<open>sqlite_sequence\<close> entry of the AUTOINCREMENT key of \<open>usage_deltas\<close>, the
  largest id ever given out; \<open>t_rollup_state\<close> is \<open>last_delta_id\<close> of the row named \<open>hourly\<close>.
\<close>

record panel_db =
  t_nodes :: "node_row list"
  t_services :: "service_row list"
  t_subjects :: "subject_row list"
  t_subject_services :: "(int \<times> int) list"
  t_subject_credentials :: "credential_row list"
  t_outbounds :: "outbound_row list"
  t_routing_rules :: "rule_row list"
  t_balancers :: "balancer_row list"
  t_node_revisions :: "revision_row list"
  t_node_apply_runs :: "apply_run_row list"
  t_node_apply_steps :: "apply_step_row list"
  t_adapter_registry :: "adapter_row list"
  t_node_health :: "health_row list"
  t_node_capabilities :: "capability_row list"
  t_enroll_tokens :: "enroll_row list"
  t_usage_deltas :: "delta_row list"
  t_delta_seq :: int
  t_rollups_hourly :: "rollup_row list"
  t_rollups_daily :: "rollup_row list"
  t_rollup_state :: "int option"
  t_resellers :: "reseller_row list"
  t_credit_ledger :: "ledger_row list"
  t_reseller_subjects :: "ownership_row list"
  t_admins :: "admin_row list"
  t_roles :: "role_row list"
  t_admin_scopes :: "(int \<times> string \<times> int) list"
  t_audit_log :: "audit_row list"

definition empty_db :: panel_db where
  "empty_db = \<lparr>t_nodes = [], t_services = [], t_subjects = [], t_subject_services = [],
     t_subject_credentials = [], t_outbounds = [], t_routing_rules = [], t_balancers = [],
     t_node_revisions = [], t_node_apply_runs = [], t_node_apply_steps = [],
     t_adapter_registry = [], t_node_health = [], t_node_capabilities = [],
     t_enroll_tokens = [], t_usage_deltas = [], t_delta_seq = 0, t_rollups_hourly = [],
     t_rollups_daily = [], t_rollup_state = None, t_resellers = [], t_credit_ledger = [],
     t_reseller_subjects = [], t_admins = [], t_roles = [], t_admin_scopes = [], t_audit_log = []\<rparr>"

section \<open>Errors\<close>

datatype panel_err =
    ErrNoRows string
  | ErrConstraint string
  | ErrNoUnsealer int nat
  | ErrUnseal string int
  | ErrDecode string int
  | ErrCanonicalize int
  | ErrTokenInvalid
  | ErrInvalid string
  | ErrNotFound
  | ErrNameTaken string
  | ErrUnknownKind string
  | ErrSeal string
  | ErrTokenNotFound
  | ErrInsufficientCredit int int int
  | ErrLimitExceeded int int
  | ErrDisabled
  | ErrHasCustomers int

section \<open>The write transaction\<close>

text \<open>Commit when the callback returns no error, roll back otherwise.\<close>

definition store_write :: "('d \<Rightarrow> panel_err + ('r \<times> 'd)) \<Rightarrow> 'd \<Rightarrow> (panel_err + 'r) \<times> 'd" where
  "store_write fn d = (case fn d of Inl e \<Rightarrow> (Inl e, d) | Inr (r, d') \<Rightarrow> (Inr r, d'))"

lemma store_write_rollback: "fst (store_write fn d) = Inl e \<Longrightarrow> snd (store_write fn d) = d"
  by (auto simp: store_write_def split: sum.splits)

lemma store_write_Inl: "store_write fn d = (Inl e, d') \<Longrightarrow> d' = d"
  by (auto simp: store_write_def split: sum.splits)

lemma store_write_commit:
  "store_write fn d = (Inr r, d') \<longleftrightarrow> fn d = Inr (r, d')"
  by (auto simp: store_write_def split: sum.splits)

lemma store_write_state:
  "snd (store_write fn d) = (case fn d of Inl e \<Rightarrow> d | Inr (r, d') \<Rightarrow> d')"
  by (auto simp: store_write_def split: sum.splits)

section \<open>The audit log\<close>

record actor =
  actor_Type :: string
  actor_AdminID :: "int option"
  actor_Label :: string

definition SystemActor :: "string \<Rightarrow> actor" where
  "SystemActor label = \<lparr>actor_Type = ''system'', actor_AdminID = None, actor_Label = label\<rparr>"

definition AdminActor :: "int \<Rightarrow> actor" where
  "AdminActor adminID = \<lparr>actor_Type = ''admin'', actor_AdminID = Some adminID, actor_Label = ''''\<rparr>"

definition actor_ok :: "actor \<Rightarrow> bool" where
  "actor_ok a \<longleftrightarrow> actor_Type a \<in> {''admin'', ''system'', ''ctl''}
     \<and> (actor_Type a = ''admin'' \<longrightarrow> actor_AdminID a \<noteq> None)"

text \<open>\<open>args\<close> fills in the default result; the table's two CHECK clauses guard the insert.\<close>

definition audit_result :: "string \<Rightarrow> string" where
  "audit_result res = (if res = '''' then ''ok'' else res)"

definition audit_check :: "actor \<Rightarrow> string \<Rightarrow> bool" where
  "audit_check a res \<longleftrightarrow> actor_ok a \<and> audit_result res \<in> {''ok'', ''denied'', ''failed''}"

definition mk_audit ::
  "int \<Rightarrow> string \<Rightarrow> actor \<Rightarrow> string \<Rightarrow> string \<Rightarrow> int option \<Rightarrow> (string \<times> jval) list \<Rightarrow> string \<Rightarrow> audit_row" where
  "mk_audit now requestID a action target_type target_id after_json res =
     \<lparr>au_at = now, au_actor_type = actor_Type a, au_actor_admin_id = actor_AdminID a,
      au_actor_label = actor_Label a, au_request_id = requestID, au_action = action,
      au_target_type = target_type, au_target_id = target_id, au_after = after_json,
      au_result = audit_result res\<rparr>"

definition audit_InTx ::
  "int \<Rightarrow> string \<Rightarrow> actor \<Rightarrow> string \<Rightarrow> string \<Rightarrow> int option \<Rightarrow> (string \<times> jval) list \<Rightarrow> string
     \<Rightarrow> panel_db \<Rightarrow> panel_err + panel_db" where
  "audit_InTx now requestID a action target_type target_id after_json res d =
     (if audit_check a res then
        Inr (d\<lparr>t_audit_log := t_audit_log d @ [mk_audit now requestID a action target_type target_id after_json res]\<rparr>)
      else Inl (ErrConstraint ''audit_log''))"

lemma audit_InTx_Inr:
  "audit_InTx now rid a act tt ti aft res d = Inr d' \<longleftrightarrow>
     audit_check a res \<and> d' = d\<lparr>t_audit_log := t_audit_log d @ [mk_audit now rid a act tt ti aft res]\<rparr>"
  by (auto simp: audit_InTx_def)

lemma audit_check_system [simp]:
  "audit_check (SystemActor l) ''ok''" "audit_check (SystemActor l) ''failed''"
  by (simp_all add: audit_check_def actor_ok_def SystemActor_def audit_result_def)

end
