(* ===== verification/Document.thy ===== *)
theory Document
  imports Store "HOL-Library.Product_Lexorder" "HOL-Library.List_Lexorder" "HOL-Library.Char_ord"
begin

text \<open>
  The desired-state document and its one builder: \<open>src/internal/panel/nodes/document.go\<close>,
  \<open>snapshot.go\<close>, \<open>egress.go\<close>, \<open>dns.go\<close> and \<open>outbound_params.go\<close>.

  What those files call but do not define is an argument: \<open>codec\<close> holds the canonical
  serialization with its digest (\<open>canonical.Hash\<close>, RFC 8785 over the jcs package and SHA-256),
  the JSON decoders of the matcher columns and the base64 decoder, and the unsealer is an optional
  function, \<open>None\<close> when the caller supplies none. Every theorem holds for all of them.
\<close>

section \<open>The document\<close>

record credential =
  Kind :: string
  Value :: string

record doc_subject =
  subj_ID :: int
  subj_Credentials :: "credential list"
  subj_MaxDevices :: "int option"
  subj_MaxIPs :: "int option"
  subj_MaxConnections :: "int option"
  subj_SpeedLimitUpKbps :: "int option"
  subj_SpeedLimitDownKbps :: "int option"

record service =
  svc_ID :: int
  svc_Kind :: string
  svc_Enabled :: bool
  svc_Params :: string

record outbound =
  out_ID :: int
  out_Tag :: string
  out_Kind :: string
  out_Params :: string

record routing_rule =
  rule_ID :: int
  rule_Priority :: int
  rule_Domains :: "string list"
  rule_IPCIDRs :: "string list"
  rule_GeoIP :: "string list"
  rule_GeoSite :: "string list"
  rule_Ports :: "string list"
  rule_Network :: string
  rule_InboundTags :: "string list"
  rule_SubjectIDs :: "int list"
  rule_OutboundTag :: string
  rule_BalancerTag :: string

record balancer =
  bal_ID :: int
  bal_Tag :: string
  bal_Selector :: "string list"
  bal_Strategy :: string

record routing =
  Rules :: "routing_rule list"
  DefaultOutboundTag :: string
  Balancers :: "balancer list"

record dns_server =
  dns_Address :: string
  dns_Domains :: "string list"
  dns_SkipFallback :: bool

record dns_config =
  dns_Servers :: "dns_server list"
  dns_Hosts :: "(string \<times> string list) list"
  dns_FakeDNS :: "(string \<times> int) list"
  dns_QueryStrategy :: string
  dns_DisableCache :: bool

record document =
  SchemaVersion :: int
  Revision :: int
  NodeID :: int
  Services :: "service list"
  Subjects :: "doc_subject list"
  Outbounds :: "outbound list"
  Routing :: "routing option"
  DNS :: "dns_config option"

record snapshot =
  snap_Revision :: int
  snap_Document :: document
  snap_Bytes :: string
  snap_SHA256 :: string

record codec =
  canonical_Hash :: "document \<Rightarrow> (string \<times> string) option"
  json_strings :: "string \<Rightarrow> string list option"
  json_ints :: "string \<Rightarrow> int list option"
  json_dns :: "string \<Rightarrow> dns_config option"
  base64_decode :: "string \<Rightarrow> string option"

type_synonym unsealer = "(string \<Rightarrow> string option) option"

text \<open>\<open>schemaVersionEnforcement\<close> to \<open>schemaVersionBalancer\<close>.\<close>

definition effectiveSchemaVersion :: "document \<Rightarrow> int" where
  "effectiveSchemaVersion doc =
     (if (case Routing doc of None \<Rightarrow> False | Some r \<Rightarrow> Balancers r \<noteq> []) then 5
      else if DNS doc \<noteq> None then 4
      else if Outbounds doc \<noteq> [] \<or> Routing doc \<noteq> None then 3
      else 2)"

section \<open>Builders\<close>

text \<open>A loop whose body may return an error from the function.\<close>

fun traverse :: "('a \<Rightarrow> 'e + 'b) \<Rightarrow> 'a list \<Rightarrow> 'e + 'b list" where
  "traverse f [] = Inr []"
| "traverse f (x # xs) =
     (case f x of Inl e \<Rightarrow> Inl e
      | Inr y \<Rightarrow> (case traverse f xs of Inl e \<Rightarrow> Inl e | Inr ys \<Rightarrow> Inr (y # ys)))"

definition get_node :: "panel_db \<Rightarrow> int \<Rightarrow> node_row option" where
  "get_node d nodeID = sql_one (\<lambda>n. n_id n = nodeID) (t_nodes d)"

definition sortServices :: "service list \<Rightarrow> service list" where
  "sortServices = sort_key svc_ID"

definition sortOutbounds :: "outbound list \<Rightarrow> outbound list" where
  "sortOutbounds = sort_key out_ID"

definition sortRoutingRules :: "routing_rule list \<Rightarrow> routing_rule list" where
  "sortRoutingRules = sort_key (\<lambda>r. (rule_Priority r, rule_ID r))"

definition sortBalancers :: "balancer list \<Rightarrow> balancer list" where
  "sortBalancers = sort_key bal_ID"

definition build_services :: "panel_db \<Rightarrow> int \<Rightarrow> service list" where
  "build_services d nodeID =
     sortServices (map (\<lambda>r. \<lparr>svc_ID = sv_id r, svc_Kind = sv_adapter_kind r,
                             svc_Enabled = sv_enabled r, svc_Params = sv_params r\<rparr>)
       (sort_key sv_id (sql_where (\<lambda>r. sv_node_id r = nodeID) (t_services d))))"

text \<open>The predicate of the subjects query, row by row.\<close>

definition entitled :: "panel_db \<Rightarrow> int \<Rightarrow> int \<Rightarrow> subject_row \<Rightarrow> bool" where
  "entitled d now nodeID s \<longleftrightarrow>
     (\<exists>ss \<in> set (t_subject_services d). fst ss = s_id s \<and>
        (\<exists>sv \<in> set (t_services d). sv_id sv = snd ss \<and> sv_node_id sv = nodeID))
     \<and> s_enabled s \<and> s_frozen_at s = None
     \<and> (case s_expires_at s of None \<Rightarrow> True | Some t \<Rightarrow> now < t)"

definition entitled_ids :: "panel_db \<Rightarrow> int \<Rightarrow> int \<Rightarrow> int list" where
  "entitled_ids d now nodeID =
     sort (remdups (map s_id (sql_where (entitled d now nodeID) (t_subjects d))))"

definition subjectCredentials ::
  "panel_db \<Rightarrow> (string \<Rightarrow> string option) \<Rightarrow> int \<Rightarrow> panel_err + credential list" where
  "subjectCredentials d open_sealed subjectID =
     traverse (\<lambda>r. case open_sealed (cr_value_enc r) of
                 None \<Rightarrow> Inl (ErrUnseal (cr_kind r) subjectID)
               | Some plain \<Rightarrow> Inr \<lparr>Kind = cr_kind r, Value = plain\<rparr>)
       (sort_key cr_kind (sql_where (\<lambda>r. cr_subject_id r = subjectID) (t_subject_credentials d)))"

definition build_subject ::
  "panel_db \<Rightarrow> (string \<Rightarrow> string option) \<Rightarrow> int \<Rightarrow> panel_err + doc_subject" where
  "build_subject d open_sealed sid =
     (case subjectCredentials d open_sealed sid of Inl e \<Rightarrow> Inl e
      | Inr creds \<Rightarrow>
          (case sql_one (\<lambda>s. s_id s = sid) (t_subjects d) of
             None \<Rightarrow> Inl (ErrNoRows ''subjects'')
           | Some s \<Rightarrow> Inr \<lparr>subj_ID = sid, subj_Credentials = creds,
                 subj_MaxDevices = s_max_devices s, subj_MaxIPs = s_max_ips s,
                 subj_MaxConnections = s_max_connections s,
                 subj_SpeedLimitUpKbps = s_speed_limit_up_kbps s,
                 subj_SpeedLimitDownKbps = s_speed_limit_down_kbps s\<rparr>))"

definition buildSubjects :: "panel_db \<Rightarrow> int \<Rightarrow> int \<Rightarrow> unsealer \<Rightarrow> panel_err + doc_subject list" where
  "buildSubjects d now nodeID u =
     (let ids = entitled_ids d now nodeID
      in if ids = [] then Inr []
         else (case u of None \<Rightarrow> Inl (ErrNoUnsealer nodeID (length ids))
               | Some open_sealed \<Rightarrow> traverse (build_subject d open_sealed) ids))"

text \<open>A leading brace means an unsealed row of before the rollout.\<close>

definition OpenOutboundParams :: "codec \<Rightarrow> (string \<Rightarrow> string option) \<Rightarrow> string \<Rightarrow> string option" where
  "OpenOutboundParams c open_sealed sealed =
     (if sealed \<noteq> [] \<and> hd sealed = CHR ''{'' then Some sealed
      else (case base64_decode c sealed of None \<Rightarrow> None | Some ct \<Rightarrow> open_sealed ct))"

definition buildOutbounds :: "codec \<Rightarrow> panel_db \<Rightarrow> int \<Rightarrow> unsealer \<Rightarrow> panel_err + outbound list" where
  "buildOutbounds c d nodeID u =
     traverse (\<lambda>r. case u of None \<Rightarrow> Inl (ErrNoUnsealer nodeID 0)
        | Some open_sealed \<Rightarrow>
            (case OpenOutboundParams c open_sealed (ob_params r) of
               None \<Rightarrow> Inl (ErrUnseal ''outbound'' (ob_id r))
             | Some p \<Rightarrow> Inr \<lparr>out_ID = ob_id r, out_Tag = ob_tag r, out_Kind = ob_kind r, out_Params = p\<rparr>))
       (sort_key ob_id (sql_where (\<lambda>r. ob_node_id r = nodeID \<and> ob_enabled r) (t_outbounds d)))"

definition decode_field :: "(string \<Rightarrow> 'a option) \<Rightarrow> string \<Rightarrow> string \<Rightarrow> int \<Rightarrow> panel_err + 'a" where
  "decode_field dec raw name rid = (case dec raw of None \<Rightarrow> Inl (ErrDecode name rid) | Some x \<Rightarrow> Inr x)"

definition build_rule :: "codec \<Rightarrow> rule_row \<Rightarrow> panel_err + routing_rule" where
  "build_rule c r =
     bind_result (decode_field (json_strings c) (rr_domains r) ''domains'' (rr_id r)) (\<lambda>domains.
     bind_result (decode_field (json_strings c) (rr_ip_cidrs r) ''ip_cidrs'' (rr_id r)) (\<lambda>cidrs.
     bind_result (decode_field (json_strings c) (rr_geoip r) ''geoip'' (rr_id r)) (\<lambda>geoip.
     bind_result (decode_field (json_strings c) (rr_geosite r) ''geosite'' (rr_id r)) (\<lambda>geosite.
     bind_result (decode_field (json_strings c) (rr_ports r) ''ports'' (rr_id r)) (\<lambda>ports.
     bind_result (decode_field (json_strings c) (rr_inbound_tags r) ''inbound_tags'' (rr_id r)) (\<lambda>tags.
     bind_result (decode_field (json_ints c) (rr_subject_ids r) ''subject_ids'' (rr_id r)) (\<lambda>sids.
       Inr \<lparr>rule_ID = rr_id r, rule_Priority = rr_priority r, rule_Domains = domains,
            rule_IPCIDRs = cidrs, rule_GeoIP = geoip, rule_GeoSite = geosite, rule_Ports = ports,
            rule_Network = rr_network r, rule_InboundTags = tags, rule_SubjectIDs = sids,
            rule_OutboundTag = rr_outbound_tag r, rule_BalancerTag = rr_balancer_tag r\<rparr>)))))))"

definition buildBalancers :: "codec \<Rightarrow> panel_db \<Rightarrow> int \<Rightarrow> panel_err + balancer list" where
  "buildBalancers c d nodeID =
     traverse (\<lambda>r. bind_result (decode_field (json_strings c) (ba_selector r) ''selector'' (ba_id r)) (\<lambda>sel.
         Inr \<lparr>bal_ID = ba_id r, bal_Tag = ba_tag r, bal_Selector = sel, bal_Strategy = ba_strategy r\<rparr>))
       (sort_key ba_id (sql_where (\<lambda>r. ba_node_id r = nodeID \<and> ba_enabled r) (t_balancers d)))"

definition buildRouting :: "codec \<Rightarrow> panel_db \<Rightarrow> int \<Rightarrow> panel_err + routing option" where
  "buildRouting c d nodeID =
     (case get_node d nodeID of None \<Rightarrow> Inl (ErrNoRows ''nodes'')
      | Some n \<Rightarrow>
          (case traverse (build_rule c)
                  (sort_key (\<lambda>r. (rr_priority r, rr_id r))
                    (sql_where (\<lambda>r. rr_node_id r = nodeID \<and> rr_enabled r) (t_routing_rules d))) of
             Inl e \<Rightarrow> Inl e
           | Inr rules \<Rightarrow>
               (case buildBalancers c d nodeID of Inl e \<Rightarrow> Inl e
                | Inr balancers \<Rightarrow>
                    Inr (if rules = [] \<and> n_default_outbound_tag n = '''' \<and> balancers = [] then None
                         else Some \<lparr>Rules = rules, DefaultOutboundTag = n_default_outbound_tag n,
                                    Balancers = balancers\<rparr>))))"

definition buildDNS :: "codec \<Rightarrow> panel_db \<Rightarrow> int \<Rightarrow> panel_err + dns_config option" where
  "buildDNS c d nodeID =
     (case get_node d nodeID of None \<Rightarrow> Inl (ErrNoRows ''nodes'')
      | Some n \<Rightarrow>
          (case json_dns c (n_dns_config n) of None \<Rightarrow> Inl (ErrDecode ''dns_config'' nodeID)
           | Some cfg \<Rightarrow>
               Inr (if dns_Servers cfg = [] \<and> dns_Hosts cfg = [] \<and> dns_FakeDNS cfg = []
                       \<and> dns_QueryStrategy cfg = '''' \<and> \<not> dns_DisableCache cfg
                    then None else Some cfg)))"

definition sort_routing :: "routing \<Rightarrow> routing" where
  "sort_routing r = r\<lparr>Rules := sortRoutingRules (Rules r), Balancers := sortBalancers (Balancers r)\<rparr>"

definition build_document :: "codec \<Rightarrow> unsealer \<Rightarrow> int \<Rightarrow> int \<Rightarrow> panel_db \<Rightarrow> panel_err + document" where
  "build_document c u now nodeID d =
     (case get_node d nodeID of None \<Rightarrow> Inl (ErrNoRows ''nodes'')
      | Some n \<Rightarrow>
          bind_result (buildSubjects d now nodeID u) (\<lambda>subjects.
          bind_result (buildOutbounds c d nodeID u) (\<lambda>outbounds.
          bind_result (buildRouting c d nodeID) (\<lambda>rt.
          bind_result (buildDNS c d nodeID) (\<lambda>dns.
            let doc = \<lparr>SchemaVersion = 0, Revision = n_desired_revision n, NodeID = nodeID,
                       Services = build_services d nodeID, Subjects = subjects,
                       Outbounds = sortOutbounds outbounds, Routing = map_option sort_routing rt,
                       DNS = dns\<rparr>
            in Inr (doc\<lparr>SchemaVersion := effectiveSchemaVersion doc\<rparr>))))))"

definition BuildDesiredSnapshot :: "codec \<Rightarrow> unsealer \<Rightarrow> int \<Rightarrow> int \<Rightarrow> panel_db \<Rightarrow> panel_err + snapshot" where
  "BuildDesiredSnapshot c u now nodeID d =
     bind_result (build_document c u now nodeID d) (\<lambda>doc.
       case canonical_Hash c doc of
         None \<Rightarrow> Inl (ErrCanonicalize nodeID)
       | Some (bytes, sha) \<Rightarrow>
           Inr \<lparr>snap_Revision = Revision doc, snap_Document = doc, snap_Bytes = bytes, snap_SHA256 = sha\<rparr>)"

section \<open>Lemmas\<close>

lemma traverse_Inr: "traverse f xs = Inr ys \<longleftrightarrow> list_all2 (\<lambda>x y. f x = Inr y) xs ys"
proof (induction xs arbitrary: ys)
  case (Cons x xs)
  then show ?case
    by (cases "f x"; cases "traverse f xs") (auto simp: list_all2_Cons1)
qed auto

lemma traverse_keys:
  assumes "traverse f xs = Inr ys" and "\<And>x y. f x = Inr y \<Longrightarrow> g y = h x"
  shows "map g ys = map h xs"
  using assms by (auto simp: traverse_Inr list_all2_conv_all_nth intro!: nth_equalityI)

lemma get_node_Some: "get_node d i = Some n \<Longrightarrow> n \<in> set (t_nodes d) \<and> n_id n = i"
  unfolding get_node_def by (rule sql_one_Some)

subsection \<open>Row order does not matter\<close>

text \<open>Primary keys and unique indexes of the tables the builder reads.\<close>

definition doc_keys :: "panel_db \<Rightarrow> bool" where
  "doc_keys d \<longleftrightarrow> distinct (map n_id (t_nodes d)) \<and> distinct (map sv_id (t_services d))
     \<and> distinct (map s_id (t_subjects d)) \<and> distinct (map ob_id (t_outbounds d))
     \<and> distinct (map rr_id (t_routing_rules d)) \<and> distinct (map ba_id (t_balancers d))
     \<and> distinct (map (\<lambda>r. (cr_subject_id r, cr_kind r)) (t_subject_credentials d))"

text \<open>Two databases with the same rows, in whatever order the query planner returns them.\<close>

definition same_rows :: "panel_db \<Rightarrow> panel_db \<Rightarrow> bool" where
  "same_rows d d' \<longleftrightarrow> mset (t_nodes d) = mset (t_nodes d') \<and> mset (t_services d) = mset (t_services d')
     \<and> mset (t_subjects d) = mset (t_subjects d') \<and> mset (t_subject_services d) = mset (t_subject_services d')
     \<and> mset (t_subject_credentials d) = mset (t_subject_credentials d')
     \<and> mset (t_outbounds d) = mset (t_outbounds d') \<and> mset (t_routing_rules d) = mset (t_routing_rules d')
     \<and> mset (t_balancers d) = mset (t_balancers d')"

lemma sort_key_where_perm:
  assumes "mset xs = mset ys" and "inj_on f {x \<in> set xs. P x}"
  shows "sort_key f (sql_where P xs) = sort_key f (sql_where P ys)"
proof -
  have "mset (sql_where P xs) = mset (sql_where P ys)"
    using assms(1) by (simp add: sql_where_def)
  then show ?thesis
    using assms(2) by (intro sort_key_inj_key_eq) (simp_all add: sql_where_def)
qed

lemma distinct_key_inj: "distinct (map f xs) \<Longrightarrow> inj_on f {x \<in> set xs. P x}"
  by (auto simp: distinct_map inj_on_def)

lemma sql_one_perm:
  assumes "mset xs = mset ys" and "distinct (map key xs)"
  shows "sql_one (\<lambda>r. key r = k) xs = sql_one (\<lambda>r. key r = k) ys"
proof -
  have "distinct (map key ys)"
    using assms by (metis mset_eq_imp_distinct_iff mset_map)
  moreover have "set xs = set ys" using assms(1) by (metis set_mset_mset)
  ultimately have "sql_one (\<lambda>r. key r = k) xs = Some r \<longleftrightarrow> sql_one (\<lambda>r. key r = k) ys = Some r" for r
    using assms(2) by (simp add: sql_one_key)
  then show ?thesis by (metis option.exhaust)
qed

lemma same_rows_sets:
  assumes "same_rows d d'"
  shows "set (t_subject_services d) = set (t_subject_services d')" "set (t_services d) = set (t_services d')"
    "set (t_subjects d) = set (t_subjects d')"
  using assms unfolding same_rows_def by (metis set_mset_mset)+

lemma entitled_perm: "same_rows d d' \<Longrightarrow> entitled d now nid = entitled d' now nid"
  by (rule ext) (simp add: entitled_def same_rows_sets)

lemma get_node_perm: "same_rows d d' \<Longrightarrow> doc_keys d \<Longrightarrow> get_node d nid = get_node d' nid"
  unfolding get_node_def by (rule sql_one_perm) (simp_all add: same_rows_def doc_keys_def)

lemma entitled_ids_perm:
  assumes "same_rows d d'" and "doc_keys d"
  shows "entitled_ids d now nid = entitled_ids d' now nid"
proof -
  have "mset (t_subjects d) = mset (t_subjects d')" using assms(1) by (simp add: same_rows_def)
  then have "set (map s_id (sql_where P (t_subjects d))) = set (map s_id (sql_where P (t_subjects d')))" for P
    by (metis mset_filter mset_map set_mset_mset sql_where_def)
  then show ?thesis
    unfolding entitled_ids_def entitled_perm [OF assms(1)]
    by (intro sorted_distinct_set_unique) (simp_all del: set_map add: set_map [symmetric])
qed

lemma build_services_perm: "same_rows d d' \<Longrightarrow> doc_keys d \<Longrightarrow> build_services d nid = build_services d' nid"
  unfolding build_services_def
  by (subst sort_key_where_perm [of "t_services d" "t_services d'"])
     (auto simp: same_rows_def doc_keys_def intro!: distinct_key_inj)

lemma credentials_perm:
  assumes "same_rows d d'" and "doc_keys d"
  shows "subjectCredentials d op sid = subjectCredentials d' op sid"
proof -
  have "inj_on cr_kind {r \<in> set (t_subject_credentials d). cr_subject_id r = sid}"
    using assms(2) by (auto simp: doc_keys_def distinct_map inj_on_def)
  then have "sort_key cr_kind (sql_where (\<lambda>r. cr_subject_id r = sid) (t_subject_credentials d))
      = sort_key cr_kind (sql_where (\<lambda>r. cr_subject_id r = sid) (t_subject_credentials d'))"
    using assms(1) by (intro sort_key_where_perm) (simp_all add: same_rows_def)
  then show ?thesis by (simp add: subjectCredentials_def)
qed

lemma build_subject_perm:
  "same_rows d d' \<Longrightarrow> doc_keys d \<Longrightarrow> build_subject d op = build_subject d' op"
  using sql_one_perm [of "t_subjects d" "t_subjects d'" s_id]
  by (auto simp: fun_eq_iff build_subject_def credentials_perm same_rows_def doc_keys_def
      split: sum.splits option.splits)

lemma buildSubjects_perm:
  assumes "same_rows d d'" and "doc_keys d"
  shows "buildSubjects d now nid u = buildSubjects d' now nid u"
  unfolding buildSubjects_def entitled_ids_perm [OF assms] build_subject_perm [OF assms] ..

lemma buildOutbounds_perm:
  "same_rows d d' \<Longrightarrow> doc_keys d \<Longrightarrow> buildOutbounds c d nid u = buildOutbounds c d' nid u"
  unfolding buildOutbounds_def
  by (subst sort_key_where_perm [of "t_outbounds d" "t_outbounds d'"])
     (auto simp: same_rows_def doc_keys_def intro!: distinct_key_inj)

lemma buildBalancers_perm:
  "same_rows d d' \<Longrightarrow> doc_keys d \<Longrightarrow> buildBalancers c d nid = buildBalancers c d' nid"
  unfolding buildBalancers_def
  by (subst sort_key_where_perm [of "t_balancers d" "t_balancers d'"])
     (auto simp: same_rows_def doc_keys_def intro!: distinct_key_inj)

lemma buildRouting_perm:
  assumes "same_rows d d'" and "doc_keys d"
  shows "buildRouting c d nid = buildRouting c d' nid"
proof -
  have "inj_on (\<lambda>r. (rr_priority r, rr_id r)) {r \<in> set (t_routing_rules d). rr_node_id r = nid \<and> rr_enabled r}"
    using assms(2) by (auto simp: doc_keys_def distinct_map inj_on_def)
  then have eq: "sort_key (\<lambda>r. (rr_priority r, rr_id r)) (sql_where (\<lambda>r. rr_node_id r = nid \<and> rr_enabled r) (t_routing_rules d))
     = sort_key (\<lambda>r. (rr_priority r, rr_id r)) (sql_where (\<lambda>r. rr_node_id r = nid \<and> rr_enabled r) (t_routing_rules d'))"
    using assms(1) by (intro sort_key_where_perm) (simp_all add: same_rows_def)
  show ?thesis
    unfolding buildRouting_def get_node_perm [OF assms] buildBalancers_perm [OF assms] eq ..
qed

lemma BuildDesiredSnapshot_perm:
  assumes "same_rows d d'" and "doc_keys d"
  shows "BuildDesiredSnapshot c u now nid d = BuildDesiredSnapshot c u now nid d'"
  unfolding BuildDesiredSnapshot_def build_document_def buildDNS_def get_node_perm [OF assms]
    buildSubjects_perm [OF assms] buildOutbounds_perm [OF assms] buildRouting_perm [OF assms]
    build_services_perm [OF assms] ..

subsection \<open>What the builder puts in\<close>

lemma map_sort_key: "map f (sort_key f xs) = sort (map f xs)"
  by (rule properties_for_sort [symmetric]) simp_all

lemma subjectCredentials_kinds:
  assumes "subjectCredentials d op sid = Inr creds"
  shows "map Kind creds = sort (map cr_kind (sql_where (\<lambda>r. cr_subject_id r = sid) (t_subject_credentials d)))"
proof -
  have "map Kind creds = map cr_kind (sort_key cr_kind (sql_where (\<lambda>r. cr_subject_id r = sid) (t_subject_credentials d)))"
    by (rule traverse_keys [OF assms [unfolded subjectCredentials_def]]) (auto split: option.splits)
  then show ?thesis
    by (simp add: map_sort_key)
qed

lemma buildSubjects_ids:
  assumes "buildSubjects d now nid u = Inr subs"
  shows "map subj_ID subs = entitled_ids d now nid"
proof (cases "entitled_ids d now nid = []")
  case False
  then obtain op where "traverse (build_subject d op) (entitled_ids d now nid) = Inr subs"
    using assms by (auto simp: buildSubjects_def Let_def split: option.splits)
  then have "map subj_ID subs = map (\<lambda>x. x) (entitled_ids d now nid)"
    by (rule traverse_keys) (auto simp: build_subject_def split: sum.splits option.splits)
  then show ?thesis by simp
qed (use assms in \<open>simp add: buildSubjects_def\<close>)

lemma effective_update [simp]: "effectiveSchemaVersion (doc\<lparr>SchemaVersion := v\<rparr>) = effectiveSchemaVersion doc"
  by (simp add: effectiveSchemaVersion_def)

lemma build_document_shape:
  assumes "build_document c u now nid d = Inr doc"
  obtains n subs doc0 where "get_node d nid = Some n" "buildSubjects d now nid u = Inr subs"
    "doc = doc0\<lparr>SchemaVersion := effectiveSchemaVersion doc0\<rparr>" "Subjects doc0 = subs"
    "Revision doc0 = n_desired_revision n" "NodeID doc0 = nid"
proof (cases "get_node d nid")
  case (Some n)
  define mk where "mk subs outs rt dns = \<lparr>SchemaVersion = 0, Revision = n_desired_revision n, NodeID = nid,
      Services = build_services d nid, Subjects = subs, Outbounds = sortOutbounds outs,
      Routing = map_option sort_routing rt, DNS = dns\<rparr>" for subs outs rt dns
  obtain subs outs rt dns where "buildSubjects d now nid u = Inr subs"
    and "doc = (mk subs outs rt dns)\<lparr>SchemaVersion := effectiveSchemaVersion (mk subs outs rt dns)\<rparr>"
    using assms Some unfolding build_document_def Let_def mk_def by (auto simp: bind_result_Inr)
  then show ?thesis
    using Some by (intro that [of n subs "mk subs outs rt dns"]) (simp_all add: mk_def)
qed (use assms in \<open>simp add: build_document_def\<close>)

lemma build_document_Inr:
  assumes "BuildDesiredSnapshot c u now nid d = Inr snap"
  obtains n subs where "get_node d nid = Some n" "buildSubjects d now nid u = Inr subs"
    "Subjects (snap_Document snap) = subs" "Revision (snap_Document snap) = n_desired_revision n"
    "NodeID (snap_Document snap) = nid" "snap_Revision snap = n_desired_revision n"
    "canonical_Hash c (snap_Document snap) = Some (snap_Bytes snap, snap_SHA256 snap)"
    "SchemaVersion (snap_Document snap) = effectiveSchemaVersion (snap_Document snap)"
proof -
  obtain doc where doc: "build_document c u now nid d = Inr doc" and
    snap: "snap_Document snap = doc" "snap_Revision snap = Revision doc"
      "canonical_Hash c doc = Some (snap_Bytes snap, snap_SHA256 snap)"
    using assms by (auto simp: BuildDesiredSnapshot_def bind_result_Inr split: option.splits)
  from doc obtain n subs doc0 where "get_node d nid = Some n" "buildSubjects d now nid u = Inr subs"
    "doc = doc0\<lparr>SchemaVersion := effectiveSchemaVersion doc0\<rparr>" "Subjects doc0 = subs"
    "Revision doc0 = n_desired_revision n" "NodeID doc0 = nid"
    by (rule build_document_shape)
  then show ?thesis using snap by (intro that [of n subs]) simp_all
qed

text \<open>a snapshot that is built at all lists exactly the subjects entitled to service on the node,
  once each and in increasing id order: enabled, not frozen, not expired and attached to one of the
  node's services; it is labelled with the node's desired revision and carries the canonical digest
  of exactly that document. A document that would silently drop a subject is never built.\<close>
theorem snapshot_subjects:
  assumes "BuildDesiredSnapshot c u now nid d = Inr snap"
  shows "(sid \<in> set (map subj_ID (Subjects (snap_Document snap))) \<longleftrightarrow>
            (\<exists>s \<in> set (t_subjects d). s_id s = sid \<and> s_enabled s \<and> s_frozen_at s = None
               \<and> (\<forall>t. s_expires_at s = Some t \<longrightarrow> now < t)
               \<and> (\<exists>sv \<in> set (t_services d). sv_node_id sv = nid \<and> (sid, sv_id sv) \<in> set (t_subject_services d))))
    \<and> sorted (map subj_ID (Subjects (snap_Document snap)))
    \<and> distinct (map subj_ID (Subjects (snap_Document snap)))
    \<and> (\<exists>n \<in> set (t_nodes d). n_id n = nid \<and> Revision (snap_Document snap) = n_desired_revision n
         \<and> snap_Revision snap = n_desired_revision n)
    \<and> canonical_Hash c (snap_Document snap) = Some (snap_Bytes snap, snap_SHA256 snap)"
proof -
  obtain n subs where *: "get_node d nid = Some n" "buildSubjects d now nid u = Inr subs"
    "Subjects (snap_Document snap) = subs" "Revision (snap_Document snap) = n_desired_revision n"
    "snap_Revision snap = n_desired_revision n"
    "canonical_Hash c (snap_Document snap) = Some (snap_Bytes snap, snap_SHA256 snap)"
    using assms by (rule build_document_Inr)
  have ids: "map subj_ID (Subjects (snap_Document snap)) = entitled_ids d now nid"
    using buildSubjects_ids [OF *(2)] *(3) by simp
  have "sid \<in> set (entitled_ids d now nid) \<longleftrightarrow>
      (\<exists>s \<in> set (t_subjects d). s_id s = sid \<and> s_enabled s \<and> s_frozen_at s = None
         \<and> (\<forall>t. s_expires_at s = Some t \<longrightarrow> now < t)
         \<and> (\<exists>sv \<in> set (t_services d). sv_node_id sv = nid \<and> (sid, sv_id sv) \<in> set (t_subject_services d)))"
    by (auto simp: entitled_ids_def entitled_def split: option.splits) force+
  moreover have "sorted (entitled_ids d now nid) \<and> distinct (entitled_ids d now nid)"
    by (simp add: entitled_ids_def)
  moreover have "\<exists>n \<in> set (t_nodes d). n_id n = nid \<and> Revision (snap_Document snap) = n_desired_revision n
      \<and> snap_Revision snap = n_desired_revision n"
    using get_node_Some [OF *(1)] *(4,5) by blast
  ultimately show ?thesis using ids *(6) by simp
qed

text \<open>the snapshot depends only on which rows the tables hold, not on the order the queries
  return them in: two databases with the same rows build the same document, bytes and digest, and
  fail with the same error.\<close>
theorem snapshot_deterministic:
  assumes "same_rows d d'" and "doc_keys d"
  shows "BuildDesiredSnapshot c u now nid d = BuildDesiredSnapshot c u now nid d'"
  using assms by (rule BuildDesiredSnapshot_perm)

text \<open>The lowest version that can express every feature the document uses.\<close>

definition describes :: "int \<Rightarrow> document \<Rightarrow> bool" where
  "describes v doc \<longleftrightarrow> 2 \<le> v \<and> (Outbounds doc \<noteq> [] \<or> Routing doc \<noteq> None \<longrightarrow> 3 \<le> v)
     \<and> (DNS doc \<noteq> None \<longrightarrow> 4 \<le> v) \<and> ((\<exists>r. Routing doc = Some r \<and> Balancers r \<noteq> []) \<longrightarrow> 5 \<le> v)"

text \<open>a built document declares the lowest schema version that describes everything in it.\<close>
theorem snapshot_schema_version:
  assumes "BuildDesiredSnapshot c u now nid d = Inr snap"
  shows "describes v (snap_Document snap) \<longleftrightarrow> SchemaVersion (snap_Document snap) \<le> v"
proof -
  have "SchemaVersion (snap_Document snap) = effectiveSchemaVersion (snap_Document snap)"
    using assms by (rule build_document_Inr)
  then show ?thesis
    by (auto simp: describes_def effectiveSchemaVersion_def split: option.splits)
qed

subsection \<open>A concrete panel\<close>

definition demo_codec :: codec where
  "demo_codec = \<lparr>canonical_Hash = (\<lambda>doc. let s = replicate (nat (Revision doc)) CHR ''r''
       @ concat (map svc_Params (Services doc)) @ replicate (length (Subjects doc)) CHR ''s'' in Some (s, s)),
     json_strings = (\<lambda>_. Some []), json_ints = (\<lambda>_. Some []),
     json_dns = (\<lambda>_. Some \<lparr>dns_Servers = [], dns_Hosts = [], dns_FakeDNS = [], dns_QueryStrategy = '''',
                          dns_DisableCache = False\<rparr>),
     base64_decode = Some\<rparr>"

definition demo_node :: node_row where
  "demo_node = \<lparr>n_id = 1, n_name = ''n1'', n_status = ''online'', n_adapter_kinds = [],
     n_desired_revision = 0, n_applied_revision = 0, n_last_seen_at = Some 10, n_last_error = None,
     n_default_outbound_tag = '''', n_dns_config = ''{}'', n_usage_coefficient = 10000\<rparr>"

definition demo_subject :: "int \<Rightarrow> subject_row" where
  "demo_subject i = \<lparr>s_id = i, s_name = ''u'', s_enabled = True, s_expires_at = None, s_expired_at = None,
     s_created_at = 0, s_note = '''', s_frozen_at = None, s_frozen_reason = None, s_quota_bytes = None,
     s_quota_used_bytes = 0,
     s_quota_reset_at = None, s_quota_period_start = None, s_quota_period_seconds = None,
     s_usage_coefficient = 10000, s_subscription_token = '''',
     s_max_devices = Some 2, s_max_ips = None, s_max_connections = None, s_speed_limit_up_kbps = None,
     s_speed_limit_down_kbps = None, s_on_hold_seconds = None, s_status_changed_at = None\<rparr>"

definition demo_service :: "int \<Rightarrow> service_row" where
  "demo_service i = \<lparr>sv_id = i, sv_node_id = 1, sv_adapter_kind = ''stub'', sv_enabled = True, sv_params = ''p'', sv_usage_coefficient = 10000\<rparr>"

definition demo_db :: panel_db where
  "demo_db = empty_db\<lparr>t_nodes := [demo_node], t_services := [demo_service 2, demo_service 1],
     t_subjects := [demo_subject 5, demo_subject 4, (demo_subject 6)\<lparr>s_frozen_at := Some 3\<rparr>],
     t_subject_services := [(5, 1), (4, 2), (6, 1), (5, 2)],
     t_subject_credentials := [\<lparr>cr_subject_id = 5, cr_kind = ''uuid'', cr_value_enc = ''x'', cr_rotation = 0\<rparr>]\<rparr>"

definition demo_snap :: snapshot where
  "demo_snap = (case BuildDesiredSnapshot demo_codec (Some Some) 100 1 demo_db of Inr s \<Rightarrow> s)"

lemma demo_snap_built: "BuildDesiredSnapshot demo_codec (Some Some) 100 1 demo_db = Inr demo_snap"
  by code_simp

theorem snapshot_subjects_witness:
  "sorted (map subj_ID (Subjects (snap_Document demo_snap)))
   \<and> map subj_ID (Subjects (snap_Document demo_snap)) = [4, 5]"
proof
  show "sorted (map subj_ID (Subjects (snap_Document demo_snap)))"
    using snapshot_subjects [OF demo_snap_built] by blast
  show "map subj_ID (Subjects (snap_Document demo_snap)) = [4, 5]" by code_simp
qed

definition demo_db' :: panel_db where
  "demo_db' = demo_db\<lparr>t_services := rev (t_services demo_db), t_subjects := rev (t_subjects demo_db),
     t_subject_services := rev (t_subject_services demo_db)\<rparr>"

theorem snapshot_deterministic_witness:
  "same_rows demo_db demo_db' \<and> doc_keys demo_db \<and> demo_db \<noteq> demo_db'
   \<and> BuildDesiredSnapshot demo_codec (Some Some) 100 1 demo_db = BuildDesiredSnapshot demo_codec (Some Some) 100 1 demo_db'"
proof -
  have same: "same_rows demo_db demo_db'" by (simp add: same_rows_def demo_db'_def)
  have keys: "doc_keys demo_db" by code_simp
  have "t_services demo_db \<noteq> t_services demo_db'" by code_simp
  then show ?thesis using same keys snapshot_deterministic [OF same keys] by auto
qed

theorem snapshot_schema_version_witness:
  "describes 2 (snap_Document demo_snap) \<longleftrightarrow> SchemaVersion (snap_Document demo_snap) \<le> 2"
  by (rule snapshot_schema_version [OF demo_snap_built])

end
