(* ===== verification/NodeStatus.thy ===== *)
theory NodeStatus
  imports Prelude
begin

text \<open>
  The node status state machine, \<open>src/internal/panel/nodes/state_machine.go\<close>. \<open>Status\<close> is a Go
  string type, so a status is a string here and invalid ones exist; the transition table and the
  table of reasons are transcribed entry by entry.
\<close>

abbreviation StatusPending :: string where "StatusPending \<equiv> ''pending''"
abbreviation StatusEnrolling :: string where "StatusEnrolling \<equiv> ''enrolling''"
abbreviation StatusOnline :: string where "StatusOnline \<equiv> ''online''"
abbreviation StatusDegraded :: string where "StatusDegraded \<equiv> ''degraded''"
abbreviation StatusOffline :: string where "StatusOffline \<equiv> ''offline''"
abbreviation StatusMaintenance :: string where "StatusMaintenance \<equiv> ''maintenance''"
abbreviation StatusError :: string where "StatusError \<equiv> ''error''"
abbreviation StatusDisabled :: string where "StatusDisabled \<equiv> ''disabled''"
abbreviation StatusIntegrity :: string where "StatusIntegrity \<equiv> ''integrity''"

definition AllStatuses :: "string list" where
  "AllStatuses = [StatusPending, StatusEnrolling, StatusOnline, StatusDegraded, StatusOffline,
     StatusMaintenance, StatusError, StatusDisabled, StatusIntegrity]"

definition IsValid :: "string \<Rightarrow> bool" where
  "IsValid s \<longleftrightarrow> s \<in> set AllStatuses"

datatype transition_err =
    InvalidSource string
  | InvalidTarget string
  | NoTransitions string
  | NotAllowed string string

definition validTransitions :: "(string \<times> string list) list" where
  "validTransitions = [
     (StatusPending, [StatusEnrolling, StatusDisabled]),
     (StatusEnrolling, [StatusOnline, StatusError, StatusDisabled]),
     (StatusOnline, [StatusDegraded, StatusOffline, StatusMaintenance, StatusError, StatusDisabled,
        StatusIntegrity]),
     (StatusDegraded, [StatusOnline, StatusOffline, StatusMaintenance, StatusError, StatusDisabled]),
     (StatusOffline, [StatusOnline, StatusDegraded, StatusMaintenance, StatusDisabled]),
     (StatusMaintenance, [StatusOnline, StatusDegraded, StatusOffline, StatusDisabled]),
     (StatusError, [StatusOnline, StatusDegraded, StatusOffline, StatusMaintenance, StatusDisabled]),
     (StatusDisabled, [StatusOnline, StatusDegraded, StatusOffline, StatusMaintenance]),
     (StatusIntegrity, [StatusOnline, StatusDegraded, StatusOffline, StatusMaintenance, StatusDisabled])]"

definition ValidateTransition :: "string \<Rightarrow> string \<Rightarrow> transition_err option" where
  "ValidateTransition from_st to_st =
     (if \<not> IsValid from_st then Some (InvalidSource from_st)
      else if \<not> IsValid to_st then Some (InvalidTarget to_st)
      else if from_st = to_st then None
      else
        (case go_get validTransitions from_st of
           None \<Rightarrow> Some (NoTransitions from_st)
         | Some allowedTargets \<Rightarrow>
             if to_st \<in> set allowedTargets then None else Some (NotAllowed from_st to_st)))"

definition CanTransitionTo :: "string \<Rightarrow> string \<Rightarrow> bool" where
  "CanTransitionTo s target \<longleftrightarrow> ValidateTransition s target = None"

definition reasons :: "(string \<times> string) list" where
  "reasons = [
    (''pending->enrolling'', ''enrollment process started''),
    (''pending->disabled'', ''node disabled before enrollment''),
    (''enrolling->online'', ''enrollment successful, node online''),
    (''enrolling->error'', ''enrollment failed''),
    (''enrolling->disabled'', ''node disabled during enrollment''),
    (''online->degraded'', ''health degradation detected''),
    (''online->offline'', ''lost connectivity''),
    (''online->maintenance'', ''entered maintenance mode''),
    (''online->error'', ''critical error occurred''),
    (''online->disabled'', ''node disabled by admin''),
    (''online->integrity'', ''configuration drift detected''),
    (''degraded->online'', ''health recovered''),
    (''degraded->offline'', ''connectivity lost''),
    (''degraded->maintenance'', ''entered maintenance mode''),
    (''degraded->error'', ''condition worsened to error''),
    (''degraded->disabled'', ''node disabled by admin''),
    (''offline->online'', ''reconnected, fully operational''),
    (''offline->degraded'', ''reconnected with issues''),
    (''offline->maintenance'', ''entered maintenance mode while offline''),
    (''offline->disabled'', ''node disabled while offline''),
    (''maintenance->online'', ''exited maintenance, fully operational''),
    (''maintenance->degraded'', ''exited maintenance with issues''),
    (''maintenance->offline'', ''went offline during maintenance''),
    (''maintenance->disabled'', ''node disabled from maintenance''),
    (''error->online'', ''error resolved, fully operational''),
    (''error->degraded'', ''partially recovered from error''),
    (''error->offline'', ''lost connectivity after error''),
    (''error->maintenance'', ''entered maintenance to resolve error''),
    (''error->disabled'', ''node disabled due to error''),
    (''disabled->online'', ''re-enabled, fully operational''),
    (''disabled->degraded'', ''re-enabled with issues''),
    (''disabled->offline'', ''re-enabled but offline''),
    (''disabled->maintenance'', ''re-enabled into maintenance mode''),
    (''integrity->online'', ''configuration synchronized''),
    (''integrity->degraded'', ''synchronized with issues''),
    (''integrity->offline'', ''lost connectivity during sync''),
    (''integrity->maintenance'', ''entered maintenance for manual sync''),
    (''integrity->disabled'', ''node disabled due to drift'')]"

definition TransitionReason :: "string \<Rightarrow> string \<Rightarrow> string" where
  "TransitionReason from_st to_st =
     (if from_st = to_st then ''state unchanged''
      else (case go_get reasons (from_st @ ''->'' @ to_st) of
              Some reason \<Rightarrow> reason
            | None \<Rightarrow> ''transition from '' @ from_st @ '' to '' @ to_st))"

section \<open>The two tables agree\<close>

lemma tables_agree:
  "list_all (\<lambda>f. list_all (\<lambda>t. f = t \<or>
     ((ValidateTransition f t = None) = (go_get reasons (f @ ''->'' @ t) \<noteq> None))) AllStatuses) AllStatuses"
  by code_simp

lemma no_return_table:
  "list_all (\<lambda>f. list_all (\<lambda>t. ValidateTransition f t = None \<longrightarrow> f \<noteq> StatusPending \<longrightarrow> t \<noteq> StatusPending) AllStatuses) AllStatuses"
  "list_all (\<lambda>f. list_all (\<lambda>t. ValidateTransition f t = None \<longrightarrow> f \<notin> {StatusPending, StatusEnrolling} \<longrightarrow>
     t \<notin> {StatusPending, StatusEnrolling}) AllStatuses) AllStatuses"
  by (code_simp, code_simp)

lemma ValidateTransition_valid: "ValidateTransition f t = None \<Longrightarrow> IsValid f \<and> IsValid t"
  by (auto simp: ValidateTransition_def split: if_splits)

text \<open>the transition table and the table of reasons are the same relation: between two different
  valid statuses, a transition is allowed exactly when it has a reason of its own, and a status that
  is not one of the nine is refused as source and as target.\<close>
theorem transition_table_complete:
  "(ValidateTransition f t = None \<longleftrightarrow>
      IsValid f \<and> IsValid t \<and> (f = t \<or> go_get reasons (f @ ''->'' @ t) \<noteq> None))
   \<and> (\<not> IsValid f \<longrightarrow> ValidateTransition f t = Some (InvalidSource f))"
proof (cases "IsValid f \<and> IsValid t")
  case True
  then have "f = t \<or> ((ValidateTransition f t = None) = (go_get reasons (f @ ''->'' @ t) \<noteq> None))"
    using tables_agree by (auto simp: list_all_iff IsValid_def)
  moreover have "f = t \<Longrightarrow> ValidateTransition f t = None"
    using True by (simp add: ValidateTransition_def)
  ultimately show ?thesis using True by (cases "f = t") simp_all
next
  case False
  then have "ValidateTransition f t \<noteq> None" using ValidateTransition_valid by blast
  moreover have "\<not> IsValid f \<longrightarrow> ValidateTransition f t = Some (InvalidSource f)"
    by (simp add: ValidateTransition_def)
  ultimately show ?thesis using False by argo
qed

theorem transition_table_complete_witness:
  "\<not> IsValid ''gone'' \<and> ValidateTransition ''gone'' ''online'' = Some (InvalidSource ''gone'')
   \<and> ValidateTransition ''offline'' ''online'' = None"
  using transition_table_complete [of "''gone''" "''online''"] transition_table_complete [of "''offline''" "''online''"]
  by code_simp

text \<open>The statuses a node passes through when every change is validated.\<close>

inductive transitions :: "string \<Rightarrow> string \<Rightarrow> bool" where
  stay: "IsValid s \<Longrightarrow> transitions s s"
| go: "transitions s t \<Longrightarrow> CanTransitionTo t u \<Longrightarrow> transitions s u"

inductive_cases transitions_elim: "transitions s t"

lemma transitions_no_return:
  assumes "transitions s t"
  shows "(s \<noteq> StatusPending \<longrightarrow> t \<noteq> StatusPending)
    \<and> (s \<notin> {StatusPending, StatusEnrolling} \<longrightarrow> t \<notin> {StatusPending, StatusEnrolling})"
  using assms
proof (induction rule: transitions.induct)
  case (go s t u)
  then have v: "ValidateTransition t u = None" by (simp add: CanTransitionTo_def)
  then have "t \<in> set AllStatuses" "u \<in> set AllStatuses"
    using ValidateTransition_valid by (auto simp: IsValid_def)
  then have "t \<noteq> StatusPending \<longrightarrow> u \<noteq> StatusPending"
    and "t \<notin> {StatusPending, StatusEnrolling} \<longrightarrow> u \<notin> {StatusPending, StatusEnrolling}"
    using no_return_table v by (simp_all add: list_all_iff)
  then show ?case using go.IH by blast
qed simp

text \<open>a node whose every status change is validated and that has left enrollment never becomes
  pending or enrolling again.\<close>
theorem enrolled_never_returns:
  assumes "transitions s t" and "s \<noteq> StatusPending" and "s \<noteq> StatusEnrolling"
  shows "t \<noteq> StatusPending \<and> t \<noteq> StatusEnrolling"
  using transitions_no_return [OF assms(1)] assms(2,3) by simp

theorem enrolled_never_returns_witness:
  "transitions StatusOnline StatusDisabled \<and> StatusDisabled \<noteq> StatusPending"
proof -
  have "transitions StatusOnline StatusDisabled"
  proof (rule transitions.go)
    show "transitions StatusOnline StatusOnline" by (rule transitions.stay) code_simp
    show "CanTransitionTo StatusOnline StatusDisabled" by code_simp
  qed
  then show ?thesis using enrolled_never_returns [of StatusOnline StatusDisabled] by simp
qed

end
