(* ===== verification/Convergence.thy ===== *)
theory Convergence
  imports Document NodeStatus
begin

text \<open>
  Revisions and convergence on the panel: \<open>CommitNodeChange\<close>
  (\<open>src/internal/panel/nodes/commit.go\<close>), the apply reports, hellos and heartbeats of
  \<open>convergence.go\<close>, the offline sweeper \<open>sweeper.go\<close>, the adapter registry \<open>registry.go\<close>, the
  node capabilities \<open>capabilities.go\<close> and the enrollment tokens \<open>enroll.go\<close>.

  Each function is one \<open>Store.Write\<close> transaction, or a sequence of them where the code makes
  several. \<open>time.Now\<close> and \<open>nowUnix\<close> are the argument \<open>now\<close>. \<open>nodes\<close> carries
  \<open>CHECK (applied_revision <= desired_revision)\<close>, \<open>node_revisions\<close> a primary key and the trigger that
  a new revision is one past the largest; an insert or update that violates one fails the
  transaction.
\<close>

section \<open>Commit\<close>

record commit_result =
  Changed :: bool
  cr_Revision :: int
  cr_SHA256 :: string

definition node_check :: "node_row \<Rightarrow> bool" where
  "node_check n \<longleftrightarrow> n_applied_revision n \<le> n_desired_revision n"

text \<open>\<open>UPDATE nodes SET ... WHERE id = ?\<close> under the table's CHECK.\<close>

definition update_node :: "int \<Rightarrow> (node_row \<Rightarrow> node_row) \<Rightarrow> panel_db \<Rightarrow> panel_err + panel_db" where
  "update_node nodeID f d =
     (if \<exists>n \<in> set (t_nodes d). n_id n = nodeID \<and> \<not> node_check (f n) then Inl (ErrConstraint ''nodes'')
      else Inr (d\<lparr>t_nodes := sql_update (\<lambda>n. n_id n = nodeID) f (t_nodes d)\<rparr>))"

definition node_revs :: "panel_db \<Rightarrow> int \<Rightarrow> revision_row list" where
  "node_revs d nodeID = sql_where (\<lambda>r. rev_node_id r = nodeID) (t_node_revisions d)"

definition max_revision :: "panel_db \<Rightarrow> int \<Rightarrow> int" where
  "max_revision d nodeID = foldr (\<lambda>r m. max (rev_revision r) m) (node_revs d nodeID) 0"

text \<open>\<open>ORDER BY revision DESC LIMIT 1\<close>; no row scans as the empty string.\<close>

definition latest_sha :: "panel_db \<Rightarrow> int \<Rightarrow> string" where
  "latest_sha d nodeID =
     (case sql_one (\<lambda>r. rev_revision r = max_revision d nodeID) (node_revs d nodeID) of
        None \<Rightarrow> '''' | Some r \<Rightarrow> rev_doc_sha256 r)"

text \<open>\<open>CHECK (revision > 0)\<close>, the actor CHECKs, the primary key and the monotonicity trigger.\<close>

definition insert_revision :: "revision_row \<Rightarrow> panel_db \<Rightarrow> panel_err + panel_db" where
  "insert_revision r d =
     (if rev_revision r > 0 \<and> rev_revision r = max_revision d (rev_node_id r) + 1
         \<and> rev_actor_type r \<in> {''admin'', ''system'', ''ctl''}
         \<and> (rev_actor_type r = ''admin'' \<longrightarrow> rev_actor_admin_id r \<noteq> None)
         \<and> (\<exists>n \<in> set (t_nodes d). n_id n = rev_node_id r)
      then Inr (d\<lparr>t_node_revisions := t_node_revisions d @ [r]\<rparr>)
      else Inl (ErrConstraint ''node_revisions''))"

definition commit_tx ::
  "codec \<Rightarrow> unsealer \<Rightarrow> int \<Rightarrow> int \<Rightarrow> actor \<Rightarrow> string \<Rightarrow> string \<Rightarrow> (panel_db \<Rightarrow> panel_err + panel_db)
     \<Rightarrow> panel_db \<Rightarrow> panel_err + (commit_result \<times> panel_db)" where
  "commit_tx c u now nodeID a requestID reason mutate d =
     bind_result (mutate d) (\<lambda>d1.
     bind_result (BuildDesiredSnapshot c u now nodeID d1) (\<lambda>snap.
       if latest_sha d1 nodeID = snap_SHA256 snap then
         Inr (\<lparr>Changed = False, cr_Revision = snap_Revision snap, cr_SHA256 = snap_SHA256 snap\<rparr>, d1)
       else
         (let nxt = snap_Revision snap + 1 in
          bind_result (update_node nodeID (\<lambda>n. n\<lparr>n_desired_revision := nxt\<rparr>) d1) (\<lambda>d2.
          bind_result (BuildDesiredSnapshot c u now nodeID d2) (\<lambda>final.
          bind_result (insert_revision
              \<lparr>rev_node_id = nodeID, rev_revision = nxt, rev_created_at = now,
               rev_actor_type = actor_Type a, rev_actor_admin_id = actor_AdminID a,
               rev_actor_label = actor_Label a, rev_reason = reason,
               rev_doc_sha256 = snap_SHA256 final\<rparr> d2) (\<lambda>d3.
          bind_result (audit_InTx now requestID a ''node.revision'' ''node'' (Some nodeID)
              [(''revision'', JInt nxt), (''sha256'', JStr (snap_SHA256 final)), (''reason'', JStr reason)]
              ''ok'' d3) (\<lambda>d4.
            Inr (\<lparr>Changed = True, cr_Revision = nxt, cr_SHA256 = snap_SHA256 final\<rparr>, d4))))))))"

definition CommitNodeChange ::
  "codec \<Rightarrow> unsealer \<Rightarrow> int \<Rightarrow> int \<Rightarrow> actor \<Rightarrow> string \<Rightarrow> string \<Rightarrow> (panel_db \<Rightarrow> panel_err + panel_db)
     \<Rightarrow> panel_db \<Rightarrow> (panel_err + commit_result) \<times> panel_db" where
  "CommitNodeChange c u now nodeID a requestID reason mutate d =
     store_write (commit_tx c u now nodeID a requestID reason mutate) d"

section \<open>Apply reports\<close>

record step_outcome =
  st_Seq :: int
  st_Kind :: string
  st_Disruption :: string
  st_OK :: bool
  st_Err :: string
  st_DurationMS :: int

record apply_run_input =
  in_NodeID :: int
  in_TargetRevision :: int
  in_Converged :: bool
  in_Deferred :: bool
  in_Err :: string
  in_DocSHA256 :: string
  in_Steps :: "step_outcome list"
  in_Now :: int

record run_result =
  out_Status :: string
  out_AppliedRevision :: int
  out_Integrity :: bool

definition expected_sha :: "panel_db \<Rightarrow> apply_run_input \<Rightarrow> string option" where
  "expected_sha d i = map_option rev_doc_sha256
     (sql_one (\<lambda>r. rev_node_id r = in_NodeID i \<and> rev_revision r = in_TargetRevision i) (t_node_revisions d))"

definition unissued :: "panel_db \<Rightarrow> apply_run_input \<Rightarrow> bool" where
  "unissued d i \<longleftrightarrow> in_Converged i \<and> in_TargetRevision i > 0 \<and> expected_sha d i = None"

definition sha_mismatch :: "panel_db \<Rightarrow> apply_run_input \<Rightarrow> bool" where
  "sha_mismatch d i \<longleftrightarrow> in_Converged i \<and>
     (case expected_sha d i of None \<Rightarrow> False | Some e \<Rightarrow> in_DocSHA256 i \<noteq> e)"

definition integrity_fault :: "panel_db \<Rightarrow> apply_run_input \<Rightarrow> bool" where
  "integrity_fault d i \<longleftrightarrow> unissued d i \<or> sha_mismatch d i"

text \<open>The switch: run outcome, node status, whether \<open>applied_revision\<close> advances.\<close>

definition decide :: "panel_db \<Rightarrow> apply_run_input \<Rightarrow> string \<times> string \<times> bool" where
  "decide d i =
     (if integrity_fault d i then (''integrity'', ''integrity'', False)
      else if in_Deferred i then (''deferred'', ''online'', False)
      else if in_Converged i then (''converged'', ''online'', True)
      else if in_Err i \<noteq> '''' then (''failed'', ''degraded'', False)
      else (''partial'', ''degraded'', False))"

definition insert_run :: "apply_run_input \<Rightarrow> string \<Rightarrow> panel_db \<Rightarrow> panel_err + (int \<times> panel_db)" where
  "insert_run i outcome d =
     (if \<exists>n \<in> set (t_nodes d). n_id n = in_NodeID i then
        (let rid = next_rowid run_id (t_node_apply_runs d)
         in Inr (rid, d\<lparr>t_node_apply_runs := t_node_apply_runs d @
              [\<lparr>run_id = rid, run_node_id = in_NodeID i, run_target_revision = in_TargetRevision i,
                run_started_at = in_Now i, run_finished_at = Some (in_Now i), run_outcome = outcome\<rparr>]\<rparr>))
      else Inl (ErrConstraint ''node_apply_runs''))"

definition step_disruption_of :: "string \<Rightarrow> string" where
  "step_disruption_of s = (if s \<in> {''none'', ''reload'', ''restart''} then s else ''unknown'')"

definition step_row :: "int \<Rightarrow> step_outcome \<Rightarrow> apply_step_row" where
  "step_row rid st = \<lparr>step_run_id = rid, step_seq = st_Seq st, step_kind = st_Kind st,
     step_disruption = step_disruption_of (st_Disruption st),
     step_outcome = (if st_OK st then ''ok'' else ''failed''), step_error = st_Err st,
     step_duration_ms = st_DurationMS st\<rparr>"

definition insert_step :: "int \<Rightarrow> step_outcome \<Rightarrow> panel_db \<Rightarrow> panel_err + panel_db" where
  "insert_step rid st d =
     (if \<exists>r \<in> set (t_node_apply_steps d). step_run_id r = rid \<and> step_seq r = st_Seq st
      then Inl (ErrConstraint ''node_apply_steps'')
      else Inr (d\<lparr>t_node_apply_steps := t_node_apply_steps d @ [step_row rid st]\<rparr>))"

fun insert_steps :: "int \<Rightarrow> step_outcome list \<Rightarrow> panel_db \<Rightarrow> panel_err + panel_db" where
  "insert_steps rid [] d = Inr d"
| "insert_steps rid (st # sts) d = bind_result (insert_step rid st d) (insert_steps rid sts)"

text \<open>The audit record of an integrity fault; \<open>d\<close> is the database the report was judged against.\<close>

definition audit_fault :: "panel_db \<Rightarrow> apply_run_input \<Rightarrow> panel_db \<Rightarrow> panel_err + panel_db" where
  "audit_fault d i d3 =
          (if integrity_fault d i then
             audit_InTx (in_Now i) '''' (SystemActor ''reconciler'') ''node.integrity_fault'' ''node''
               (Some (in_NodeID i))
               [(''reason'', JStr (if unissued d i then ''unissued_revision'' else ''hash_mismatch'')),
                (''revision'', JInt (in_TargetRevision i)),
                (''expected'', JStr (case expected_sha d i of None \<Rightarrow> '''' | Some e \<Rightarrow> e)),
                (''reported'', JStr (in_DocSHA256 i))] ''failed'' d3
           else Inr d3)"

definition apply_run_tx :: "apply_run_input \<Rightarrow> panel_db \<Rightarrow> panel_err + (run_result \<times> panel_db)" where
  "apply_run_tx i d =
     (case decide d i of (outcome, status, advance) \<Rightarrow>
        bind_result (insert_run i outcome d) (\<lambda>(rid, d1).
        bind_result (insert_steps rid (in_Steps i) d1) (\<lambda>d2.
        bind_result
          (if advance then
             update_node (in_NodeID i) (\<lambda>n. n\<lparr>n_applied_revision := in_TargetRevision i, n_status := status,
                                              n_last_error := Some ''''\<rparr>) d2
           else
             update_node (in_NodeID i) (\<lambda>n. n\<lparr>n_status := status, n_last_error := Some (in_Err i)\<rparr>) d2)
          (\<lambda>d3.
        bind_result (audit_fault d i d3) (\<lambda>d4.
          case get_node d4 (in_NodeID i) of
            None \<Rightarrow> Inl (ErrNoRows ''nodes'')
          | Some n \<Rightarrow> Inr (\<lparr>out_Status = status, out_AppliedRevision = n_applied_revision n,
                            out_Integrity = integrity_fault d i\<rparr>, d4))))))"

definition RecordApplyRun :: "apply_run_input \<Rightarrow> panel_db \<Rightarrow> (panel_err + run_result) \<times> panel_db" where
  "RecordApplyRun i d = store_write (apply_run_tx i) d"

section \<open>The adapter registry\<close>

record adapter_info =
  ai_Kind :: string
  ai_Version :: string
  ai_Capabilities :: "string list"
  ai_ServiceSchema :: string
  ai_HotUserAdd :: bool
  ai_SelfAccounting :: bool
  ai_RequiresPKI :: bool

text \<open>An empty schema is a NULL parameter, and COALESCE keeps what the row has.\<close>

definition UpsertAdapter :: "int \<Rightarrow> adapter_info \<Rightarrow> int \<Rightarrow> panel_db \<Rightarrow> (panel_err + unit) \<times> panel_db" where
  "UpsertAdapter nodeID info now d = store_write (\<lambda>d.
     let schema = (if ai_ServiceSchema info \<noteq> '''' then Some (ai_ServiceSchema info) else None);
         key = (\<lambda>r. ad_node_id r = nodeID \<and> ad_kind r = ai_Kind info)
     in if \<not> (\<exists>n \<in> set (t_nodes d). n_id n = nodeID) then Inl (ErrConstraint ''adapter_registry'')
        else if \<exists>r \<in> set (t_adapter_registry d). key r then
          Inr ((), d\<lparr>t_adapter_registry := sql_update key (\<lambda>r. r\<lparr>ad_version := ai_Version info,
             ad_capabilities := ai_Capabilities info, ad_reported_at := now,
             ad_service_schema := (case schema of None \<Rightarrow> ad_service_schema r | Some s \<Rightarrow> Some s),
             ad_hot_user_add := ai_HotUserAdd info, ad_self_accounting := ai_SelfAccounting info,
             ad_requires_pki := ai_RequiresPKI info\<rparr>) (t_adapter_registry d)\<rparr>)
        else
          Inr ((), d\<lparr>t_adapter_registry := t_adapter_registry d @
            [\<lparr>ad_node_id = nodeID, ad_kind = ai_Kind info, ad_version = ai_Version info,
              ad_capabilities = ai_Capabilities info, ad_reported_at = now, ad_service_schema = schema,
              ad_hot_user_add = ai_HotUserAdd info, ad_self_accounting = ai_SelfAccounting info,
              ad_requires_pki = ai_RequiresPKI info, ad_geo_updated_at = None,
              ad_geo_geoip_sha256 = None, ad_geo_geosite_sha256 = None, ad_core_upgraded_at = None\<rparr>]\<rparr>)) d"

definition ListAdapters :: "int \<Rightarrow> panel_db \<Rightarrow> adapter_row list" where
  "ListAdapters nodeID d =
     sort_key ad_kind (sql_where (\<lambda>r. ad_node_id r = nodeID) (t_adapter_registry d))"

definition RecordGeoUpdate ::
  "int \<Rightarrow> string \<Rightarrow> string \<Rightarrow> string \<Rightarrow> int \<Rightarrow> panel_db \<Rightarrow> bool \<times> panel_db" where
  "RecordGeoUpdate nodeID kind geoip geosite ts d =
     (let key = (\<lambda>r. ad_node_id r = nodeID \<and> ad_kind r = kind)
      in (sql_count key (t_adapter_registry d) > 0,
          d\<lparr>t_adapter_registry := sql_update key (\<lambda>r. r\<lparr>ad_geo_updated_at := Some ts,
             ad_geo_geoip_sha256 := Some geoip, ad_geo_geosite_sha256 := Some geosite\<rparr>) (t_adapter_registry d)\<rparr>))"

definition RecordCoreUpgrade :: "int \<Rightarrow> string \<Rightarrow> string \<Rightarrow> int \<Rightarrow> panel_db \<Rightarrow> bool \<times> panel_db" where
  "RecordCoreUpgrade nodeID kind installedVersion ts d =
     (let key = (\<lambda>r. ad_node_id r = nodeID \<and> ad_kind r = kind)
      in (sql_count key (t_adapter_registry d) > 0,
          d\<lparr>t_adapter_registry := sql_update key
             (\<lambda>r. r\<lparr>ad_core_upgraded_at := Some ts, ad_version := installedVersion\<rparr>) (t_adapter_registry d)\<rparr>))"

section \<open>Hello and heartbeat\<close>

fun upsert_adapters :: "int \<Rightarrow> adapter_info list \<Rightarrow> int \<Rightarrow> panel_db \<Rightarrow> (panel_err + unit) \<times> panel_db" where
  "upsert_adapters nodeID [] now d = (Inr (), d)"
| "upsert_adapters nodeID (a # as) now d =
     (case UpsertAdapter nodeID a now d of
        (Inl e, d') \<Rightarrow> (Inl e, d')
      | (Inr _, d') \<Rightarrow> upsert_adapters nodeID as now d')"

definition hello_status :: "string \<Rightarrow> string" where
  "hello_status s = (if s \<in> {''pending'', ''enrolling'', ''offline''} then ''online'' else s)"

text \<open>One transaction for the node row, then one per adapter; the first failing one ends the call.\<close>

definition RecordHello :: "int \<Rightarrow> adapter_info list \<Rightarrow> int \<Rightarrow> panel_db \<Rightarrow> (panel_err + unit) \<times> panel_db" where
  "RecordHello nodeID adapters now d =
     (case store_write (\<lambda>d. bind_result (update_node nodeID
             (\<lambda>n. n\<lparr>n_adapter_kinds := map ai_Kind adapters, n_last_seen_at := Some now,
                    n_status := hello_status (n_status n)\<rparr>) d) (\<lambda>d'. Inr ((), d'))) d of
        (Inl e, d') \<Rightarrow> (Inl e, d')
      | (Inr _, d') \<Rightarrow> upsert_adapters nodeID adapters now d')"

record health_sample =
  hs_Load1 :: "int \<times> int"
  hs_MemUsed :: nat
  hs_UptimeS :: nat
  hs_RTTMs :: int
  hs_Adapters :: "(string \<times> bool \<times> string) list"

text \<open>Go's conversion of a \<open>uint64\<close> to \<open>int64\<close>: the same 64 bits read as a signed number.\<close>

definition int64_of_uint64 :: "nat \<Rightarrow> int" where
  "int64_of_uint64 x = (let y = int x mod 2 ^ 64 in if y < 2 ^ 63 then y else y - 2 ^ 64)"

definition RecordHeartbeat :: "int \<Rightarrow> health_sample \<Rightarrow> int \<Rightarrow> panel_db \<Rightarrow> (panel_err + unit) \<times> panel_db" where
  "RecordHeartbeat nodeID h now d = store_write (\<lambda>d.
     if \<not> (\<exists>n \<in> set (t_nodes d). n_id n = nodeID) then Inl (ErrConstraint ''node_health'')
     else
       (let d1 = d\<lparr>t_node_health :=
              sql_delete (\<lambda>r. nh_node_id r = nodeID \<and> nh_at r = now) (t_node_health d) @
              [\<lparr>nh_node_id = nodeID, nh_at = now, nh_load1 = hs_Load1 h,
                nh_mem_used = int64_of_uint64 (hs_MemUsed h), nh_uptime_s = int64_of_uint64 (hs_UptimeS h),
                nh_rtt_ms = hs_RTTMs h, nh_adapter_status = hs_Adapters h\<rparr>]\<rparr>
        in bind_result (update_node nodeID (\<lambda>n. n\<lparr>n_last_seen_at := Some now,
                n_status := (if n_status n = ''offline'' then ''online'' else n_status n)\<rparr>) d1)
             (\<lambda>d2. Inr ((), d2)))) d"

section \<open>The offline sweeper\<close>

definition OfflineAfter :: int where "OfflineAfter = 90"

definition sweep_threshold :: "int \<Rightarrow> int" where
  "sweep_threshold after = (if after \<le> 0 then OfflineAfter else after)"

definition stale :: "int \<Rightarrow> node_row \<Rightarrow> bool" where
  "stale cutoff n \<longleftrightarrow> n_status n \<in> {''online'', ''degraded''}
     \<and> (case n_last_seen_at n of None \<Rightarrow> True | Some t \<Rightarrow> t < cutoff)"

definition staleNodeIDs :: "int \<Rightarrow> panel_db \<Rightarrow> int list" where
  "staleNodeIDs cutoff d = map n_id (sql_where (stale cutoff) (t_nodes d))"

fun mark_offline :: "int \<Rightarrow> int list \<Rightarrow> panel_db \<Rightarrow> panel_err + (nat \<times> panel_db)" where
  "mark_offline now [] d = Inr (0, d)"
| "mark_offline now (nid # nids) d =
     bind_result (update_node nid (\<lambda>n. n\<lparr>n_status := ''offline''\<rparr>) d) (\<lambda>d1.
     bind_result (audit_InTx now '''' (SystemActor ''sweeper'') ''node.offline'' ''node'' (Some nid)
        [(''reason'', JStr ''no heartbeat within 3 intervals'')] ''ok'' d1) (\<lambda>d2.
     bind_result (mark_offline now nids d2) (\<lambda>(k, d3). Inr (Suc k, d3))))"

definition Sweep :: "int \<Rightarrow> int \<Rightarrow> panel_db \<Rightarrow> (panel_err + nat) \<times> panel_db" where
  "Sweep after now d =
     (let cutoff = now - sweep_threshold after
      in store_write (\<lambda>d. mark_offline now (staleNodeIDs cutoff d) d) d)"

section \<open>Capabilities\<close>

record node_capability =
  cap_NodeID :: int
  cap_Protocol :: string
  cap_Available :: bool
  cap_Version :: "string option"
  cap_DetectedAt :: int
  cap_LastCheckAt :: int

definition RecordCapability :: "node_capability \<Rightarrow> panel_db \<Rightarrow> (panel_err + unit) \<times> panel_db" where
  "RecordCapability cap d = store_write (\<lambda>d.
     let key = (\<lambda>r. nc_node_id r = cap_NodeID cap \<and> nc_protocol r = cap_Protocol cap)
     in if \<not> (\<exists>n \<in> set (t_nodes d). n_id n = cap_NodeID cap) then Inl (ErrConstraint ''node_capabilities'')
        else if \<exists>r \<in> set (t_node_capabilities d). key r then
          Inr ((), d\<lparr>t_node_capabilities := sql_update key (\<lambda>r. r\<lparr>nc_available := cap_Available cap,
             nc_version := cap_Version cap, nc_last_check_at := cap_LastCheckAt cap\<rparr>) (t_node_capabilities d)\<rparr>)
        else Inr ((), d\<lparr>t_node_capabilities := t_node_capabilities d @
             [\<lparr>nc_node_id = cap_NodeID cap, nc_protocol = cap_Protocol cap, nc_available = cap_Available cap,
               nc_version = cap_Version cap, nc_detected_at = cap_DetectedAt cap,
               nc_last_check_at = cap_LastCheckAt cap\<rparr>]\<rparr>)) d"

definition GetNodeCapabilities :: "int \<Rightarrow> panel_db \<Rightarrow> node_capability list" where
  "GetNodeCapabilities nodeID d =
     map (\<lambda>r. \<lparr>cap_NodeID = nc_node_id r, cap_Protocol = nc_protocol r, cap_Available = nc_available r,
               cap_Version = nc_version r, cap_DetectedAt = nc_detected_at r, cap_LastCheckAt = nc_last_check_at r\<rparr>)
       (sort_key nc_protocol (sql_where (\<lambda>r. nc_node_id r = nodeID) (t_node_capabilities d)))"

definition GetAvailableProtocols :: "int \<Rightarrow> panel_db \<Rightarrow> string list" where
  "GetAvailableProtocols nodeID d =
     map nc_protocol (sort_key nc_protocol
       (sql_where (\<lambda>r. nc_node_id r = nodeID \<and> nc_available r) (t_node_capabilities d)))"

section \<open>Enrollment tokens\<close>

text \<open>
  The random token is an argument, and \<open>sha\<close> is \<open>sha256.Sum256\<close>. The TTL is thirty minutes.
\<close>

definition EnrollTokenTTL :: int where "EnrollTokenTTL = 1800"

definition IssueEnrollToken ::
  "(string \<Rightarrow> string) \<Rightarrow> string \<Rightarrow> int \<Rightarrow> actor \<Rightarrow> string \<Rightarrow> int \<Rightarrow> panel_db \<Rightarrow> (panel_err + string) \<times> panel_db" where
  "IssueEnrollToken sha token nodeID a requestID now d = store_write (\<lambda>d.
     if (\<exists>r \<in> set (t_enroll_tokens d). et_token_hash r = sha token)
        \<or> \<not> (\<exists>n \<in> set (t_nodes d). n_id n = nodeID) then Inl (ErrConstraint ''enroll_tokens'')
     else
       bind_result (audit_InTx now requestID a ''node.enroll_token'' ''node'' (Some nodeID)
           [(''expires_at'', JInt (now + EnrollTokenTTL))] ''ok''
           (d\<lparr>t_enroll_tokens := t_enroll_tokens d @
              [\<lparr>et_token_hash = sha token, et_node_id = nodeID, et_expires_at = now + EnrollTokenTTL,
                et_used_at = None, et_created_at = now\<rparr>]\<rparr>))
         (\<lambda>d'. Inr (token, d'))) d"

definition redeemable :: "string \<Rightarrow> int \<Rightarrow> enroll_row \<Rightarrow> bool" where
  "redeemable h now r \<longleftrightarrow> et_token_hash r = h \<and> et_used_at r = None \<and> now < et_expires_at r"

definition RedeemEnrollToken ::
  "(string \<Rightarrow> string) \<Rightarrow> string \<Rightarrow> int \<Rightarrow> panel_db \<Rightarrow> (panel_err + int) \<times> panel_db" where
  "RedeemEnrollToken sha token now d =
     (if token = '''' then (Inl ErrTokenInvalid, d)
      else store_write (\<lambda>d.
        if sql_count (redeemable (sha token) now) (t_enroll_tokens d) = 0 then Inl ErrTokenInvalid
        else
          (let d1 = d\<lparr>t_enroll_tokens := sql_update (redeemable (sha token) now)
                        (\<lambda>r. r\<lparr>et_used_at := Some now\<rparr>) (t_enroll_tokens d)\<rparr>
           in case sql_one (\<lambda>r. et_token_hash r = sha token) (t_enroll_tokens d1) of
                None \<Rightarrow> Inl (ErrNoRows ''enroll_tokens'')
              | Some r \<Rightarrow> Inr (et_node_id r, d1))) d)"

section \<open>Lemmas\<close>

subsection \<open>Frames\<close>

lemma Build_frame:
  assumes "t_nodes d' = t_nodes d" "t_services d' = t_services d" "t_subjects d' = t_subjects d"
    "t_subject_services d' = t_subject_services d" "t_subject_credentials d' = t_subject_credentials d"
    "t_outbounds d' = t_outbounds d" "t_routing_rules d' = t_routing_rules d" "t_balancers d' = t_balancers d"
  shows "BuildDesiredSnapshot c u now nid d' = BuildDesiredSnapshot c u now nid d"
  unfolding BuildDesiredSnapshot_def build_document_def buildDNS_def buildRouting_def buildBalancers_def
    buildOutbounds_def buildSubjects_def entitled_ids_def entitled_def [abs_def] build_subject_def [abs_def]
    subjectCredentials_def build_services_def get_node_def assms ..

lemma Build_frames [simp]:
  "BuildDesiredSnapshot c u now nid (d\<lparr>t_audit_log := x\<rparr>) = BuildDesiredSnapshot c u now nid d"
  "BuildDesiredSnapshot c u now nid (d\<lparr>t_node_revisions := y\<rparr>) = BuildDesiredSnapshot c u now nid d"
  by (rule Build_frame; simp)+

lemma node_revs_frames [simp]:
  "node_revs (d\<lparr>t_audit_log := x\<rparr>) nid = node_revs d nid"
  "node_revs (d\<lparr>t_nodes := y\<rparr>) nid = node_revs d nid"
  by (simp_all add: node_revs_def)

lemma node_revs_append [simp]:
  "node_revs (d\<lparr>t_node_revisions := t_node_revisions d @ [r]\<rparr>) nid
     = node_revs d nid @ (if rev_node_id r = nid then [r] else [])"
  by (simp add: node_revs_def sql_where_def)

lemma foldr_max: "foldr (\<lambda>r m. max (f r) m) xs (0::int) = Max (insert 0 (f ` set xs))"
proof (induction xs)
  case (Cons a xs)
  have "insert 0 (f ` set (a # xs)) = insert (f a) (insert 0 (f ` set xs))" by auto
  then show ?case using Cons by (simp del: insert_iff)
qed simp

subsection \<open>The revision invariant\<close>

text \<open>
  A node at desired revision \<open>k\<close> has the rows \<open>1\<close> to \<open>k\<close>, each once, and has not applied more
  than it desires.
\<close>

definition revs_of :: "panel_db \<Rightarrow> int \<Rightarrow> int list" where
  "revs_of d nid = map rev_revision (node_revs d nid)"

definition rev_inv :: "panel_db \<Rightarrow> bool" where
  "rev_inv d \<longleftrightarrow> distinct (map n_id (t_nodes d)) \<and>
     (\<forall>n \<in> set (t_nodes d). 0 \<le> n_desired_revision n \<and> n_applied_revision n \<le> n_desired_revision n
        \<and> distinct (revs_of d (n_id n)) \<and> set (revs_of d (n_id n)) = {1 .. n_desired_revision n})"

lemma rev_invD:
  assumes "rev_inv d" and "get_node d nid = Some n"
  shows "n_id n = nid" "n \<in> set (t_nodes d)" "0 \<le> n_desired_revision n"
    "n_applied_revision n \<le> n_desired_revision n" "distinct (revs_of d nid)"
    "set (revs_of d nid) = {1 .. n_desired_revision n}"
  using assms get_node_Some [OF assms(2)] by (auto simp: rev_inv_def)

lemma max_revision_eq:
  assumes "rev_inv d" and "get_node d nid = Some n"
  shows "max_revision d nid = n_desired_revision n"
proof -
  have "max_revision d nid = Max (insert 0 (set (revs_of d nid)))"
    by (simp add: max_revision_def foldr_max revs_of_def)
  also have "\<dots> = n_desired_revision n"
    unfolding rev_invD(6) [OF assms] using rev_invD(3) [OF assms] by (intro Max_eqI) auto
  finally show ?thesis .
qed

lemma latest_sha_append:
  assumes "\<forall>x \<in> set (revs_of d (rev_node_id r)). x < rev_revision r" and "0 < rev_revision r"
  shows "latest_sha (d\<lparr>t_node_revisions := t_node_revisions d @ [r]\<rparr>) (rev_node_id r) = rev_doc_sha256 r"
proof -
  let ?d = "d\<lparr>t_node_revisions := t_node_revisions d @ [r]\<rparr>" and ?n = "rev_node_id r"
  have "max_revision ?d ?n = rev_revision r"
    unfolding max_revision_def foldr_max
    by (rule Max_eqI) (use assms in \<open>auto simp: revs_of_def intro: order_less_imp_le\<close>)
  moreover have "sql_one (\<lambda>x. rev_revision x = rev_revision r) (node_revs d ?n) = None"
    using assms by (auto simp: sql_one_None revs_of_def)
  ultimately show ?thesis by (simp add: latest_sha_def sql_one_append)
qed

lemma latest_sha_frame [simp]:
  "latest_sha (d\<lparr>t_audit_log := x\<rparr>) nid = latest_sha d nid"
  by (simp add: latest_sha_def max_revision_def)

text \<open>What the commit asks of the callback: keep off the revision rows and counters.\<close>

definition rev_view :: "panel_db \<Rightarrow> (int \<times> int \<times> int) list \<times> revision_row list" where
  "rev_view d = (map (\<lambda>n. (n_id n, n_desired_revision n, n_applied_revision n)) (t_nodes d), t_node_revisions d)"

definition respects_revisions :: "(panel_db \<Rightarrow> panel_err + panel_db) \<Rightarrow> bool" where
  "respects_revisions mutate \<longleftrightarrow> (\<forall>d d'. mutate d = Inr d' \<longrightarrow> rev_view d' = rev_view d)"

lemma rev_view_ids: "rev_view d' = rev_view d \<Longrightarrow> map n_id (t_nodes d') = map n_id (t_nodes d)"
  unfolding rev_view_def by (drule arg_cong [where f = "\<lambda>x. map fst (fst x)"]) (simp add: comp_def)

lemma rev_view_revs: "rev_view d' = rev_view d \<Longrightarrow> node_revs d' nid = node_revs d nid \<and> revs_of d' nid = revs_of d nid"
  by (simp add: rev_view_def node_revs_def revs_of_def)

lemma rev_view_nodes:
  assumes "rev_view d' = rev_view d" and "n' \<in> set (t_nodes d')"
  obtains n where "n \<in> set (t_nodes d)" "n_id n = n_id n'"
    "n_desired_revision n = n_desired_revision n'" "n_applied_revision n = n_applied_revision n'"
proof -
  let ?t = "\<lambda>n. (n_id n, n_desired_revision n, n_applied_revision n)"
  have "map ?t (t_nodes d') = map ?t (t_nodes d)" using assms(1) by (simp add: rev_view_def)
  moreover have "?t n' \<in> set (map ?t (t_nodes d'))" using assms(2) by simp
  ultimately have "?t n' \<in> set (map ?t (t_nodes d))" by simp
  then show thesis using that by auto
qed

lemma rev_inv_view:
  assumes "rev_view d' = rev_view d" and "rev_inv d"
  shows "rev_inv d'"
  unfolding rev_inv_def
proof (intro conjI ballI)
  show "distinct (map n_id (t_nodes d'))"
    using assms(2) rev_view_ids [OF assms(1)] by (simp add: rev_inv_def)
  fix n' assume "n' \<in> set (t_nodes d')"
  then obtain n where n: "n \<in> set (t_nodes d)" "n_id n = n_id n'"
    "n_desired_revision n = n_desired_revision n'" "n_applied_revision n = n_applied_revision n'"
    using assms(1) by (metis rev_view_nodes)
  then show "0 \<le> n_desired_revision n'" "n_applied_revision n' \<le> n_desired_revision n'"
    "distinct (revs_of d' (n_id n'))" "set (revs_of d' (n_id n')) = {1 .. n_desired_revision n'}"
    using assms(2) rev_view_revs [OF assms(1), of "n_id n'"] unfolding rev_inv_def by metis+
qed

lemma get_node_view:
  assumes "rev_view d' = rev_view d" and "rev_inv d" and "get_node d nid = Some n" and "get_node d' nid = Some n'"
  shows "n_desired_revision n' = n_desired_revision n \<and> n_applied_revision n' = n_applied_revision n"
proof -
  obtain m where m: "m \<in> set (t_nodes d)" "n_id m = n_id n'"
    "n_desired_revision m = n_desired_revision n'" "n_applied_revision m = n_applied_revision n'"
    using assms(1) get_node_Some [OF assms(4)] by (metis rev_view_nodes)
  then have "m = n"
    using assms(2) get_node_Some [OF assms(3)] get_node_Some [OF assms(4)]
    by (auto simp: rev_inv_def distinct_map inj_on_def)
  then show ?thesis using m by simp
qed

lemma update_node_Inr:
  "update_node nid f d = Inr d' \<longleftrightarrow>
     (\<forall>n \<in> set (t_nodes d). n_id n = nid \<longrightarrow> node_check (f n))
     \<and> d' = d\<lparr>t_nodes := sql_update (\<lambda>n. n_id n = nid) f (t_nodes d)\<rparr>"
  by (auto simp: update_node_def)

lemma get_node_update:
  "(\<And>n. n_id (f n) = n_id n) \<Longrightarrow>
     get_node (d\<lparr>t_nodes := sql_update (\<lambda>n. n_id n = nid) f (t_nodes d)\<rparr>) k
       = map_option (\<lambda>n. if n_id n = nid then f n else n) (get_node d k)"
  unfolding get_node_def by (simp add: sql_one_update_key)

subsection \<open>The commit\<close>

lemma Build_revision:
  assumes "BuildDesiredSnapshot c u now nid d = Inr snap"
  obtains n where "get_node d nid = Some n" "snap_Revision snap = n_desired_revision n"
    "Revision (snap_Document snap) = n_desired_revision n"
  using assms by (rule build_document_Inr)

text \<open>The state after the three writes of a changing commit.\<close>

definition committed :: "panel_db \<Rightarrow> int \<Rightarrow> int \<Rightarrow> revision_row \<Rightarrow> audit_row \<Rightarrow> panel_db" where
  "committed d nid nxt r au =
     d\<lparr>t_nodes := sql_update (\<lambda>n. n_id n = nid) (\<lambda>n. n\<lparr>n_desired_revision := nxt\<rparr>) (t_nodes d),
       t_node_revisions := t_node_revisions d @ [r], t_audit_log := t_audit_log d @ [au]\<rparr>"

lemma insert_revision_Inr:
  "insert_revision r d = Inr d' \<Longrightarrow> d' = d\<lparr>t_node_revisions := t_node_revisions d @ [r]\<rparr>"
  unfolding insert_revision_def by (simp split: if_split_asm)

lemma commit_tx_cases:
  assumes "commit_tx c u now nid a rid reason mutate d = Inr (r, d')"
  obtains d1 snap where "mutate d = Inr d1" "BuildDesiredSnapshot c u now nid d1 = Inr snap"
    "latest_sha d1 nid = snap_SHA256 snap" "d' = d1"
    "r = \<lparr>Changed = False, cr_Revision = snap_Revision snap, cr_SHA256 = snap_SHA256 snap\<rparr>"
  | d1 snap final row au where "mutate d = Inr d1" "BuildDesiredSnapshot c u now nid d1 = Inr snap"
    "latest_sha d1 nid \<noteq> snap_SHA256 snap"
    "BuildDesiredSnapshot c u now nid
       (d1\<lparr>t_nodes := sql_update (\<lambda>n. n_id n = nid) (\<lambda>n. n\<lparr>n_desired_revision := snap_Revision snap + 1\<rparr>) (t_nodes d1)\<rparr>)
       = Inr final"
    "rev_node_id row = nid" "rev_revision row = snap_Revision snap + 1" "rev_doc_sha256 row = snap_SHA256 final"
    "d' = committed d1 nid (snap_Revision snap + 1) row au"
    "r = \<lparr>Changed = True, cr_Revision = snap_Revision snap + 1, cr_SHA256 = snap_SHA256 final\<rparr>"
    "au_action au = ''node.revision''" "au_target_id au = Some nid"
proof -
  obtain d1 snap where d1: "mutate d = Inr d1" "BuildDesiredSnapshot c u now nid d1 = Inr snap"
    using assms unfolding commit_tx_def by (auto simp: bind_result_Inr)
  show thesis
  proof (cases "latest_sha d1 nid = snap_SHA256 snap")
    case True
    then show thesis using assms d1 that(1) unfolding commit_tx_def by simp
  next
    case False
    define nxt where "nxt = snap_Revision snap + 1"
    obtain d2 final d3 d4 where d2: "update_node nid (\<lambda>n. n\<lparr>n_desired_revision := nxt\<rparr>) d1 = Inr d2"
      and final: "BuildDesiredSnapshot c u now nid d2 = Inr final"
      and d3: "insert_revision \<lparr>rev_node_id = nid, rev_revision = nxt, rev_created_at = now,
               rev_actor_type = actor_Type a, rev_actor_admin_id = actor_AdminID a,
               rev_actor_label = actor_Label a, rev_reason = reason, rev_doc_sha256 = snap_SHA256 final\<rparr> d2 = Inr d3"
      and d4: "audit_InTx now rid a ''node.revision'' ''node'' (Some nid)
              [(''revision'', JInt nxt), (''sha256'', JStr (snap_SHA256 final)), (''reason'', JStr reason)]
              ''ok'' d3 = Inr d4"
      and r: "r = \<lparr>Changed = True, cr_Revision = nxt, cr_SHA256 = snap_SHA256 final\<rparr>" "d' = d4"
      using assms unfolding commit_tx_def d1(1) bind_result_simps d1(2) Let_def if_not_P [OF False]
        nxt_def [symmetric] bind_result_Inr sum.inject prod.inject by blast
    note d2' = d2 [unfolded update_node_Inr, THEN conjunct2]
    define row where "row = \<lparr>rev_node_id = nid, rev_revision = nxt, rev_created_at = now,
               rev_actor_type = actor_Type a, rev_actor_admin_id = actor_AdminID a,
               rev_actor_label = actor_Label a, rev_reason = reason, rev_doc_sha256 = snap_SHA256 final\<rparr>"
    define au where "au = mk_audit now rid a ''node.revision'' ''node'' (Some nid)
              [(''revision'', JInt nxt), (''sha256'', JStr (snap_SHA256 final)), (''reason'', JStr reason)] ''ok''"
    have d': "d' = committed d1 nid (snap_Revision snap + 1) row au"
      unfolding r(2) d4 [unfolded audit_InTx_Inr, THEN conjunct2] insert_revision_Inr [OF d3] d2' committed_def
        nxt_def [symmetric] row_def [symmetric] au_def [symmetric] by simp
    have "BuildDesiredSnapshot c u now nid
         (d1\<lparr>t_nodes := sql_update (\<lambda>n. n_id n = nid) (\<lambda>n. n\<lparr>n_desired_revision := snap_Revision snap + 1\<rparr>) (t_nodes d1)\<rparr>)
         = Inr final"
      using final by (simp add: d2' nxt_def)
    from that(2) [OF d1 False this _ _ _ d'] show thesis
      by (simp add: r row_def au_def mk_audit_def nxt_def)
  qed
qed

lemma committed_build [simp]:
  "BuildDesiredSnapshot c u now nid (committed d k nxt row au) = BuildDesiredSnapshot c u now nid
     (d\<lparr>t_nodes := sql_update (\<lambda>n. n_id n = k) (\<lambda>n. n\<lparr>n_desired_revision := nxt\<rparr>) (t_nodes d)\<rparr>)"
  by (rule Build_frame) (simp_all add: committed_def)

lemma committed_revs [simp]:
  "node_revs (committed d k nxt row au) nid = node_revs d nid @ (if rev_node_id row = nid then [row] else [])"
  by (simp add: node_revs_def committed_def sql_where_def)

lemma committed_rev_inv:
  assumes inv: "rev_inv d" and n: "get_node d nid = Some n"
    and row: "rev_node_id row = nid" "rev_revision row = n_desired_revision n + 1"
  shows "rev_inv (committed d nid (n_desired_revision n + 1) row au)"
proof -
  have "distinct (map n_id (t_nodes d))" using inv by (simp add: rev_inv_def)
  then have uniq: "m \<in> set (t_nodes d) \<Longrightarrow> n_id m = nid \<Longrightarrow> m = n" for m
    using rev_invD(1,2) [OF inv n] by (auto simp: distinct_map inj_on_def)
  have revs: "revs_of (committed d nid (n_desired_revision n + 1) row au) k
      = revs_of d k @ (if k = nid then [n_desired_revision n + 1] else [])" for k
    using row by (simp add: revs_of_def)
  have ids: "map n_id (t_nodes (committed d nid (n_desired_revision n + 1) row au)) = map n_id (t_nodes d)"
    by (simp add: committed_def)
  show ?thesis
    unfolding rev_inv_def ids revs
  proof (intro conjI ballI)
    show "distinct (map n_id (t_nodes d))" by fact
    fix m' assume "m' \<in> set (t_nodes (committed d nid (n_desired_revision n + 1) row au))"
    then obtain m where m: "m \<in> set (t_nodes d)"
      and m': "m' = (if n_id m = nid then m\<lparr>n_desired_revision := n_desired_revision n + 1\<rparr> else m)"
      by (auto simp: committed_def set_sql_update)
    have inv_m: "0 \<le> n_desired_revision m \<and> n_applied_revision m \<le> n_desired_revision m
        \<and> distinct (revs_of d (n_id m)) \<and> set (revs_of d (n_id m)) = {1 .. n_desired_revision m}"
      using inv m by (simp add: rev_inv_def)
    have "n_id m = nid \<Longrightarrow> m = n" using uniq m by blast
    then show "0 \<le> n_desired_revision m'" "n_applied_revision m' \<le> n_desired_revision m'"
      "distinct (revs_of d (n_id m') @ (if n_id m' = nid then [n_desired_revision n + 1] else []))"
      "set (revs_of d (n_id m') @ (if n_id m' = nid then [n_desired_revision n + 1] else [])) = {1 .. n_desired_revision m'}"
      using inv_m m' by (auto split: if_splits)
  qed
qed

lemma commit_spec:
  assumes inv: "rev_inv d" and resp: "respects_revisions mutate" and n: "get_node d nid = Some n"
    and ok: "commit_tx c u now nid a rid reason mutate d = Inr (r, d')"
  shows "rev_inv d'"
    and "\<exists>snap. BuildDesiredSnapshot c u now nid d' = Inr snap \<and> snap_Revision snap = cr_Revision r
           \<and> snap_SHA256 snap = cr_SHA256 r"
    and "latest_sha d' nid = cr_SHA256 r"
    and "cr_Revision r = n_desired_revision n + (if Changed r then 1 else 0)"
    and "\<exists>row. node_revs d' nid = node_revs d nid @ (if Changed r then [row] else [])
           \<and> rev_revision row = cr_Revision r \<and> rev_doc_sha256 row = cr_SHA256 r"
proof -
  have goals: "rev_inv d'
    \<and> (\<exists>snap. BuildDesiredSnapshot c u now nid d' = Inr snap \<and> snap_Revision snap = cr_Revision r
           \<and> snap_SHA256 snap = cr_SHA256 r)
    \<and> latest_sha d' nid = cr_SHA256 r \<and> cr_Revision r = n_desired_revision n + (if Changed r then 1 else 0)
    \<and> (\<exists>row. node_revs d' nid = node_revs d nid @ (if Changed r then [row] else [])
           \<and> rev_revision row = cr_Revision r \<and> rev_doc_sha256 row = cr_SHA256 r)"
    using ok
  proof (cases rule: commit_tx_cases)
    case (1 d1 snap)
    obtain m where "get_node d1 nid = Some m" "snap_Revision snap = n_desired_revision m"
      using 1(2) by (rule Build_revision)
    moreover have view: "rev_view d1 = rev_view d" using resp 1(1) by (simp add: respects_revisions_def)
    ultimately show ?thesis
      using 1 get_node_view [OF view inv n] rev_inv_view [OF view inv] rev_view_revs [OF view, of nid]
      by (auto intro!: exI [of _ "\<lparr>rev_node_id = 0, rev_revision = snap_Revision snap, rev_created_at = 0,
            rev_actor_type = '''', rev_actor_admin_id = None, rev_actor_label = '''', rev_reason = '''',
            rev_doc_sha256 = snap_SHA256 snap\<rparr>"])
  next
    case (2 d1 snap final row au)
    obtain m where m: "get_node d1 nid = Some m" "snap_Revision snap = n_desired_revision m"
      using 2(2) by (rule Build_revision)
    have view: "rev_view d1 = rev_view d" using resp 2(1) by (simp add: respects_revisions_def)
    have inv1: "rev_inv d1" by (rule rev_inv_view [OF view inv])
    have nm: "n_desired_revision m = n_desired_revision n" using get_node_view [OF view inv n m(1)] by simp
    obtain f where f: "get_node (d1\<lparr>t_nodes := sql_update (\<lambda>n. n_id n = nid)
          (\<lambda>n. n\<lparr>n_desired_revision := snap_Revision snap + 1\<rparr>) (t_nodes d1)\<rparr>) nid = Some f"
      "snap_Revision final = n_desired_revision f"
      using 2(4) by (rule Build_revision)
    have fin: "snap_Revision final = snap_Revision snap + 1"
      using f rev_invD(1) [OF inv1 m(1)] m(1) by (auto simp: get_node_update)
    have "latest_sha (d1\<lparr>t_node_revisions := t_node_revisions d1 @ [row]\<rparr>) nid = rev_doc_sha256 row"
      unfolding 2(5) [symmetric]
      by (rule latest_sha_append) (use rev_invD(3,6) [OF inv1 m(1)] 2(5,6) m(2) in auto)
    then have sha: "latest_sha d' nid = rev_doc_sha256 row"
      unfolding 2(8) by (simp add: committed_def latest_sha_def max_revision_def node_revs_def)
    have "rev_inv d'" unfolding 2(8) m(2) by (rule committed_rev_inv [OF inv1 m(1) 2(5)]) (use 2 m in simp)
    then show ?thesis
      using 2 sha fin nm m rev_view_revs [OF view, of nid] by auto
  qed
  then show "rev_inv d'"
    "\<exists>snap. BuildDesiredSnapshot c u now nid d' = Inr snap \<and> snap_Revision snap = cr_Revision r
           \<and> snap_SHA256 snap = cr_SHA256 r"
    "latest_sha d' nid = cr_SHA256 r"
    "cr_Revision r = n_desired_revision n + (if Changed r then 1 else 0)"
    "\<exists>row. node_revs d' nid = node_revs d nid @ (if Changed r then [row] else [])
           \<and> rev_revision row = cr_Revision r \<and> rev_doc_sha256 row = cr_SHA256 r"
    by blast+
qed

text \<open>C1: a commit is all or nothing, and a successful one leaves the node labelled truthfully: the
  document the builder now produces carries the returned revision and digest, the newest revision
  row holds that digest, the revision is the old one or the next, and the rows of every node still
  run from one to its desired revision without gap or repetition.\<close>
theorem commit_establishes_revision:
  assumes "rev_inv d" and "respects_revisions mutate" and "get_node d nid = Some n"
  shows "case CommitNodeChange c u now nid a rid reason mutate d of
      (Inl e, d') \<Rightarrow> d' = d
    | (Inr r, d') \<Rightarrow> rev_inv d'
        \<and> (\<exists>snap. BuildDesiredSnapshot c u now nid d' = Inr snap \<and> snap_Revision snap = cr_Revision r
             \<and> snap_SHA256 snap = cr_SHA256 r)
        \<and> latest_sha d' nid = cr_SHA256 r
        \<and> cr_Revision r = n_desired_revision n + (if Changed r then 1 else 0)"
proof (cases "commit_tx c u now nid a rid reason mutate d")
  case (Inl e)
  then show ?thesis by (simp add: CommitNodeChange_def store_write_def)
next
  case (Inr p)
  obtain r d' where p: "p = (r, d')" by (cases p)
  from commit_spec [OF assms Inr [unfolded p]] show ?thesis
    by (simp add: CommitNodeChange_def store_write_def Inr p)
qed

text \<open>The history of a node: the digests of its revisions, oldest first.\<close>

definition history :: "panel_db \<Rightarrow> int \<Rightarrow> string list" where
  "history d nid = map rev_doc_sha256 (sort_key rev_revision (node_revs d nid))"

text \<open>the history is append-only: a successful commit appends exactly its digest when it reports a
  change and nothing otherwise, and a failed one leaves the history as it was.\<close>
theorem commit_history:
  assumes "rev_inv d" and "respects_revisions mutate" and "get_node d nid = Some n"
  shows "history (snd (CommitNodeChange c u now nid a rid reason mutate d)) nid = history d nid @
    (case fst (CommitNodeChange c u now nid a rid reason mutate d) of
       Inl e \<Rightarrow> [] | Inr r \<Rightarrow> if Changed r then [cr_SHA256 r] else [])"
proof (cases "commit_tx c u now nid a rid reason mutate d")
  case (Inl e)
  then show ?thesis by (simp add: CommitNodeChange_def store_write_def)
next
  case (Inr p)
  obtain r d' where p: "p = (r, d')" by (cases p)
  note spec = commit_spec [OF assms Inr [unfolded p]]
  obtain row where row: "node_revs d' nid = node_revs d nid @ (if Changed r then [row] else [])"
    "rev_revision row = cr_Revision r" "rev_doc_sha256 row = cr_SHA256 r"
    using spec(5) by blast
  have "Changed r \<Longrightarrow> \<forall>y \<in> set (node_revs d nid). rev_revision y \<le> rev_revision row"
  proof
    fix y assume "Changed r" "y \<in> set (node_revs d nid)"
    then have "rev_revision y \<in> {1 .. n_desired_revision n}"
      unfolding rev_invD(6) [OF assms(1,3), symmetric] by (simp add: revs_of_def)
    then show "rev_revision y \<le> rev_revision row" using row(2) spec(4) by simp
  qed
  then have "history d' nid = history d nid @ (if Changed r then [cr_SHA256 r] else [])"
    using row by (auto simp: history_def sort_key_append_max)
  then show ?thesis by (simp add: CommitNodeChange_def store_write_def Inr p)
qed

text \<open>committing again with nothing to change, at the same time, is a no-op: it reports no change,
  returns the same revision and digest, and leaves the database as it is.\<close>
theorem commit_idempotent:
  assumes "rev_inv d" and "respects_revisions mutate" and "get_node d nid = Some n"
    and "CommitNodeChange c u now nid a rid reason mutate d = (Inr r, d')"
  shows "CommitNodeChange c u now nid a' rid' reason' Inr d'
    = (Inr \<lparr>Changed = False, cr_Revision = cr_Revision r, cr_SHA256 = cr_SHA256 r\<rparr>, d')"
proof -
  have "commit_tx c u now nid a rid reason mutate d = Inr (r, d')"
    using assms(4) by (simp add: CommitNodeChange_def store_write_commit)
  note spec = commit_spec [OF assms(1-3) this]
  then show ?thesis
    by (auto simp: CommitNodeChange_def store_write_def commit_tx_def)
qed

text \<open>the revision moves exactly when the document does. Where the newest row's digest is that of
  some document \<open>doc0\<close> and the digest does not collide on the two documents compared, a successful
  commit reports a change if and only if the document the callback leaves differs from \<open>doc0\<close>.\<close>
theorem commit_changes_iff:
  assumes "CommitNodeChange c u now nid a rid reason mutate d = (Inr r, d')"
    and "mutate d = Inr d1" and "BuildDesiredSnapshot c u now nid d1 = Inr snap"
    and "canonical_Hash c doc0 = Some (bytes0, latest_sha d1 nid)"
    and "inj_on (\<lambda>doc. map_option snd (canonical_Hash c doc)) {doc0, snap_Document snap}"
  shows "Changed r \<longleftrightarrow> snap_Document snap \<noteq> doc0"
proof -
  have ok: "commit_tx c u now nid a rid reason mutate d = Inr (r, d')"
    using assms(1) by (simp add: CommitNodeChange_def store_write_commit)
  have "canonical_Hash c (snap_Document snap) = Some (snap_Bytes snap, snap_SHA256 snap)"
    using assms(3) by (rule build_document_Inr)
  then have same: "snap_Document snap = doc0 \<longleftrightarrow> latest_sha d1 nid = snap_SHA256 snap"
    using assms(4,5) by (auto simp: inj_on_def)
  from ok show ?thesis
    by (cases rule: commit_tx_cases) (use assms(2,3) same in auto)
qed

subsection \<open>A concrete commit\<close>

definition demo_commit :: "(panel_err + commit_result) \<times> panel_db" where
  "demo_commit = CommitNodeChange demo_codec (Some Some) 100 1 (SystemActor ''op'') ''r1'' ''init'' Inr demo_db"

definition demo_committed :: panel_db where
  "demo_committed = snd demo_commit"

lemma demo_rev_inv: "rev_inv demo_db"
  unfolding rev_inv_def by (simp add: demo_db_def demo_node_def revs_of_def node_revs_def sql_where_def empty_db_def)

lemma demo_get_node: "get_node demo_db 1 = Some demo_node" by code_simp

lemma Inr_respects: "respects_revisions Inr" by (simp add: respects_revisions_def)

lemma demo_commit_eq:
  "CommitNodeChange demo_codec (Some Some) 100 1 (SystemActor ''op'') ''r1'' ''init'' Inr demo_db
     = (Inr \<lparr>Changed = True, cr_Revision = 1, cr_SHA256 = ''rppss''\<rparr>, demo_committed)"
proof -
  have "fst demo_commit = Inr \<lparr>Changed = True, cr_Revision = 1, cr_SHA256 = ''rppss''\<rparr>" by code_simp
  then show ?thesis by (metis demo_commit_def demo_committed_def prod.collapse)
qed

theorem commit_establishes_revision_witness: "rev_inv demo_committed \<and> latest_sha demo_committed 1 = ''rppss''"
  using commit_establishes_revision [OF demo_rev_inv Inr_respects demo_get_node,
      of demo_codec "Some Some" 100 "SystemActor ''op''" "''r1''" "''init''"]
  unfolding demo_commit_eq by simp

theorem commit_history_witness: "history demo_committed 1 = [''rppss'']"
proof -
  have "history demo_db 1 = []" by code_simp
  then show ?thesis
    using commit_history [OF demo_rev_inv Inr_respects demo_get_node,
        of demo_codec "Some Some" 100 "SystemActor ''op''" "''r1''" "''init''"]
    unfolding demo_commit_eq by simp
qed

theorem commit_idempotent_witness:
  "CommitNodeChange demo_codec (Some Some) 100 1 (SystemActor ''x'') ''r2'' ''again'' Inr demo_committed
    = (Inr \<lparr>Changed = False, cr_Revision = 1, cr_SHA256 = ''rppss''\<rparr>, demo_committed)"
  using commit_idempotent [OF demo_rev_inv Inr_respects demo_get_node demo_commit_eq] by simp

definition demo_drop :: "panel_db \<Rightarrow> panel_err + panel_db" where
  "demo_drop d = Inr (d\<lparr>t_services := [demo_service 1]\<rparr>)"

definition demo_dropped :: panel_db where
  "demo_dropped = demo_committed\<lparr>t_services := [demo_service 1]\<rparr>"

definition demo_doc0 :: document where
  "demo_doc0 = (snap_Document demo_snap)\<lparr>Revision := 1\<rparr>"

definition demo_snap1 :: snapshot where
  "demo_snap1 = (case BuildDesiredSnapshot demo_codec (Some Some) 100 1 demo_dropped of Inr s \<Rightarrow> s)"

theorem commit_changes_iff_witness:
  "snap_Document demo_snap1 \<noteq> demo_doc0"
proof -
  let ?c = "CommitNodeChange demo_codec (Some Some) 100 1 (SystemActor ''x'') ''r2'' ''drop'' demo_drop demo_committed"
  let ?r = "\<lparr>Changed = True, cr_Revision = 2, cr_SHA256 = ''rrps''\<rparr>"
  have "fst ?c = Inr ?r" by code_simp
  then have c: "?c = (Inr ?r, snd ?c)" by (metis prod.collapse)
  have b: "BuildDesiredSnapshot demo_codec (Some Some) 100 1 demo_dropped = Inr demo_snap1" by code_simp
  have h: "canonical_Hash demo_codec demo_doc0 = Some (''rppss'', latest_sha demo_dropped 1)" by code_simp
  have "map_option snd (canonical_Hash demo_codec demo_doc0) \<noteq> map_option snd (canonical_Hash demo_codec (snap_Document demo_snap1))"
    by code_simp
  then have inj: "inj_on (\<lambda>doc. map_option snd (canonical_Hash demo_codec doc)) {demo_doc0, snap_Document demo_snap1}"
    by (auto simp: inj_on_def)
  have m: "demo_drop demo_committed = Inr demo_dropped" by (simp add: demo_drop_def demo_dropped_def)
  from commit_changes_iff [OF c m b h inj] show ?thesis by simp
qed

subsection \<open>Apply reports\<close>

lemma insert_steps_Inr:
  "insert_steps rid sts d = Inr d' \<Longrightarrow>
     \<exists>rows. d' = d\<lparr>t_node_apply_steps := t_node_apply_steps d @ rows\<rparr> \<and> map step_seq rows = map st_Seq sts
       \<and> (\<forall>r \<in> set rows. step_run_id r = rid)"
proof (induction sts arbitrary: d)
  case Nil
  then show ?case by (intro exI [of _ "[]"]) simp
next
  case (Cons st sts)
  then obtain d1 where d1: "insert_step rid st d = Inr d1" "insert_steps rid sts d1 = Inr d'"
    by (auto simp: bind_result_Inr)
  obtain rows where rows: "d' = d1\<lparr>t_node_apply_steps := t_node_apply_steps d1 @ rows\<rparr>"
    "map step_seq rows = map st_Seq sts" "\<forall>r \<in> set rows. step_run_id r = rid"
    using Cons.IH [OF d1(2)] by blast
  have "d1 = d\<lparr>t_node_apply_steps := t_node_apply_steps d @ [step_row rid st]\<rparr>"
    using d1(1) by (simp add: insert_step_def split: if_splits)
  then show ?case by (intro exI [of _ "step_row rid st # rows"]) (use rows in \<open>simp add: step_row_def\<close>)
qed

lemma insert_steps_total:
  assumes "distinct (map st_Seq sts)"
    and "\<forall>r \<in> set (t_node_apply_steps d). step_run_id r = rid \<longrightarrow> step_seq r \<notin> st_Seq ` set sts"
  shows "\<exists>d'. insert_steps rid sts d = Inr d'"
  using assms
proof (induction sts arbitrary: d)
  case (Cons st sts)
  then have "insert_step rid st d \<noteq> Inl e" for e by (auto simp: insert_step_def)
  then obtain d1 where d1: "insert_step rid st d = Inr d1" by (cases "insert_step rid st d") auto
  then have steps: "t_node_apply_steps d1 = t_node_apply_steps d @ [step_row rid st]"
    by (auto simp: insert_step_def split: if_splits)
  have "\<exists>d'. insert_steps rid sts d1 = Inr d'"
    using Cons.prems by (intro Cons.IH) (auto simp: steps step_row_def)
  then show ?case using d1 by simp
qed simp

definition run_update :: "apply_run_input \<Rightarrow> string \<Rightarrow> bool \<Rightarrow> node_row \<Rightarrow> node_row" where
  "run_update i status advance n =
     (if advance then n\<lparr>n_applied_revision := in_TargetRevision i, n_status := status, n_last_error := Some ''''\<rparr>
      else n\<lparr>n_status := status, n_last_error := Some (in_Err i)\<rparr>)"

lemma run_update_simps [simp]:
  "n_id (run_update i st adv n) = n_id n" "n_desired_revision (run_update i st adv n) = n_desired_revision n"
  "n_status (run_update i st adv n) = st"
  "n_applied_revision (run_update i st adv n) = (if adv then in_TargetRevision i else n_applied_revision n)"
  by (simp_all add: run_update_def)

lemma apply_run_tx_Inr:
  assumes "apply_run_tx i d = Inr (out, d')" and dec: "decide d i = (outcome, status, advance)"
  shows "t_nodes d' = sql_update (\<lambda>n. n_id n = in_NodeID i) (run_update i status advance) (t_nodes d)
     \<and> t_node_revisions d' = t_node_revisions d
     \<and> (\<forall>n \<in> set (t_nodes d). n_id n = in_NodeID i \<longrightarrow> node_check (run_update i status advance n))
     \<and> out_Status out = status \<and> out_Integrity out = integrity_fault d i
     \<and> (\<exists>n'. get_node d' (in_NodeID i) = Some n' \<and> out_AppliedRevision out = n_applied_revision n')
     \<and> (integrity_fault d i \<longrightarrow> (\<exists>au \<in> set (t_audit_log d'). au_action au = ''node.integrity_fault''
           \<and> au_target_id au = Some (in_NodeID i)))"
proof -
  have upd: "(if advance then update_node (in_NodeID i) (\<lambda>n. n\<lparr>n_applied_revision := in_TargetRevision i, n_status := status,
                 n_last_error := Some ''''\<rparr>) d2
       else update_node (in_NodeID i) (\<lambda>n. n\<lparr>n_status := status, n_last_error := Some (in_Err i)\<rparr>) d2)
      = update_node (in_NodeID i) (run_update i status advance) d2" for d2
    by (simp add: run_update_def [abs_def])
  obtain rid d1 d2 d3 d4 n where
    d1: "insert_run i outcome d = Inr (rid, d1)" and d2: "insert_steps rid (in_Steps i) d1 = Inr d2"
    and d3: "update_node (in_NodeID i) (run_update i status advance) d2 = Inr d3"
    and d4: "audit_fault d i d3 = Inr d4"
    and n: "get_node d4 (in_NodeID i) = Some n" and d': "d' = d4"
    and out: "out = \<lparr>out_Status = status, out_AppliedRevision = n_applied_revision n, out_Integrity = integrity_fault d i\<rparr>"
    using assms(1) unfolding apply_run_tx_def dec prod.case upd
    by (auto simp: bind_result_Inr split: option.splits)
  have "t_nodes d1 = t_nodes d" "t_node_revisions d1 = t_node_revisions d"
    using d1 by (auto simp: insert_run_def Let_def split: if_splits)
  moreover obtain rows where "d2 = d1\<lparr>t_node_apply_steps := t_node_apply_steps d1 @ rows\<rparr>"
    using insert_steps_Inr [OF d2] by blast
  moreover have "t_nodes d4 = t_nodes d3" "t_node_revisions d4 = t_node_revisions d3"
    and "integrity_fault d i \<longrightarrow> (\<exists>au \<in> set (t_audit_log d4). au_action au = ''node.integrity_fault''
           \<and> au_target_id au = Some (in_NodeID i))"
    using d4 by (auto simp: audit_fault_def audit_InTx_Inr mk_audit_def split: if_splits)
  ultimately show ?thesis
    using d3 n d' out by (simp add: update_node_Inr)
qed

text \<open>A report is verified when the panel issued that revision with the digest the agent applied.\<close>

definition issued_with :: "panel_db \<Rightarrow> int \<Rightarrow> int \<Rightarrow> string \<Rightarrow> bool" where
  "issued_with d nid k sha \<longleftrightarrow>
     (\<exists>r \<in> set (t_node_revisions d). rev_node_id r = nid \<and> rev_revision r = k \<and> rev_doc_sha256 r = sha)"

lemma integrity_iff:
  assumes "rev_inv d" and "get_node d (in_NodeID i) = Some n"
  shows "integrity_fault d i \<longleftrightarrow> in_Converged i \<and> 0 < in_TargetRevision i
           \<and> \<not> issued_with d (in_NodeID i) (in_TargetRevision i) (in_DocSHA256 i)"
proof -
  let ?k = "\<lambda>r. rev_node_id r = in_NodeID i \<and> rev_revision r = in_TargetRevision i"
  have dist: "distinct (map rev_revision (node_revs d (in_NodeID i)))"
    and range: "set (map rev_revision (node_revs d (in_NodeID i))) = {1 .. n_desired_revision n}"
    using rev_invD(5,6) [OF assms] by (simp_all add: revs_of_def)
  have uniq: "r = r'" if "r \<in> set (t_node_revisions d)" "r' \<in> set (t_node_revisions d)" "?k r" "?k r'" for r r'
    using dist that by (auto simp: node_revs_def distinct_map inj_on_def)
  have pos: "0 < in_TargetRevision i" if "r \<in> set (t_node_revisions d)" "?k r" for r
  proof -
    have "in_TargetRevision i \<in> {1 .. n_desired_revision n}"
      unfolding range [symmetric] using that by (force simp: node_revs_def)
    then show ?thesis by simp
  qed
  show ?thesis
  proof (cases "sql_one ?k (t_node_revisions d)")
    case None
    then have "\<not> issued_with d (in_NodeID i) (in_TargetRevision i) (in_DocSHA256 i)"
      by (auto simp: sql_one_None issued_with_def)
    then show ?thesis
      using None by (auto simp: integrity_fault_def unissued_def sha_mismatch_def expected_sha_def)
  next
    case (Some r)
    then have r: "r \<in> set (t_node_revisions d)" "?k r" using sql_one_Some by fast+
    then have "issued_with d (in_NodeID i) (in_TargetRevision i) (in_DocSHA256 i) \<longleftrightarrow> rev_doc_sha256 r = in_DocSHA256 i"
      using uniq by (auto simp: issued_with_def)
    then show ?thesis
      using Some pos [OF r] by (auto simp: integrity_fault_def unissued_def sha_mismatch_def expected_sha_def)
  qed
qed

lemma rev_inv_update:
  assumes inv: "rev_inv d" and nodes: "t_nodes d' = sql_update (\<lambda>n. n_id n = nid) f (t_nodes d)"
    and revs: "t_node_revisions d' = t_node_revisions d"
    and f: "\<And>n. n_id (f n) = n_id n" "\<And>n. n_desired_revision (f n) = n_desired_revision n"
    and check: "\<forall>n \<in> set (t_nodes d). n_id n = nid \<longrightarrow> node_check (f n)"
  shows "rev_inv d'"
proof -
  have "map n_id (t_nodes d') = map n_id (t_nodes d)" by (simp add: nodes f)
  moreover have "revs_of d' k = revs_of d k" for k by (simp add: revs_of_def node_revs_def revs)
  ultimately show ?thesis
    using inv check unfolding rev_inv_def nodes set_sql_update
    by (auto simp: f node_check_def)
qed

lemma get_node_update_eq:
  assumes "t_nodes d' = sql_update (\<lambda>n. n_id n = nid) f (t_nodes d)" and "\<And>n. n_id (f n) = n_id n"
    and "get_node d nid = Some n"
  shows "get_node d' nid = Some (f n)"
proof -
  have "get_node d' nid = get_node (d\<lparr>t_nodes := sql_update (\<lambda>n. n_id n = nid) f (t_nodes d)\<rparr>) nid"
    using assms(1) by (simp add: get_node_def)
  then show ?thesis using assms(2,3) get_node_Some [OF assms(3)] by (simp add: get_node_update)
qed

lemma apply_run_tx_spec:
  assumes inv: "rev_inv d" and n: "get_node d (in_NodeID i) = Some n"
    and ok: "apply_run_tx i d = Inr (out, d')" and dec: "decide d i = (outcome, status, advance)"
  shows "rev_inv d'" and "get_node d' (in_NodeID i) = Some (run_update i status advance n)"
    and "out = \<lparr>out_Status = status, out_AppliedRevision = n_applied_revision (run_update i status advance n),
                out_Integrity = integrity_fault d i\<rparr>"
proof -
  note spec = apply_run_tx_Inr [OF ok dec]
  show "rev_inv d'"
    using spec by (intro rev_inv_update [OF inv, of d' "in_NodeID i" "run_update i status advance"]) simp_all
  show node: "get_node d' (in_NodeID i) = Some (run_update i status advance n)"
    using get_node_update_eq [OF spec [THEN conjunct1] _ n] by simp
  have "out_Status out = status" "out_Integrity out = integrity_fault d i"
    "out_AppliedRevision out = n_applied_revision (run_update i status advance n)"
    using spec node by auto
  then show "out = \<lparr>out_Status = status, out_AppliedRevision = n_applied_revision (run_update i status advance n),
                out_Integrity = integrity_fault d i\<rparr>" by (cases out) simp
qed

lemma decide_cases:
  assumes "decide d i = (outcome, status, advance)"
  shows "advance \<longleftrightarrow> in_Converged i \<and> \<not> in_Deferred i \<and> \<not> integrity_fault d i"
    and "integrity_fault d i \<Longrightarrow> status = ''integrity''"
  using assms unfolding decide_def
  by (cases "integrity_fault d i"; cases "in_Deferred i"; cases "in_Converged i"; cases "in_Err i = ''''"; simp)+

lemma insert_run_ok:
  assumes "get_node d (in_NodeID i) = Some n"
  shows "\<exists>d1. insert_run i outcome d = Inr (next_rowid run_id (t_node_apply_runs d), d1)
    \<and> t_nodes d1 = t_nodes d \<and> t_node_apply_steps d1 = t_node_apply_steps d"
proof -
  have "\<exists>n \<in> set (t_nodes d). n_id n = in_NodeID i" using get_node_Some [OF assms] by blast
  then show ?thesis by (simp add: insert_run_def Let_def)
qed

text \<open>C2: a recorded apply report moves \<open>applied_revision\<close> only to the reported target, and only when the
  agent reports convergence, undeferred, on a revision the panel issued with exactly the digest the
  agent applied (or on revision zero or less, which no row describes). A converged report that the
  panel cannot verify is an integrity fault: the status says so, it is audited, and the applied
  revision stays.\<close>
theorem apply_run_verified:
  assumes "rev_inv d" and "get_node d (in_NodeID i) = Some n" and "RecordApplyRun i d = (Inr out, d')"
  shows "rev_inv d'
    \<and> (\<exists>n'. get_node d' (in_NodeID i) = Some n' \<and> n_status n' = out_Status out
         \<and> n_applied_revision n' = out_AppliedRevision out
         \<and> (n_applied_revision n' \<noteq> n_applied_revision n \<longrightarrow>
              n_applied_revision n' = in_TargetRevision i \<and> in_Converged i \<and> \<not> in_Deferred i
              \<and> (0 < in_TargetRevision i \<longrightarrow>
                   issued_with d (in_NodeID i) (in_TargetRevision i) (in_DocSHA256 i))))
    \<and> (out_Integrity out \<longleftrightarrow> in_Converged i \<and> 0 < in_TargetRevision i
         \<and> \<not> issued_with d (in_NodeID i) (in_TargetRevision i) (in_DocSHA256 i))
    \<and> (out_Integrity out \<longrightarrow> out_Status out = StatusIntegrity
         \<and> out_AppliedRevision out = n_applied_revision n
         \<and> (\<exists>au \<in> set (t_audit_log d'). au_action au = ''node.integrity_fault'' \<and> au_target_id au = Some (in_NodeID i)))"
proof -
  have ok: "apply_run_tx i d = Inr (out, d')"
    using assms(3) by (simp add: RecordApplyRun_def store_write_commit)
  obtain outcome status advance where dec: "decide d i = (outcome, status, advance)" by (cases "decide d i")
  note spec = apply_run_tx_spec [OF assms(1,2) ok dec] and int = integrity_iff [OF assms(1,2)]
  have adv: "advance \<longrightarrow> in_Converged i \<and> \<not> in_Deferred i \<and> \<not> integrity_fault d i"
    "integrity_fault d i \<longrightarrow> status = ''integrity'' \<and> \<not> advance"
    using decide_cases [OF dec] by simp_all
  have "n_applied_revision (run_update i status advance n) \<noteq> n_applied_revision n \<longrightarrow>
      in_Converged i \<and> \<not> in_Deferred i \<and> n_applied_revision (run_update i status advance n) = in_TargetRevision i
      \<and> (0 < in_TargetRevision i \<longrightarrow> issued_with d (in_NodeID i) (in_TargetRevision i) (in_DocSHA256 i))"
    using adv int by (cases advance) simp_all
  moreover have "integrity_fault d i \<longrightarrow>
      (\<exists>au \<in> set (t_audit_log d'). au_action au = ''node.integrity_fault'' \<and> au_target_id au = Some (in_NodeID i))"
    using apply_run_tx_Inr [OF ok dec] by blast
  ultimately show ?thesis
  proof (intro conjI)
    assume moved: "n_applied_revision (run_update i status advance n) \<noteq> n_applied_revision n \<longrightarrow>
        in_Converged i \<and> \<not> in_Deferred i \<and> n_applied_revision (run_update i status advance n) = in_TargetRevision i
        \<and> (0 < in_TargetRevision i \<longrightarrow> issued_with d (in_NodeID i) (in_TargetRevision i) (in_DocSHA256 i))"
      and audited: "integrity_fault d i \<longrightarrow> (\<exists>au \<in> set (t_audit_log d').
        au_action au = ''node.integrity_fault'' \<and> au_target_id au = Some (in_NodeID i))"
    show "rev_inv d'" by (rule spec(1))
    show "\<exists>n'. get_node d' (in_NodeID i) = Some n' \<and> n_status n' = out_Status out
         \<and> n_applied_revision n' = out_AppliedRevision out
         \<and> (n_applied_revision n' \<noteq> n_applied_revision n \<longrightarrow>
              n_applied_revision n' = in_TargetRevision i \<and> in_Converged i \<and> \<not> in_Deferred i
              \<and> (0 < in_TargetRevision i \<longrightarrow>
                   issued_with d (in_NodeID i) (in_TargetRevision i) (in_DocSHA256 i)))"
      by (intro exI [of _ "run_update i status advance n"] conjI spec(2))
        (use moved in \<open>simp_all add: spec(3)\<close>)
    show "out_Integrity out \<longleftrightarrow> in_Converged i \<and> 0 < in_TargetRevision i
         \<and> \<not> issued_with d (in_NodeID i) (in_TargetRevision i) (in_DocSHA256 i)"
      using int by (simp add: spec(3))
    show "out_Integrity out \<longrightarrow> out_Status out = StatusIntegrity
         \<and> out_AppliedRevision out = n_applied_revision n
         \<and> (\<exists>au \<in> set (t_audit_log d'). au_action au = ''node.integrity_fault'' \<and> au_target_id au = Some (in_NodeID i))"
      using audited adv(2) by (simp add: spec(3))
  qed
qed

text \<open>convergence completes: a converged, undeferred report of an issued revision with its digest, with
  step numbers that do not repeat, is always accepted, and it makes the node online at exactly that
  revision.\<close>
theorem apply_run_converges:
  assumes "rev_inv d" and "get_node d (in_NodeID i) = Some n" and "in_Converged i" and "\<not> in_Deferred i"
    and "issued_with d (in_NodeID i) (in_TargetRevision i) (in_DocSHA256 i)"
    and "distinct (map st_Seq (in_Steps i))"
    and "\<forall>r \<in> set (t_node_apply_steps d). step_run_id r \<in> run_id ` set (t_node_apply_runs d)"
  shows "fst (RecordApplyRun i d) =
    Inr \<lparr>out_Status = StatusOnline, out_AppliedRevision = in_TargetRevision i, out_Integrity = False\<rparr>"
proof -
  have nofault: "\<not> integrity_fault d i" using integrity_iff [OF assms(1,2)] assms(5) by simp
  have dec: "decide d i = (''converged'', ''online'', True)"
    using nofault assms(3,4) by (simp add: decide_def)
  define rid where "rid = next_rowid run_id (t_node_apply_runs d)"
  obtain d1 where d1: "insert_run i ''converged'' d = Inr (rid, d1)" "t_nodes d1 = t_nodes d"
    "t_node_apply_steps d1 = t_node_apply_steps d"
    using insert_run_ok [OF assms(2)] unfolding rid_def by blast
  have fresh: "rid \<notin> run_id ` set (t_node_apply_runs d)"
    using next_rowid_fresh [of run_id "t_node_apply_runs d"] by (simp add: rid_def)
  have "\<forall>r \<in> set (t_node_apply_steps d1). step_run_id r \<noteq> rid"
    using assms(7) fresh d1(3) by metis
  then obtain d2 where d2: "insert_steps rid (in_Steps i) d1 = Inr d2"
    using insert_steps_total [OF assms(6)] by metis
  then have nodes2: "t_nodes d2 = t_nodes d" using insert_steps_Inr [OF d2] d1(2) by auto
  obtain r where r: "r \<in> set (t_node_revisions d)" "rev_node_id r = in_NodeID i" "rev_revision r = in_TargetRevision i"
    using assms(5) by (auto simp: issued_with_def)
  have "in_TargetRevision i \<in> set (revs_of d (in_NodeID i))"
    using r by (force simp: revs_of_def node_revs_def)
  then have "in_TargetRevision i \<le> n_desired_revision n" using rev_invD(6) [OF assms(1,2)] by simp
  moreover have "\<And>m. m \<in> set (t_nodes d) \<Longrightarrow> n_id m = in_NodeID i \<Longrightarrow> m = n"
    using assms(1) rev_invD(1,2) [OF assms(1,2)] by (auto simp: rev_inv_def distinct_map inj_on_def)
  ultimately have upd: "\<exists>d3. update_node (in_NodeID i) (\<lambda>n. n\<lparr>n_applied_revision := in_TargetRevision i,
      n_status := ''online'', n_last_error := Some ''''\<rparr>) d2 = Inr d3"
    unfolding update_node_def nodes2 by (subst if_not_P) (auto simp: node_check_def)
  then obtain d3 where d3: "update_node (in_NodeID i) (\<lambda>n. n\<lparr>n_applied_revision := in_TargetRevision i,
      n_status := ''online'', n_last_error := Some ''''\<rparr>) d2 = Inr d3" by blast
  have "get_node d2 (in_NodeID i) = Some n" using assms(2) nodes2 by (simp add: get_node_def)
  then have "get_node d3 (in_NodeID i) = Some (n\<lparr>n_applied_revision := in_TargetRevision i,
      n_status := ''online'', n_last_error := Some ''''\<rparr>)"
    using d3 [unfolded update_node_Inr, THEN conjunct2]
    by (intro get_node_update_eq [of d3 "in_NodeID i" _ d2]) simp_all
  then have "apply_run_tx i d = Inr (\<lparr>out_Status = ''online'', out_AppliedRevision = in_TargetRevision i,
      out_Integrity = False\<rparr>, d3)"
    unfolding apply_run_tx_def dec prod.case if_True d1(1) bind_result_simps d2 d3 audit_fault_def if_not_P [OF nofault]
    by (simp add: nofault)
  then show ?thesis by (simp add: RecordApplyRun_def store_write_def)
qed

definition demo_report :: apply_run_input where
  "demo_report = \<lparr>in_NodeID = 1, in_TargetRevision = 1, in_Converged = True, in_Deferred = False, in_Err = '''',
     in_DocSHA256 = ''rppss'', in_Steps = [\<lparr>st_Seq = 0, st_Kind = ''write'', st_Disruption = ''none'',
       st_OK = True, st_Err = '''', st_DurationMS = 3\<rparr>], in_Now = 120\<rparr>"

definition demo_committed_node :: node_row where
  "demo_committed_node = demo_node\<lparr>n_desired_revision := 1\<rparr>"

lemma demo_committed_node: "get_node demo_committed 1 = Some demo_committed_node" by code_simp

lemma demo_committed_inv: "rev_inv demo_committed"
proof -
  have "commit_tx demo_codec (Some Some) 100 1 (SystemActor ''op'') ''r1'' ''init'' Inr demo_db
      = Inr (\<lparr>Changed = True, cr_Revision = 1, cr_SHA256 = ''rppss''\<rparr>, demo_committed)"
    using demo_commit_eq by (simp add: CommitNodeChange_def store_write_commit)
  from commit_spec(1) [OF demo_rev_inv Inr_respects demo_get_node this] show ?thesis .
qed

theorem apply_run_converges_witness:
  "fst (RecordApplyRun demo_report demo_committed) =
    Inr \<lparr>out_Status = StatusOnline, out_AppliedRevision = 1, out_Integrity = False\<rparr>"
proof -
  have "fst (RecordApplyRun demo_report demo_committed) =
    Inr \<lparr>out_Status = StatusOnline, out_AppliedRevision = in_TargetRevision demo_report, out_Integrity = False\<rparr>"
  proof (rule apply_run_converges [OF demo_committed_inv])
    show "get_node demo_committed (in_NodeID demo_report) = Some demo_committed_node" by code_simp
    show "issued_with demo_committed (in_NodeID demo_report) (in_TargetRevision demo_report) (in_DocSHA256 demo_report)"
      by code_simp
    show "\<forall>r \<in> set (t_node_apply_steps demo_committed). step_run_id r \<in> run_id ` set (t_node_apply_runs demo_committed)"
      by code_simp
  qed (simp_all add: demo_report_def)
  then show ?thesis by (simp add: demo_report_def)
qed

theorem apply_run_verified_witness:
  "fst (RecordApplyRun (demo_report\<lparr>in_DocSHA256 := ''bad''\<rparr>) demo_committed)
     = Inr \<lparr>out_Status = StatusIntegrity, out_AppliedRevision = 0, out_Integrity = True\<rparr>
   \<and> rev_inv (snd (RecordApplyRun (demo_report\<lparr>in_DocSHA256 := ''bad''\<rparr>) demo_committed))"
proof -
  let ?i = "demo_report\<lparr>in_DocSHA256 := ''bad''\<rparr>"
  let ?o = "\<lparr>out_Status = StatusIntegrity, out_AppliedRevision = 0, out_Integrity = True\<rparr>"
  have f: "fst (RecordApplyRun ?i demo_committed) = Inr ?o" by code_simp
  then have r: "RecordApplyRun ?i demo_committed = (Inr ?o, snd (RecordApplyRun ?i demo_committed))"
    by (metis prod.collapse)
  have "get_node demo_committed (in_NodeID ?i) = Some demo_committed_node" by code_simp
  from apply_run_verified [OF demo_committed_inv this r] f show ?thesis by blast
qed

subsection \<open>Sweeping\<close>

definition offline_audit :: "int \<Rightarrow> int \<Rightarrow> audit_row" where
  "offline_audit now nid = mk_audit now '''' (SystemActor ''sweeper'') ''node.offline'' ''node'' (Some nid)
     [(''reason'', JStr ''no heartbeat within 3 intervals'')] ''ok''"

definition set_offline :: "(node_row \<Rightarrow> bool) \<Rightarrow> panel_db \<Rightarrow> panel_db" where
  "set_offline P d = d\<lparr>t_nodes := sql_update P (\<lambda>n. n\<lparr>n_status := ''offline''\<rparr>) (t_nodes d)\<rparr>"

lemma sql_update_update:
  "(\<And>r. Q (f r) = Q r) \<Longrightarrow> (\<And>r. f (f r) = f r) \<Longrightarrow>
     sql_update Q f (sql_update P f rows) = sql_update (\<lambda>r. P r \<or> Q r) f rows"
  by (induction rows) auto

lemma mark_offline_spec:
  assumes "\<forall>n \<in> set (t_nodes d). node_check n"
  shows "mark_offline now nids d = Inr (length nids,
     (set_offline (\<lambda>n. n_id n \<in> set nids) d)\<lparr>t_audit_log := t_audit_log d @ map (offline_audit now) nids\<rparr>)"
  using assms
proof (induction nids arbitrary: d)
  case Nil
  have "sql_update (\<lambda>n. False) f rows = rows" for f :: "node_row \<Rightarrow> node_row" and rows by (induction rows) auto
  then show ?case by (simp add: set_offline_def)
next
  case (Cons nid nids)
  let ?d1 = "set_offline (\<lambda>n. n_id n = nid) d"
  let ?d2 = "?d1\<lparr>t_audit_log := t_audit_log d @ [offline_audit now nid]\<rparr>"
  have u: "update_node nid (\<lambda>n. n\<lparr>n_status := ''offline''\<rparr>) d = Inr ?d1"
    using Cons.prems unfolding update_node_def set_offline_def by (subst if_not_P) (auto simp: node_check_def)
  have a: "audit_InTx now '''' (SystemActor ''sweeper'') ''node.offline'' ''node'' (Some nid)
      [(''reason'', JStr ''no heartbeat within 3 intervals'')] ''ok'' ?d1 = Inr ?d2"
    by (simp add: audit_InTx_Inr offline_audit_def set_offline_def)
  have "\<forall>n \<in> set (t_nodes ?d2). node_check n"
    using Cons.prems by (auto simp: set_offline_def set_sql_update node_check_def)
  from Cons.IH [OF this]
  have "mark_offline now nids ?d2 = Inr (length nids, (set_offline (\<lambda>n. n_id n \<in> set nids) ?d2)
      \<lparr>t_audit_log := t_audit_log ?d2 @ map (offline_audit now) nids\<rparr>)" .
  moreover have "sql_update (\<lambda>n. n_id n \<in> set nids) (\<lambda>n. n\<lparr>n_status := ''offline''\<rparr>)
      (sql_update (\<lambda>n. n_id n = nid) (\<lambda>n. n\<lparr>n_status := ''offline''\<rparr>) (t_nodes d))
     = sql_update (\<lambda>n. n_id n \<in> set (nid # nids)) (\<lambda>n. n\<lparr>n_status := ''offline''\<rparr>) (t_nodes d)"
    by (subst sql_update_update) auto
  ultimately show ?case
    unfolding mark_offline.simps u bind_result_simps a by (simp add: set_offline_def)
qed

lemma sql_update_cong: "(\<And>r. r \<in> set rows \<Longrightarrow> P r = Q r) \<Longrightarrow> sql_update P f rows = sql_update Q f rows"
  by (induction rows) auto

lemma Sweep_spec:
  assumes "rev_inv d"
  shows "Sweep after now d = (let cutoff = now - sweep_threshold after; ids = staleNodeIDs cutoff d in
     (Inr (length ids), (set_offline (stale cutoff) d)\<lparr>t_audit_log := t_audit_log d @ map (offline_audit now) ids\<rparr>))"
proof -
  let ?c = "now - sweep_threshold after"
  have "\<forall>n \<in> set (t_nodes d). node_check n" using assms by (simp add: rev_inv_def node_check_def)
  moreover have "n_id n \<in> set (staleNodeIDs ?c d) \<longleftrightarrow> stale ?c n" if "n \<in> set (t_nodes d)" for n
    using assms that by (auto simp: staleNodeIDs_def rev_inv_def distinct_map inj_on_def)
  then have "sql_update (\<lambda>n. n_id n \<in> set (staleNodeIDs ?c d)) f (t_nodes d) = sql_update (stale ?c) f (t_nodes d)" for f
    by (rule sql_update_cong)
  then have "set_offline (\<lambda>n. n_id n \<in> set (staleNodeIDs ?c d)) d = set_offline (stale ?c) d"
    unfolding set_offline_def by simp
  ultimately show ?thesis
    unfolding Sweep_def Let_def store_write_def by (simp add: mark_offline_spec)
qed

text \<open>a sweep always succeeds and marks offline exactly the nodes that were online or degraded and
  silent for longer than the threshold (ninety seconds unless a positive one is set); every other
  node keeps its row, in particular disabled, pending, enrolling and integrity ones, and there is
  one audit record per node moved.\<close>
theorem sweep_exact:
  assumes "rev_inv d" and "n \<in> set (t_nodes d)"
  shows "fst (Sweep after now d) = Inr (length (staleNodeIDs (now - sweep_threshold after) d))
    \<and> get_node (snd (Sweep after now d)) (n_id n) = Some
        (if n_status n \<in> {StatusOnline, StatusDegraded}
            \<and> (\<forall>t. n_last_seen_at n = Some t \<longrightarrow> t < now - sweep_threshold after)
         then n\<lparr>n_status := StatusOffline\<rparr> else n)
    \<and> length (t_audit_log (snd (Sweep after now d))) =
        length (t_audit_log d) + length (staleNodeIDs (now - sweep_threshold after) d)"
proof -
  let ?c = "now - sweep_threshold after"
  have stale: "stale ?c n \<longleftrightarrow> n_status n \<in> {StatusOnline, StatusDegraded}
      \<and> (\<forall>t. n_last_seen_at n = Some t \<longrightarrow> t < ?c)"
    by (cases "n_last_seen_at n") (simp_all add: stale_def)
  have "get_node d (n_id n) = Some n"
    using assms by (auto simp: get_node_def rev_inv_def sql_one_key)
  then have "get_node (set_offline (stale ?c) d) (n_id n) = Some (if stale ?c n then n\<lparr>n_status := ''offline''\<rparr> else n)"
    by (simp add: get_node_def set_offline_def sql_one_update_key)
  then have "get_node (snd (Sweep after now d)) (n_id n) = Some (if stale ?c n then n\<lparr>n_status := ''offline''\<rparr> else n)"
    by (simp add: Sweep_spec [OF assms(1)] Let_def get_node_def)
  then show ?thesis
    unfolding stale [symmetric] by (simp add: Sweep_spec [OF assms(1)] Let_def)
qed

theorem sweep_exact_witness:
  "get_node (snd (Sweep 0 1000 demo_db)) 1 = Some (demo_node\<lparr>n_status := StatusOffline\<rparr>)"
proof -
  have "demo_node \<in> set (t_nodes demo_db)" by code_simp
  from sweep_exact [OF demo_rev_inv this, of 0 1000] show ?thesis
    by (simp add: demo_node_def sweep_threshold_def OfflineAfter_def)
qed

subsection \<open>Enrollment tokens\<close>

definition tokens_wf :: "panel_db \<Rightarrow> bool" where
  "tokens_wf d \<longleftrightarrow> distinct (map et_token_hash (t_enroll_tokens d))"

definition token_used :: "string \<Rightarrow> panel_db \<Rightarrow> bool" where
  "token_used h d \<longleftrightarrow> (\<exists>r \<in> set (t_enroll_tokens d). et_token_hash r = h \<and> et_used_at r \<noteq> None)"

lemma token_used_update:
  "token_used h (d\<lparr>t_enroll_tokens := sql_update P (\<lambda>r. r\<lparr>et_used_at := Some now\<rparr>) (t_enroll_tokens d)\<rparr>)
     \<longleftrightarrow> token_used h d \<or> (\<exists>r \<in> set (t_enroll_tokens d). P r \<and> et_token_hash r = h)"
  by (auto simp: token_used_def bex_sql_update)

lemma redeem_cases:
  "(RedeemEnrollToken sha token now d = (Inl ErrTokenInvalid, d)
      \<and> (token = '''' \<or> (\<forall>r \<in> set (t_enroll_tokens d). \<not> redeemable (sha token) now r)))
   \<or> (\<exists>r \<in> set (t_enroll_tokens d). redeemable (sha token) now r \<and> token \<noteq> ''''
       \<and> (\<exists>nid. RedeemEnrollToken sha token now d = (Inr nid,
            d\<lparr>t_enroll_tokens := sql_update (redeemable (sha token) now) (\<lambda>r. r\<lparr>et_used_at := Some now\<rparr>) (t_enroll_tokens d)\<rparr>)))"
proof (cases "token = '''' \<or> sql_count (redeemable (sha token) now) (t_enroll_tokens d) = 0")
  case True
  then have "RedeemEnrollToken sha token now d = (Inl ErrTokenInvalid, d)"
    by (cases "token = ''''") (simp_all add: RedeemEnrollToken_def store_write_def)
  moreover have "token = '''' \<or> (\<forall>r \<in> set (t_enroll_tokens d). \<not> redeemable (sha token) now r)"
    using True by (simp add: sql_count_def sql_where_def filter_empty_conv)
  ultimately show ?thesis by blast
next
  case False
  then obtain r where r: "r \<in> set (t_enroll_tokens d)" "redeemable (sha token) now r"
    unfolding sql_count_def sql_where_def length_0_conv filter_empty_conv by blast
  define rows where "rows = sql_update (redeemable (sha token) now) (\<lambda>r. r\<lparr>et_used_at := Some now\<rparr>) (t_enroll_tokens d)"
  have "sql_one (\<lambda>r. et_token_hash r = sha token) rows \<noteq> None"
    using r sql_update_mem [OF r(1), of "redeemable (sha token) now" "\<lambda>r. r\<lparr>et_used_at := Some now\<rparr>"]
    unfolding sql_one_None rows_def redeemable_def by force
  then obtain r' where "sql_one (\<lambda>r. et_token_hash r = sha token) rows = Some r'" by blast
  then have "RedeemEnrollToken sha token now d = (Inr (et_node_id r'), d\<lparr>t_enroll_tokens := rows\<rparr>)"
    using False by (simp add: RedeemEnrollToken_def store_write_def rows_def)
  then show ?thesis using r False unfolding rows_def by blast
qed

datatype token_op =
    TokIssue string int actor string int
  | TokRedeem string int

fun token_step :: "(string \<Rightarrow> string) \<Rightarrow> token_op \<Rightarrow> panel_db \<Rightarrow> panel_db" where
  "token_step sha (TokIssue token nid a rid now) d = snd (IssueEnrollToken sha token nid a rid now d)"
| "token_step sha (TokRedeem token now) d = snd (RedeemEnrollToken sha token now d)"

fun redeems :: "(string \<Rightarrow> string) \<Rightarrow> string \<Rightarrow> token_op \<Rightarrow> panel_db \<Rightarrow> bool" where
  "redeems sha h (TokIssue token nid a rid now) d = False"
| "redeems sha h (TokRedeem token now) d = (sha token = h \<and> is_ok (fst (RedeemEnrollToken sha token now d)))"

fun redemptions :: "(string \<Rightarrow> string) \<Rightarrow> string \<Rightarrow> token_op list \<Rightarrow> panel_db \<Rightarrow> nat" where
  "redemptions sha h [] d = 0"
| "redemptions sha h (a # ops) d = (if redeems sha h a d then 1 else 0) + redemptions sha h ops (token_step sha a d)"

lemma issue_tokens:
  "t_enroll_tokens (snd (IssueEnrollToken sha token nid a rid now d)) = t_enroll_tokens d \<or>
     (\<exists>row. et_token_hash row \<notin> et_token_hash ` set (t_enroll_tokens d)
        \<and> t_enroll_tokens (snd (IssueEnrollToken sha token nid a rid now d)) = t_enroll_tokens d @ [row])"
proof (cases "fst (IssueEnrollToken sha token nid a rid now d)")
  case (Inl e)
  then show ?thesis unfolding IssueEnrollToken_def by (simp add: store_write_rollback)
next
  case (Inr t)
  then show ?thesis
    unfolding IssueEnrollToken_def store_write_def
    by (force simp: audit_InTx_Inr bind_result_def audit_InTx_def split: if_splits)
qed

lemma token_step_wf: "tokens_wf d \<Longrightarrow> tokens_wf (token_step sha a d)"
proof (cases a)
  case (TokIssue token nid ac rid now)
  assume "tokens_wf d"
  then show ?thesis
    using TokIssue issue_tokens [of sha token nid ac rid now d] by (auto simp: tokens_wf_def)
next
  case (TokRedeem token now)
  assume "tokens_wf d"
  then show ?thesis
    using TokRedeem redeem_cases [of sha token now d] by (auto simp: tokens_wf_def)
qed

lemma token_step_used: "token_used h d \<Longrightarrow> token_used h (token_step sha a d)"
proof (cases a)
  case (TokIssue token nid ac rid now)
  assume "token_used h d"
  then show ?thesis
    using TokIssue issue_tokens [of sha token nid ac rid now d] by (auto simp: token_used_def)
next
  case (TokRedeem token now)
  assume "token_used h d"
  then show ?thesis
    using TokRedeem redeem_cases [of sha token now d] by (auto simp: token_used_update)
qed

lemma redeems_used:
  assumes "tokens_wf d" and "token_used h d"
  shows "\<not> redeems sha h a d"
proof (cases a)
  case (TokRedeem token now)
  have "\<forall>r \<in> set (t_enroll_tokens d). \<not> redeemable h now r"
    using assms by (auto simp: tokens_wf_def token_used_def redeemable_def distinct_map inj_on_def)
  then show ?thesis using TokRedeem redeem_cases [of sha token now d] by auto
qed simp

lemma redeems_burns:
  assumes "redeems sha h a d"
  shows "token_used h (token_step sha a d)"
proof (cases a)
  case (TokRedeem token now)
  then show ?thesis
    using assms redeem_cases [of sha token now d] by (auto simp: token_used_update redeemable_def)
qed (use assms in simp)

lemma redemptions_used:
  "tokens_wf d \<Longrightarrow> token_used h d \<Longrightarrow> redemptions sha h ops d = 0"
  by (induction ops arbitrary: d) (simp_all add: redeems_used token_step_wf token_step_used)

text \<open>an enrollment token is redeemed at most once, whatever sequence of issuing and redeeming follows,
  and redeeming succeeds exactly when the token is not empty and an unused, unexpired row holds its
  digest.\<close>
theorem enroll_token_single_use:
  assumes "tokens_wf d"
  shows "redemptions sha h ops d \<le> 1
    \<and> (is_ok (fst (RedeemEnrollToken sha token now d)) \<longleftrightarrow> token \<noteq> '''' \<and>
         (\<exists>r \<in> set (t_enroll_tokens d). et_token_hash r = sha token \<and> et_used_at r = None \<and> now < et_expires_at r))"
proof
  show "redemptions sha h ops d \<le> 1"
    using assms
  proof (induction ops arbitrary: d)
    case (Cons a ops)
    show ?case
    proof (cases "redeems sha h a d")
      case True
      then show ?thesis
        using Cons.prems redemptions_used [OF token_step_wf redeems_burns] by simp
    next
      case False
      then show ?thesis using Cons token_step_wf by simp
    qed
  qed simp
  show "is_ok (fst (RedeemEnrollToken sha token now d)) \<longleftrightarrow> token \<noteq> '''' \<and>
         (\<exists>r \<in> set (t_enroll_tokens d). et_token_hash r = sha token \<and> et_used_at r = None \<and> now < et_expires_at r)"
    using redeem_cases [of sha token now d] unfolding redeemable_def by auto
qed

definition demo_tok_ops :: "token_op list" where
  "demo_tok_ops = [TokIssue ''t'' 1 (AdminActor 1) ''r'' 100, TokRedeem ''t'' 200, TokRedeem ''t'' 201]"

theorem enroll_token_single_use_witness:
  "tokens_wf demo_db \<and> redemptions (\<lambda>x. x) ''t'' demo_tok_ops demo_db = 1"
proof -
  have "tokens_wf demo_db" by code_simp
  moreover have "redemptions (\<lambda>x. x) ''t'' demo_tok_ops demo_db \<noteq> 0" by code_simp
  ultimately show ?thesis
    using enroll_token_single_use [of demo_db "\<lambda>x. x" "''t''" demo_tok_ops "''t''" 0] by linarith
qed

subsection \<open>Runs of the panel's convergence side\<close>

datatype conv_op =
    OpCommit codec unsealer int int actor string string "panel_db \<Rightarrow> panel_err + panel_db"
  | OpApplyRun apply_run_input
  | OpHello int "adapter_info list" int
  | OpHeartbeat int health_sample int
  | OpSweep int int
  | OpGeoUpdate int string string string int
  | OpCoreUpgrade int string string int
  | OpCapability node_capability
  | OpToken "string \<Rightarrow> string" token_op

fun conv_step :: "conv_op \<Rightarrow> panel_db \<Rightarrow> panel_db" where
  "conv_step (OpCommit c u now nid a rid reason mutate) d = snd (CommitNodeChange c u now nid a rid reason mutate d)"
| "conv_step (OpApplyRun i) d = snd (RecordApplyRun i d)"
| "conv_step (OpHello nid adapters now) d = snd (RecordHello nid adapters now d)"
| "conv_step (OpHeartbeat nid h now) d = snd (RecordHeartbeat nid h now d)"
| "conv_step (OpSweep after now) d = snd (Sweep after now d)"
| "conv_step (OpGeoUpdate nid k g1 g2 ts) d = snd (RecordGeoUpdate nid k g1 g2 ts d)"
| "conv_step (OpCoreUpgrade nid k v ts) d = snd (RecordCoreUpgrade nid k v ts d)"
| "conv_step (OpCapability cap) d = snd (RecordCapability cap d)"
| "conv_step (OpToken sha a) d = token_step sha a d"

fun conv_ok :: "conv_op \<Rightarrow> bool" where
  "conv_ok (OpCommit c u now nid a rid reason mutate) = respects_revisions mutate"
| "conv_ok _ = True"

lemma rev_inv_frames [simp]:
  "rev_inv (d\<lparr>t_adapter_registry := a\<rparr>) = rev_inv d" "rev_inv (d\<lparr>t_node_health := b\<rparr>) = rev_inv d"
  "rev_inv (d\<lparr>t_node_capabilities := c\<rparr>) = rev_inv d" "rev_inv (d\<lparr>t_enroll_tokens := e\<rparr>) = rev_inv d"
  "rev_inv (d\<lparr>t_audit_log := f\<rparr>) = rev_inv d"
  by (simp_all add: rev_inv_def revs_of_def node_revs_def)

lemma update_node_rev_inv:
  assumes "rev_inv d" and "update_node nid f d = Inr d'"
    and "\<And>n. n_id (f n) = n_id n" "\<And>n. n_desired_revision (f n) = n_desired_revision n"
  shows "rev_inv d'"
  using assms(2) unfolding update_node_Inr
  by (intro rev_inv_update [OF assms(1), of d' nid f]) (simp_all add: assms(3,4))

lemma commit_rev_inv:
  assumes "rev_inv d" and "respects_revisions mutate"
  shows "rev_inv (snd (CommitNodeChange c u now nid a rid reason mutate d))"
proof (cases "commit_tx c u now nid a rid reason mutate d")
  case (Inl e)
  then show ?thesis using assms(1) by (simp add: CommitNodeChange_def store_write_def)
next
  case (Inr p)
  obtain r d' where p: "p = (r, d')" by (cases p)
  obtain d1 snap where d1: "mutate d = Inr d1" "BuildDesiredSnapshot c u now nid d1 = Inr snap"
    using Inr [unfolded p] by (cases rule: commit_tx_cases) auto
  obtain m where "get_node d1 nid = Some m" using d1(2) by (rule Build_revision)
  then have "nid \<in> set (map n_id (t_nodes d1))" using get_node_Some by force
  also have "map n_id (t_nodes d1) = map n_id (t_nodes d)"
    using assms(2) d1(1) by (intro rev_view_ids) (simp add: respects_revisions_def)
  finally obtain n where "get_node d nid = Some n"
    by (cases "get_node d nid") (auto simp: get_node_def sql_one_None)
  from commit_spec(1) [OF assms this Inr [unfolded p]] show ?thesis
    by (simp add: CommitNodeChange_def store_write_def Inr p)
qed

lemma apply_run_rev_inv:
  assumes "rev_inv d"
  shows "rev_inv (snd (RecordApplyRun i d))"
proof (cases "apply_run_tx i d")
  case (Inl e)
  then show ?thesis using assms by (simp add: RecordApplyRun_def store_write_def)
next
  case (Inr p)
  obtain out d' where p: "p = (out, d')" by (cases p)
  obtain outcome status advance where dec: "decide d i = (outcome, status, advance)" by (cases "decide d i")
  note spec = apply_run_tx_Inr [OF Inr [unfolded p] dec]
  have "rev_inv d'"
    using spec by (intro rev_inv_update [OF assms, of d' "in_NodeID i" "run_update i status advance"]) simp_all
  then show ?thesis by (simp add: RecordApplyRun_def store_write_def Inr p)
qed

lemma upsert_rev_inv: "rev_inv d \<Longrightarrow> rev_inv (snd (UpsertAdapter nid a now d))"
  by (simp add: UpsertAdapter_def store_write_def Let_def)

lemma upserts_rev_inv: "rev_inv d \<Longrightarrow> rev_inv (snd (upsert_adapters nid as now d))"
proof (induction as arbitrary: d)
  case (Cons a as)
  obtain res d' where u: "UpsertAdapter nid a now d = (res, d')" by (cases "UpsertAdapter nid a now d")
  then have "rev_inv d'" using upsert_rev_inv [OF Cons.prems, of nid a now] by simp
  then show ?case using Cons.IH u by (cases res) simp_all
qed simp

lemma hello_rev_inv:
  assumes "rev_inv d"
  shows "rev_inv (snd (RecordHello nid as now d))"
proof -
  let ?u = "update_node nid (\<lambda>n. n\<lparr>n_adapter_kinds := map ai_Kind as, n_last_seen_at := Some now,
                    n_status := hello_status (n_status n)\<rparr>) d"
  show ?thesis
  proof (cases ?u)
    case (Inl e)
    then show ?thesis using assms by (simp add: RecordHello_def store_write_def)
  next
    case (Inr d')
    have "rev_inv d'" by (rule update_node_rev_inv [OF assms Inr]) simp_all
    then show ?thesis using Inr by (simp add: RecordHello_def store_write_def upserts_rev_inv)
  qed
qed

lemma heartbeat_rev_inv:
  assumes "rev_inv d"
  shows "rev_inv (snd (RecordHeartbeat nid h now d))"
proof -
  define d1 where "d1 = d\<lparr>t_node_health :=
              sql_delete (\<lambda>r. nh_node_id r = nid \<and> nh_at r = now) (t_node_health d) @
              [\<lparr>nh_node_id = nid, nh_at = now, nh_load1 = hs_Load1 h,
                nh_mem_used = int64_of_uint64 (hs_MemUsed h), nh_uptime_s = int64_of_uint64 (hs_UptimeS h),
                nh_rtt_ms = hs_RTTMs h, nh_adapter_status = hs_Adapters h\<rparr>]\<rparr>"
  have inv1: "rev_inv d1" using assms by (simp add: d1_def)
  let ?u = "update_node nid (\<lambda>n. n\<lparr>n_last_seen_at := Some now,
                n_status := (if n_status n = ''offline'' then ''online'' else n_status n)\<rparr>) d1"
  show ?thesis
  proof (cases ?u)
    case (Inl e)
    then show ?thesis using assms by (simp add: RecordHeartbeat_def store_write_def Let_def d1_def)
  next
    case (Inr d')
    have "rev_inv d'" by (rule update_node_rev_inv [OF inv1 Inr]) simp_all
    then show ?thesis using Inr assms by (simp add: RecordHeartbeat_def store_write_def Let_def d1_def)
  qed
qed

lemma sweep_rev_inv:
  assumes "rev_inv d"
  shows "rev_inv (snd (Sweep after now d))"
  unfolding Sweep_spec [OF assms] Let_def snd_conv
  by (rule rev_inv_view [OF _ assms])
     (simp add: rev_view_def set_offline_def sql_update_def comp_def if_distrib cong: if_cong)

lemma token_rev_inv: "rev_inv d \<Longrightarrow> rev_inv (token_step sha a d)"
proof (cases a)
  case (TokIssue token nid ac rid now)
  assume "rev_inv d"
  then show ?thesis
    by (simp add: TokIssue IssueEnrollToken_def store_write_def audit_InTx_def)
next
  case (TokRedeem token now)
  assume "rev_inv d"
  then show ?thesis
    using TokRedeem redeem_cases [of sha token now d] by auto
qed

lemma conv_step_inv: "conv_ok a \<Longrightarrow> rev_inv d \<Longrightarrow> rev_inv (conv_step a d)"
  by (cases a)
    (simp_all add: commit_rev_inv apply_run_rev_inv hello_rev_inv heartbeat_rev_inv sweep_rev_inv token_rev_inv
      RecordGeoUpdate_def RecordCoreUpgrade_def RecordCapability_def store_write_def Let_def)

interpretation conv_machine: invariant_machine conv_step conv_ok rev_inv
  by unfold_locales (rule conv_step_inv)

text \<open>C19: whatever commits, reports, hellos, heartbeats, sweeps and enrollments run, in whatever order and
  however many of them fail, every node's revision rows run from one to its desired revision without
  gap or repetition and its applied revision never exceeds the desired one.\<close>
theorem revisions_contiguous:
  assumes "list_all conv_ok ops" and "rev_inv d" and "n \<in> set (t_nodes (fold conv_step ops d))"
  shows "set (revs_of (fold conv_step ops d) (n_id n)) = {1 .. n_desired_revision n}
    \<and> distinct (revs_of (fold conv_step ops d) (n_id n))
    \<and> n_applied_revision n \<le> n_desired_revision n"
  using conv_machine.run_inv [OF assms(1,2)] assms(3) by (simp add: rev_inv_def)

definition demo_conv_ops :: "conv_op list" where
  "demo_conv_ops = [OpCommit demo_codec (Some Some) 100 1 (SystemActor ''op'') ''r1'' ''init'' Inr,
     OpApplyRun demo_report, OpSweep 0 1000]"

theorem revisions_contiguous_witness:
  "revs_of (fold conv_step demo_conv_ops demo_db) 1 = [1]
   \<and> set (revs_of (fold conv_step demo_conv_ops demo_db) 1) = {1 .. 1}"
proof -
  let ?n = "demo_node\<lparr>n_desired_revision := 1, n_applied_revision := 1, n_status := ''offline'', n_last_error := Some ''''\<rparr>"
  have "t_nodes (fold conv_step demo_conv_ops demo_db) = [?n]" by code_simp
  then have mem: "?n \<in> set (t_nodes (fold conv_step demo_conv_ops demo_db))" by simp
  have ok: "list_all conv_ok demo_conv_ops" by (simp add: demo_conv_ops_def Inr_respects)
  have "revs_of (fold conv_step demo_conv_ops demo_db) 1 = [1]" by code_simp
  then show ?thesis
    using revisions_contiguous [OF ok demo_rev_inv mem] by (simp add: demo_node_def)
qed

end
