(* ===== verification/Enforcer.thy ===== *)
theory Enforcer
  imports Prelude
begin

text \<open>
  The node's runtime policy enforcer, \<open>src/internal/node/enforcement/enforcement.go\<close>.

  The state is the Go struct's five maps; every exported method and every \<open>...Locked\<close> helper is a
  definition here. The mutex makes each method one atomic step, so a method is a function from
  state to state and concurrent use is a sequence of them. \<open>e.now\<close> is an argument, and times
  are integers. Messages of \<open>ErrPolicyViolation\<close> are the constructors of \<open>violation\<close>, with the
  numbers the message prints.
\<close>

section \<open>Data\<close>

record policy =
  pol_SubjectID :: int
  pol_MaxDevices :: "int option"
  pol_MaxIPs :: "int option"
  pol_MaxConnections :: "int option"
  pol_SpeedLimitUpKbps :: "int option"
  pol_SpeedLimitDownKbps :: "int option"
  pol_QuotaBytes :: "int option"
  pol_QuotaUsedBytes :: "int option"

record connection =
  conn_ID :: string
  conn_SubjectID :: int
  conn_DeviceID :: string
  conn_SourceIP :: string
  conn_Protocol :: string
  conn_ConnectedAt :: int
  conn_LastSeenAt :: int

record enforcer =
  policies :: "(int, policy) gomap"
  connections :: "(string, connection) gomap"
  subjectConns :: "(int, string list) gomap"
  subjectIPs :: "(int, string list) gomap"
  subjectDevs :: "(int, string list) gomap"

datatype violation =
    InvalidDeviceLimit
  | InvalidIPLimit
  | InvalidConnectionLimit
  | DeviceLimitReached nat int
  | IPLimitReached nat int
  | ConnectionLimitReached nat int
  | QuotaExhausted int int

definition New :: enforcer where
  "New = \<lparr>policies = [], connections = [], subjectConns = [], subjectIPs = [], subjectDevs = []\<rparr>"

section \<open>The locked helpers\<close>

definition terminateSubjectLocked :: "int \<Rightarrow> enforcer \<Rightarrow> enforcer" where
  "terminateSubjectLocked sid e =
     (let connIDs = go_list (subjectConns e) sid
      in e\<lparr>connections := fold go_del connIDs (connections e),
           subjectConns := go_del sid (subjectConns e),
           subjectIPs := go_del sid (subjectIPs e),
           subjectDevs := go_del sid (subjectDevs e)\<rparr>)"

text \<open>
  \<open>append(conns[:i], conns[i+1:]...)\<close> at the first match and \<open>return\<close>: the first occurrence goes;
  an emptied entry is deleted from the map; without a match nothing is written.
\<close>

definition removeSubjectConnLocked :: "int \<Rightarrow> string \<Rightarrow> enforcer \<Rightarrow> enforcer" where
  "removeSubjectConnLocked sid cid e =
     (let conns = go_list (subjectConns e) sid
      in if cid \<in> set conns then
           (let rest = remove1 cid conns
            in if rest = [] then e\<lparr>subjectConns := go_del sid (subjectConns e)\<rparr>
               else e\<lparr>subjectConns := go_set sid rest (subjectConns e)\<rparr>)
         else e)"

definition live_conns :: "enforcer \<Rightarrow> int \<Rightarrow> connection list" where
  "live_conns e sid = List.map_filter (\<lambda>cid. go_get (connections e) cid) (go_list (subjectConns e) sid)"

definition rebuildIPIndexLocked :: "int \<Rightarrow> enforcer \<Rightarrow> enforcer" where
  "rebuildIPIndexLocked sid e =
     (let ips = fold (\<lambda>c acc. List.insert (conn_SourceIP c) acc) (live_conns e sid) []
      in if ips = [] then e\<lparr>subjectIPs := go_del sid (subjectIPs e)\<rparr>
         else e\<lparr>subjectIPs := go_set sid ips (subjectIPs e)\<rparr>)"

definition rebuildDeviceIndexLocked :: "int \<Rightarrow> enforcer \<Rightarrow> enforcer" where
  "rebuildDeviceIndexLocked sid e =
     (let devs = fold (\<lambda>c acc. List.insert (conn_DeviceID c) acc) (live_conns e sid) []
      in if devs = [] then e\<lparr>subjectDevs := go_del sid (subjectDevs e)\<rparr>
         else e\<lparr>subjectDevs := go_set sid devs (subjectDevs e)\<rparr>)"

text \<open>
  The exchange sort of \<open>enforceConnectionLimitLocked\<close>, index by index: the inner loop runs \<open>j\<close>
  from \<open>i + 1\<close>, the outer one \<open>i\<close> up to \<open>len(conns) - 2\<close>, and an older element at \<open>j\<close> swaps
  with the one at \<open>i\<close>.
\<close>

definition swap :: "nat \<Rightarrow> nat \<Rightarrow> 'a list \<Rightarrow> 'a list" where
  "swap i j xs = xs[i := xs ! j, j := xs ! i]"

function sort_inner :: "nat \<Rightarrow> nat \<Rightarrow> (string \<times> int) list \<Rightarrow> (string \<times> int) list" where
  "sort_inner i j conns =
     (if j < length conns then
        sort_inner i (Suc j)
          (if snd (conns ! j) < snd (conns ! i) then swap i j conns else conns)
      else conns)"
  by pat_completeness auto
termination
  by (relation "measure (\<lambda>(i, j, conns). length conns - j)") (auto simp: swap_def)

declare sort_inner.simps [simp del]

lemma length_sort_inner [simp]: "length (sort_inner i j conns) = length conns"
proof (induction i j conns rule: sort_inner.induct)
  case (1 i j conns)
  then show ?case
    by (subst sort_inner.simps) (auto simp: swap_def)
qed

function sort_outer :: "nat \<Rightarrow> (string \<times> int) list \<Rightarrow> (string \<times> int) list" where
  "sort_outer i conns =
     (if i < length conns - 1 then sort_outer (Suc i) (sort_inner i (Suc i) conns) else conns)"
  by pat_completeness auto
termination
  by (relation "measure (\<lambda>(i, conns). length conns - i)") auto

declare sort_outer.simps [simp del]

definition sort_conns :: "(string \<times> int) list \<Rightarrow> (string \<times> int) list" where
  "sort_conns conns = sort_outer 0 conns"

text \<open>One turn of the terminating loop: drop the connection and its index entry.\<close>

definition drop_conn :: "string \<Rightarrow> enforcer \<Rightarrow> enforcer" where
  "drop_conn cid e =
     (let sid = (case go_get (connections e) cid of Some c \<Rightarrow> conn_SubjectID c | None \<Rightarrow> 0)
      in removeSubjectConnLocked sid cid (e\<lparr>connections := go_del cid (connections e)\<rparr>))"

definition enforceConnectionLimitLocked :: "int \<Rightarrow> int option \<Rightarrow> enforcer \<Rightarrow> enforcer" where
  "enforceConnectionLimitLocked sid maxConnections e =
     (case maxConnections of
        None \<Rightarrow> e
      | Some limit \<Rightarrow>
          if limit < 0 then terminateSubjectLocked sid e
          else if int (length (go_list (subjectConns e) sid)) \<le> limit then e
          else
            (let conns = List.map_filter
                   (\<lambda>cid. map_option (\<lambda>c. (cid, conn_ConnectedAt c)) (go_get (connections e) cid))
                   (go_list (subjectConns e) sid);
                 sorted_conns = sort_conns conns;
                 toTerminate = nat (int (length sorted_conns) - limit);
                 e1 = fold drop_conn (map fst (take toTerminate sorted_conns)) e
             in rebuildDeviceIndexLocked sid (rebuildIPIndexLocked sid e1)))"

section \<open>The methods\<close>

definition set_policies :: "policy list \<Rightarrow> (int, policy) gomap" where
  "set_policies ps = fold (\<lambda>p m. go_set (pol_SubjectID p) p m) ps []"

definition UpdatePolicies :: "policy list \<Rightarrow> enforcer \<Rightarrow> enforcer" where
  "UpdatePolicies ps e =
     (let newPolicies = set_policies ps;
          removed = filter (\<lambda>sid. go_get newPolicies sid = None) (go_keys (policies e));
          e1 = fold terminateSubjectLocked removed e;
          e2 = e1\<lparr>policies := newPolicies\<rparr>
      in fold (\<lambda>(sid, p). enforceConnectionLimitLocked sid (pol_MaxConnections p)) newPolicies e2)"

definition add_conn :: "int \<Rightarrow> string \<Rightarrow> int \<Rightarrow> string \<Rightarrow> string \<Rightarrow> string \<Rightarrow> enforcer \<Rightarrow> enforcer" where
  "add_conn now cid sid dev ip proto e =
     e\<lparr>connections := go_set cid
          \<lparr>conn_ID = cid, conn_SubjectID = sid, conn_DeviceID = dev, conn_SourceIP = ip,
           conn_Protocol = proto, conn_ConnectedAt = now, conn_LastSeenAt = now\<rparr> (connections e),
       subjectConns := go_set sid (go_list (subjectConns e) sid @ [cid]) (subjectConns e),
       subjectIPs := go_set sid (List.insert ip (go_list (subjectIPs e) sid)) (subjectIPs e),
       subjectDevs := go_set sid (List.insert dev (go_list (subjectDevs e) sid)) (subjectDevs e)\<rparr>"

definition touch_conn :: "int \<Rightarrow> string \<Rightarrow> enforcer \<Rightarrow> enforcer" where
  "touch_conn now cid e =
     (case go_get (connections e) cid of
        None \<Rightarrow> e
      | Some c \<Rightarrow> e\<lparr>connections := go_set cid (c\<lparr>conn_LastSeenAt := now\<rparr>) (connections e)\<rparr>)"

definition negative_limit :: "int option \<Rightarrow> bool" where
  "negative_limit lim = (case lim of None \<Rightarrow> False | Some m \<Rightarrow> m < 0)"

text \<open>
  The three limit checks, in the order both \<open>CheckAndRegisterConnection\<close> and
  \<open>CheckConnection\<close> make them; \<open>Some v\<close> is the rejection.
\<close>

definition limit_checks :: "policy \<Rightarrow> int \<Rightarrow> string \<Rightarrow> string \<Rightarrow> enforcer \<Rightarrow> violation option" where
  "limit_checks p sid dev ip e =
     (let devices = go_list (subjectDevs e) sid;
          ips = go_list (subjectIPs e) sid;
          conns = go_list (subjectConns e) sid;
          dev_hit = (case pol_MaxDevices p of None \<Rightarrow> False
                     | Some m \<Rightarrow> int (length devices) \<ge> m \<and> dev \<notin> set devices);
          ip_hit = (case pol_MaxIPs p of None \<Rightarrow> False
                    | Some m \<Rightarrow> int (length ips) \<ge> m \<and> ip \<notin> set ips);
          conn_hit = (case pol_MaxConnections p of None \<Rightarrow> False
                      | Some m \<Rightarrow> int (length conns) \<ge> m)
      in if dev_hit then Some (DeviceLimitReached (length devices) (the (pol_MaxDevices p)))
         else if ip_hit then Some (IPLimitReached (length ips) (the (pol_MaxIPs p)))
         else if conn_hit then Some (ConnectionLimitReached (length conns) (the (pol_MaxConnections p)))
         else None)"

definition quota_check :: "policy \<Rightarrow> violation option" where
  "quota_check p =
     (case (pol_QuotaBytes p, pol_QuotaUsedBytes p) of
        (Some q, Some u) \<Rightarrow> if u \<ge> q then Some (QuotaExhausted u q) else None
      | _ \<Rightarrow> None)"

definition CheckAndRegisterConnection ::
  "int \<Rightarrow> string \<Rightarrow> int \<Rightarrow> string \<Rightarrow> string \<Rightarrow> string \<Rightarrow> enforcer \<Rightarrow> violation option \<times> enforcer" where
  "CheckAndRegisterConnection now cid sid dev ip proto e =
     (if go_get (connections e) cid \<noteq> None then (None, touch_conn now cid e)
      else
        (case go_get (policies e) sid of
           None \<Rightarrow> (None, add_conn now cid sid dev ip proto e)
         | Some p \<Rightarrow>
             if negative_limit (pol_MaxDevices p) then (Some InvalidDeviceLimit, e)
             else if negative_limit (pol_MaxIPs p) then (Some InvalidIPLimit, e)
             else if negative_limit (pol_MaxConnections p) then (Some InvalidConnectionLimit, e)
             else
               (case limit_checks p sid dev ip e of
                  Some v \<Rightarrow> (Some v, e)
                | None \<Rightarrow>
                    (case quota_check p of
                       Some v \<Rightarrow> (Some v, e)
                     | None \<Rightarrow> (None, add_conn now cid sid dev ip proto e)))))"

definition CheckConnection :: "int \<Rightarrow> string \<Rightarrow> string \<Rightarrow> enforcer \<Rightarrow> violation option" where
  "CheckConnection sid dev ip e =
     (case go_get (policies e) sid of None \<Rightarrow> None | Some p \<Rightarrow> limit_checks p sid dev ip e)"

definition registerConnectionLocked ::
  "int \<Rightarrow> string \<Rightarrow> int \<Rightarrow> string \<Rightarrow> string \<Rightarrow> string \<Rightarrow> enforcer \<Rightarrow> string + enforcer" where
  "registerConnectionLocked now cid sid dev ip proto e =
     (if go_get (connections e) cid \<noteq> None then Inl (''connection '' @ cid @ '' already registered'')
      else Inr (add_conn now cid sid dev ip proto e))"

definition RegisterConnection ::
  "int \<Rightarrow> string \<Rightarrow> int \<Rightarrow> string \<Rightarrow> string \<Rightarrow> string \<Rightarrow> enforcer \<Rightarrow> enforcer" where
  "RegisterConnection now cid sid dev ip proto e =
     (if go_get (connections e) cid \<noteq> None then e
      else (case registerConnectionLocked now cid sid dev ip proto e of Inl _ \<Rightarrow> e | Inr e' \<Rightarrow> e'))"

definition UpdateLastSeen :: "int \<Rightarrow> string \<Rightarrow> enforcer \<Rightarrow> enforcer" where
  "UpdateLastSeen now cid e = touch_conn now cid e"

definition UnregisterConnection :: "string \<Rightarrow> enforcer \<Rightarrow> enforcer" where
  "UnregisterConnection cid e =
     (case go_get (connections e) cid of
        None \<Rightarrow> e
      | Some c \<Rightarrow>
          (let e1 = e\<lparr>connections := go_del cid (connections e)\<rparr>;
               e2 = removeSubjectConnLocked (conn_SubjectID c) cid e1;
               e3 = rebuildIPIndexLocked (conn_SubjectID c) e2
           in rebuildDeviceIndexLocked (conn_SubjectID c) e3))"

definition GetSpeedLimits :: "int \<Rightarrow> enforcer \<Rightarrow> int option \<times> int option" where
  "GetSpeedLimits sid e =
     (case go_get (policies e) sid of
        None \<Rightarrow> (None, None)
      | Some p \<Rightarrow> (pol_SpeedLimitUpKbps p, pol_SpeedLimitDownKbps p))"

definition GetActiveConnections :: "int \<Rightarrow> enforcer \<Rightarrow> connection list" where
  "GetActiveConnections sid e = live_conns e sid"

text \<open>
  \<open>CleanupStale\<close> as written: the affected subjects are looked up in \<open>e.connections\<close> after the
  stale connections have been deleted from it.
\<close>

definition CleanupStale :: "int \<Rightarrow> int \<Rightarrow> enforcer \<Rightarrow> nat \<times> enforcer" where
  "CleanupStale now threshold e =
     (let cutoff = now - threshold;
          removed = map fst (filter (\<lambda>(cid, c). conn_LastSeenAt c < cutoff) (connections e));
          e1 = fold drop_conn removed e;
          affected = remdups (List.map_filter
                       (\<lambda>cid. map_option conn_SubjectID (go_get (connections e1) cid)) removed);
          e2 = fold (\<lambda>sid s. rebuildDeviceIndexLocked sid (rebuildIPIndexLocked sid s)) affected e1
      in (length removed, e2))"

record enforcement_stats =
  TotalConnections :: nat
  TrackedSubjects :: nat
  UniqueIPs :: nat
  UniqueDevices :: nat

definition countUniqueIPs :: "enforcer \<Rightarrow> nat" where
  "countUniqueIPs e = length (fold (\<lambda>(sid, ips) seen. fold List.insert ips seen) (subjectIPs e) [])"

definition countUniqueDevices :: "enforcer \<Rightarrow> nat" where
  "countUniqueDevices e = length (fold (\<lambda>(sid, devs) seen. fold List.insert devs seen) (subjectDevs e) [])"

definition Stats :: "enforcer \<Rightarrow> enforcement_stats" where
  "Stats e = \<lparr>TotalConnections = length (connections e), TrackedSubjects = length (policies e),
              UniqueIPs = countUniqueIPs e, UniqueDevices = countUniqueDevices e\<rparr>"

section \<open>Lemmas\<close>

subsection \<open>The exchange sort\<close>

lemma mset_swap_conns [simp]:
  "i < length xs \<Longrightarrow> j < length xs \<Longrightarrow> mset (swap i j xs) = mset xs"
  unfolding swap_def by (metis mset_swap)

lemma length_swap [simp]: "length (swap i j xs) = length xs"
  by (simp add: swap_def)

lemma nth_swap:
  "i < length xs \<Longrightarrow> j < length xs \<Longrightarrow>
     swap i j xs ! k = (if k = j then xs ! i else if k = i then xs ! j else xs ! k)"
  by (auto simp: swap_def nth_list_update)

lemma sort_inner_spec:
  assumes "i < j" and "j \<le> length xs" and "\<forall>k. i < k \<and> k < j \<longrightarrow> snd (xs ! i) \<le> snd (xs ! k)"
  shows "mset (sort_inner i j xs) = mset xs
    \<and> (\<forall>k < i. sort_inner i j xs ! k = xs ! k)
    \<and> (\<forall>k. i < k \<and> k < length xs \<longrightarrow> snd (sort_inner i j xs ! i) \<le> snd (sort_inner i j xs ! k))"
  using assms
proof (induction i j xs rule: sort_inner.induct)
  case (1 i j xs)
  show ?case
  proof (cases "j < length xs")
    case False
    then have "sort_inner i j xs = xs" by (simp add: sort_inner.simps [of i j xs])
    with False "1.prems" show ?thesis by simp
  next
    case True
    define ys where "ys = (if snd (xs ! j) < snd (xs ! i) then swap i j xs else xs)"
    have len: "length ys = length xs" and ms: "mset ys = mset xs"
      and before: "\<forall>k < i. ys ! k = xs ! k"
      using True "1.prems" by (auto simp: ys_def nth_swap)
    have step: "\<forall>k. i < k \<and> k < Suc j \<longrightarrow> snd (ys ! i) \<le> snd (ys ! k)"
      using True "1.prems" by (auto simp: ys_def nth_swap less_Suc_eq)
    have "sort_inner i j xs = sort_inner i (Suc j) ys"
      using True by (simp add: sort_inner.simps [of i j xs] ys_def)
    moreover have "mset (sort_inner i (Suc j) ys) = mset ys
      \<and> (\<forall>k < i. sort_inner i (Suc j) ys ! k = ys ! k)
      \<and> (\<forall>k. i < k \<and> k < length ys \<longrightarrow>
            snd (sort_inner i (Suc j) ys ! i) \<le> snd (sort_inner i (Suc j) ys ! k))"
      using "1.IH" [OF True] step True len "1.prems"(1) unfolding ys_def by auto
    ultimately show ?thesis using ms before len by simp
  qed
qed

lemma drop_eq_mset_if_take_eq:
  assumes "mset xs = mset ys" and "take i xs = take i ys"
  shows "mset (drop i xs) = mset (drop i ys)"
  using assms by (metis add_left_imp_eq append_take_drop_id mset_append)

lemma sort_outer_spec:
  assumes "i \<le> length xs" and "sorted (map snd (take i xs))"
    and "\<forall>a \<in> set (take i xs). \<forall>b \<in> set (drop i xs). snd a \<le> snd b"
  shows "mset (sort_outer i xs) = mset xs \<and> sorted (map snd (sort_outer i xs))"
  using assms
proof (induction i xs rule: sort_outer.induct)
  case (1 i xs)
  show ?case
  proof (cases "i < length xs - 1")
    case False
    then have stop: "sort_outer i xs = xs" by (simp add: sort_outer.simps [of i xs])
    have "length (drop i xs) \<le> 1" using False by simp
    then have "sorted (map snd (drop i xs))" by (cases "drop i xs") auto
    moreover have "sorted (map snd (take i xs) @ map snd (drop i xs))"
      using "1.prems" calculation by (auto simp: sorted_append)
    ultimately show ?thesis
      using stop by (metis append_take_drop_id map_append)
  next
    case True
    define ys where "ys = sort_inner i (Suc i) xs"
    have inner: "mset ys = mset xs" "\<forall>k < i. ys ! k = xs ! k"
      "\<forall>k. i < k \<and> k < length xs \<longrightarrow> snd (ys ! i) \<le> snd (ys ! k)"
      using sort_inner_spec [of i "Suc i" xs] True by (auto simp: ys_def)
    have len: "length ys = length xs" using inner(1) by (metis size_mset)
    have tk: "take i ys = take i xs"
      using inner(2) len True by (auto intro!: nth_equalityI)
    have dr: "set (drop i ys) = set (drop i xs)"
      using drop_eq_mset_if_take_eq [OF inner(1) tk] by (metis set_mset_mset)
    have cons: "drop i ys = ys ! i # drop (Suc i) ys"
      using True len by (simp add: Cons_nth_drop_Suc)
    have tk': "take (Suc i) ys = take i xs @ [ys ! i]"
      using True len tk by (simp add: take_Suc_conv_app_nth)
    have min: "\<forall>b \<in> set (drop (Suc i) ys). snd (ys ! i) \<le> snd b"
    proof
      fix b assume "b \<in> set (drop (Suc i) ys)"
      then obtain k where "k < length ys - Suc i" and b: "b = ys ! (Suc i + k)"
        by (auto simp: in_set_conv_nth)
      then show "snd (ys ! i) \<le> snd b"
        using inner(3) len by simp
    qed
    have pre: "\<forall>a \<in> set (take i xs). \<forall>b \<in> set (drop i ys). snd a \<le> snd b"
      using "1.prems"(3) dr by simp
    have "sorted (map snd (take (Suc i) ys))"
      using "1.prems"(2) pre cons tk' by (auto simp: sorted_append)
    moreover have "\<forall>a \<in> set (take (Suc i) ys). \<forall>b \<in> set (drop (Suc i) ys). snd a \<le> snd b"
      using pre min cons tk' by auto
    ultimately have "mset (sort_outer (Suc i) ys) = mset ys \<and> sorted (map snd (sort_outer (Suc i) ys))"
      using "1.IH" [OF True] True len unfolding ys_def by auto
    then show ?thesis
      using True inner(1) by (simp add: sort_outer.simps [of i xs] ys_def)
  qed
qed

lemma sort_conns_spec: "mset (sort_conns xs) = mset xs" "sorted (map snd (sort_conns xs))"
  using sort_outer_spec [of 0 xs] by (auto simp: sort_conns_def)

subsection \<open>The invariant\<close>

definition conns_of :: "enforcer \<Rightarrow> int \<Rightarrow> string set" where
  "conns_of e sid = {cid. \<exists>c. go_get (connections e) cid = Some c \<and> conn_SubjectID c = sid}"

definition ips_of :: "enforcer \<Rightarrow> int \<Rightarrow> string set" where
  "ips_of e sid = {conn_SourceIP c |c. \<exists>cid. go_get (connections e) cid = Some c \<and> conn_SubjectID c = sid}"

definition devs_of :: "enforcer \<Rightarrow> int \<Rightarrow> string set" where
  "devs_of e sid = {conn_DeviceID c |c. \<exists>cid. go_get (connections e) cid = Some c \<and> conn_SubjectID c = sid}"

definition maps_wf :: "enforcer \<Rightarrow> bool" where
  "maps_wf e \<longleftrightarrow> go_wf (policies e) \<and> go_wf (connections e) \<and> go_wf (subjectConns e)
     \<and> go_wf (subjectIPs e) \<and> go_wf (subjectDevs e)"

definition conn_index_wf :: "enforcer \<Rightarrow> bool" where
  "conn_index_wf e \<longleftrightarrow>
     (\<forall>sid. distinct (go_list (subjectConns e) sid) \<and> set (go_list (subjectConns e) sid) = conns_of e sid)"

definition covering :: "enforcer \<Rightarrow> bool" where
  "covering e \<longleftrightarrow>
     (\<forall>sid. distinct (go_list (subjectIPs e) sid) \<and> distinct (go_list (subjectDevs e) sid)
        \<and> ips_of e sid \<subseteq> set (go_list (subjectIPs e) sid)
        \<and> devs_of e sid \<subseteq> set (go_list (subjectDevs e) sid))"

definition exact_at :: "int \<Rightarrow> enforcer \<Rightarrow> bool" where
  "exact_at sid e \<longleftrightarrow>
     set (go_list (subjectIPs e) sid) = ips_of e sid \<and> set (go_list (subjectDevs e) sid) = devs_of e sid"

definition enf_wf :: "enforcer \<Rightarrow> bool" where
  "enf_wf e \<longleftrightarrow> maps_wf e \<and> conn_index_wf e \<and> covering e"

definition exact :: "enforcer \<Rightarrow> bool" where
  "exact e \<longleftrightarrow> (\<forall>sid. exact_at sid e)"

lemma enf_wf_index [simp]: "enf_wf e \<Longrightarrow> conn_index_wf e"
  by (simp add: enf_wf_def)

lemma go_get_fold_del [simp]:
  "go_get (fold go_del ks m) k = (if k \<in> set ks then None else go_get m k)"
  by (induction ks arbitrary: m) auto

lemma go_wf_fold_del [simp]: "go_wf m \<Longrightarrow> go_wf (fold go_del ks m)"
  by (induction ks arbitrary: m) auto

lemma fold_insert_spec:
  "set (fold (\<lambda>c acc. List.insert (f c) acc) cs acc) = f ` set cs \<union> set acc"
  "distinct acc \<Longrightarrow> distinct (fold (\<lambda>c acc. List.insert (f c) acc) cs acc)"
  by (induction cs arbitrary: acc) auto

lemma set_live_conns:
  "set (live_conns e sid) = {c. \<exists>cid \<in> set (go_list (subjectConns e) sid). go_get (connections e) cid = Some c}"
  by (force simp: live_conns_def List.map_filter_def)

lemma live_conns_wf:
  "conn_index_wf e \<Longrightarrow>
     set (live_conns e sid) = {c. \<exists>cid. go_get (connections e) cid = Some c \<and> conn_SubjectID c = sid}"
  by (auto simp: set_live_conns conn_index_wf_def conns_of_def)

subsection \<open>Terminating a subject\<close>

lemma terminate_get [simp]:
  "go_get (connections (terminateSubjectLocked sid e)) cid
     = (if cid \<in> set (go_list (subjectConns e) sid) then None else go_get (connections e) cid)"
  by (simp add: terminateSubjectLocked_def Let_def)

lemma terminate_lists [simp]:
  "go_list (subjectConns (terminateSubjectLocked sid e)) s = (if s = sid then [] else go_list (subjectConns e) s)"
  "go_list (subjectIPs (terminateSubjectLocked sid e)) s = (if s = sid then [] else go_list (subjectIPs e) s)"
  "go_list (subjectDevs (terminateSubjectLocked sid e)) s = (if s = sid then [] else go_list (subjectDevs e) s)"
  "policies (terminateSubjectLocked sid e) = policies e"
  by (simp_all add: terminateSubjectLocked_def Let_def)

lemma terminate_conns_of:
  "conn_index_wf e \<Longrightarrow> go_get (connections (terminateSubjectLocked sid e)) cid = Some c
     \<longleftrightarrow> go_get (connections e) cid = Some c \<and> conn_SubjectID c \<noteq> sid"
  by (auto simp: conn_index_wf_def conns_of_def)

lemma terminate_maps_wf: "maps_wf e \<Longrightarrow> maps_wf (terminateSubjectLocked sid e)"
  by (simp add: maps_wf_def terminateSubjectLocked_def Let_def)

lemma terminate_sets:
  assumes "conn_index_wf e"
  shows "conns_of (terminateSubjectLocked sid e) s = (if s = sid then {} else conns_of e s)"
    and "ips_of (terminateSubjectLocked sid e) s = (if s = sid then {} else ips_of e s)"
    and "devs_of (terminateSubjectLocked sid e) s = (if s = sid then {} else devs_of e s)"
  unfolding conns_of_def ips_of_def devs_of_def terminate_conns_of [OF assms] by auto

lemma terminate_enf_wf: "enf_wf e \<Longrightarrow> enf_wf (terminateSubjectLocked sid e)"
  by (auto simp: enf_wf_def terminate_maps_wf conn_index_wf_def covering_def terminate_sets)

lemma terminate_exact: "enf_wf e \<Longrightarrow> exact e \<Longrightarrow> exact (terminateSubjectLocked sid e)"
  by (auto simp: exact_def exact_at_def enf_wf_def terminate_sets)

subsection \<open>Dropping single connections\<close>

lemma drop_conn_get [simp]:
  "go_get (connections (drop_conn cid e)) k = (if k = cid then None else go_get (connections e) k)"
  by (simp add: drop_conn_def removeSubjectConnLocked_def Let_def)

lemma drop_conn_simps [simp]:
  "subjectIPs (drop_conn cid e) = subjectIPs e" "subjectDevs (drop_conn cid e) = subjectDevs e"
  "policies (drop_conn cid e) = policies e"
  by (simp_all add: drop_conn_def removeSubjectConnLocked_def Let_def)

lemma drop_conn_index:
  assumes "conn_index_wf e"
  shows "go_list (subjectConns (drop_conn cid e)) s = remove1 cid (go_list (subjectConns e) s)"
proof (cases "go_get (connections e) cid")
  case None
  then have "\<And>s. cid \<notin> set (go_list (subjectConns e) s)"
    using assms by (auto simp: conn_index_wf_def conns_of_def)
  then show ?thesis
    using None by (simp add: drop_conn_def removeSubjectConnLocked_def Let_def remove1_idem)
next
  case (Some c)
  then have "cid \<in> set (go_list (subjectConns e) s) \<longleftrightarrow> s = conn_SubjectID c" for s
    using assms by (auto simp: conn_index_wf_def conns_of_def)
  then show ?thesis
    using Some by (auto simp: drop_conn_def removeSubjectConnLocked_def Let_def remove1_idem)
qed

lemma drop_conn_conns_of:
  "conns_of (drop_conn cid e) s = conns_of e s - {cid}"
  by (auto simp: conns_of_def)

lemma drop_conn_index_wf:
  assumes "conn_index_wf e"
  shows "conn_index_wf (drop_conn cid e)"
  using assms by (auto simp: conn_index_wf_def drop_conn_index [OF assms] drop_conn_conns_of)

lemma drop_conn_maps_wf: "maps_wf e \<Longrightarrow> maps_wf (drop_conn cid e)"
  by (simp add: maps_wf_def drop_conn_def removeSubjectConnLocked_def Let_def)

lemma drop_conn_shrinks:
  "ips_of (drop_conn cid e) s \<subseteq> ips_of e s" "devs_of (drop_conn cid e) s \<subseteq> devs_of e s"
  by (auto simp: ips_of_def devs_of_def split: if_splits)

lemma drop_conn_enf_wf: "enf_wf e \<Longrightarrow> enf_wf (drop_conn cid e)"
  by (auto simp: enf_wf_def drop_conn_maps_wf drop_conn_index_wf covering_def
      dest!: subsetD [OF drop_conn_shrinks(1)] subsetD [OF drop_conn_shrinks(2)])

lemma fold_drop_conn:
  assumes "enf_wf e"
  shows "enf_wf (fold drop_conn cids e)"
    and "go_get (connections (fold drop_conn cids e)) k = (if k \<in> set cids then None else go_get (connections e) k)"
    and "go_list (subjectConns (fold drop_conn cids e)) s = fold remove1 cids (go_list (subjectConns e) s)"
    and "policies (fold drop_conn cids e) = policies e"
    and "subjectIPs (fold drop_conn cids e) = subjectIPs e"
    and "subjectDevs (fold drop_conn cids e) = subjectDevs e"
  using assms
  by (induction cids arbitrary: e) (auto simp: drop_conn_enf_wf drop_conn_index)

lemma fold_remove1_distinct:
  assumes "distinct xs"
  shows "distinct (fold remove1 cids xs)" and "set (fold remove1 cids xs) = set xs - set cids"
  using assms by (induction cids arbitrary: xs) auto

subsection \<open>Rebuilding the indexes\<close>

definition rebuild_both :: "int \<Rightarrow> enforcer \<Rightarrow> enforcer" where
  "rebuild_both sid e = rebuildDeviceIndexLocked sid (rebuildIPIndexLocked sid e)"

lemma rebuildIP_simps [simp]:
  "connections (rebuildIPIndexLocked sid e) = connections e"
  "subjectConns (rebuildIPIndexLocked sid e) = subjectConns e"
  "subjectDevs (rebuildIPIndexLocked sid e) = subjectDevs e"
  "policies (rebuildIPIndexLocked sid e) = policies e"
  by (simp_all add: rebuildIPIndexLocked_def Let_def)

lemma rebuildDevice_simps [simp]:
  "connections (rebuildDeviceIndexLocked sid e) = connections e"
  "subjectConns (rebuildDeviceIndexLocked sid e) = subjectConns e"
  "subjectIPs (rebuildDeviceIndexLocked sid e) = subjectIPs e"
  "policies (rebuildDeviceIndexLocked sid e) = policies e"
  by (simp_all add: rebuildDeviceIndexLocked_def Let_def)

lemma rebuildIP_list:
  "go_list (subjectIPs (rebuildIPIndexLocked sid e)) s =
     (if s = sid then fold (\<lambda>c acc. List.insert (conn_SourceIP c) acc) (live_conns e sid) []
      else go_list (subjectIPs e) s)"
  by (simp add: rebuildIPIndexLocked_def Let_def)

lemma rebuildDevice_list:
  "go_list (subjectDevs (rebuildDeviceIndexLocked sid e)) s =
     (if s = sid then fold (\<lambda>c acc. List.insert (conn_DeviceID c) acc) (live_conns e sid) []
      else go_list (subjectDevs e) s)"
  by (simp add: rebuildDeviceIndexLocked_def Let_def)

lemma live_conns_rebuildIP [simp]: "live_conns (rebuildIPIndexLocked sid e) s = live_conns e s"
  by (simp add: live_conns_def)

lemma rebuild_both_simps [simp]:
  "connections (rebuild_both sid e) = connections e"
  "subjectConns (rebuild_both sid e) = subjectConns e"
  "policies (rebuild_both sid e) = policies e"
  "conns_of (rebuild_both sid e) s = conns_of e s"
  "ips_of (rebuild_both sid e) s = ips_of e s"
  "devs_of (rebuild_both sid e) s = devs_of e s"
  by (simp_all add: rebuild_both_def conns_of_def ips_of_def devs_of_def)

lemma rebuild_both_maps_wf: "maps_wf e \<Longrightarrow> maps_wf (rebuild_both sid e)"
  by (simp add: rebuild_both_def maps_wf_def rebuildIPIndexLocked_def rebuildDeviceIndexLocked_def Let_def)

lemma rebuild_both_sets:
  assumes "conn_index_wf e"
  shows "set (go_list (subjectIPs (rebuild_both sid e)) s) =
           (if s = sid then ips_of e s else set (go_list (subjectIPs e) s))"
    and "set (go_list (subjectDevs (rebuild_both sid e)) s) =
           (if s = sid then devs_of e s else set (go_list (subjectDevs e) s))"
  by (auto simp: rebuild_both_def rebuildIP_list rebuildDevice_list fold_insert_spec
      live_conns_wf [OF assms] ips_of_def devs_of_def)

lemma rebuild_both_distinct:
  assumes "covering e"
  shows "distinct (go_list (subjectIPs (rebuild_both sid e)) s)"
    and "distinct (go_list (subjectDevs (rebuild_both sid e)) s)"
  using assms
  by (auto simp: rebuild_both_def rebuildIP_list rebuildDevice_list covering_def
      intro!: fold_insert_spec(2))

lemma rebuild_both_enf_wf: "enf_wf e \<Longrightarrow> enf_wf (rebuild_both sid e)"
  by (auto simp: enf_wf_def rebuild_both_maps_wf conn_index_wf_def)
     (auto simp: covering_def rebuild_both_distinct rebuild_both_sets conn_index_wf_def)

lemma rebuild_both_exact_at:
  assumes "enf_wf e" and "s \<noteq> sid \<longrightarrow> exact_at s e"
  shows "exact_at s (rebuild_both sid e)"
  using assms by (auto simp: exact_at_def rebuild_both_sets)

subsection \<open>Enforcing a connection limit\<close>

lemma map_filter_all_Some:
  "(\<And>x. x \<in> set xs \<Longrightarrow> f x = Some (g x)) \<Longrightarrow> List.map_filter f xs = map g xs"
  by (induction xs) auto

definition conn_times :: "enforcer \<Rightarrow> int \<Rightarrow> (string \<times> int) list" where
  "conn_times e sid = List.map_filter
     (\<lambda>cid. map_option (\<lambda>c. (cid, conn_ConnectedAt c)) (go_get (connections e) cid))
     (go_list (subjectConns e) sid)"

lemma conn_times_eq:
  assumes "conn_index_wf e"
  shows "conn_times e sid = map (\<lambda>cid. (cid, conn_ConnectedAt (the (go_get (connections e) cid))))
           (go_list (subjectConns e) sid)"
  unfolding conn_times_def
  by (rule map_filter_all_Some) (use assms in \<open>auto simp: conn_index_wf_def conns_of_def\<close>)

definition excess :: "enforcer \<Rightarrow> int \<Rightarrow> int \<Rightarrow> string list" where
  "excess e sid limit =
     (let s = sort_conns (conn_times e sid) in map fst (take (nat (int (length s) - limit)) s))"

lemma enforce_eq:
  "enforceConnectionLimitLocked sid (Some limit) e =
     (if limit < 0 then terminateSubjectLocked sid e
      else if int (length (go_list (subjectConns e) sid)) \<le> limit then e
      else rebuild_both sid (fold drop_conn (excess e sid limit) e))"
  by (simp add: enforceConnectionLimitLocked_def Let_def excess_def conn_times_def rebuild_both_def)

lemma mset_sorted_ids:
  assumes "conn_index_wf e"
  shows "mset (map fst (sort_conns (conn_times e sid))) = mset (go_list (subjectConns e) sid)"
proof -
  have "mset (map fst (sort_conns (conn_times e sid))) = mset (map fst (conn_times e sid))"
    by (simp add: sort_conns_spec)
  also have "map fst (conn_times e sid) = go_list (subjectConns e) sid"
    by (simp add: conn_times_eq [OF assms] comp_def)
  finally show ?thesis .
qed

lemma length_sort_conns: "length (sort_conns xs) = length xs"
  by (metis size_mset sort_conns_spec(1))

lemma excess_props:
  assumes wf: "enf_wf e" and "0 \<le> limit" and "limit \<le> int (length (go_list (subjectConns e) sid))"
  shows "set (excess e sid limit) \<subseteq> conns_of e sid" and "distinct (excess e sid limit)"
    and "int (length (excess e sid limit)) = int (length (go_list (subjectConns e) sid)) - limit"
proof -
  let ?s = "sort_conns (conn_times e sid)" and ?l = "go_list (subjectConns e) sid"
  have ix: "conn_index_wf e" using wf by simp
  have len: "length ?s = length ?l"
    by (simp add: length_sort_conns conn_times_eq [OF ix])
  have eq: "excess e sid limit = take (nat (int (length ?l) - limit)) (map fst ?s)"
    by (simp add: excess_def Let_def len take_map)
  have st: "set (map fst ?s) = set ?l" and "distinct (map fst ?s)"
    using mset_sorted_ids [OF ix, of sid] ix
    by (metis set_mset_mset, metis conn_index_wf_def mset_eq_imp_distinct_iff)
  then show "distinct (excess e sid limit)" by (simp add: eq)
  show "set (excess e sid limit) \<subseteq> conns_of e sid"
    using st ix by (auto simp: eq conn_index_wf_def dest!: in_set_takeD)
  show "int (length (excess e sid limit)) = int (length ?l) - limit"
    using assms(2,3) len by (simp add: eq)
qed

lemma length_fold_remove1:
  "distinct xs \<Longrightarrow> distinct cids \<Longrightarrow> set cids \<subseteq> set xs \<Longrightarrow>
     length (fold remove1 cids xs) = length xs - length cids"
proof -
  assume d: "distinct xs" "distinct cids" and sub: "set cids \<subseteq> set xs"
  have "length (fold remove1 cids xs) = card (set xs - set cids)"
    using fold_remove1_distinct [OF d(1), of cids] by (metis distinct_card)
  also have "\<dots> = length xs - length cids"
    using d sub by (simp add: card_Diff_subset distinct_card)
  finally show ?thesis .
qed

lemma enforce_enf_wf: "enf_wf e \<Longrightarrow> enf_wf (enforceConnectionLimitLocked sid lim e)"
  by (cases lim)
     (auto simp: enforceConnectionLimitLocked_def [of sid None] enforce_eq terminate_enf_wf
        rebuild_both_enf_wf fold_drop_conn)

lemma enforce_policies [simp]: "enf_wf e \<Longrightarrow> policies (enforceConnectionLimitLocked sid lim e) = policies e"
  by (cases lim) (auto simp: enforceConnectionLimitLocked_def [of sid None] enforce_eq fold_drop_conn)

lemma fold_remove1_disjoint: "set cs \<inter> set xs = {} \<Longrightarrow> fold remove1 cs xs = xs"
  by (induction cs arbitrary: xs) (auto simp: remove1_idem)

lemma excess_disjoint:
  assumes "enf_wf e" and "s \<noteq> sid" and "0 \<le> limit" and "limit \<le> int (length (go_list (subjectConns e) sid))"
  shows "set (excess e sid limit) \<inter> set (go_list (subjectConns e) s) = {}"
  using excess_props(1) [OF assms(1,3,4)] assms
  by (auto simp: enf_wf_def conn_index_wf_def conns_of_def)

lemma enforce_other:
  assumes "enf_wf e" and "s \<noteq> sid"
  shows "go_list (subjectConns (enforceConnectionLimitLocked sid lim e)) s = go_list (subjectConns e) s"
proof (cases lim)
  case None
  then show ?thesis by (simp add: enforceConnectionLimitLocked_def)
next
  case (Some limit)
  then show ?thesis
    using assms excess_disjoint [OF assms, of limit]
    by (auto simp: enforce_eq fold_drop_conn fold_remove1_disjoint)
qed

lemma fold_drop_others:
  assumes "enf_wf e" and "set cids \<subseteq> conns_of e sid" and "s \<noteq> sid"
  shows "ips_of (fold drop_conn cids e) s = ips_of e s"
    and "devs_of (fold drop_conn cids e) s = devs_of e s"
  using assms by (force simp: conns_of_def ips_of_def devs_of_def fold_drop_conn)+

lemma enforce_exact:
  assumes "enf_wf e" and "exact e"
  shows "exact (enforceConnectionLimitLocked sid lim e)"
proof (cases lim)
  case None
  then show ?thesis using assms by (simp add: enforceConnectionLimitLocked_def)
next
  case (Some limit)
  have "exact_at s (rebuild_both sid (fold drop_conn (excess e sid limit) e))"
    if "0 \<le> limit" "limit \<le> int (length (go_list (subjectConns e) sid))" for s
  proof (rule rebuild_both_exact_at)
    show "enf_wf (fold drop_conn (excess e sid limit) e)" using assms(1) by (rule fold_drop_conn)
    show "s \<noteq> sid \<longrightarrow> exact_at s (fold drop_conn (excess e sid limit) e)"
      using assms excess_props(1) [OF assms(1) that]
      by (auto simp: exact_def exact_at_def fold_drop_conn fold_drop_others)
  qed
  then show ?thesis
    using Some assms by (auto simp: enforce_eq terminate_exact exact_def [of "rebuild_both _ _"])
qed

lemma enforce_bound:
  assumes "enf_wf e"
  shows "int (length (go_list (subjectConns (enforceConnectionLimitLocked sid (Some limit) e)) sid)) \<le> max 0 limit"
proof (cases "limit < 0 \<or> int (length (go_list (subjectConns e) sid)) \<le> limit")
  case True
  then show ?thesis by (auto simp: enforce_eq)
next
  case False
  then have lim: "0 \<le> limit" "limit \<le> int (length (go_list (subjectConns e) sid))" by auto
  have "length (fold remove1 (excess e sid limit) (go_list (subjectConns e) sid))
      = length (go_list (subjectConns e) sid) - length (excess e sid limit)"
    using excess_props [OF assms lim] assms
    by (intro length_fold_remove1) (auto simp: enf_wf_def conn_index_wf_def)
  then show ?thesis
    using False excess_props(3) [OF assms lim] lim assms by (auto simp: enforce_eq fold_drop_conn)
qed

subsection \<open>Registering and touching\<close>

lemma touch_get_iff:
  "go_get (connections (touch_conn now cid e)) k = Some c' \<longleftrightarrow>
     (\<exists>c. go_get (connections e) k = Some c \<and> c' = (if k = cid then c\<lparr>conn_LastSeenAt := now\<rparr> else c))"
  by (auto simp: touch_conn_def split: option.splits)

lemma touch_simps [simp]:
  "subjectConns (touch_conn now cid e) = subjectConns e" "subjectIPs (touch_conn now cid e) = subjectIPs e"
  "subjectDevs (touch_conn now cid e) = subjectDevs e" "policies (touch_conn now cid e) = policies e"
  by (simp_all add: touch_conn_def split: option.splits)

lemma touch_image:
  assumes "\<And>c. f (c\<lparr>conn_LastSeenAt := now\<rparr>) = f c"
  shows "{f c |c. \<exists>k. go_get (connections (touch_conn now cid e)) k = Some c \<and> conn_SubjectID c = s}
       = {f c |c. \<exists>k. go_get (connections e) k = Some c \<and> conn_SubjectID c = s}" (is "?L = ?R")
proof
  show "?L \<subseteq> ?R" by (auto simp: touch_get_iff assms)
  show "?R \<subseteq> ?L"
  proof safe
    fix c k assume "go_get (connections e) k = Some c"
    then show "\<exists>c'. f c = f c' \<and> (\<exists>k. go_get (connections (touch_conn now cid e)) k = Some c'
        \<and> conn_SubjectID c' = conn_SubjectID c)"
      by (intro exI [of _ "if k = cid then c\<lparr>conn_LastSeenAt := now\<rparr> else c"])
         (auto simp: touch_get_iff assms)
  qed
qed

lemma touch_conns_of [simp]: "conns_of (touch_conn now cid e) s = conns_of e s"
  by (auto simp: conns_of_def touch_conn_def split: option.splits if_splits)

lemma touch_ips_of [simp]: "ips_of (touch_conn now cid e) s = ips_of e s"
  unfolding ips_of_def by (rule touch_image) simp

lemma touch_devs_of [simp]: "devs_of (touch_conn now cid e) s = devs_of e s"
  unfolding devs_of_def by (rule touch_image) simp

lemma touch_maps_wf: "maps_wf e \<Longrightarrow> maps_wf (touch_conn now cid e)"
  by (simp add: maps_wf_def touch_conn_def split: option.splits)

lemma touch_enf_wf: "enf_wf e \<Longrightarrow> enf_wf (touch_conn now cid e)"
  by (simp add: enf_wf_def touch_maps_wf conn_index_wf_def covering_def)

lemma touch_exact: "exact e \<Longrightarrow> exact (touch_conn now cid e)"
  by (simp add: exact_def exact_at_def)

lemma add_conn_simps [simp]:
  "policies (add_conn now cid sid dev ip proto e) = policies e"
  "go_list (subjectConns (add_conn now cid sid dev ip proto e)) s =
     (if s = sid then go_list (subjectConns e) s @ [cid] else go_list (subjectConns e) s)"
  "go_list (subjectIPs (add_conn now cid sid dev ip proto e)) s =
     (if s = sid then List.insert ip (go_list (subjectIPs e) s) else go_list (subjectIPs e) s)"
  "go_list (subjectDevs (add_conn now cid sid dev ip proto e)) s =
     (if s = sid then List.insert dev (go_list (subjectDevs e) s) else go_list (subjectDevs e) s)"
  by (simp_all add: add_conn_def)

lemma add_conn_image:
  assumes "go_get (connections e) cid = None"
    and n_def: "n = \<lparr>conn_ID = cid, conn_SubjectID = sid, conn_DeviceID = dev, conn_SourceIP = ip,
               conn_Protocol = proto, conn_ConnectedAt = now, conn_LastSeenAt = now\<rparr>"
  shows "{f c |c. \<exists>k. go_get (connections (add_conn now cid sid dev ip proto e)) k = Some c \<and> conn_SubjectID c = s}
       = {f c |c. \<exists>k. go_get (connections e) k = Some c \<and> conn_SubjectID c = s} \<union> (if s = sid then {f n} else {})"
proof -
  have "(\<exists>k. go_get (connections (add_conn now cid sid dev ip proto e)) k = Some c \<and> conn_SubjectID c = s)
    \<longleftrightarrow> (\<exists>k. go_get (connections e) k = Some c \<and> conn_SubjectID c = s) \<or> (c = n \<and> s = sid)" for c
    using assms by (auto simp: add_conn_def n_def split: if_splits) (metis option.distinct(1))
  then show ?thesis by auto
qed

lemma add_conn_conns_of:
  "go_get (connections e) cid = None \<Longrightarrow>
     conns_of (add_conn now cid sid dev ip proto e) s = (if s = sid then insert cid (conns_of e s) else conns_of e s)"
  by (auto simp: conns_of_def add_conn_def)

lemma add_conn_ips_of:
  "go_get (connections e) cid = None \<Longrightarrow>
     ips_of (add_conn now cid sid dev ip proto e) s = (if s = sid then insert ip (ips_of e s) else ips_of e s)"
  unfolding ips_of_def by (subst add_conn_image [OF _ refl]) auto

lemma add_conn_devs_of:
  "go_get (connections e) cid = None \<Longrightarrow>
     devs_of (add_conn now cid sid dev ip proto e) s = (if s = sid then insert dev (devs_of e s) else devs_of e s)"
  unfolding devs_of_def by (subst add_conn_image [OF _ refl]) auto

lemmas add_conn_sets = add_conn_conns_of add_conn_ips_of add_conn_devs_of

lemma add_conn_maps_wf: "maps_wf e \<Longrightarrow> maps_wf (add_conn now cid sid dev ip proto e)"
  by (simp add: maps_wf_def add_conn_def)

lemma add_conn_enf_wf:
  assumes "enf_wf e" and "go_get (connections e) cid = None"
  shows "enf_wf (add_conn now cid sid dev ip proto e)"
proof -
  have "cid \<notin> conns_of e s" for s using assms(2) by (simp add: conns_of_def)
  then show ?thesis
    using assms
    by (auto simp: enf_wf_def add_conn_maps_wf conn_index_wf_def covering_def add_conn_sets)
qed

lemma add_conn_exact:
  "exact e \<Longrightarrow> go_get (connections e) cid = None \<Longrightarrow> exact (add_conn now cid sid dev ip proto e)"
  by (auto simp: exact_def exact_at_def add_conn_sets)

subsection \<open>Each method\<close>

lemma check_register_cases:
  "\<exists>v. CheckAndRegisterConnection now cid sid dev ip proto e = (Some v, e)
   \<or> (go_get (connections e) cid \<noteq> None
        \<and> CheckAndRegisterConnection now cid sid dev ip proto e = (None, touch_conn now cid e))
   \<or> (go_get (connections e) cid = None
        \<and> CheckAndRegisterConnection now cid sid dev ip proto e = (None, add_conn now cid sid dev ip proto e))"
  by (auto simp: CheckAndRegisterConnection_def split: option.splits)

lemma check_register_enf_wf:
  "enf_wf e \<Longrightarrow> enf_wf (snd (CheckAndRegisterConnection now cid sid dev ip proto e))"
  using check_register_cases [of now cid sid dev ip proto e]
  by (auto simp: touch_enf_wf add_conn_enf_wf)

lemma check_register_exact:
  "exact e \<Longrightarrow> exact (snd (CheckAndRegisterConnection now cid sid dev ip proto e))"
  using check_register_cases [of now cid sid dev ip proto e]
  by (auto simp: touch_exact add_conn_exact)

lemma RegisterConnection_eq:
  "RegisterConnection now cid sid dev ip proto e =
     (if go_get (connections e) cid = None then add_conn now cid sid dev ip proto e else e)"
  by (simp add: RegisterConnection_def registerConnectionLocked_def)

lemma register_enf_wf: "enf_wf e \<Longrightarrow> enf_wf (RegisterConnection now cid sid dev ip proto e)"
  by (simp add: RegisterConnection_eq add_conn_enf_wf)

lemma register_exact: "exact e \<Longrightarrow> exact (RegisterConnection now cid sid dev ip proto e)"
  by (simp add: RegisterConnection_eq add_conn_exact)

lemma UnregisterConnection_eq:
  "UnregisterConnection cid e =
     (case go_get (connections e) cid of None \<Rightarrow> e
      | Some c \<Rightarrow> rebuild_both (conn_SubjectID c) (drop_conn cid e))"
  by (simp add: UnregisterConnection_def drop_conn_def rebuild_both_def Let_def split: option.splits)

lemma unregister_enf_wf: "enf_wf e \<Longrightarrow> enf_wf (UnregisterConnection cid e)"
  by (auto simp: UnregisterConnection_eq rebuild_both_enf_wf drop_conn_enf_wf split: option.splits)

lemma unregister_exact:
  assumes "enf_wf e" and "exact e"
  shows "exact (UnregisterConnection cid e)"
proof (cases "go_get (connections e) cid")
  case None
  then show ?thesis using assms by (simp add: UnregisterConnection_eq)
next
  case (Some c)
  have "exact_at s (rebuild_both (conn_SubjectID c) (drop_conn cid e))" for s
  proof (rule rebuild_both_exact_at)
    show "enf_wf (drop_conn cid e)" using assms(1) by (rule drop_conn_enf_wf)
    have "s \<noteq> conn_SubjectID c \<Longrightarrow> ips_of (drop_conn cid e) s = ips_of e s \<and> devs_of (drop_conn cid e) s = devs_of e s"
      using fold_drop_others [OF assms(1), of "[cid]" "conn_SubjectID c" s] Some
      by (auto simp: conns_of_def)
    then show "s \<noteq> conn_SubjectID c \<longrightarrow> exact_at s (drop_conn cid e)"
      using assms(2) by (simp add: exact_def exact_at_def)
  qed
  then show ?thesis using Some by (simp add: UnregisterConnection_eq exact_def)
qed

lemma fold_rebuild_enf_wf:
  "enf_wf e \<Longrightarrow> enf_wf (fold (\<lambda>sid s. rebuildDeviceIndexLocked sid (rebuildIPIndexLocked sid s)) sids e)"
  by (induction sids arbitrary: e) (auto simp: rebuild_both_enf_wf simp flip: rebuild_both_def)

lemma cleanup_enf_wf: "enf_wf e \<Longrightarrow> enf_wf (snd (CleanupStale now threshold e))"
  by (simp add: CleanupStale_def Let_def fold_rebuild_enf_wf fold_drop_conn)

text \<open>The affected set of \<open>CleanupStale\<close> is always empty, so its rebuilding loop never runs.\<close>

lemma cleanup_eq:
  assumes "enf_wf e"
  shows "snd (CleanupStale now threshold e) =
    fold drop_conn (map fst (filter (\<lambda>(cid, c). conn_LastSeenAt c < now - threshold) (connections e))) e"
proof -
  let ?r = "map fst (filter (\<lambda>(cid, c). conn_LastSeenAt c < now - threshold) (connections e))"
  have "List.map_filter (\<lambda>cid. map_option conn_SubjectID
          (go_get (connections (fold drop_conn ?r e)) cid)) ks = []" if "set ks \<subseteq> set ?r" for ks
    using that by (induction ks) (auto simp: fold_drop_conn [OF assms])
  from this [of ?r] show ?thesis by (simp add: CleanupStale_def Let_def)
qed

lemma fold_terminate_enf_wf: "enf_wf e \<Longrightarrow> enf_wf (fold terminateSubjectLocked sids e)"
  by (induction sids arbitrary: e) (auto simp: terminate_enf_wf)

lemma fold_terminate_exact: "enf_wf e \<Longrightarrow> exact e \<Longrightarrow> exact (fold terminateSubjectLocked sids e)"
  by (induction sids arbitrary: e) (auto simp: terminate_enf_wf terminate_exact)

lemma set_policies_wf: "go_wf (set_policies ps)"
proof -
  have "go_wf m \<Longrightarrow> go_wf (fold (\<lambda>p m. go_set (pol_SubjectID p) p m) ps m)" for m :: "(int, policy) gomap"
    by (induction ps arbitrary: m) auto
  then show ?thesis by (simp add: set_policies_def)
qed

lemma policies_update_sets [simp]:
  "conns_of (e\<lparr>policies := ps\<rparr>) = conns_of e" "ips_of (e\<lparr>policies := ps\<rparr>) = ips_of e"
  "devs_of (e\<lparr>policies := ps\<rparr>) = devs_of e"
  by (auto simp: conns_of_def ips_of_def devs_of_def fun_eq_iff)

lemma policies_update_enf_wf: "enf_wf e \<Longrightarrow> go_wf ps \<Longrightarrow> enf_wf (e\<lparr>policies := ps\<rparr>)"
  by (simp add: enf_wf_def maps_wf_def conn_index_wf_def covering_def)

lemma policies_update_exact: "exact (e\<lparr>policies := ps\<rparr>) = exact e"
  by (simp add: exact_def exact_at_def)

abbreviation enforce_all :: "(int, policy) gomap \<Rightarrow> enforcer \<Rightarrow> enforcer" where
  "enforce_all ps e \<equiv> fold (\<lambda>(sid, p). enforceConnectionLimitLocked sid (pol_MaxConnections p)) ps e"

lemma enforce_all_props:
  assumes "enf_wf e"
  shows "enf_wf (enforce_all ps e)" and "policies (enforce_all ps e) = policies e"
    and "exact e \<Longrightarrow> exact (enforce_all ps e)"
    and "s \<notin> fst ` set ps \<Longrightarrow>
           go_list (subjectConns (enforce_all ps e)) s = go_list (subjectConns e) s"
  using assms
  by (induction ps arbitrary: e) (auto simp: enforce_enf_wf enforce_exact enforce_other)

lemma enforce_all_bound:
  assumes "enf_wf e" and "go_wf ps" and "go_get ps s = Some p" and "pol_MaxConnections p = Some m"
  shows "int (length (go_list (subjectConns (enforce_all ps e)) s)) \<le> max 0 m"
  using assms
proof (induction ps arbitrary: e)
  case Nil
  then show ?case by simp
next
  case (Cons a ps)
  obtain sid q where a: "a = (sid, q)" by (cases a)
  show ?case
  proof (cases "s = sid")
    case True
    then have "p = q" and "s \<notin> fst ` set ps" using Cons.prems a by auto
    then show ?thesis
      using a True Cons.prems enforce_bound [OF Cons.prems(1), of sid m]
      by (simp add: enforce_all_props(4) enforce_enf_wf)
  next
    case False
    then show ?thesis using Cons a by (auto simp: enforce_enf_wf)
  qed
qed

lemma update_policies_props:
  assumes "enf_wf e"
  shows "enf_wf (UpdatePolicies ps e)" and "policies (UpdatePolicies ps e) = set_policies ps"
    and "exact e \<Longrightarrow> exact (UpdatePolicies ps e)"
proof -
  let ?r = "filter (\<lambda>sid. go_get (set_policies ps) sid = None) (go_keys (policies e))"
  let ?e2 = "(fold terminateSubjectLocked ?r e)\<lparr>policies := set_policies ps\<rparr>"
  have eq: "UpdatePolicies ps e = enforce_all (set_policies ps) ?e2"
    by (simp add: UpdatePolicies_def Let_def)
  have wf: "enf_wf ?e2"
    by (intro policies_update_enf_wf fold_terminate_enf_wf assms set_policies_wf)
  show "enf_wf (UpdatePolicies ps e)" "policies (UpdatePolicies ps e) = set_policies ps"
    unfolding eq using wf by (simp_all add: enforce_all_props)
  show "exact e \<Longrightarrow> exact (UpdatePolicies ps e)"
    unfolding eq using wf assms
    by (intro enforce_all_props(3)) (simp_all add: policies_update_exact fold_terminate_exact)
qed

lemma update_policies_bound:
  assumes "enf_wf e" and "go_get (set_policies ps) s = Some p" and "pol_MaxConnections p = Some m"
  shows "int (length (go_list (subjectConns (UpdatePolicies ps e)) s)) \<le> max 0 m"
  using assms
  by (auto simp: UpdatePolicies_def Let_def
      intro!: enforce_all_bound policies_update_enf_wf fold_terminate_enf_wf set_policies_wf)

section \<open>Runs of the enforcer\<close>

text \<open>One constructor per exported method that writes; the arguments are the method's, the clock first.\<close>

datatype enf_op =
    OpUpdatePolicies "policy list"
  | OpCheckAndRegister int string int string string string
  | OpRegister int string int string string string
  | OpUpdateLastSeen int string
  | OpUnregister string
  | OpCleanupStale int int

fun enf_step :: "enf_op \<Rightarrow> enforcer \<Rightarrow> enforcer" where
  "enf_step (OpUpdatePolicies ps) e = UpdatePolicies ps e"
| "enf_step (OpCheckAndRegister now cid sid dev ip proto) e =
     snd (CheckAndRegisterConnection now cid sid dev ip proto e)"
| "enf_step (OpRegister now cid sid dev ip proto) e = RegisterConnection now cid sid dev ip proto e"
| "enf_step (OpUpdateLastSeen now cid) e = UpdateLastSeen now cid e"
| "enf_step (OpUnregister cid) e = UnregisterConnection cid e"
| "enf_step (OpCleanupStale now threshold) e = snd (CleanupStale now threshold e)"

definition enf_run :: "enf_op list \<Rightarrow> enforcer" where
  "enf_run ops = fold enf_step ops New"

fun is_cleanup :: "enf_op \<Rightarrow> bool" where
  "is_cleanup (OpCleanupStale _ _) = True"
| "is_cleanup _ = False"

fun is_register :: "enf_op \<Rightarrow> bool" where
  "is_register (OpRegister _ _ _ _ _ _) = True"
| "is_register _ = False"

text \<open>Every tracked subject with a connection limit is within it; a negative limit admits none.\<close>

definition within_limits :: "enforcer \<Rightarrow> bool" where
  "within_limits e \<longleftrightarrow>
     (\<forall>sid p m. go_get (policies e) sid = Some p \<longrightarrow> pol_MaxConnections p = Some m \<longrightarrow>
        int (length (go_list (subjectConns e) sid)) \<le> max 0 m)"

lemma enf_step_enf_wf: "enf_wf e \<Longrightarrow> enf_wf (enf_step a e)"
  by (cases a) (simp_all add: update_policies_props check_register_enf_wf register_enf_wf
      UpdateLastSeen_def touch_enf_wf unregister_enf_wf cleanup_enf_wf)

lemma enf_step_exact: "\<not> is_cleanup a \<Longrightarrow> enf_wf e \<and> exact e \<Longrightarrow> enf_wf (enf_step a e) \<and> exact (enf_step a e)"
  by (cases a) (simp_all add: update_policies_props check_register_enf_wf register_enf_wf
      UpdateLastSeen_def touch_enf_wf unregister_enf_wf
      check_register_exact register_exact touch_exact unregister_exact)

lemma remove1_length_le: "length (remove1 x xs) \<le> length xs"
  by (simp add: length_remove1)

lemma fold_remove1_length: "length (fold remove1 cids xs) \<le> length xs"
proof (induction cids arbitrary: xs)
  case (Cons c cids)
  then show ?case using order_trans [OF Cons [of "remove1 c xs"] remove1_length_le] by simp
qed simp

lemma unregister_shrinks:
  assumes "enf_wf e"
  shows "length (go_list (subjectConns (UnregisterConnection cid e)) s) \<le> length (go_list (subjectConns e) s)"
    and "policies (UnregisterConnection cid e) = policies e"
  using assms by (auto simp: UnregisterConnection_eq drop_conn_index length_remove1 split: option.splits)

lemma cleanup_shrinks:
  assumes "enf_wf e"
  shows "length (go_list (subjectConns (snd (CleanupStale now t e))) s) \<le> length (go_list (subjectConns e) s)"
    and "policies (snd (CleanupStale now t e)) = policies e"
  using assms by (simp_all add: cleanup_eq fold_drop_conn fold_remove1_length)

lemma within_limits_shrink:
  assumes "within_limits e" and "policies e' = policies e"
    and "\<And>s. length (go_list (subjectConns e') s) \<le> length (go_list (subjectConns e) s)"
  shows "within_limits e'"
  unfolding within_limits_def
proof (intro allI impI)
  fix sid p m assume "go_get (policies e') sid = Some p" and "pol_MaxConnections p = Some m"
  then have "int (length (go_list (subjectConns e) sid)) \<le> max 0 m"
    using assms(1,2) unfolding within_limits_def by metis
  then show "int (length (go_list (subjectConns e') sid)) \<le> max 0 m"
    using assms(3) [of sid] by linarith
qed

lemma check_register_limit:
  assumes "within_limits e"
  shows "within_limits (snd (CheckAndRegisterConnection now cid sid dev ip proto e))"
  using assms
  by (auto simp: CheckAndRegisterConnection_def within_limits_def limit_checks_def Let_def negative_limit_def
      split: option.splits if_splits)

lemma enf_step_limits:
  assumes "\<not> is_register a" and "enf_wf e \<and> within_limits e"
  shows "enf_wf (enf_step a e) \<and> within_limits (enf_step a e)"
proof
  show "enf_wf (enf_step a e)" using assms by (simp add: enf_step_enf_wf)
  show "within_limits (enf_step a e)"
  proof (cases a)
    case (OpUpdatePolicies ps)
    then show ?thesis
      using assms by (simp add: within_limits_def update_policies_props update_policies_bound)
  next
    case (OpUnregister cid)
    then show ?thesis
      using assms unregister_shrinks [of e cid] by (auto intro: within_limits_shrink)
  next
    case (OpCleanupStale now t)
    then show ?thesis
      using assms cleanup_shrinks [of e now t] by (auto intro: within_limits_shrink)
  qed (use assms in \<open>auto simp: check_register_limit UpdateLastSeen_def intro: within_limits_shrink\<close>)
qed

interpretation enf_machine: invariant_machine enf_step "\<lambda>_. True" enf_wf
  by unfold_locales (rule enf_step_enf_wf)

interpretation enf_exact_machine: invariant_machine enf_step "\<lambda>a. \<not> is_cleanup a" "\<lambda>e. enf_wf e \<and> exact e"
  by unfold_locales (rule enf_step_exact)

interpretation enf_limit_machine: invariant_machine enf_step "\<lambda>a. \<not> is_register a" "\<lambda>e. enf_wf e \<and> within_limits e"
  by unfold_locales (rule enf_step_limits)

lemma New_inv [simp]: "enf_wf New" "exact New" "within_limits New"
  by (simp_all add: enf_wf_def maps_wf_def conn_index_wf_def covering_def exact_def exact_at_def
      within_limits_def New_def conns_of_def ips_of_def devs_of_def)


text \<open>whatever methods run in whatever order, the secondary indexes agree with the connection
  map: a subject's connection list holds exactly its live connections, each once, and its IP and
  device lists cover the addresses and devices of those connections.\<close>
theorem enforcer_index_invariant: "enf_wf (enf_run ops)"
  unfolding enf_run_def by (rule enf_machine.run_inv) (simp_all add: list_all_iff)

text \<open>as long as \<open>CleanupStale\<close> is not called, the IP and device indexes hold exactly the
  addresses and devices of the live connections, so no departed one counts against a limit.\<close>
theorem enforcer_index_exact:
  assumes "list_all (\<lambda>a. \<not> is_cleanup a) ops"
  shows "exact (enf_run ops)"
  using enf_exact_machine.run_inv [OF assms, of New] by (simp add: enf_run_def)

definition demo_policy :: "int \<Rightarrow> policy" where
  "demo_policy sid = \<lparr>pol_SubjectID = sid, pol_MaxDevices = Some 1, pol_MaxIPs = Some 1,
     pol_MaxConnections = Some 2, pol_SpeedLimitUpKbps = None, pol_SpeedLimitDownKbps = None,
     pol_QuotaBytes = Some 1000, pol_QuotaUsedBytes = Some 10\<rparr>"

definition demo_ops :: "enf_op list" where
  "demo_ops = [OpUpdatePolicies [demo_policy 7],
     OpCheckAndRegister 100 ''c1'' 7 ''d1'' ''ip1'' ''vless'',
     OpCheckAndRegister 101 ''c2'' 7 ''d1'' ''ip1'' ''vless'']"

theorem enforcer_index_exact_witness: "exact (enf_run demo_ops)"
  by (rule enforcer_index_exact) (simp add: demo_ops_def)

text \<open>C11: as long as connections enter through \<open>CheckAndRegisterConnection\<close>, no subject ever holds
  more connections than its policy's \<open>MaxConnections\<close>, whatever policy updates, removals and
  cleanups come in between.\<close>
theorem enforcer_connection_limit:
  assumes "list_all (\<lambda>a. \<not> is_register a) ops"
    and "go_get (policies (enf_run ops)) sid = Some p" and "pol_MaxConnections p = Some m"
  shows "int (card (conns_of (enf_run ops) sid)) \<le> max 0 m"
proof -
  have inv: "enf_wf (enf_run ops) \<and> within_limits (enf_run ops)"
    using enf_limit_machine.run_inv [OF assms(1), of New] by (simp add: enf_run_def)
  then have "card (conns_of (enf_run ops) sid) = length (go_list (subjectConns (enf_run ops)) sid)"
    using enf_wf_index unfolding conn_index_wf_def by (metis distinct_card)
  then show ?thesis using inv assms(2,3) by (simp add: within_limits_def)
qed

theorem enforcer_connection_limit_witness:
  "int (card (conns_of (enf_run demo_ops) 7)) \<le> max 0 2"
proof (rule enforcer_connection_limit)
  show "list_all (\<lambda>a. \<not> is_register a) demo_ops" by (simp add: demo_ops_def)
  show "go_get (policies (enf_run demo_ops)) 7 = Some (demo_policy 7)" by code_simp
  show "pol_MaxConnections (demo_policy 7) = Some 2" by (simp add: demo_policy_def)
qed

lemma index_lengths:
  assumes "enf_wf e" and "exact e"
  shows "length (go_list (subjectDevs e) sid) = card (devs_of e sid)" "set (go_list (subjectDevs e) sid) = devs_of e sid"
    and "length (go_list (subjectIPs e) sid) = card (ips_of e sid)" "set (go_list (subjectIPs e) sid) = ips_of e sid"
    and "length (go_list (subjectConns e) sid) = card (conns_of e sid)"
  using assms unfolding enf_wf_def exact_def exact_at_def covering_def conn_index_wf_def
  by (metis distinct_card)+

text \<open>What a policy admits, over the sets of live connections instead of the indexes.\<close>

definition admits :: "policy \<Rightarrow> int \<Rightarrow> string \<Rightarrow> string \<Rightarrow> enforcer \<Rightarrow> bool" where
  "admits p sid dev ip e \<longleftrightarrow>
     (\<forall>m. pol_MaxDevices p = Some m \<longrightarrow> 0 \<le> m \<and> (dev \<in> devs_of e sid \<or> int (card (devs_of e sid)) < m))
   \<and> (\<forall>m. pol_MaxIPs p = Some m \<longrightarrow> 0 \<le> m \<and> (ip \<in> ips_of e sid \<or> int (card (ips_of e sid)) < m))
   \<and> (\<forall>m. pol_MaxConnections p = Some m \<longrightarrow> int (card (conns_of e sid)) < m)
   \<and> (\<forall>q u. pol_QuotaBytes p = Some q \<longrightarrow> pol_QuotaUsedBytes p = Some u \<longrightarrow> u < q)"

lemma check_register_admits:
  assumes wf: "enf_wf e" "exact e" and fresh: "go_get (connections e) cid = None"
    and pol: "go_get (policies e) sid = Some p"
  shows "CheckAndRegisterConnection now cid sid dev ip proto e =
           (if admits p sid dev ip e then (None, add_conn now cid sid dev ip proto e)
            else (fst (CheckAndRegisterConnection now cid sid dev ip proto e), e))
       \<and> (fst (CheckAndRegisterConnection now cid sid dev ip proto e) = None \<longleftrightarrow> admits p sid dev ip e)"
  using fresh pol
  by (auto simp: CheckAndRegisterConnection_def limit_checks_def quota_check_def negative_limit_def admits_def
      Let_def index_lengths [OF wf] split: option.splits if_splits)

text \<open>in every state reached without \<open>CleanupStale\<close>, a new connection of a subject with a policy
  is admitted exactly when the live connections leave room for it: a known device or fewer devices
  than the limit, a known address or fewer addresses than the limit, fewer connections than the
  limit, quota left, and no negative limit. Admission adds exactly that connection and rejection
  changes nothing.\<close>
theorem enforcer_admission:
  assumes "list_all (\<lambda>a. \<not> is_cleanup a) ops" and "e = enf_run ops"
    and "go_get (connections e) cid = None" and "go_get (policies e) sid = Some p"
  shows "(fst (CheckAndRegisterConnection now cid sid dev ip proto e) = None \<longleftrightarrow> admits p sid dev ip e)
    \<and> (admits p sid dev ip e \<longrightarrow>
         snd (CheckAndRegisterConnection now cid sid dev ip proto e) = add_conn now cid sid dev ip proto e)
    \<and> (\<not> admits p sid dev ip e \<longrightarrow> snd (CheckAndRegisterConnection now cid sid dev ip proto e) = e)"
proof -
  have "enf_wf e \<and> exact e"
    using enf_exact_machine.run_inv [OF assms(1), of New] assms(2) by (simp add: enf_run_def)
  then show ?thesis
    using check_register_admits [of e cid sid p now dev ip proto] assms(3,4) by (metis snd_conv)
qed

theorem enforcer_admission_witness:
  "fst (CheckAndRegisterConnection 102 ''c3'' 7 ''d1'' ''ip1'' ''vless'' (enf_run demo_ops)) \<noteq> None
   \<and> \<not> admits (demo_policy 7) 7 ''d1'' ''ip1'' (enf_run demo_ops)"
proof -
  have ok: "list_all (\<lambda>a. \<not> is_cleanup a) demo_ops" by code_simp
  have fresh: "go_get (connections (enf_run demo_ops)) ''c3'' = None" by code_simp
  have pol: "go_get (policies (enf_run demo_ops)) 7 = Some (demo_policy 7)" by code_simp
  have full: "fst (CheckAndRegisterConnection 102 ''c3'' 7 ''d1'' ''ip1'' ''vless'' (enf_run demo_ops)) \<noteq> None"
    by code_simp
  then show ?thesis
    using enforcer_admission [OF ok refl fresh pol, of 102 "''d1''" "''ip1''" "''vless''"] by simp
qed

subsection \<open>Which connections a lowered limit closes\<close>

lemma excess_oldest:
  assumes wf: "enf_wf e" and lim: "0 \<le> limit" "limit \<le> int (length (go_list (subjectConns e) sid))"
    and d: "cd \<in> set (excess e sid limit)" "go_get (connections e) cd = Some d"
    and k: "ck \<notin> set (excess e sid limit)" "go_get (connections e) ck = Some k" "conn_SubjectID k = sid"
  shows "conn_ConnectedAt d \<le> conn_ConnectedAt k"
proof -
  let ?s = "sort_conns (conn_times e sid)"
  define n where "n = nat (int (length ?s) - limit)"
  have ix: "conn_index_wf e" using wf by simp
  have sset: "set ?s = set (conn_times e sid)"
    using sort_conns_spec(1) by (metis set_mset_mset)
  have times: "(c, t) \<in> set ?s \<Longrightarrow> t = conn_ConnectedAt (the (go_get (connections e) c))" for c t
    using sset by (auto simp: conn_times_eq [OF ix])
  have ex: "excess e sid limit = map fst (take n ?s)"
    by (simp add: excess_def Let_def n_def)
  obtain td where td: "(cd, td) \<in> set (take n ?s)" using d(1) ex by auto
  have "ck \<in> set (go_list (subjectConns e) sid)"
    using ix k by (auto simp: conn_index_wf_def conns_of_def)
  then obtain tk where "(ck, tk) \<in> set ?s" using sset by (auto simp: conn_times_eq [OF ix])
  moreover have "(ck, tk) \<notin> set (take n ?s)" using k(1) ex by force
  ultimately have tk: "(ck, tk) \<in> set (drop n ?s)" by (metis Un_iff append_take_drop_id set_append)
  have "sorted (map snd (take n ?s) @ map snd (drop n ?s))"
    using sort_conns_spec(2) by (metis append_take_drop_id map_append)
  then have "td \<le> tk" using td tk by (force simp: sorted_append)
  then show ?thesis
    using times [of cd td] times [of ck tk] td tk d(2) k(2) by (auto dest: in_set_takeD in_set_dropD)
qed

text \<open>lowering a connection limit to \<open>m\<close> below a subject's connection count, in any reachable
  state, leaves exactly \<open>m\<close> of its connections, and every one it closes is no younger than any it
  keeps; other subjects' connections are untouched.\<close>
theorem enforce_limit_keeps_newest:
  assumes "e = enf_run ops" and "0 \<le> m" and "m < int (card (conns_of e sid))"
    and "e' = enforceConnectionLimitLocked sid (Some m) e"
  shows "int (card (conns_of e' sid)) = m
    \<and> conns_of e' sid \<subseteq> conns_of e sid
    \<and> (\<forall>s. s \<noteq> sid \<longrightarrow> conns_of e' s = conns_of e s)
    \<and> (\<forall>cd ck d k. cd \<in> conns_of e sid - conns_of e' sid \<and> ck \<in> conns_of e' sid
         \<and> go_get (connections e) cd = Some d \<and> go_get (connections e) ck = Some k
         \<longrightarrow> conn_ConnectedAt d \<le> conn_ConnectedAt k)"
proof -
  have wf: "enf_wf e" unfolding assms(1) enf_run_def
    by (rule enf_machine.run_inv) (simp_all add: list_all_iff)
  have len: "length (go_list (subjectConns e) s) = card (conns_of e s)" for s
    using wf unfolding enf_wf_def conn_index_wf_def by (metis distinct_card)
  let ?x = "excess e sid m"
  have lim: "0 \<le> m" "m \<le> int (length (go_list (subjectConns e) sid))" using assms(2,3) len by auto
  note ex = excess_props [OF wf lim]
  have e': "e' = rebuild_both sid (fold drop_conn ?x e)"
    using assms(2,3) len by (simp add: assms(4) enforce_eq)
  have conns: "conns_of e' s = conns_of e s - set ?x" for s
    by (auto simp: e' conns_of_def fold_drop_conn [OF wf])
  have fin: "finite (conns_of e sid)"
    using wf unfolding enf_wf_def conn_index_wf_def by (metis List.finite_set)
  have "int (card (conns_of e sid - set ?x)) = m"
    using ex fin len [of sid] distinct_card [OF ex(2)] card_mono [OF fin ex(1)]
    by (simp add: card_Diff_subset)
  moreover have "s \<noteq> sid \<Longrightarrow> conns_of e s - set ?x = conns_of e s" for s
    using ex(1) by (auto simp: conns_of_def)
  moreover have "conn_ConnectedAt d \<le> conn_ConnectedAt k"
    if "cd \<in> conns_of e sid - conns_of e' sid" "ck \<in> conns_of e' sid"
      "go_get (connections e) cd = Some d" "go_get (connections e) ck = Some k" for cd ck d k
    using that excess_oldest [OF wf lim, of cd d ck k] by (auto simp: conns) (auto simp: conns_of_def)
  ultimately show ?thesis unfolding conns by (intro conjI allI impI; blast)
qed

theorem enforce_limit_keeps_newest_witness:
  "int (card (conns_of (enforceConnectionLimitLocked 7 (Some 1) (enf_run demo_ops)) 7)) = 1"
proof -
  have "conns_of (enf_run demo_ops) 7 = {''c1'', ''c2''}"
  proof -
    have "enf_wf (enf_run demo_ops)" unfolding enf_run_def
      by (rule enf_machine.run_inv) (simp_all add: list_all_iff)
    then have "conns_of (enf_run demo_ops) 7 = set (go_list (subjectConns (enf_run demo_ops)) 7)"
      by (simp add: enf_wf_def conn_index_wf_def)
    moreover have "go_list (subjectConns (enf_run demo_ops)) 7 = [''c1'', ''c2'']" by code_simp
    ultimately show ?thesis by simp
  qed
  then have "1 < int (card (conns_of (enf_run demo_ops) 7))" by simp
  from enforce_limit_keeps_newest [OF refl _ this refl] show ?thesis by simp
qed

text \<open>\<open>CleanupStale\<close> does not rebuild the address and device indexes of the subjects it
  disconnects: it can leave a subject with no connection at all, an address limit of one, and a
  next connection from a new address refused with the limit reached.\<close>
theorem cleanup_leaves_stale_index:
  "\<exists>ops. let e = enf_run (ops @ [OpCleanupStale 1000 300]) in
     conns_of e 7 = {} \<and> go_get (policies e) 7 = Some ((demo_policy 7)\<lparr>pol_MaxDevices := None\<rparr>)
     \<and> fst (CheckAndRegisterConnection 1001 ''c9'' 7 ''d1'' ''ip2'' ''vless'' e) = Some (IPLimitReached 1 1)"
proof -
  let ?ops = "[OpUpdatePolicies [(demo_policy 7)\<lparr>pol_MaxDevices := None\<rparr>],
               OpCheckAndRegister 100 ''c1'' 7 ''d1'' ''ip1'' ''vless'']"
  let ?e = "enf_run (?ops @ [OpCleanupStale 1000 300])"
  have "connections ?e = []" by code_simp
  then have "conns_of ?e 7 = {}" by (simp add: conns_of_def)
  moreover have "go_get (policies ?e) 7 = Some ((demo_policy 7)\<lparr>pol_MaxDevices := None\<rparr>)" by code_simp
  moreover have "fst (CheckAndRegisterConnection 1001 ''c9'' 7 ''d1'' ''ip2'' ''vless'' ?e) = Some (IPLimitReached 1 1)"
    by code_simp
  ultimately show ?thesis by (metis (no_types, lifting))
qed

end
