(* ===== verification/Adapters.thy ===== *)
theory Adapters
  imports Document
begin

text \<open>
  The contract of a protocol adapter, \<open>src/internal/node/adapter/adapter.go\<close>, and the set of adapters of a node,
  \<open>src/internal/node/agent/registry.go\<close>.

  An adapter is a record of its methods over the state \<open>'h\<close> of the host. The three optional interfaces an adapter is
  type-asserted to are fields that hold \<open>None\<close> when the adapter does not implement them. Go errors are
  strings, the text of \<open>Error()\<close>; the desired document is the panel's own type, which \<open>Desired\<close> mirrors field by field.
\<close>

section \<open>Steps and plans\<close>

datatype Disruption = DisruptNone | DisruptReload | DisruptRestart

fun disruption_ord :: "Disruption \<Rightarrow> nat" where
  "disruption_ord DisruptNone = 0"
| "disruption_ord DisruptReload = 1"
| "disruption_ord DisruptRestart = 2"

instantiation Disruption :: linorder
begin

definition less_eq_Disruption :: "Disruption \<Rightarrow> Disruption \<Rightarrow> bool" where
  "less_eq_Disruption a b \<longleftrightarrow> disruption_ord a \<le> disruption_ord b"

definition less_Disruption :: "Disruption \<Rightarrow> Disruption \<Rightarrow> bool" where
  "less_Disruption a b \<longleftrightarrow> disruption_ord a < disruption_ord b"

instance
proof
  fix x y z :: Disruption
  show "x < y \<longleftrightarrow> x \<le> y \<and> \<not> y \<le> x" "x \<le> x" "x \<le> y \<or> y \<le> x"
    by (auto simp: less_eq_Disruption_def less_Disruption_def)
  show "x \<le> y \<Longrightarrow> y \<le> z \<Longrightarrow> x \<le> z" by (auto simp: less_eq_Disruption_def)
  show "x \<le> y \<Longrightarrow> y \<le> x \<Longrightarrow> x = y" by (cases x; cases y) (auto simp: less_eq_Disruption_def)
qed

end

fun disruption_String :: "Disruption \<Rightarrow> string" where
  "disruption_String DisruptNone = ''none''"
| "disruption_String DisruptReload = ''reload''"
| "disruption_String DisruptRestart = ''restart''"

text \<open>The payload of a step is JSON; it is kept as the value it encodes, an object given by its fields.\<close>

record Step =
  sp_Seq :: int
  sp_Kind :: string
  sp_Disruption :: Disruption
  sp_ServiceID :: int
  sp_Payload :: "(string \<times> string) list option"

type_synonym Plan = "Step list"

definition IsEmpty :: "Plan \<Rightarrow> bool" where
  "IsEmpty p \<longleftrightarrow> length p = 0"

definition MaxDisruption :: "Plan \<Rightarrow> Disruption" where
  "MaxDisruption p = fold (\<lambda>s worst. if sp_Disruption s > worst then sp_Disruption s else worst) p DisruptNone"

record StepResult =
  sres_Seq :: int
  sres_Kind :: string
  sres_Disruption :: Disruption
  sres_OK :: bool
  sres_Err :: string
  sres_Duration :: int

record ObservedService =
  os_ID :: int
  os_Present :: bool
  os_Managed :: bool
  os_Checksum :: string

record ObservedEgress =
  oe_Present :: bool
  oe_Managed :: bool
  oe_Checksum :: string

record Observed =
  ob_Services :: "ObservedService list"
  ob_Egress :: "ObservedEgress option"

record Health =
  he_OK :: bool
  he_Detail :: string

definition MaxSchemaVersion :: int where
  "MaxSchemaVersion = 5"

definition CheckSchemaVersion :: "int \<Rightarrow> string option" where
  "CheckSchemaVersion v =
     (if v \<le> 0 then Some ''desired document carries no schema version''
      else if v > MaxSchemaVersion then
        Some (''desired document is schema v'' @ fmt_d v @ ''; this agent understands up to v'' @ fmt_d MaxSchemaVersion
          @ '' -- upgrade the agent'')
      else None)"

section \<open>The adapter interface\<close>

record Caps =
  cap_HotUserAdd :: bool
  cap_SelfAccounting :: bool
  cap_RequiresPKI :: bool
  cap_CredentialKinds :: "string list"
  cap_ServiceSchema :: string
  cap_SupportsOutbounds :: bool
  cap_SupportsRouting :: bool
  cap_OutboundSchema :: string
  cap_OutboundKinds :: "string list"
  cap_BuiltinOutboundTags :: "string list"
  cap_SupportsDNS :: bool
  cap_SupportsBalancer :: bool

record Descriptor =
  ds_Kind :: string
  ds_Version :: string
  ds_Caps :: Caps

record GeoDataResult =
  gd_GeoIPSHA256 :: string
  gd_GeoSiteSHA256 :: string

record CoreVersionResult =
  cv_InstalledVersion :: string
  cv_RolledBack :: bool

record 'h adapter =
  ad_Descriptor :: Descriptor
  ad_Observe :: "'h \<Rightarrow> (string + Observed) \<times> 'h"
  ad_Plan :: "document \<Rightarrow> Observed \<Rightarrow> string + Plan"
  ad_Apply :: "Step \<Rightarrow> 'h \<Rightarrow> (StepResult \<times> string option) \<times> 'h"
  ad_Probe :: "'h \<Rightarrow> (string + Health) \<times> 'h"
  ad_Restart :: "'h \<Rightarrow> string option \<times> 'h"
  ad_UpdateGeoData :: "(string list \<Rightarrow> 'h \<Rightarrow> (GeoDataResult \<times> string option) \<times> 'h) option"
  ad_UpgradeCore :: "(string list \<Rightarrow> 'h \<Rightarrow> (CoreVersionResult \<times> string option) \<times> 'h) option"
  ad_ReadLogs :: "(int \<Rightarrow> 'h \<Rightarrow> (string \<times> string option) \<times> 'h) option"

abbreviation ad_Kind :: "'h adapter \<Rightarrow> string" where
  "ad_Kind a \<equiv> ds_Kind (ad_Descriptor a)"

definition ErrRestartUnsupported :: string where
  "ErrRestartUnsupported = ''restart not supported by this adapter''"

section \<open>The registry\<close>

text \<open>A registry holds its adapters in order; a nil registry answers like an empty one. A nil adapter is \<open>None\<close>.\<close>

fun register :: "string list \<Rightarrow> 'h adapter option list \<Rightarrow> string + 'h adapter list" where
  "register seen [] = Inr []"
| "register seen (None # ads) = Inl ''nil adapter in registry''"
| "register seen (Some ad # ads) =
     (if ad_Kind ad \<in> set seen then
        Inl (''two adapters registered for kind '' @ [CHR 0x22] @ ad_Kind ad @ [CHR 0x22]
          @ '': they would manage the same files and overwrite each other on every pass'')
      else bind_result (register (ad_Kind ad # seen) ads) (\<lambda>rest. Inr (ad # rest)))"

definition NewRegistry :: "'h adapter option list \<Rightarrow> string + 'h adapter list" where
  "NewRegistry ads = register [] ads"

definition Descriptors :: "'h adapter list \<Rightarrow> Descriptor list" where
  "Descriptors r = map ad_Descriptor r"

fun registry_Probe :: "'h adapter list \<Rightarrow> 'h \<Rightarrow> (string \<times> Health) list \<times> 'h" where
  "registry_Probe [] h = ([], h)"
| "registry_Probe (ad # r) h =
     (let (res, h1) = ad_Probe ad h;
          health = (case res of Inl e \<Rightarrow> \<lparr>he_OK = False, he_Detail = e\<rparr> | Inr x \<Rightarrow> x);
          (out, h2) = registry_Probe r h1
      in ((ad_Kind ad, health) # out, h2))"

fun RestartAll :: "'h adapter list \<Rightarrow> string list \<Rightarrow> 'h \<Rightarrow> (string \<times> string option) list \<times> 'h" where
  "RestartAll [] kinds h = ([], h)"
| "RestartAll (ad # r) kinds h =
     (if kinds \<noteq> [] \<and> ad_Kind ad \<notin> set kinds then RestartAll r kinds h
      else let (err, h1) = ad_Restart ad h; (out, h2) = RestartAll r kinds h1 in ((ad_Kind ad, err) # out, h2))"

fun registry_UpdateGeoData :: "'h adapter list \<Rightarrow> string list \<Rightarrow> 'h \<Rightarrow> (string \<times> GeoDataResult \<times> string option) list \<times> 'h" where
  "registry_UpdateGeoData [] urls h = ([], h)"
| "registry_UpdateGeoData (ad # r) urls h =
     (case ad_UpdateGeoData ad of None \<Rightarrow> registry_UpdateGeoData r urls h
      | Some upd \<Rightarrow> (let ((res, err), h1) = upd urls h; (out, h2) = registry_UpdateGeoData r urls h1
          in ((ad_Kind ad, res, err) # out, h2)))"

text \<open>The three ways to say no, and the outcome of the one adapter that ran.\<close>

datatype 'a targeted = NotFound | NotCapable | Ran 'a

fun registry_UpgradeCore :: "'h adapter list \<Rightarrow> string \<Rightarrow> string list \<Rightarrow> 'h \<Rightarrow> (CoreVersionResult \<times> string option) targeted \<times> 'h" where
  "registry_UpgradeCore [] kind args h = (NotFound, h)"
| "registry_UpgradeCore (ad # r) kind args h =
     (if ad_Kind ad \<noteq> kind then registry_UpgradeCore r kind args h
      else (case ad_UpgradeCore ad of None \<Rightarrow> (NotCapable, h)
        | Some f \<Rightarrow> (let (res, h1) = f args h in (Ran res, h1))))"

fun registry_ReadLogs :: "'h adapter list \<Rightarrow> string \<Rightarrow> int \<Rightarrow> 'h \<Rightarrow> (string \<times> string option) targeted \<times> 'h" where
  "registry_ReadLogs [] kind lines h = (NotFound, h)"
| "registry_ReadLogs (ad # r) kind lines h =
     (if ad_Kind ad \<noteq> kind then registry_ReadLogs r kind lines h
      else (case ad_ReadLogs ad of None \<Rightarrow> (NotCapable, h)
        | Some f \<Rightarrow> (let (res, h1) = f lines h in (Ran res, h1))))"

section \<open>Facts\<close>

lemma MaxDisruption_fold:
  "fold (\<lambda>s worst. if sp_Disruption s > worst then sp_Disruption s else worst) p d
    = Max (insert d (sp_Disruption ` set p))"
proof (induction p arbitrary: d)
  case (Cons s p)
  show ?case
  proof (cases "sp_Disruption s > d")
    case True
    then have "Max (insert d (sp_Disruption ` set (s # p))) = Max (insert (sp_Disruption s) (sp_Disruption ` set p))"
      by (cases "p = []") (simp_all add: max.absorb1 max.absorb2 less_imp_le max.left_commute max.assoc [symmetric])
    then show ?thesis using True Cons.IH by simp
  next
    case False
    then have "Max (insert d (sp_Disruption ` set (s # p))) = Max (insert d (sp_Disruption ` set p))"
      by (cases "p = []") (simp_all add: max.absorb1 max.assoc [symmetric])
    then show ?thesis using False Cons.IH by simp
  qed
qed simp

text \<open>A plan is restart-class iff one of its steps is.\<close>

lemma MaxDisruption_restart: "MaxDisruption p \<ge> DisruptRestart \<longleftrightarrow> (\<exists>s \<in> set p. sp_Disruption s = DisruptRestart)"
proof -
  have top: "d \<ge> DisruptRestart \<longleftrightarrow> d = DisruptRestart" for d by (cases d) (simp_all add: less_eq_Disruption_def)
  have none: "DisruptNone \<noteq> DisruptRestart" by simp
  show ?thesis unfolding MaxDisruption_def MaxDisruption_fold
    by (subst Max_ge_iff) (simp_all add: top image_iff, metis)
qed

lemma register_kinds:
  "register seen ads = Inr r \<longleftrightarrow> ads = map Some r \<and> distinct (map ad_Kind r) \<and> set (map ad_Kind r) \<inter> set seen = {}"
proof (induction seen ads arbitrary: r rule: register.induct)
  case (3 seen ad ads)
  show ?case
  proof (cases "ad_Kind ad \<in> set seen")
    case False
    show ?thesis using 3 [OF False] False by (cases r) (auto simp: bind_result_Inr)
  qed auto
qed auto

end
