(* ===== verification/Reconcile.thy ===== *)
theory Reconcile
  imports Adapters
begin

text \<open>
  The reconciler of a node, \<open>src/internal/node/agent/reconcile.go\<close>: observe, plan, apply with retries and confirm, once per
  adapter, merged into one run.

  The world is the host, the clock and the context: \<open>w_now\<close> is the clock in nanoseconds and \<open>w_deadline\<close> the
  moment the context is done, if there is one. A wait that ends no later than the context is done is cut short by
  it. How long an \<open>Apply\<close> takes by the clock is a parameter of the reconciler. Durations are Go's \<open>int64\<close>: the backoff doubles
  with wrap-around, and a timer of a negative duration fires at once.
\<close>

section \<open>The reconciler\<close>

record Run =
  run_TargetRevision :: int
  run_Steps :: "StepResult list"
  run_Converged :: bool
  run_Deferred :: bool
  run_Err :: string

record 'h Reconciler =
  rc_ads :: "'h adapter list"
  rc_MaxRetries :: int
  rc_RetryBase :: int
  rc_AllowDisruptive :: "(int \<Rightarrow> bool) option"
  rc_took :: "Step \<Rightarrow> 'h \<Rightarrow> int"

record 'h world =
  w_host :: 'h
  w_now :: int
  w_deadline :: "int option"

definition NewReconciler :: "'h Reconciler \<Rightarrow> 'h Reconciler" where
  "NewReconciler opts =
     (let opts1 = (if rc_MaxRetries opts < 1 then opts\<lparr>rc_MaxRetries := 3\<rparr> else opts)
      in if rc_RetryBase opts1 \<le> 0 then opts1\<lparr>rc_RetryBase := 1000000000\<rparr> else opts1)"

definition disruptiveAllowed :: "'h Reconciler \<Rightarrow> 'h world \<Rightarrow> bool" where
  "disruptiveAllowed r w = (case rc_AllowDisruptive r of None \<Rightarrow> True | Some f \<Rightarrow> f (w_now w))"

definition appendErr :: "string \<Rightarrow> string \<Rightarrow> string" where
  "appendErr existing add = (if add = '''' then existing else if existing = '''' then add else existing @ ''; '' @ add)"

definition wrap64 :: "int \<Rightarrow> int" where
  "wrap64 x = (x + 2 ^ 63) mod 2 ^ 64 - 2 ^ 63"

text \<open>The \<open>select\<close> between the context and the timer: whether the timer fired, and the time it is then.\<close>

definition await :: "int \<Rightarrow> 'h world \<Rightarrow> bool \<times> 'h world" where
  "await d w = (let fire = w_now w + max 0 d in
     case w_deadline w of
       None \<Rightarrow> (True, w\<lparr>w_now := fire\<rparr>)
     | Some t \<Rightarrow> if t \<le> fire then (False, w\<lparr>w_now := max (w_now w) t\<rparr>) else (True, w\<lparr>w_now := fire\<rparr>))"

text \<open>One attempt: identity, cost and timing come from the step and the clock, never from the adapter.\<close>

definition attempt_once :: "'h Reconciler \<Rightarrow> 'h adapter \<Rightarrow> Step \<Rightarrow> 'h world \<Rightarrow> StepResult \<times> string option \<times> 'h world" where
  "attempt_once r ad step w =
     (let ((res, err), h) = ad_Apply ad step (w_host w); took = rc_took r step (w_host w)
      in (res\<lparr>sres_Seq := sp_Seq step, sres_Kind := sp_Kind step, sres_Disruption := sp_Disruption step, sres_Duration := took\<rparr>,
          (if err = None \<and> sres_OK res then None else Some (case err of None \<Rightarrow> sres_Err res | Some e \<Rightarrow> e)),
          w\<lparr>w_host := h, w_now := w_now w + took\<rparr>))"

definition no_result :: StepResult where
  "no_result = \<lparr>sres_Seq = 0, sres_Kind = '''', sres_Disruption = DisruptNone, sres_OK = False, sres_Err = '''', sres_Duration = 0\<rparr>"

definition gave_up :: "'h Reconciler \<Rightarrow> Step \<Rightarrow> string \<Rightarrow> string" where
  "gave_up r step e = ''step '' @ fmt_d (sp_Seq step) @ '' ('' @ sp_Kind step @ '') failed after '' @ fmt_d (rc_MaxRetries r)
     @ '' attempts: '' @ e"

function retry_from :: "'h Reconciler \<Rightarrow> 'h adapter \<Rightarrow> Step \<Rightarrow> int \<Rightarrow> int \<Rightarrow> 'h world \<Rightarrow> StepResult \<times> string option \<times> 'h world" where
  "retry_from r ad step attempt backoff w =
     (if attempt > rc_MaxRetries r then (no_result, Some (gave_up r step ''%!w(<nil>)''), w)
      else (case attempt_once r ad step w of
          (res, None, w1) \<Rightarrow> (res, None, w1)
        | (res, Some e, w1) \<Rightarrow>
            if attempt = rc_MaxRetries r then (res, Some (gave_up r step e), w1)
            else (case await backoff w1 of
                (False, w2) \<Rightarrow> (res, Some ''context deadline exceeded'', w2)
              | (True, w2) \<Rightarrow> retry_from r ad step (attempt + 1) (wrap64 (2 * backoff)) w2)))"
  by pat_completeness auto

termination
  by (relation "measure (\<lambda>(r, ad, step, attempt, backoff, w). nat (rc_MaxRetries r + 1 - attempt))") auto

declare retry_from.simps [simp del]

definition applyWithRetry :: "'h Reconciler \<Rightarrow> 'h adapter \<Rightarrow> Step \<Rightarrow> 'h world \<Rightarrow> StepResult \<times> string option \<times> 'h world" where
  "applyWithRetry r ad step w = retry_from r ad step 1 (rc_RetryBase r) w"

section \<open>Convergence of one adapter\<close>

text \<open>The state of the loop: the run so far, the hard errors, the next sequence number and the world.\<close>

record 'h pass =
  ps_run :: Run
  ps_hard :: string
  ps_seq :: int
  ps_world :: "'h world"

text \<open>A failure of \<open>Observe\<close> or \<open>Plan\<close>, and a step that failed.\<close>

definition pass_broken :: "string \<Rightarrow> 'h pass \<Rightarrow> 'h pass" where
  "pass_broken msg p = p\<lparr>ps_run := (ps_run p)\<lparr>run_Converged := False, run_Err := appendErr (run_Err (ps_run p)) msg\<rparr>,
     ps_hard := appendErr (ps_hard p) msg\<rparr>"

fun apply_steps :: "'h Reconciler \<Rightarrow> 'h adapter \<Rightarrow> Step list \<Rightarrow> 'h pass \<Rightarrow> bool \<times> 'h pass" where
  "apply_steps r ad [] p = (False, p)"
| "apply_steps r ad (step # steps) p =
     (let (res, err, w) = applyWithRetry r ad (step\<lparr>sp_Seq := ps_seq p\<rparr>) (ps_world p);
          run = (ps_run p)\<lparr>run_Steps := run_Steps (ps_run p) @ [res]\<rparr>;
          p1 = p\<lparr>ps_run := run, ps_seq := ps_seq p + 1, ps_world := w\<rparr>
      in (case err of
            None \<Rightarrow> apply_steps r ad steps p1
          | Some e \<Rightarrow>
              (let p2 = p1\<lparr>ps_run := run\<lparr>run_Err := appendErr (run_Err run) (sres_Err res)\<rparr>, ps_hard := appendErr (ps_hard p1) (sres_Err res)\<rparr>
               in (True, snd (apply_steps r ad steps p2)))))"

text \<open>Observe and plan; \<open>None\<close> with the failure recorded.\<close>

definition observe_plan :: "'h adapter \<Rightarrow> document \<Rightarrow> string \<Rightarrow> 'h pass \<Rightarrow> Plan option \<times> 'h pass" where
  "observe_plan ad desired when p =
     (case ad_Observe ad (w_host (ps_world p)) of
        (Inl e, h) \<Rightarrow> (None, pass_broken (ad_Kind ad @ '': '' @ when @ ''observe: '' @ e) (p\<lparr>ps_world := (ps_world p)\<lparr>w_host := h\<rparr>\<rparr>))
      | (Inr obs, h) \<Rightarrow>
          (let p1 = p\<lparr>ps_world := (ps_world p)\<lparr>w_host := h\<rparr>\<rparr> in
           case ad_Plan ad desired obs of
             Inl e \<Rightarrow> (None, pass_broken (ad_Kind ad @ '': '' @ when @ ''plan: '' @ e) p1)
           | Inr plan \<Rightarrow> (Some plan, p1)))"

definition converge_adapter :: "'h Reconciler \<Rightarrow> document \<Rightarrow> 'h adapter \<Rightarrow> 'h pass \<Rightarrow> 'h pass" where
  "converge_adapter r desired ad p =
     (case observe_plan ad desired '''' p of
        (None, p1) \<Rightarrow> p1
      | (Some plan, p1) \<Rightarrow>
          if IsEmpty plan then p1
          else if MaxDisruption plan \<ge> DisruptRestart \<and> \<not> disruptiveAllowed r (ps_world p1) then
            p1\<lparr>ps_run := (ps_run p1)\<lparr>run_Deferred := True, run_Converged := False\<rparr>\<rparr>
          else (case apply_steps r ad plan p1 of
              (True, p2) \<Rightarrow> p2\<lparr>ps_run := (ps_run p2)\<lparr>run_Converged := False\<rparr>\<rparr>
            | (False, p2) \<Rightarrow>
                (case observe_plan ad desired ''post-apply '' p2 of
                   (None, p3) \<Rightarrow> p3
                 | (Some confirm, p3) \<Rightarrow>
                     if IsEmpty confirm then p3
                     else p3\<lparr>ps_run := (ps_run p3)\<lparr>run_Converged := False, run_Err := appendErr (run_Err (ps_run p3))
                       (ad_Kind ad @ '': '' @ fmt_d (int (length confirm)) @ '' steps still outstanding after apply'')\<rparr>\<rparr>)))"

definition start_pass :: "document \<Rightarrow> 'h world \<Rightarrow> 'h pass" where
  "start_pass desired w = \<lparr>ps_run = \<lparr>run_TargetRevision = Revision desired, run_Steps = [], run_Converged = True, run_Deferred = False,
     run_Err = ''''\<rparr>, ps_hard = '''', ps_seq = 0, ps_world = w\<rparr>"

definition Converge :: "'h Reconciler \<Rightarrow> document \<Rightarrow> 'h world \<Rightarrow> Run \<times> string option \<times> 'h world" where
  "Converge r desired w = (let p = fold (converge_adapter r desired) (rc_ads r) (start_pass desired w)
     in (ps_run p, (if ps_hard p \<noteq> '''' then Some (ps_hard p) else None), ps_world p))"

section \<open>Retries\<close>

text \<open>The host before attempt \<open>k + 1\<close> of a step, and whether that attempt succeeds.\<close>

definition tried :: "'h adapter \<Rightarrow> Step \<Rightarrow> nat \<Rightarrow> 'h \<Rightarrow> 'h" where
  "tried ad step k = (\<lambda>h. snd (ad_Apply ad step h)) ^^ k"

definition applies :: "'h adapter \<Rightarrow> Step \<Rightarrow> 'h \<Rightarrow> bool" where
  "applies ad step h = (case ad_Apply ad step h of ((res, err), _) \<Rightarrow> err = None \<and> sres_OK res)"

lemma tried_simps [simp]: "tried ad step 0 h = h" "tried ad step (Suc k) h = tried ad step k (snd (ad_Apply ad step h))"
  by (simp_all add: tried_def funpow_Suc_right del: funpow.simps)

lemma attempt_once_host [simp]: "w_host (snd (snd (attempt_once r ad step w))) = snd (ad_Apply ad step (w_host w))"
  by (simp add: attempt_once_def case_prod_beta Let_def)

lemma attempt_once_ok: "fst (snd (attempt_once r ad step w)) = None \<longleftrightarrow> applies ad step (w_host w)"
  by (simp add: attempt_once_def applies_def case_prod_beta Let_def)

lemma attempt_once_deadline [simp]: "w_deadline (snd (snd (attempt_once r ad step w))) = w_deadline w"
  by (simp add: attempt_once_def case_prod_beta Let_def)

lemma attempt_once_result:
  "attempt_once r ad step w = (res, err, w') \<Longrightarrow> sres_Seq res = sp_Seq step \<and> sres_Kind res = sp_Kind step
    \<and> sres_Disruption res = sp_Disruption step \<and> (err = None \<longrightarrow> sres_OK res)"
  by (auto simp: attempt_once_def case_prod_beta Let_def split: if_splits)

lemma await_host [simp]: "w_host (snd (await d w)) = w_host w" "w_deadline (snd (await d w)) = w_deadline w"
  by (simp_all add: await_def Let_def split: option.splits)

lemma await_free: "w_deadline w = None \<Longrightarrow> fst (await d w)"
  by (simp add: await_def)

lemma retry_result:
  "retry_from r ad step a b w = (res, err, w') \<Longrightarrow> a \<le> rc_MaxRetries r \<Longrightarrow>
    sres_Seq res = sp_Seq step \<and> sres_Kind res = sp_Kind step \<and> sres_Disruption res = sp_Disruption step \<and> (err = None \<longrightarrow> sres_OK res)"
proof (induction r ad step a b w rule: retry_from.induct)
  case (1 r ad step a b w)
  obtain res1 err1 w1 where at: "attempt_once r ad step w = (res1, err1, w1)" by (cases "attempt_once r ad step w")
  obtain go w2 where aw: "await b w1 = (go, w2)" by (cases "await b w1")
  show ?case
  proof (cases err1)
    case None
    then show ?thesis using 1(2,3) at attempt_once_result [OF at] by (subst (asm) retry_from.simps) auto
  next
    case (Some e)
    have "a < rc_MaxRetries r \<and> go \<longrightarrow> retry_from r ad step (a + 1) (wrap64 (2 * b)) w2 = (res, err, w')"
      using 1(2,3) at Some aw by (subst (asm) retry_from.simps) auto
    moreover have "\<not> (a < rc_MaxRetries r \<and> go) \<longrightarrow> res = res1 \<and> err \<noteq> None"
      using 1(2,3) at Some aw by (subst (asm) retry_from.simps) (auto split: if_splits bool.splits)
    ultimately show ?thesis
      using 1(1) [OF _ at [symmetric] refl Some _ aw [symmetric]] 1(3) attempt_once_result [OF at] Some by (cases "a < rc_MaxRetries r \<and> go") auto
  qed
qed

lemma retry_host:
  assumes "w_deadline w = None" "a + int n = rc_MaxRetries r"
  shows "(\<forall>k \<le> n. \<not> applies ad step (tried ad step k (w_host w)))
       \<and> fst (snd (retry_from r ad step a b w)) \<noteq> None
       \<and> w_host (snd (snd (retry_from r ad step a b w))) = tried ad step (Suc n) (w_host w)
     \<or> (\<exists>k \<le> n. applies ad step (tried ad step k (w_host w)) \<and> (\<forall>j < k. \<not> applies ad step (tried ad step j (w_host w)))
       \<and> fst (snd (retry_from r ad step a b w)) = None
       \<and> w_host (snd (snd (retry_from r ad step a b w))) = tried ad step (Suc k) (w_host w))"
  using assms
proof (induction n arbitrary: a b w)
  case (0 a b w)
  obtain res err w1 where at: "attempt_once r ad step w = (res, err, w1)" by (cases "attempt_once r ad step w")
  have a: "rc_MaxRetries r = a" using 0(2) by simp
  have ok: "err = None \<longleftrightarrow> applies ad step (w_host w)" using attempt_once_ok [of r ad step w] at by simp
  have h: "w_host w1 = snd (ad_Apply ad step (w_host w))" using attempt_once_host [of r ad step w] at by simp
  show ?case using at a ok h by (cases err) (simp_all add: retry_from.simps [of r ad step a])
next
  case (Suc n a b w)
  obtain res err w1 where at: "attempt_once r ad step w = (res, err, w1)" by (cases "attempt_once r ad step w")
  have ok: "err = None \<longleftrightarrow> applies ad step (w_host w)" using attempt_once_ok [of r ad step w] at by simp
  have h: "w_host w1 = snd (ad_Apply ad step (w_host w))" using attempt_once_host [of r ad step w] at by simp
  have d: "w_deadline w1 = None" using attempt_once_deadline [of r ad step w] at Suc.prems(1) by simp
  obtain w2 where aw: "await b w1 = (True, w2)" using await_free [OF d, of b] by (cases "await b w1") auto
  have w2: "w_host w2 = w_host w1" "w_deadline w2 = None" using await_host [of b w1] aw d by auto
  show ?case
  proof (cases err)
    case None
    then have "retry_from r ad step a b w = (res, None, w1)" using at Suc.prems(2) by (simp add: retry_from.simps [of r ad step a])
    then show ?thesis using ok None h by (intro disjI2 exI [of _ 0]) simp
  next
    case (Some e)
    then have eq: "retry_from r ad step a b w = retry_from r ad step (a + 1) (wrap64 (2 * b)) w2"
      using at aw Suc.prems(2) by (simp add: retry_from.simps [of r ad step a])
    have "a + 1 + int n = rc_MaxRetries r" using Suc.prems(2) by simp
    note ih = Suc.IH [OF w2(2) this, of "wrap64 (2 * b)"]
    have shift: "tried ad step k (w_host w2) = tried ad step (Suc k) (w_host w)" for k using h w2 by simp
    have first: "\<not> applies ad step (tried ad step 0 (w_host w))" using ok Some by simp
    have all: "(\<forall>k \<le> Suc n. \<not> P k) \<longleftrightarrow> \<not> P 0 \<and> (\<forall>k \<le> n. \<not> P (Suc k))" for P
      by (metis Suc_le_mono le0 not0_implies_Suc)
    from ih show ?thesis
    proof (elim disjE exE conjE)
      assume "\<forall>k \<le> n. \<not> applies ad step (tried ad step k (w_host w2))"
        "fst (snd (retry_from r ad step (a + 1) (wrap64 (2 * b)) w2)) \<noteq> None"
        "w_host (snd (snd (retry_from r ad step (a + 1) (wrap64 (2 * b)) w2))) = tried ad step (Suc n) (w_host w2)"
      then show ?thesis unfolding eq shift all using first by blast
    next
      fix k assume "k \<le> n" "applies ad step (tried ad step k (w_host w2))" "\<forall>j < k. \<not> applies ad step (tried ad step j (w_host w2))"
        "fst (snd (retry_from r ad step (a + 1) (wrap64 (2 * b)) w2)) = None"
        "w_host (snd (snd (retry_from r ad step (a + 1) (wrap64 (2 * b)) w2))) = tried ad step (Suc k) (w_host w2)"
      then show ?thesis unfolding eq shift using first
        by (intro disjI2 exI [of _ "Suc k"]) (auto simp del: tried_simps simp: less_Suc_eq_0_disj)
    qed
  qed
qed


section \<open>What a run reports\<close>

lemma appendErr_empty [simp]: "appendErr x y = '''' \<longleftrightarrow> x = '''' \<and> y = ''''"
  by (simp add: appendErr_def)

text \<open>The bookkeeping of a run: the steps are numbered from zero across the adapters, and a run still called converged has
  recorded no error, no deferral and no failed step.\<close>

definition pass_ok :: "'h pass \<Rightarrow> bool" where
  "pass_ok p \<longleftrightarrow> map sres_Seq (run_Steps (ps_run p)) = map int [0..<length (run_Steps (ps_run p))]
     \<and> ps_seq p = int (length (run_Steps (ps_run p)))
     \<and> (run_Converged (ps_run p) \<longrightarrow> ps_hard p = '''' \<and> run_Err (ps_run p) = '''' \<and> \<not> run_Deferred (ps_run p)
          \<and> (\<forall>s \<in> set (run_Steps (ps_run p)). sres_OK s))"

lemma apply_steps_ok:
  assumes "1 \<le> rc_MaxRetries r"
  shows "map sres_Seq (run_Steps (ps_run p)) = map int [0..<length (run_Steps (ps_run p))] \<Longrightarrow>
      ps_seq p = int (length (run_Steps (ps_run p))) \<Longrightarrow> apply_steps r ad steps p = (failed, p') \<Longrightarrow>
      map sres_Seq (run_Steps (ps_run p')) = map int [0..<length (run_Steps (ps_run p'))]
      \<and> ps_seq p' = int (length (run_Steps (ps_run p'))) \<and> run_Deferred (ps_run p') = run_Deferred (ps_run p)
      \<and> run_Converged (ps_run p') = run_Converged (ps_run p)
      \<and> length (run_Steps (ps_run p')) = length (run_Steps (ps_run p)) + length steps
      \<and> (\<not> failed \<longrightarrow> ps_hard p' = ps_hard p \<and> run_Err (ps_run p') = run_Err (ps_run p)
          \<and> (\<forall>s \<in> set (run_Steps (ps_run p')). s \<in> set (run_Steps (ps_run p)) \<or> sres_OK s))"
proof (induction steps arbitrary: p failed p')
  case (Cons step steps)
  obtain res err w where ap: "applyWithRetry r ad (step\<lparr>sp_Seq := ps_seq p\<rparr>) (ps_world p) = (res, err, w)"
    by (cases "applyWithRetry r ad (step\<lparr>sp_Seq := ps_seq p\<rparr>) (ps_world p)")
  have res: "sres_Seq res = ps_seq p" "err = None \<Longrightarrow> sres_OK res"
    using retry_result [OF ap [unfolded applyWithRetry_def]] assms by simp_all
  show ?case
  proof (cases err)
    case None
    define p1 where "p1 = p\<lparr>ps_run := (ps_run p)\<lparr>run_Steps := run_Steps (ps_run p) @ [res]\<rparr>, ps_seq := ps_seq p + 1, ps_world := w\<rparr>"
    have "apply_steps r ad steps p1 = (failed, p')" using Cons.prems(3) ap None by (simp add: p1_def Let_def)
    from Cons.IH [OF _ _ this] show ?thesis using Cons.prems(1,2) res None by (auto simp: p1_def)
  next
    case (Some e)
    define p2 where "p2 = p\<lparr>ps_seq := ps_seq p + 1, ps_world := w,
        ps_run := (ps_run p)\<lparr>run_Steps := run_Steps (ps_run p) @ [res], run_Err := appendErr (run_Err (ps_run p)) (sres_Err res)\<rparr>,
        ps_hard := appendErr (ps_hard p) (sres_Err res)\<rparr>"
    obtain f2 where "apply_steps r ad steps p2 = (f2, p')" "failed"
      using Cons.prems(3) ap Some by (cases "apply_steps r ad steps p2") (auto simp: p2_def Let_def)
    with Cons.IH [OF _ _ this(1)] show ?thesis using Cons.prems(1,2) res by (auto simp: p2_def)
  qed
qed simp

lemma observe_plan_ok: "pass_ok p \<Longrightarrow> pass_ok (snd (observe_plan ad desired when p))"
  by (auto simp: observe_plan_def pass_ok_def pass_broken_def Let_def split: prod.splits sum.splits)

lemma converge_adapter_eq:
  assumes "observe_plan ad desired '''' p = (Some steps, p1)" "apply_steps r ad steps p1 = (failed, p2)"
    "observe_plan ad desired ''post-apply '' p2 = (confirm, p3)"
  shows "converge_adapter r desired ad p =
    (if IsEmpty steps then p1
     else if MaxDisruption steps \<ge> DisruptRestart \<and> \<not> disruptiveAllowed r (ps_world p1) then
       p1\<lparr>ps_run := (ps_run p1)\<lparr>run_Deferred := True, run_Converged := False\<rparr>\<rparr>
     else if failed then p2\<lparr>ps_run := (ps_run p2)\<lparr>run_Converged := False\<rparr>\<rparr>
     else case confirm of None \<Rightarrow> p3 | Some c \<Rightarrow> if IsEmpty c then p3
       else p3\<lparr>ps_run := (ps_run p3)\<lparr>run_Converged := False, run_Err := appendErr (run_Err (ps_run p3))
         (ad_Kind ad @ '': '' @ fmt_d (int (length c)) @ '' steps still outstanding after apply'')\<rparr>\<rparr>)"
  unfolding converge_adapter_def assms(1) using assms(2,3) by (cases failed; cases confirm) simp_all

lemma pass_ok_open:
  "pass_ok p \<Longrightarrow> pass_ok (p\<lparr>ps_run := (ps_run p)\<lparr>run_Deferred := True, run_Converged := False\<rparr>\<rparr>)"
  "pass_ok p \<Longrightarrow> pass_ok (p\<lparr>ps_run := (ps_run p)\<lparr>run_Converged := False, run_Err := m\<rparr>\<rparr>)"
  by (simp_all add: pass_ok_def)

lemma converge_adapter_ok:
  assumes "1 \<le> rc_MaxRetries r" "pass_ok p"
  shows "pass_ok (converge_adapter r desired ad p)"
proof (cases "observe_plan ad desired '''' p")
  case (Pair plan p1)
  have p1: "pass_ok p1" using observe_plan_ok [OF assms(2), of ad desired "''''"] Pair by simp
  show ?thesis
  proof (cases plan)
    case None
    then show ?thesis using Pair p1 by (simp add: converge_adapter_def)
  next
    case (Some steps)
    obtain failed p2 where st: "apply_steps r ad steps p1 = (failed, p2)" by (cases "apply_steps r ad steps p1")
    note sk = apply_steps_ok [OF assms(1) _ _ st]
    obtain confirm p3 where cf: "observe_plan ad desired ''post-apply '' p2 = (confirm, p3)"
      by (cases "observe_plan ad desired ''post-apply '' p2")
    have bad: "pass_ok (p2\<lparr>ps_run := (ps_run p2)\<lparr>run_Converged := False\<rparr>\<rparr>)" if failed
      using sk p1 that by (simp add: pass_ok_def)
    have "pass_ok p2" if "\<not> failed" using sk p1 that by (auto simp: pass_ok_def)
    then have p3: "pass_ok p3" if "\<not> failed" using observe_plan_ok [of p2 ad desired "''post-apply ''"] cf that by simp
    show ?thesis unfolding converge_adapter_eq [OF Pair [unfolded Some] st cf]
      using p1 bad p3 by (auto intro!: pass_ok_open split: option.splits)
  qed
qed

lemma NewReconciler_retries: "1 \<le> rc_MaxRetries (NewReconciler opts)"
  by (simp add: NewReconciler_def Let_def)

lemma run_report:
  assumes "Converge (NewReconciler opts) desired w = (run, err, w')"
  shows "map sres_Seq (run_Steps run) = map int [0..<length (run_Steps run)]
    \<and> (run_Converged run \<longrightarrow> err = None \<and> run_Err run = '''' \<and> \<not> run_Deferred run \<and> (\<forall>s \<in> set (run_Steps run). sres_OK s))"
proof -
  have "pass_ok (fold (converge_adapter (NewReconciler opts) desired) ads p)" if "pass_ok p" for ads p
    using that by (induction ads arbitrary: p) (simp_all add: converge_adapter_ok NewReconciler_retries)
  moreover have "pass_ok (start_pass desired w)" by (simp add: pass_ok_def start_pass_def)
  ultimately have "pass_ok (fold (converge_adapter (NewReconciler opts) desired) (rc_ads (NewReconciler opts)) (start_pass desired w))"
    by blast
  then show ?thesis using assms by (auto simp: Converge_def Let_def pass_ok_def)
qed


section \<open>What a pass keeps\<close>

text \<open>A predicate of the host that every attempt of a step keeps is kept by its retries, and one that every step of a plan
  keeps is kept by the plan, whatever fails on the way.\<close>

lemma retry_preserves:
  assumes "\<And>h. Q h \<Longrightarrow> Q (snd (ad_Apply ad s h))"
  shows "Q (w_host w) \<Longrightarrow> Q (w_host (snd (snd (retry_from r ad s a b w))))"
  using assms
proof (induction r ad s a b w rule: retry_from.induct)
  case (1 r ad s a b w)
  obtain res err w1 where at: "attempt_once r ad s w = (res, err, w1)" by (cases "attempt_once r ad s w")
  have w1: "Q (w_host w1)" using attempt_once_host [of r ad s w] at 1(2,3) by simp
  obtain go w2 where aw: "await b w1 = (go, w2)" by (cases "await b w1")
  have w2: "Q (w_host w2)" using await_host(1) [of b w1] aw w1 by simp
  show ?case
  proof (cases "a \<le> rc_MaxRetries r \<and> err \<noteq> None \<and> a \<noteq> rc_MaxRetries r \<and> go")
    case True
    then obtain e where e: "err = Some e" by auto
    have "retry_from r ad s a b w = retry_from r ad s (a + 1) (wrap64 (2 * b)) w2"
      using True at aw e by (subst retry_from.simps) simp
    moreover have "\<not> rc_MaxRetries r < a" "a \<noteq> rc_MaxRetries r" go using True by auto
    ultimately show ?thesis using 1(1) [OF _ at [symmetric] refl e _ aw [symmetric] _ w2 1(3)] by simp
  next
    case False
    then have "snd (snd (retry_from r ad s a b w)) \<in> {w, w1, w2}"
      using at aw by (subst retry_from.simps) (auto split: option.splits)
    then show ?thesis using w1 w2 1(2) by auto
  qed
qed

lemma steps_preserve:
  assumes "\<And>s n h. s \<in> set steps \<Longrightarrow> Q h \<Longrightarrow> Q (snd (ad_Apply ad (s\<lparr>sp_Seq := n\<rparr>) h))"
  shows "Q (w_host (ps_world p)) \<Longrightarrow> Q (w_host (ps_world (snd (apply_steps r ad steps p))))"
  using assms
proof (induction steps arbitrary: p)
  case (Cons s steps)
  obtain res err w where ap: "applyWithRetry r ad (s\<lparr>sp_Seq := ps_seq p\<rparr>) (ps_world p) = (res, err, w)"
    by (cases "applyWithRetry r ad (s\<lparr>sp_Seq := ps_seq p\<rparr>) (ps_world p)")
  have w: "Q (w_host w)"
    using retry_preserves [of Q ad "s\<lparr>sp_Seq := ps_seq p\<rparr>" "ps_world p" r 1 "rc_RetryBase r"] ap Cons.prems
    by (simp add: applyWithRetry_def)
  obtain q where "snd (apply_steps r ad (s # steps) p) = snd (apply_steps r ad steps q)" "ps_world q = w"
    using ap by (cases err) (auto simp: Let_def)
  then show ?case using Cons.IH [of q] w Cons.prems(2) by simp
qed simp

lemma observe_plan_preserves:
  "(\<And>h. Q h \<Longrightarrow> Q (snd (ad_Observe ad h))) \<Longrightarrow> Q (w_host (ps_world p)) \<Longrightarrow> Q (w_host (ps_world (snd (observe_plan ad desired when p))))"
  by (auto simp: observe_plan_def pass_broken_def Let_def split: prod.splits sum.splits) (metis snd_conv)+

lemma converge_adapter_preserves:
  assumes obs: "\<And>h. Q h \<Longrightarrow> Q (snd (ad_Observe ad h))"
    and step: "\<And>h obs h' plan s n h1. Q h \<Longrightarrow> Q h1 \<Longrightarrow> ad_Observe ad h = (Inr obs, h') \<Longrightarrow> ad_Plan ad desired obs = Inr plan \<Longrightarrow>
      s \<in> set plan \<Longrightarrow> Q (snd (ad_Apply ad (s\<lparr>sp_Seq := n\<rparr>) h1))"
    and start: "Q (w_host (ps_world p))"
  shows "Q (w_host (ps_world (converge_adapter r desired ad p)))"
proof (cases "observe_plan ad desired '''' p")
  case (Pair plan p1)
  have p1: "Q (w_host (ps_world p1))" using observe_plan_preserves [of Q, OF obs start, of desired "''''"] Pair by simp
  show ?thesis
  proof (cases plan)
    case None
    then show ?thesis using Pair p1 by (simp add: converge_adapter_def)
  next
    case (Some steps)
    obtain o1 h1 where o1: "ad_Observe ad (w_host (ps_world p)) = (Inr o1, h1)" "ad_Plan ad desired o1 = Inr steps"
      using Pair Some by (auto simp: observe_plan_def Let_def split: prod.splits sum.splits)
    obtain failed p2 where st: "apply_steps r ad steps p1 = (failed, p2)" by (cases "apply_steps r ad steps p1")
    have "Q (w_host (ps_world (snd (apply_steps r ad steps p1))))"
      by (rule steps_preserve [where Q = Q]) (use step [OF start _ o1] p1 in auto)
    then have p2: "Q (w_host (ps_world p2))" using st by simp
    obtain confirm p3 where cf: "observe_plan ad desired ''post-apply '' p2 = (confirm, p3)"
      by (cases "observe_plan ad desired ''post-apply '' p2")
    have "Q (w_host (ps_world p3))" using observe_plan_preserves [of Q, OF obs p2, of desired "''post-apply ''"] cf by simp
    then show ?thesis unfolding converge_adapter_eq [OF Pair [unfolded Some] st cf] using p1 p2 by (simp split: option.splits)
  qed
qed

section \<open>The contract of the adapters of a node\<close>

text \<open>What a node relies on: reading the host changes nothing, an adapter only touches what is its own, and an
  empty plan on what was observed means that the host is in sync.\<close>

locale adapter_family =
  fixes ads :: "'h adapter list"
    and desired :: document
    and inv :: "'h \<Rightarrow> bool"
    and in_sync :: "'h adapter \<Rightarrow> 'h \<Rightarrow> bool"
  assumes observe_inv: "ad \<in> set ads \<Longrightarrow> inv h \<Longrightarrow> inv (snd (ad_Observe ad h))"
    and observe_sync: "ad \<in> set ads \<Longrightarrow> ad' \<in> set ads \<Longrightarrow> inv h \<Longrightarrow> in_sync ad' (snd (ad_Observe ad h)) = in_sync ad' h"
    and apply_inv: "ad \<in> set ads \<Longrightarrow> inv h \<Longrightarrow> inv (snd (ad_Apply ad s h))"
    and apply_foreign: "ad \<in> set ads \<Longrightarrow> ad' \<in> set ads \<Longrightarrow> ad' \<noteq> ad \<Longrightarrow> inv h \<Longrightarrow>
      in_sync ad' (snd (ad_Apply ad s h)) = in_sync ad' h"
    and plan_sound: "ad \<in> set ads \<Longrightarrow> inv h \<Longrightarrow> ad_Observe ad h = (Inr obs, h') \<Longrightarrow> ad_Plan ad desired obs = Inr [] \<Longrightarrow> in_sync ad h"
begin

abbreviation host :: "'h pass \<Rightarrow> 'h" where
  "host p \<equiv> w_host (ps_world p)"

lemma steps_keep:
  assumes "ad \<in> set ads" "inv (host p)"
  shows "inv (host (snd (apply_steps r ad steps p)))
    \<and> (\<forall>ad' \<in> set ads. ad' \<noteq> ad \<longrightarrow> in_sync ad' (host (snd (apply_steps r ad steps p))) = in_sync ad' (host p))"
  by (rule steps_preserve [where Q = "\<lambda>h. inv h \<and> (\<forall>ad' \<in> set ads. ad' \<noteq> ad \<longrightarrow> in_sync ad' h = in_sync ad' (host p))"])
    (use assms apply_inv apply_foreign in auto)

lemma observe_plan_keeps:
  assumes "ad \<in> set ads" "inv (host p)"
  shows "inv (host (snd (observe_plan ad desired when p)))
    \<and> (\<forall>ad' \<in> set ads. in_sync ad' (host (snd (observe_plan ad desired when p))) = in_sync ad' (host p))"
  using observe_inv [OF assms] observe_sync [OF assms(1) _ assms(2)]
  by (auto simp: observe_plan_def pass_broken_def Let_def split: prod.splits sum.splits)

lemma observe_plan_empty:
  assumes "ad \<in> set ads" "inv (host p)" "observe_plan ad desired when p = (Some plan, p')" "IsEmpty plan"
  shows "in_sync ad (host p')"
proof -
  obtain obs h where "ad_Observe ad (host p) = (Inr obs, h)" "ad_Plan ad desired obs = Inr []"
    using assms(3,4) by (auto simp: observe_plan_def Let_def IsEmpty_def split: prod.splits sum.splits)
  then have "in_sync ad (host p)" using plan_sound assms(1,2) by blast
  then show ?thesis using observe_plan_keeps [OF assms(1,2), of "when"] assms(1,3) by simp
qed

lemma observe_plan_run:
  "observe_plan ad desired when p = (plan, p') \<Longrightarrow> (case plan of None \<Rightarrow> \<not> run_Converged (ps_run p') | Some _ \<Rightarrow> ps_run p' = ps_run p)"
  by (auto simp: observe_plan_def pass_broken_def Let_def split: prod.splits sum.splits)

lemma adapter_sound:
  assumes "ad \<in> set ads" "inv (host p)"
  shows "inv (host (converge_adapter r desired ad p))
    \<and> (\<forall>ad' \<in> set ads. ad' \<noteq> ad \<longrightarrow> in_sync ad' (host (converge_adapter r desired ad p)) = in_sync ad' (host p))
    \<and> (run_Converged (ps_run (converge_adapter r desired ad p)) \<longrightarrow> in_sync ad (host (converge_adapter r desired ad p)))"
proof (cases "observe_plan ad desired '''' p")
  case (Pair plan p1)
  note k1 = observe_plan_keeps [OF assms, of "''''", unfolded Pair snd_conv]
  show ?thesis
  proof (cases plan)
    case None
    then show ?thesis using k1 Pair observe_plan_run [OF Pair] by (simp add: converge_adapter_def)
  next
    case (Some steps)
    obtain failed p2 where st: "apply_steps r ad steps p1 = (failed, p2)" by (cases "apply_steps r ad steps p1")
    note k2 = steps_keep [OF assms(1) conjunct1 [OF k1], of r steps, unfolded st snd_conv]
    obtain confirm p3 where cf: "observe_plan ad desired ''post-apply '' p2 = (confirm, p3)"
      by (cases "observe_plan ad desired ''post-apply '' p2")
    note k3 = observe_plan_keeps [OF assms(1) conjunct1 [OF k2], of "''post-apply ''", unfolded cf snd_conv]
    have e1: "IsEmpty steps \<Longrightarrow> in_sync ad (host p1)"
      using observe_plan_empty [OF assms] Pair Some by simp
    have e3: "confirm = Some c \<Longrightarrow> IsEmpty c \<Longrightarrow> in_sync ad (host p3)" for c
      using observe_plan_empty [OF assms(1) conjunct1 [OF k2]] cf by simp
    have n3: "confirm = None \<Longrightarrow> \<not> run_Converged (ps_run p3)" using observe_plan_run [OF cf] by simp
    show ?thesis unfolding converge_adapter_eq [OF Pair [unfolded Some] st cf]
      using k1 k2 k3 e1 e3 n3 by (simp split: option.splits)
  qed
qed

lemma converged_earlier: "run_Converged (ps_run (converge_adapter r desired ad p)) \<Longrightarrow> run_Converged (ps_run p)"
proof -
  have keep: "run_Converged (ps_run (snd (apply_steps r ad steps q))) = run_Converged (ps_run q)" for steps q
    by (induction steps arbitrary: q) (auto simp: Let_def split: prod.splits option.splits)
  have op: "run_Converged (ps_run (snd (observe_plan ad desired wh q))) \<Longrightarrow> run_Converged (ps_run q)" for wh q
    by (auto simp: observe_plan_def pass_broken_def Let_def split: prod.splits sum.splits)
  assume conv: "run_Converged (ps_run (converge_adapter r desired ad p))"
  obtain plan p1 where ob: "observe_plan ad desired '''' p = (plan, p1)" by (cases "observe_plan ad desired '''' p")
  have o1: "run_Converged (ps_run p1) \<Longrightarrow> run_Converged (ps_run p)" using op [of "''''" p] ob by simp
  show "run_Converged (ps_run p)"
  proof (cases plan)
    case None
    then show ?thesis using conv ob o1 by (simp add: converge_adapter_def)
  next
    case (Some steps)
    obtain failed p2 where st: "apply_steps r ad steps p1 = (failed, p2)" by (cases "apply_steps r ad steps p1")
    obtain confirm p3 where cf: "observe_plan ad desired ''post-apply '' p2 = (confirm, p3)"
      by (cases "observe_plan ad desired ''post-apply '' p2")
    have "run_Converged (ps_run p3) \<Longrightarrow> run_Converged (ps_run p1)"
      using op [of "''post-apply ''" p2] cf keep [of steps p1] st by simp
    then show ?thesis using conv o1 unfolding converge_adapter_eq [OF ob [unfolded Some] st cf]
      by (auto split: if_splits option.splits)
  qed
qed

lemma fold_sound:
  assumes "distinct xs" "set xs \<subseteq> set ads" "inv (host p)"
    "run_Converged (ps_run (fold (converge_adapter r desired) xs p))"
  shows "run_Converged (ps_run p) \<and> inv (host (fold (converge_adapter r desired) xs p))
    \<and> (\<forall>ad \<in> set xs. in_sync ad (host (fold (converge_adapter r desired) xs p)))
    \<and> (\<forall>ad \<in> set ads - set xs. in_sync ad (host (fold (converge_adapter r desired) xs p)) = in_sync ad (host p))"
  using assms
proof (induction xs arbitrary: p)
  case (Cons ad xs)
  have ad: "ad \<in> set ads" using Cons.prems(2) by simp
  let ?q = "converge_adapter r desired ad p"
  note a = adapter_sound [OF ad Cons.prems(3), of r]
  have "distinct xs" "set xs \<subseteq> set ads" "run_Converged (ps_run (fold (converge_adapter r desired) xs ?q))"
    using Cons.prems by simp_all
  note ih = Cons.IH [OF this(1,2) conjunct1 [OF a] this(3)]
  show ?case using ih a ad Cons.prems(1) converged_earlier [of r ad p] by auto
qed simp

text \<open>A converged run leaves every adapter in sync, in spite of those that ran after it.\<close>

lemma Converge_sound:
  assumes "rc_ads r = ads" "distinct ads" "inv (w_host w)" "Converge r desired w = (run, err, w')" "run_Converged run"
  shows "inv (w_host w') \<and> (\<forall>ad \<in> set ads. in_sync ad (w_host w'))"
proof -
  have "run_Converged (ps_run (fold (converge_adapter r desired) ads (start_pass desired w)))"
    using assms(1,4,5) by (auto simp: Converge_def Let_def)
  from fold_sound [OF assms(2) subset_refl _ this] show ?thesis
    using assms(1,3,4) by (auto simp: Converge_def Let_def start_pass_def)
qed

end

section \<open>Progress\<close>

text \<open>The steps of a plan applied one after the other, each at its first attempt.\<close>

fun run_plan :: "'h adapter \<Rightarrow> Plan \<Rightarrow> 'h \<Rightarrow> 'h option" where
  "run_plan ad [] h = Some h"
| "run_plan ad (s # steps) h = (if applies ad s h then run_plan ad steps (snd (ad_Apply ad s h)) else None)"

text \<open>What a host that answers every call adds: observing and planning succeed, the plan can be carried out and
  brings the adapter in sync, and an adapter in sync plans nothing.\<close>

locale adapter_progress = adapter_family ads desired inv in_sync
  for ads :: "'h adapter list" and desired inv in_sync +
  fixes calm :: "'h \<Rightarrow> bool"
  assumes apply_number: "ad \<in> set ads \<Longrightarrow> ad_Apply ad (s\<lparr>sp_Seq := n\<rparr>) h = ((res, err), h') \<Longrightarrow>
      \<exists>res'. ad_Apply ad s h = ((res', err), h') \<and> sres_OK res' = sres_OK res"
    and observe_calm: "ad \<in> set ads \<Longrightarrow> inv h \<Longrightarrow> calm h \<Longrightarrow> \<exists>obs h'. ad_Observe ad h = (Inr obs, h') \<and> calm h'"
    and plan_calm: "ad \<in> set ads \<Longrightarrow> inv h \<Longrightarrow> calm h \<Longrightarrow> ad_Observe ad h = (Inr obs, h') \<Longrightarrow>
      \<exists>plan h2. ad_Plan ad desired obs = Inr plan \<and> run_plan ad plan h' = Some h2 \<and> calm h2 \<and> in_sync ad h2"
    and plan_nothing: "ad \<in> set ads \<Longrightarrow> inv h \<Longrightarrow> in_sync ad h \<Longrightarrow> ad_Observe ad h = (Inr obs, h') \<Longrightarrow> ad_Plan ad desired obs = Inr []"
begin

lemma applies_number: "ad \<in> set ads \<Longrightarrow> applies ad (s\<lparr>sp_Seq := n\<rparr>) h = applies ad s h"
  "ad \<in> set ads \<Longrightarrow> snd (ad_Apply ad (s\<lparr>sp_Seq := n\<rparr>) h) = snd (ad_Apply ad s h)"
proof -
  assume ad: "ad \<in> set ads"
  obtain res err h' where ap: "ad_Apply ad (s\<lparr>sp_Seq := n\<rparr>) h = ((res, err), h')" by (metis prod.collapse)
  obtain res' where "ad_Apply ad s h = ((res', err), h')" "sres_OK res' = sres_OK res" using apply_number [OF ad ap] by blast
  then show "applies ad (s\<lparr>sp_Seq := n\<rparr>) h = applies ad s h" "snd (ad_Apply ad (s\<lparr>sp_Seq := n\<rparr>) h) = snd (ad_Apply ad s h)"
    using ap by (simp_all add: applies_def)
qed

lemma first_attempt:
  assumes "1 \<le> rc_MaxRetries r" "applies ad s (w_host w)"
  shows "\<exists>res w'. applyWithRetry r ad s w = (res, None, w') \<and> w_host w' = snd (ad_Apply ad s (w_host w))"
proof -
  obtain res err w1 where at: "attempt_once r ad s w = (res, err, w1)" by (cases "attempt_once r ad s w")
  have "err = None" "w_host w1 = snd (ad_Apply ad s (w_host w))"
    using attempt_once_ok [of r ad s w] attempt_once_host [of r ad s w] at assms(2) by simp_all
  then show ?thesis using at assms(1) by (simp add: applyWithRetry_def retry_from.simps [of r ad s 1])
qed

lemma steps_calm:
  assumes "ad \<in> set ads" "1 \<le> rc_MaxRetries r" "run_plan ad steps (host p) = Some h"
  shows "\<exists>p'. apply_steps r ad steps p = (False, p') \<and> host p' = h"
  using assms(3)
proof (induction steps arbitrary: p)
  case (Cons s steps)
  let ?s = "s\<lparr>sp_Seq := ps_seq p\<rparr>"
  have "applies ad ?s (host p)" "run_plan ad steps (snd (ad_Apply ad s (host p))) = Some h"
    using Cons.prems applies_number(1) [OF assms(1)] by (auto split: if_splits)
  moreover from first_attempt [OF assms(2) this(1)] obtain res w'
    where ap: "applyWithRetry r ad ?s (ps_world p) = (res, None, w')" "w_host w' = snd (ad_Apply ad s (host p))"
    using applies_number(2) [OF assms(1)] by metis
  ultimately show ?case
    using Cons.IH [of "p\<lparr>ps_run := (ps_run p)\<lparr>run_Steps := run_Steps (ps_run p) @ [res]\<rparr>, ps_seq := ps_seq p + 1, ps_world := w'\<rparr>"]
    by (simp add: Let_def)
qed simp

lemma observe_plan_calm:
  assumes "ad \<in> set ads" "inv (host p)" "calm (host p)"
  shows "\<exists>plan p1 h2. observe_plan ad desired when p = (Some plan, p1) \<and> ps_run p1 = ps_run p \<and> calm (host p1)
    \<and> run_plan ad plan (host p1) = Some h2 \<and> calm h2 \<and> in_sync ad h2 \<and> (in_sync ad (host p) \<longrightarrow> plan = [])"
proof -
  obtain obs h' where ob: "ad_Observe ad (host p) = (Inr obs, h')" "calm h'" using observe_calm [OF assms] by blast
  obtain plan h2 where pl: "ad_Plan ad desired obs = Inr plan" "run_plan ad plan h' = Some h2" "calm h2" "in_sync ad h2"
    using plan_calm [OF assms ob(1)] by blast
  have "in_sync ad (host p) \<Longrightarrow> plan = []" using plan_nothing [OF assms(1,2) _ ob(1)] pl(1) by simp
  then show ?thesis using ob pl by (simp add: observe_plan_def Let_def)
qed

lemma adapter_calm:
  assumes "ad \<in> set ads" "1 \<le> rc_MaxRetries r" "\<And>w. disruptiveAllowed r w" "inv (host p)" "calm (host p)"
  shows "calm (host (converge_adapter r desired ad p))
    \<and> run_Converged (ps_run (converge_adapter r desired ad p)) = run_Converged (ps_run p)
    \<and> (in_sync ad (host p) \<longrightarrow> run_Steps (ps_run (converge_adapter r desired ad p)) = run_Steps (ps_run p))"
proof -
  obtain plan p1 h2 where ob: "observe_plan ad desired '''' p = (Some plan, p1)" "ps_run p1 = ps_run p" "calm (host p1)"
    and pl: "run_plan ad plan (host p1) = Some h2" "calm h2" "in_sync ad h2" "in_sync ad (host p) \<longrightarrow> plan = []"
    using observe_plan_calm [OF assms(1,4,5)] by blast
  show ?thesis
  proof (cases "IsEmpty plan")
    case True
    then show ?thesis using ob by (simp add: converge_adapter_def)
  next
    case False
    obtain p2 where st: "apply_steps r ad plan p1 = (False, p2)" "host p2 = h2"
      using steps_calm [OF assms(1,2) pl(1)] by blast
    have run2: "run_Converged (ps_run p2) = run_Converged (ps_run p1)"
      using st(1) by (induction plan arbitrary: p1) (auto simp: Let_def split: prod.splits option.splits)
    have "inv (host p1)" using observe_plan_keeps [OF assms(1,4), of "''''"] ob(1) by simp
    then have inv2: "inv (host p2)" using steps_keep [OF assms(1)] st(1) by (metis snd_conv)
    have "in_sync ad (host p2)" "calm (host p2)" using st(2) pl by simp_all
    with observe_plan_calm [OF assms(1) inv2] obtain p3
      where cf: "observe_plan ad desired ''post-apply '' p2 = (Some [], p3)" "ps_run p3 = ps_run p2" "calm (host p3)" by blast
    show ?thesis unfolding converge_adapter_eq [OF ob(1) st(1) cf(1)]
      using assms(3) False cf run2 ob(2) pl(4) by (auto simp: IsEmpty_def)
  qed
qed

lemma fold_calm:
  assumes "1 \<le> rc_MaxRetries r" "\<And>w. disruptiveAllowed r w" "set xs \<subseteq> set ads" "inv (host p)" "calm (host p)"
  shows "calm (host (fold (converge_adapter r desired) xs p)) \<and> inv (host (fold (converge_adapter r desired) xs p))
    \<and> run_Converged (ps_run (fold (converge_adapter r desired) xs p)) = run_Converged (ps_run p)"
  using assms(3-)
proof (induction xs arbitrary: p)
  case (Cons ad xs)
  then have ad: "ad \<in> set ads" "inv (host (converge_adapter r desired ad p))" using adapter_sound by auto
  show ?case using Cons adapter_calm [OF ad(1) assms(1,2)] ad(2) by simp
qed simp

lemma fold_idle:
  assumes "1 \<le> rc_MaxRetries r" "\<And>w. disruptiveAllowed r w" "set xs \<subseteq> set ads" "inv (host p)" "calm (host p)"
    "\<forall>ad \<in> set ads. in_sync ad (host p)" "run_Converged (ps_run p)"
  shows "run_Steps (ps_run (fold (converge_adapter r desired) xs p)) = run_Steps (ps_run p)"
  using assms(3-)
proof (induction xs arbitrary: p)
  case (Cons ad xs)
  then have ad: "ad \<in> set ads" by simp
  let ?q = "converge_adapter r desired ad p"
  have c: "calm (host ?q)" "run_Converged (ps_run ?q)" "run_Steps (ps_run ?q) = run_Steps (ps_run p)"
    using adapter_calm [OF ad assms(1,2) Cons.prems(2,3)] Cons.prems(4,5) ad by auto
  have "inv (host ?q)" "\<forall>ad \<in> set ads. in_sync ad (host ?q)"
    using adapter_sound [OF ad Cons.prems(2), of r] Cons.prems(4) c(2) by metis+
  then show ?case using Cons.IH [OF _ _ c(1) _ c(2)] Cons.prems(1) c(3) by simp
qed simp

lemma Converge_progress:
  assumes "rc_ads r = ads" "distinct ads" "1 \<le> rc_MaxRetries r" "\<And>w. disruptiveAllowed r w" "inv (w_host w)" "calm (w_host w)"
  shows "\<exists>run w'. Converge r desired w = (run, None, w') \<and> run_Converged run \<and> inv (w_host w') \<and> calm (w_host w')
    \<and> (\<forall>ad \<in> set ads. in_sync ad (w_host w'))
    \<and> (\<exists>run2 w2. Converge r desired w' = (run2, None, w2) \<and> run_Converged run2 \<and> run_Steps run2 = [])"
proof -
  have start: "host (start_pass desired v) = w_host v" "run_Converged (ps_run (start_pass desired v))"
    "run_Steps (ps_run (start_pass desired v)) = []" "pass_ok (start_pass desired v)" for v
    by (simp_all add: start_pass_def pass_ok_def)
  have one: "\<exists>run v'. Converge r desired v = (run, None, v') \<and> run_Converged run \<and> inv (w_host v') \<and> calm (w_host v')
      \<and> run = ps_run (fold (converge_adapter r desired) ads (start_pass desired v))" if v: "inv (w_host v)" "calm (w_host v)" for v
  proof -
    let ?p = "fold (converge_adapter r desired) ads (start_pass desired v)"
    have p: "calm (host ?p)" "inv (host ?p)" "run_Converged (ps_run ?p)"
      using fold_calm [OF assms(3,4) subset_refl, of "start_pass desired v"] v start by simp_all
    have "pass_ok (fold (converge_adapter r desired) xs q)" if "pass_ok q" for xs q
      using that by (induction xs arbitrary: q) (simp_all add: converge_adapter_ok assms(3))
    then have "ps_hard ?p = ''''" using p(3) start(4) unfolding pass_ok_def by blast
    then show ?thesis using p assms(1) by (simp add: Converge_def Let_def)
  qed
  obtain run w' where c1: "Converge r desired w = (run, None, w')" "run_Converged run" "inv (w_host w')" "calm (w_host w')"
    using one [OF assms(5,6)] by blast
  have s1: "\<forall>ad \<in> set ads. in_sync ad (w_host w')" using Converge_sound [OF assms(1,2,5) c1(1,2)] by blast
  obtain run2 w2 where c2: "Converge r desired w' = (run2, None, w2)" "run_Converged run2"
    "run2 = ps_run (fold (converge_adapter r desired) ads (start_pass desired w'))"
    using one [OF c1(3,4)] by blast
  have "run_Steps run2 = []"
    using fold_idle [OF assms(3,4) subset_refl, of "start_pass desired w'"] c1(3,4) s1 start unfolding c2(3) by simp
  then show ?thesis using c1 s1 c2 by blast
qed

end

end
