(* ===== verification/StubAdapter.thy ===== *)
theory StubAdapter
  imports Reconcile "HOL-Library.List_Lexorder" "HOL-Library.Char_ord"
begin

text \<open>
  The file adapter, \<open>src/internal/node/adapter/stub/stub.go\<close>, on a file system of directories, each a list of named entries.

  Every call of the operating system takes the next entry of a script of faults and fails with it if there is one; the
  script stands for everything the host may refuse. \<open>os.ReadDir\<close> returns the entries by name, \<open>os.CreateTemp\<close> picks a
  name the directory does not have. SHA-256 in hexadecimal is a parameter. Durability (\<open>Sync\<close>) and file modes are calls that
  can fail and change nothing here.
\<close>

section \<open>The file system\<close>

datatype entry = Dir | File string

record fs_host =
  fh_dirs :: "(string, (string, entry) gomap) gomap"
  fh_faults :: "string option list"

definition os_call :: "fs_host \<Rightarrow> string option \<times> fs_host" where
  "os_call h = (case fh_faults h of [] \<Rightarrow> (None, h) | f # fs \<Rightarrow> (f, h\<lparr>fh_faults := fs\<rparr>))"

definition dir_entries :: "string \<Rightarrow> fs_host \<Rightarrow> (string, entry) gomap" where
  "dir_entries root h = (case go_get (fh_dirs h) root of None \<Rightarrow> [] | Some es \<Rightarrow> es)"

definition put_entry :: "string \<Rightarrow> string \<Rightarrow> entry \<Rightarrow> fs_host \<Rightarrow> fs_host" where
  "put_entry root name e h = h\<lparr>fh_dirs := go_set root (go_set name e (dir_entries root h)) (fh_dirs h)\<rparr>"

definition del_entry :: "string \<Rightarrow> string \<Rightarrow> fs_host \<Rightarrow> fs_host" where
  "del_entry root name h = h\<lparr>fh_dirs := go_set root (go_del name (dir_entries root h)) (fh_dirs h)\<rparr>"

definition temp_name :: "(string, entry) gomap \<Rightarrow> string" where
  "temp_name es = ''.antimage-'' @ replicate (Suc (sum_list (map (length \<circ> fst) es))) (CHR ''x'')"

section \<open>Names and contents\<close>

definition MarkerPrefix :: string where
  "MarkerPrefix = ''# antimage-managed''"

definition filePrefix :: string where "filePrefix = ''service-''"
definition fileSuffix :: string where "fileSuffix = ''.conf''"

definition path_name :: "int \<Rightarrow> string" where
  "path_name i = filePrefix @ fmt_d i @ fileSuffix"

text \<open>\<open>strings.HasPrefix\<close>, \<open>HasSuffix\<close>, \<open>TrimPrefix\<close>, \<open>TrimSuffix\<close> and \<open>Cut\<close> at the first newline.\<close>

definition has_prefix :: "string \<Rightarrow> string \<Rightarrow> bool" where
  "has_prefix s p \<longleftrightarrow> take (length p) s = p"

definition has_suffix :: "string \<Rightarrow> string \<Rightarrow> bool" where
  "has_suffix s p \<longleftrightarrow> length p \<le> length s \<and> drop (length s - length p) s = p"

definition trim_prefix :: "string \<Rightarrow> string \<Rightarrow> string" where
  "trim_prefix s p = (if has_prefix s p then drop (length p) s else s)"

definition trim_suffix :: "string \<Rightarrow> string \<Rightarrow> string" where
  "trim_suffix s p = (if has_suffix s p then take (length s - length p) s else s)"

definition after_line :: "string \<Rightarrow> string" where
  "after_line s = drop 1 (dropWhile (\<lambda>c. c \<noteq> CHR 0x0A) s)"

text \<open>\<open>strconv.ParseInt(s, 10, 64)\<close>.\<close>

definition digit_value :: "char \<Rightarrow> int option" where
  "digit_value c = (let n = of_char c :: int in if 48 \<le> n \<and> n \<le> 57 then Some (n - 48) else None)"

fun digits_value :: "int \<Rightarrow> string \<Rightarrow> int option" where
  "digits_value acc [] = Some acc"
| "digits_value acc (c # cs) = (case digit_value c of None \<Rightarrow> None | Some d \<Rightarrow> digits_value (10 * acc + d) cs)"

definition ParseInt :: "string \<Rightarrow> int option" where
  "ParseInt s =
     (let neg = (take 1 s = ''-''); body = (if take 1 s = ''-'' \<or> take 1 s = ''+'' then drop 1 s else s) in
      if body = '''' then None
      else (case digits_value 0 body of None \<Rightarrow> None
        | Some v \<Rightarrow> (let i = (if neg then - v else v) in if - (2 ^ 63) \<le> i \<and> i < 2 ^ 63 then Some i else None)))"

definition nl :: string where "nl = [CHR 0x0A]"

definition payloadOf :: "service \<Rightarrow> string" where
  "payloadOf svc = ''id='' @ fmt_d (svc_ID svc) @ nl @ ''enabled='' @ (if svc_Enabled svc then ''true'' else ''false'') @ nl
     @ ''params='' @ svc_Params svc @ nl"

definition render :: "(string \<Rightarrow> string) \<Rightarrow> service \<Rightarrow> string" where
  "render sha svc = MarkerPrefix @ '' sha256='' @ sha (payloadOf svc) @ nl @ payloadOf svc"

definition isManaged :: "string \<Rightarrow> bool" where
  "isManaged body \<longleftrightarrow> has_prefix body MarkerPrefix"

section \<open>Observe\<close>

text \<open>The id a directory entry stands for, if it is one of ours.\<close>

definition service_id :: "string \<times> entry \<Rightarrow> int option" where
  "service_id ne = (if snd ne = Dir \<or> \<not> has_prefix (fst ne) filePrefix \<or> \<not> has_suffix (fst ne) fileSuffix then None
     else ParseInt (trim_suffix (trim_prefix (fst ne) filePrefix) fileSuffix))"

definition observed_service :: "(string \<Rightarrow> string) \<Rightarrow> int \<Rightarrow> string \<Rightarrow> ObservedService" where
  "observed_service sha i text = \<lparr>os_ID = i, os_Present = True, os_Managed = isManaged text, os_Checksum = sha (after_line text)\<rparr>"

fun read_entries :: "(string \<Rightarrow> string) \<Rightarrow> (string \<times> entry) list \<Rightarrow> fs_host \<Rightarrow> (string + ObservedService list) \<times> fs_host" where
  "read_entries sha [] h = (Inr [], h)"
| "read_entries sha (ne # es) h =
     (case service_id ne of
        None \<Rightarrow> read_entries sha es h
      | Some i \<Rightarrow> (case os_call h of
          (Some e, h1) \<Rightarrow> (Inl (''read '' @ fst ne @ '': '' @ e), h1)
        | (None, h1) \<Rightarrow> (case read_entries sha es h1 of
            (Inl e, h2) \<Rightarrow> (Inl e, h2)
          | (Inr out, h2) \<Rightarrow> (Inr (observed_service sha i (case snd ne of File t \<Rightarrow> t | Dir \<Rightarrow> '''') # out), h2))))"

definition stub_Observe :: "(string \<Rightarrow> string) \<Rightarrow> string \<Rightarrow> fs_host \<Rightarrow> (string + Observed) \<times> fs_host" where
  "stub_Observe sha root h =
     (case os_call h of
        (Some e, h1) \<Rightarrow> (Inl (''read '' @ root @ '': '' @ e), h1)
      | (None, h1) \<Rightarrow> (case go_get (fh_dirs h1) root of
          None \<Rightarrow> (Inr \<lparr>ob_Services = [], ob_Egress = None\<rparr>, h1)
        | Some es \<Rightarrow> (case read_entries sha (sort_key fst es) h1 of
            (Inl e, h2) \<Rightarrow> (Inl e, h2)
          | (Inr out, h2) \<Rightarrow> (Inr \<lparr>ob_Services = sort_key os_ID out, ob_Egress = None\<rparr>, h2))))"

section \<open>Plan\<close>

definition stub_step :: "string \<Rightarrow> Disruption \<Rightarrow> int \<Rightarrow> (string \<times> string) list option \<Rightarrow> Step list \<Rightarrow> Step list" where
  "stub_step kind dis i payload steps =
     steps @ [\<lparr>sp_Seq = int (length steps) + 1, sp_Kind = kind, sp_Disruption = dis, sp_ServiceID = i, sp_Payload = payload\<rparr>]"

definition plan_service :: "(string \<Rightarrow> string) \<Rightarrow> (int, ObservedService) gomap \<Rightarrow> service \<Rightarrow> Step list \<Rightarrow> Step list" where
  "plan_service sha seen svc steps =
     (case go_get seen (svc_ID svc) of
        Some obs \<Rightarrow>
          if os_Managed obs then
            (if os_Checksum obs = sha (payloadOf svc) then steps
             else stub_step ''write_service'' DisruptRestart (svc_ID svc) (Some [(''body'', render sha svc)]) steps)
          else stub_step ''blocked_unmanaged'' DisruptNone (svc_ID svc) None steps
      | None \<Rightarrow> stub_step ''write_service'' DisruptRestart (svc_ID svc) (Some [(''body'', render sha svc)]) steps)"

definition plan_removal :: "int list \<Rightarrow> ObservedService \<Rightarrow> Step list \<Rightarrow> Step list" where
  "plan_removal desired_ids obs steps = (if os_ID obs \<in> set desired_ids \<or> \<not> os_Managed obs then steps
     else stub_step ''remove_service'' DisruptRestart (os_ID obs) None steps)"

definition stub_Plan :: "(string \<Rightarrow> string) \<Rightarrow> document \<Rightarrow> Observed \<Rightarrow> string + Plan" where
  "stub_Plan sha desired observed =
     (let seen = fold (\<lambda>obs m. go_set (os_ID obs) obs m) (ob_Services observed) [];
          services = sort_key svc_ID (Services desired);
          steps = fold (plan_service sha seen) services []
      in Inr (fold (plan_removal (map svc_ID services)) (ob_Services observed) steps))"

section \<open>Apply\<close>

type_synonym os_stage = "string \<times> (fs_host \<Rightarrow> string + fs_host)"

fun run_stages :: "os_stage list \<Rightarrow> fs_host \<Rightarrow> string option \<times> fs_host" where
  "run_stages [] h = (None, h)"
| "run_stages ((label, f) # stages) h =
     (case os_call h of
        (Some e, h1) \<Rightarrow> (Some (label @ '': '' @ e), h1)
      | (None, h1) \<Rightarrow> (case f h1 of Inl e \<Rightarrow> (Some (label @ '': '' @ e), h1) | Inr h2 \<Rightarrow> run_stages stages h2))"

definition rename_entry :: "string \<Rightarrow> string \<Rightarrow> string \<Rightarrow> fs_host \<Rightarrow> string + fs_host" where
  "rename_entry root old new h =
     (if go_get (dir_entries root h) new = Some Dir then Inl ''file exists''
      else (case go_get (dir_entries root h) old of None \<Rightarrow> Inl ''no such file or directory''
        | Some e \<Rightarrow> Inr (put_entry root new e (del_entry root old h))))"

text \<open>The calls between creating the temporary file and the rename, in order.\<close>

definition write_stages :: "string \<Rightarrow> string \<Rightarrow> string \<Rightarrow> string \<Rightarrow> os_stage list" where
  "write_stages root tmp name body =
     [(''write temp file'', \<lambda>h. Inr (put_entry root tmp (File body) h)), (''chmod temp file'', Inr), (''sync temp file'', Inr),
      (''close temp file'', Inr), (''rename into place'', rename_entry root tmp name)]"

definition remove_quietly :: "string \<Rightarrow> string \<Rightarrow> fs_host \<Rightarrow> fs_host" where
  "remove_quietly root name h = (case os_call h of (Some e, h1) \<Rightarrow> h1 | (None, h1) \<Rightarrow> del_entry root name h1)"

definition atomicWrite :: "string \<Rightarrow> string \<Rightarrow> string \<Rightarrow> fs_host \<Rightarrow> string option \<times> fs_host" where
  "atomicWrite root name body h =
     (case os_call h of
        (Some e, h1) \<Rightarrow> (Some (''create temp file: '' @ e), h1)
      | (None, h1) \<Rightarrow>
          (let tmp = temp_name (dir_entries root h1);
               (err, h2) = run_stages (write_stages root tmp name body) (put_entry root tmp (File '''') h1)
           in (err, remove_quietly root tmp h2)))"

definition stub_fail :: "Step \<Rightarrow> string \<Rightarrow> fs_host \<Rightarrow> (StepResult \<times> string option) \<times> fs_host" where
  "stub_fail step e h = ((no_result\<lparr>sres_Seq := sp_Seq step, sres_OK := False, sres_Err := e\<rparr>, Some e), h)"

definition stub_done :: "Step \<Rightarrow> fs_host \<Rightarrow> (StepResult \<times> string option) \<times> fs_host" where
  "stub_done step h = ((no_result\<lparr>sres_Seq := sp_Seq step, sres_OK := True\<rparr>, None), h)"

definition mkdir_all :: "string \<Rightarrow> fs_host \<Rightarrow> fs_host" where
  "mkdir_all root h = h\<lparr>fh_dirs := go_set root (dir_entries root h) (fh_dirs h)\<rparr>"

definition apply_write :: "string \<Rightarrow> Step \<Rightarrow> fs_host \<Rightarrow> (StepResult \<times> string option) \<times> fs_host" where
  "apply_write root step h =
     (case sp_Payload step of
        None \<Rightarrow> stub_fail step ''decode payload: unexpected end of JSON input'' h
      | Some kvs \<Rightarrow> (case os_call h of
          (Some e, h1) \<Rightarrow> stub_fail step (''create root: '' @ e) h1
        | (None, h1) \<Rightarrow>
            (case atomicWrite root (path_name (sp_ServiceID step)) (case go_get kvs ''body'' of None \<Rightarrow> '''' | Some b \<Rightarrow> b)
                (mkdir_all root h1) of
               (Some e, h2) \<Rightarrow> stub_fail step e h2
             | (None, h2) \<Rightarrow> stub_done step h2)))"

definition stub_Apply :: "string \<Rightarrow> Step \<Rightarrow> fs_host \<Rightarrow> (StepResult \<times> string option) \<times> fs_host" where
  "stub_Apply root step h =
     (if sp_Kind step = ''write_service'' then apply_write root step h
      else if sp_Kind step = ''remove_service'' then
        (case os_call h of
           (Some e, h1) \<Rightarrow> stub_fail step (''remove service '' @ fmt_d (sp_ServiceID step) @ '': '' @ e) h1
         | (None, h1) \<Rightarrow> stub_done step (del_entry root (path_name (sp_ServiceID step)) h1))
      else if sp_Kind step = ''blocked_unmanaged'' then
        stub_fail step (''service '' @ fmt_d (sp_ServiceID step) @ '': refusing to write '' @ root @ ''/'' @ path_name (sp_ServiceID step)
          @ '': file exists but was not created by antimage; remove it or adopt it (add the antimage marker) to let this service converge'') h
      else stub_fail step (''unknown step kind '' @ [CHR 0x22] @ sp_Kind step @ [CHR 0x22]) h)"

definition stub_Probe :: "string \<Rightarrow> fs_host \<Rightarrow> (string + Health) \<times> fs_host" where
  "stub_Probe root h = (case os_call h of
     (Some e, h1) \<Rightarrow> (Inr \<lparr>he_OK = False, he_Detail = e\<rparr>, h1)
   | (None, h1) \<Rightarrow> (Inr \<lparr>he_OK = True, he_Detail = ''stub adapter ready''\<rparr>, mkdir_all root h1))"

definition stub_Restart :: "fs_host \<Rightarrow> string option \<times> fs_host" where
  "stub_Restart h = (Some ErrRestartUnsupported, h)"

definition stub_schema :: string where
  \<open>stub_schema = ''{'' @ nl
     @ ''  "type": "object",'' @ nl
     @ ''  "additionalProperties": false,'' @ nl
     @ ''  "required": ["port"],'' @ nl
     @ ''  "properties": {'' @ nl
     @ ''    "port": {"type": "integer", "minimum": 1, "maximum": 65535}'' @ nl
     @ ''  }'' @ nl
     @ ''}''\<close>

definition stub_Descriptor :: Descriptor where
  "stub_Descriptor = \<lparr>ds_Kind = ''stub'', ds_Version = ''1'', ds_Caps = \<lparr>cap_HotUserAdd = True, cap_SelfAccounting = False,
     cap_RequiresPKI = False, cap_CredentialKinds = [''uuid''],
     cap_ServiceSchema = stub_schema,
     cap_SupportsOutbounds = False, cap_SupportsRouting = False, cap_OutboundSchema = '''', cap_OutboundKinds = [],
     cap_BuiltinOutboundTags = [], cap_SupportsDNS = False, cap_SupportsBalancer = False\<rparr>\<rparr>"

definition stub_New :: "(string \<Rightarrow> string) \<Rightarrow> string \<Rightarrow> fs_host adapter" where
  "stub_New sha root = \<lparr>ad_Descriptor = stub_Descriptor, ad_Observe = stub_Observe sha root, ad_Plan = stub_Plan sha,
     ad_Apply = stub_Apply root, ad_Probe = stub_Probe root, ad_Restart = stub_Restart,
     ad_UpdateGeoData = None, ad_UpgradeCore = None, ad_ReadLogs = None\<rparr>"

section \<open>Service file names\<close>

definition int64 :: "int \<Rightarrow> bool" where
  "int64 i \<longleftrightarrow> - (2 ^ 63) \<le> i \<and> i < 2 ^ 63"

lemma digit_value_char: "n < 10 \<Longrightarrow> digit_value (char_of (48 + n :: nat)) = Some (int n)"
proof -
  assume "n < 10"
  then have "of_char (char_of (48 + n :: nat)) = (48 + int n :: int)"
    by (subst of_nat_of_char [symmetric]) simp
  then show ?thesis using \<open>n < 10\<close> by (simp add: digit_value_def Let_def)
qed

lemma digits_value_append:
  "digits_value acc (xs @ ys) = (case digits_value acc xs of None \<Rightarrow> None | Some v \<Rightarrow> digits_value v ys)"
  by (induction acc xs rule: digits_value.induct) (auto split: option.splits)

lemma digits_value_digits: "digits_value 0 (nat_digits n) = Some (int n)"
proof (induction n rule: nat_digits.induct)
  case (1 n)
  show ?case
  proof (cases "n < 10")
    case True
    then show ?thesis by (simp add: nat_digits.simps [of n] digit_value_char)
  next
    case False
    have "int n = 10 * int (n div 10) + int (n mod 10)"
      by (metis mult_div_mod_eq of_nat_add of_nat_mult of_nat_numeral)
    then show ?thesis using False 1 by (simp add: nat_digits.simps [of n] digits_value_append digit_value_char)
  qed
qed

lemma nat_digits_ne [simp]: "nat_digits n \<noteq> []"
  by (simp add: nat_digits.simps [of n])

lemma nat_digits_sign: "take 1 (nat_digits n) \<noteq> ''-''" "take 1 (nat_digits n) \<noteq> ''+''"
proof -
  obtain c cs where n: "nat_digits n = c # cs" using nat_digits_ne [of n] by (cases "nat_digits n") auto
  then have "digit_value c \<noteq> None" using digits_value_digits [of n] by (auto split: option.splits)
  then show "take 1 (nat_digits n) \<noteq> ''-''" "take 1 (nat_digits n) \<noteq> ''+''" using n by (auto simp: digit_value_def)
qed

lemma ParseInt_fmt: "ParseInt (fmt_d i) = (if int64 i then Some i else None)"
proof (cases "i < 0")
  case True
  have "fmt_d i = CHR ''-'' # nat_digits (nat (- i))" using True by (simp add: fmt_d_def)
  then show ?thesis using True by (simp add: ParseInt_def Let_def digits_value_digits int64_def)
next
  case False
  have "fmt_d i = nat_digits (nat i)" using False by (simp add: fmt_d_def)
  then show ?thesis using False nat_digits_sign [of "nat i"]
    by (simp add: ParseInt_def Let_def digits_value_digits int64_def)
qed

lemma trim_path: "has_prefix (path_name i) filePrefix" "has_suffix (path_name i) fileSuffix"
  "trim_suffix (trim_prefix (path_name i) filePrefix) fileSuffix = fmt_d i"
  by (simp_all add: has_prefix_def has_suffix_def trim_prefix_def trim_suffix_def path_name_def)

lemma service_id_path: "int64 i \<Longrightarrow> e \<noteq> Dir \<Longrightarrow> service_id (path_name i, e) = Some i"
  by (simp add: service_id_def trim_path ParseInt_fmt)

lemma service_id_of_path: "service_id (path_name i, e) = Some j \<Longrightarrow> j = i"
  by (simp add: service_id_def trim_path ParseInt_fmt split: if_splits)

lemma path_name_inj: "int64 i \<Longrightarrow> int64 j \<Longrightarrow> path_name i = path_name j \<longleftrightarrow> i = j"
  by (metis service_id_path entry.distinct(2) option.inject)

lemma ParseInt_int64: "ParseInt s = Some i \<Longrightarrow> int64 i"
proof -
  have range: "(if P v then Some v else None) = Some i \<Longrightarrow> P i" for P and v :: int by (simp split: if_splits)
  assume "ParseInt s = Some i"
  then show ?thesis unfolding ParseInt_def Let_def int64_def
    by (cases "digits_value 0 (if take 1 s = ''-'' \<or> take 1 s = ''+'' then drop 1 s else s)") (auto dest!: range split: if_split_asm)
qed

lemma service_id_int64: "service_id ne = Some i \<Longrightarrow> int64 i"
  unfolding service_id_def by (rule ParseInt_int64) (simp split: if_split_asm)

text \<open>Temporary names start with a dot, are new in their directory, and no service file has such a name.\<close>

definition hidden :: "string \<Rightarrow> bool" where
  "hidden m \<longleftrightarrow> take 1 m = ''.''"

lemma temp_hidden [simp]: "hidden (temp_name es)" "\<not> hidden (path_name i)"
  by (simp_all add: hidden_def temp_name_def path_name_def filePrefix_def)

lemma hidden_no_id: "hidden m \<Longrightarrow> service_id (m, e) = None"
  by (cases m) (auto simp: hidden_def service_id_def has_prefix_def filePrefix_def)

lemma temp_fresh: "go_get es (temp_name es) = None"
proof -
  have "length m \<le> sum_list (map (length \<circ> fst) es)" if "(m, e) \<in> set es" for m e
    using that by (induction es) force+
  then have "(temp_name es, e) \<notin> set es" for e by (force simp: temp_name_def)
  then show ?thesis by (meson map_of_SomeD not_None_eq)
qed

section \<open>Directories\<close>

lemma os_call_dirs [simp]: "fh_dirs (snd (os_call h)) = fh_dirs h"
  by (simp add: os_call_def split: list.splits)

lemma os_call_dirs' : "os_call h = (f, h') \<Longrightarrow> fh_dirs h' = fh_dirs h"
  using os_call_dirs [of h] by simp

lemma os_call_quiet [simp]: "fh_faults h = [] \<Longrightarrow> os_call h = (None, h)"
  by (simp add: os_call_def)

lemma dir_entries_cong: "fh_dirs h = fh_dirs h' \<Longrightarrow> dir_entries root h = dir_entries root h'"
  by (simp add: dir_entries_def)

lemma dir_put [simp]: "dir_entries root' (put_entry root n e h) = (if root' = root then go_set n e (dir_entries root h) else dir_entries root' h)"
  by (simp add: dir_entries_def put_entry_def)

lemma dir_del [simp]: "dir_entries root' (del_entry root n h) = (if root' = root then go_del n (dir_entries root h) else dir_entries root' h)"
  by (simp add: dir_entries_def del_entry_def)

lemma dir_mkdir [simp]: "dir_entries root' (mkdir_all root h) = dir_entries root' h"
  by (simp add: dir_entries_def mkdir_all_def split: option.splits)

text \<open>What is visible of a directory: everything but temporary files.\<close>

definition visible :: "string \<Rightarrow> fs_host \<Rightarrow> string \<Rightarrow> entry option" where
  "visible root h m = (if hidden m then None else go_get (dir_entries root h) m)"

lemma visible_cong: "fh_dirs h = fh_dirs h' \<Longrightarrow> visible root h = visible root h'"
  by (rule ext) (simp add: visible_def dir_entries_cong [of h h'])

lemma visible_put: "visible root' (put_entry root n e h) = (if root' = root \<and> \<not> hidden n then (visible root h)(n \<mapsto> e) else visible root' h)"
  by (rule ext) (simp add: visible_def)

lemma visible_del: "visible root' (del_entry root n h) = (if root' = root then (visible root h)(n := None) else visible root' h)"
  by (rule ext) (simp add: visible_def)

lemma visible_mkdir [simp]: "visible root' (mkdir_all root h) = visible root' h"
  by (rule ext) (simp add: visible_def)

lemma faults_frame [simp]: "fh_faults (put_entry root n e h) = fh_faults h" "fh_faults (del_entry root n h) = fh_faults h"
  "fh_faults (mkdir_all root h) = fh_faults h"
  by (simp_all add: put_entry_def del_entry_def mkdir_all_def)

text \<open>A directory is well-formed when its names are distinct and a file that reads as service \<open>i\<close> has the name written for \<open>i\<close>.\<close>

definition dir_ok :: "string \<Rightarrow> fs_host \<Rightarrow> bool" where
  "dir_ok root h \<longleftrightarrow> go_wf (dir_entries root h)
     \<and> (\<forall>ne \<in> set (dir_entries root h). case service_id ne of None \<Rightarrow> True | Some i \<Rightarrow> fst ne = path_name i)"

lemma dir_ok_alt:
  "dir_ok root h \<longleftrightarrow> go_wf (dir_entries root h)
    \<and> (\<forall>m e. go_get (dir_entries root h) m = Some e \<longrightarrow> (\<forall>i. service_id (m, e) = Some i \<longrightarrow> m = path_name i))"
  by (force simp: dir_ok_def go_get_in_set split: option.splits)

lemma dir_ok_cong: "fh_dirs h = fh_dirs h' \<Longrightarrow> dir_ok root h = dir_ok root h'"
  using dir_entries_cong [of h h' root] by (simp add: dir_ok_def)

lemma dir_ok_put: "dir_ok root h \<Longrightarrow> hidden n \<or> (\<exists>i. n = path_name i) \<Longrightarrow> dir_ok root (put_entry root' n e h)"
  by (auto simp: dir_ok_alt hidden_no_id dest: service_id_of_path)

lemma dir_ok_del: "dir_ok root h \<Longrightarrow> dir_ok root (del_entry root' n h)"
  by (auto simp: dir_ok_alt)

lemma dir_ok_mkdir [simp]: "dir_ok root (mkdir_all root' h) = dir_ok root h"
  by (simp add: dir_ok_def)

section \<open>What a write does\<close>

text \<open>Nothing visible changes.\<close>

definition quiet :: "fs_host \<Rightarrow> fs_host \<Rightarrow> bool" where
  "quiet h h' \<longleftrightarrow> (\<forall>root. visible root h' = visible root h \<and> (dir_ok root h \<longrightarrow> dir_ok root h'))"

lemma quiet_refl [simp]: "quiet h h"
  by (simp add: quiet_def)

lemma quiet_trans: "quiet h h1 \<Longrightarrow> quiet h1 h2 \<Longrightarrow> quiet h h2"
  by (simp add: quiet_def)

lemma quiet_dirs: "fh_dirs h' = fh_dirs h \<Longrightarrow> quiet h h'"
  using visible_cong [of h' h] dir_ok_cong [of h' h] by (simp add: quiet_def)

lemma quiet_os_call: "quiet h (snd (os_call h))" "os_call h = (f, h') \<Longrightarrow> quiet h h'"
  by (rule quiet_dirs, simp) (rule quiet_dirs, rule os_call_dirs')

lemma quiet_hidden: "hidden m \<Longrightarrow> quiet h (put_entry root m e h)" "hidden m \<Longrightarrow> quiet h (del_entry root m h)"
proof -
  assume m: "hidden m"
  have "visible root' (del_entry root m h) = visible root' h" for root'
    by (rule ext) (use m in \<open>simp add: visible_def\<close>)
  then show "quiet h (put_entry root m e h)" "quiet h (del_entry root m h)"
    using m by (simp_all add: quiet_def visible_put dir_ok_put dir_ok_del)
qed

lemma quiet_remove_quietly: "hidden m \<Longrightarrow> quiet h (remove_quietly root m h)"
  unfolding remove_quietly_def
  by (auto split: prod.splits option.splits dest: quiet_os_call(2) intro: quiet_trans quiet_hidden)

lemma quiet_mkdir [simp]: "quiet h (mkdir_all root h)"
  by (simp add: quiet_def)

lemma run_stages_quiet:
  assumes "\<And>l f h1 h2. (l, f) \<in> set stages \<Longrightarrow> f h1 = Inr h2 \<Longrightarrow> quiet h1 h2"
  shows "quiet h (snd (run_stages stages h))"
  using assms
proof (induction stages arbitrary: h)
  case (Cons lf stages)
  obtain l f where lf: "lf = (l, f)" by (cases lf)
  obtain e h1 where oc: "os_call h = (e, h1)" by (cases "os_call h")
  have q1: "quiet h h1" using quiet_os_call(2) [OF oc] .
  show ?case
  proof (cases "e = None \<and> is_ok (f h1)")
    case True
    then obtain h2 where h2: "f h1 = Inr h2" by (cases "f h1") auto
    have "quiet h1 h2" using Cons.prems [of l f] h2 lf by simp
    moreover have "quiet h2 (snd (run_stages stages h2))" using Cons by (metis list.set_intros(2))
    ultimately show ?thesis using lf oc True h2 quiet_trans q1 by (auto intro: quiet_trans)
  next
    case False
    then show ?thesis using lf oc q1 by (cases e; cases "f h1") auto
  qed
qed simp

lemma run_stages_append:
  "run_stages (xs @ ys) h = (case run_stages xs h of (Some e, h1) \<Rightarrow> (Some e, h1) | (None, h1) \<Rightarrow> run_stages ys h1)"
  by (induction xs h rule: run_stages.induct) (auto split: prod.splits option.splits sum.splits)

lemma rename_effect:
  assumes "rename_entry root tmp name h = Inr h'" "hidden tmp" "\<not> hidden name"
  shows "\<exists>e. go_get (dir_entries root h) tmp = Some e \<and> visible root h' = (visible root h)(name \<mapsto> e)
    \<and> (\<forall>root'. root' \<noteq> root \<longrightarrow> visible root' h' = visible root' h)"
proof -
  obtain e where e: "go_get (dir_entries root h) tmp = Some e" "h' = put_entry root name e (del_entry root tmp h)"
    using assms(1) by (auto simp: rename_entry_def split: if_splits option.splits)
  have "visible root' (del_entry root tmp h) = visible root' h" for root'
    using quiet_hidden(2) [OF assms(2)] by (simp add: quiet_def)
  then show ?thesis using e assms(3) by (simp add: visible_put)
qed

text \<open>The stages before the rename leave the body in the temporary file and change nothing visible.\<close>

lemma filled_stages:
  assumes "hidden tmp" "run_stages (take 4 (write_stages root tmp name body)) h = (err, h')"
  shows "quiet h h'" "err = None \<Longrightarrow> go_get (dir_entries root h') tmp = Some (File body)"
proof -
  show "quiet h h'"
  proof -
    have "quiet h (snd (run_stages (take 4 (write_stages root tmp name body)) h))"
      by (rule run_stages_quiet) (use quiet_hidden(1) [OF assms(1)] in \<open>auto simp: write_stages_def\<close>)
    then show ?thesis using assms(2) by simp
  qed
  have keep: "err = None \<Longrightarrow> run_stages [(l1, Inr), (l2, Inr), (l3, Inr)] x = (err, y) \<Longrightarrow> fh_dirs y = fh_dirs x" for l1 l2 l3 x y
    by (auto split: prod.splits option.splits dest!: os_call_dirs')
  assume err: "err = None"
  obtain e1 h1 where oc: "os_call h = (e1, h1)" by (cases "os_call h")
  then have "e1 = None" "run_stages [(''chmod temp file'', Inr), (''sync temp file'', Inr), (''close temp file'', Inr)]
      (put_entry root tmp (File body) h1) = (err, h')"
    using assms(2) err by (cases e1; simp add: write_stages_def)+
  from keep [OF err this(2)] have "fh_dirs h' = fh_dirs (put_entry root tmp (File body) h1)" .
  then show "go_get (dir_entries root h') tmp = Some (File body)" using dir_entries_cong [of h'] by simp
qed

lemma atomicWrite_effect:
  assumes "atomicWrite root name body h = (err, h')" "\<not> hidden name"
  shows "err = None \<Longrightarrow> visible root h' = (visible root h)(name \<mapsto> File body)"
    and "err \<noteq> None \<Longrightarrow> visible root h' = visible root h"
    and "root' \<noteq> root \<Longrightarrow> visible root' h' = visible root' h"
    and "dir_ok r h \<Longrightarrow> name = path_name i \<Longrightarrow> dir_ok r h'"
proof -
  obtain e0 h1 where oc: "os_call h = (e0, h1)" by (cases "os_call h")
  have q1: "quiet h h1" by (rule quiet_os_call(2) [OF oc])
  have "(err = None \<longrightarrow> visible root h' = (visible root h)(name \<mapsto> File body)) \<and> (err \<noteq> None \<longrightarrow> visible root h' = visible root h)
      \<and> (\<forall>root'. root' \<noteq> root \<longrightarrow> visible root' h' = visible root' h) \<and> (\<forall>r i. dir_ok r h \<longrightarrow> name = path_name i \<longrightarrow> dir_ok r h')"
  proof (cases e0)
    case (Some e)
    then show ?thesis using assms(1) oc q1 by (auto simp: atomicWrite_def quiet_def)
  next
    case None
    define tmp where "tmp = temp_name (dir_entries root h1)"
    have tmp: "hidden tmp" by (simp add: tmp_def)
    define h2 where "h2 = put_entry root tmp (File '''') h1"
    have q2: "quiet h h2" using quiet_trans [OF q1 quiet_hidden(1) [OF tmp]] by (simp add: h2_def)
    define pre where "pre = take 4 (write_stages root tmp name body)"
    obtain e3 h3 where s4: "run_stages pre h2 = (e3, h3)" by (cases "run_stages pre h2")
    note f = filled_stages [OF tmp s4 [unfolded pre_def]]
    have q3: "quiet h h3" by (rule quiet_trans [OF q2 f(1)])
    obtain h4 where h4: "run_stages (write_stages root tmp name body) h2 = (err, h4)" "h' = remove_quietly root tmp h4"
      using assms(1) oc None by (auto simp: atomicWrite_def Let_def tmp_def h2_def split: prod.splits)
    have qr: "quiet h4 h'" unfolding h4(2) by (rule quiet_remove_quietly [OF tmp])
    have split: "write_stages root tmp name body = pre @ [(''rename into place'', rename_entry root tmp name)]"
      by (simp add: write_stages_def pre_def)
    show ?thesis
    proof (cases "err = None")
      case False
      have "quiet h h4"
      proof (cases e3)
        case None
        obtain e5 h5 where o5: "os_call h3 = (e5, h5)" by (cases "os_call h3")
        have "h4 = h5" using h4(1) False None o5 unfolding split run_stages_append s4
          by (auto split: option.splits sum.splits)
        then show ?thesis using quiet_trans [OF q3 quiet_os_call(2) [OF o5]] by simp
      next
        case (Some x)
        then have "h4 = h3" using h4(1) unfolding split run_stages_append s4 by simp
        then show ?thesis using q3 by simp
      qed
      then have "quiet h h'" using quiet_trans qr by blast
      then show ?thesis using False unfolding quiet_def by blast
    next
      case True
      have e3: "e3 = None" using h4(1) True unfolding split run_stages_append s4 by (cases e3) auto
      obtain h5 where o5: "os_call h3 = (None, h5)" and rn: "rename_entry root tmp name h5 = Inr h4"
        using h4(1) True e3 unfolding split run_stages_append s4 by (cases "os_call h3") (auto split: option.splits sum.splits)
      have q5: "quiet h h5" by (rule quiet_trans [OF q3 quiet_os_call(2) [OF o5]])
      have "go_get (dir_entries root h5) tmp = Some (File body)"
        using f(2) [OF e3] dir_entries_cong [OF os_call_dirs' [OF o5]] by simp
      with rename_effect [OF rn tmp assms(2)]
      have v: "visible root h4 = (visible root h5)(name \<mapsto> File body)" "\<And>root'. root' \<noteq> root \<Longrightarrow> visible root' h4 = visible root' h5" by auto
      have "h4 = put_entry root name (File body) (del_entry root tmp h5)"
        using rn \<open>go_get (dir_entries root h5) tmp = Some (File body)\<close> by (simp add: rename_entry_def split: if_splits)
      then have "dir_ok r h4" if "dir_ok r h" "name = path_name i" for r i
        using that q5 dir_ok_put [OF dir_ok_del] unfolding quiet_def by blast
      then show ?thesis using True v q5 qr by (simp add: quiet_def)
    qed
  qed
  then show "err = None \<Longrightarrow> visible root h' = (visible root h)(name \<mapsto> File body)"
    "err \<noteq> None \<Longrightarrow> visible root h' = visible root h"
    "root' \<noteq> root \<Longrightarrow> visible root' h' = visible root' h"
    "dir_ok r h \<Longrightarrow> name = path_name i \<Longrightarrow> dir_ok r h'" by blast+
qed

lemma atomicWrite_calm:
  assumes "fh_faults h = []" "go_get (dir_entries root h) name \<noteq> Some Dir" "\<not> hidden name"
  shows "\<exists>h'. atomicWrite root name body h = (None, h') \<and> fh_faults h' = []"
proof -
  let ?t = "temp_name (dir_entries root h)"
  have "?t \<noteq> name" using assms(3) by (metis temp_hidden(1))
  then show ?thesis using assms(1,2)
    by (simp add: atomicWrite_def Let_def write_stages_def rename_entry_def remove_quietly_def)
qed

section \<open>What a step does\<close>

abbreviation step_body :: "Step \<Rightarrow> string" where
  "step_body s \<equiv> (case sp_Payload s of None \<Rightarrow> '''' | Some kvs \<Rightarrow> (case go_get kvs ''body'' of None \<Rightarrow> '''' | Some b \<Rightarrow> b))"

text \<open>The effect of a step that succeeds.\<close>

definition step_effect :: "Step \<Rightarrow> (string \<Rightarrow> entry option) \<Rightarrow> string \<Rightarrow> entry option" where
  "step_effect s v = v(path_name (sp_ServiceID s) :=
     (if sp_Kind s = ''write_service'' then Some (File (step_body s)) else if sp_Kind s = ''remove_service'' then None
      else v (path_name (sp_ServiceID s))))"

lemma stub_fail_simps [simp]: "snd (stub_fail s e h) = h" "snd (fst (stub_fail s e h)) = Some e" "snd (stub_done s h) = h"
  "snd (fst (stub_done s h)) = None" "sres_OK (fst (fst (stub_done s h)))"
  by (simp_all add: stub_fail_def stub_done_def)

lemma stub_Apply_effect:
  assumes "stub_Apply root s h = ((res, err), h')"
  shows "err = None \<Longrightarrow> visible root h' = step_effect s (visible root h)"
    and "err \<noteq> None \<Longrightarrow> visible root h' = visible root h"
    and "root' \<noteq> root \<Longrightarrow> visible root' h' = visible root' h"
    and "dir_ok r h \<Longrightarrow> dir_ok r h'"
    and "sres_OK res \<longleftrightarrow> err = None"
proof -
  let ?n = "path_name (sp_ServiceID s)"
  obtain e1 h1 where oc: "os_call h = (e1, h1)" by (cases "os_call h")
  have q: "quiet h h1" by (rule quiet_os_call(2) [OF oc])
  then have q': "visible x h1 = visible x h" "dir_ok x h \<Longrightarrow> dir_ok x h1" for x by (simp_all add: quiet_def)
  obtain e2 h2 where aw: "atomicWrite root ?n (step_body s) (mkdir_all root h1) = (e2, h2)"
    by (cases "atomicWrite root ?n (step_body s) (mkdir_all root h1)")
  note w = atomicWrite_effect [OF aw temp_hidden(2), unfolded visible_mkdir dir_ok_mkdir q'(1)]
  consider (wr) "sp_Kind s = ''write_service''" | (rm) "sp_Kind s = ''remove_service''"
    | (other) "sp_Kind s \<noteq> ''write_service''" "sp_Kind s \<noteq> ''remove_service''" by blast
  then have "(err = None \<longrightarrow> visible root h' = step_effect s (visible root h)) \<and> (err \<noteq> None \<longrightarrow> visible root h' = visible root h)
    \<and> (\<forall>root'. root' \<noteq> root \<longrightarrow> visible root' h' = visible root' h) \<and> (\<forall>r. dir_ok r h \<longrightarrow> dir_ok r h')
    \<and> (sres_OK res \<longleftrightarrow> err = None)"
  proof cases
    case wr
    show ?thesis
    proof (cases "sp_Payload s")
      case None
      then show ?thesis using assms wr by (auto simp: stub_Apply_def apply_write_def stub_fail_def)
    next
      case (Some kvs)
      show ?thesis
      proof (cases e1)
        case (Some x)
        then have "h' = h1" "err \<noteq> None" "\<not> sres_OK res"
          using assms wr \<open>sp_Payload s = Some kvs\<close> oc by (auto simp: stub_Apply_def apply_write_def stub_fail_def)
        then show ?thesis using q' by auto
      next
        case None
        have b: "step_body s = (case go_get kvs ''body'' of None \<Rightarrow> '''' | Some b \<Rightarrow> b)" using Some by simp
        have "h' = h2" "err = None \<longleftrightarrow> e2 = None" "sres_OK res \<longleftrightarrow> e2 = None"
          using assms wr Some None oc aw unfolding b
          by (auto simp: stub_Apply_def apply_write_def stub_fail_def stub_done_def split: option.splits prod.splits)
        then show ?thesis using w q'(2) wr by (auto simp: step_effect_def)
      qed
    qed
  next
    case rm
    show ?thesis
    proof (cases e1)
      case None
      then have "h' = del_entry root ?n h1" "err = None" "sres_OK res"
        using assms rm oc by (auto simp: stub_Apply_def stub_done_def)
      then show ?thesis using q' rm by (simp add: step_effect_def visible_del dir_ok_del)
    next
      case (Some x)
      then have "h' = h1" "err \<noteq> None" "\<not> sres_OK res" using assms rm oc by (auto simp: stub_Apply_def stub_fail_def)
      then show ?thesis using q' by auto
    qed
  next
    case other
    then have "h' = h" "err \<noteq> None" "\<not> sres_OK res" using assms by (auto simp: stub_Apply_def stub_fail_def split: if_splits)
    then show ?thesis by auto
  qed
  then show "err = None \<Longrightarrow> visible root h' = step_effect s (visible root h)" "err \<noteq> None \<Longrightarrow> visible root h' = visible root h"
    "root' \<noteq> root \<Longrightarrow> visible root' h' = visible root' h" "dir_ok r h \<Longrightarrow> dir_ok r h'"
    "sres_OK res \<longleftrightarrow> err = None" by blast+
qed

lemma stub_Apply_calm:
  assumes "fh_faults h = []" "sp_Kind s = ''write_service'' \<and> sp_Payload s \<noteq> None \<and> visible root h (path_name (sp_ServiceID s)) \<noteq> Some Dir
    \<or> sp_Kind s = ''remove_service''"
  shows "\<exists>res h'. stub_Apply root s h = ((res, None), h') \<and> sres_OK res \<and> fh_faults h' = []"
  using assms(2)
proof (elim disjE conjE)
  assume s: "sp_Kind s = ''write_service''" "sp_Payload s \<noteq> None" "visible root h (path_name (sp_ServiceID s)) \<noteq> Some Dir"
  then obtain kvs where kvs: "sp_Payload s = Some kvs" by blast
  have "go_get (dir_entries root (mkdir_all root h)) (path_name (sp_ServiceID s)) \<noteq> Some Dir" using s(3) by (simp add: visible_def)
  from atomicWrite_calm [OF _ this temp_hidden(2), of "case go_get kvs ''body'' of None \<Rightarrow> '''' | Some b \<Rightarrow> b"] assms(1)
  show ?thesis using s(1) kvs assms(1) by (auto simp: stub_Apply_def apply_write_def stub_done_def)
qed (use assms(1) in \<open>simp add: stub_Apply_def stub_done_def\<close>)

section \<open>What an observation tells\<close>

lemma read_entries_Inr:
  "read_entries sha es h = (Inr out, h') \<Longrightarrow> fh_dirs h' = fh_dirs h
    \<and> out = List.map_filter (\<lambda>ne. map_option (\<lambda>i. observed_service sha i (case snd ne of File t \<Rightarrow> t | Dir \<Rightarrow> '''')) (service_id ne)) es"
proof (induction sha es h arbitrary: out rule: read_entries.induct)
  case (2 sha ne es h)
  show ?case
  proof (cases "service_id ne")
    case None
    then show ?thesis using 2(1) [OF None] 2(3) by (simp add: map_filter_simps)
  next
    case (Some i)
    obtain e h1 where oc: "os_call h = (e, h1)" by (cases "os_call h")
    have e: "e = None" using 2(3) Some oc by (cases e) simp_all
    obtain r h2 where re: "read_entries sha es h1 = (r, h2)" by (cases "read_entries sha es h1")
    obtain out1 where r: "r = Inr out1" using 2(3) Some oc e re by (cases r) auto
    have "h' = h2" "out = observed_service sha i (case snd ne of File t \<Rightarrow> t | Dir \<Rightarrow> '''') # out1"
      using 2(3) Some oc e re r by auto
    moreover have "fh_dirs h2 = fh_dirs h1 \<and> out1 = List.map_filter (\<lambda>ne. map_option (\<lambda>i. observed_service sha i (case snd ne of File t \<Rightarrow> t | Dir \<Rightarrow> '''')) (service_id ne)) es"
      using 2(2) [OF Some oc [symmetric] e] re r \<open>h' = h2\<close> by simp
    ultimately show ?thesis using Some os_call_dirs' [OF oc] by (simp add: map_filter_simps)
  qed
qed (simp add: map_filter_simps)

lemma read_entries_frame: "fh_dirs (snd (read_entries sha es h)) = fh_dirs h"
proof (induction sha es h rule: read_entries.induct)
  case (2 sha ne es h)
  obtain e h1 where oc: "os_call h = (e, h1)" by (cases "os_call h")
  show ?case using 2 oc os_call_dirs' [OF oc] by (cases "service_id ne"; cases e) (auto split: prod.splits sum.splits)
qed simp

lemma read_entries_calm: "fh_faults h = [] \<Longrightarrow> \<exists>out. read_entries sha es h = (Inr out, h)"
  by (induction es) (auto split: option.splits)

lemma stub_Observe_frame: "fh_dirs (snd (stub_Observe sha root h)) = fh_dirs h"
proof -
  obtain e h1 where oc: "os_call h = (e, h1)" by (cases "os_call h")
  have d1: "fh_dirs h1 = fh_dirs h" by (rule os_call_dirs' [OF oc])
  show ?thesis
  proof (cases "e = None \<and> go_get (fh_dirs h1) root \<noteq> None")
    case True
    then obtain es where es: "e = None" "go_get (fh_dirs h1) root = Some es" by blast
    obtain r h2 where re: "read_entries sha (sort_key fst es) h1 = (r, h2)" by (cases "read_entries sha (sort_key fst es) h1")
    have "fh_dirs h2 = fh_dirs h1" using read_entries_frame [of sha "sort_key fst es" h1] re by simp
    then show ?thesis using oc es re d1 by (cases r) (simp_all add: stub_Observe_def)
  next
    case False
    then show ?thesis using oc d1 by (cases e) (simp_all add: stub_Observe_def)
  qed
qed

lemma stub_Observe_calm: "fh_faults h = [] \<Longrightarrow> \<exists>obs. stub_Observe sha root h = (Inr obs, h)"
proof -
  assume q: "fh_faults h = []"
  show ?thesis
  proof (cases "go_get (fh_dirs h) root")
    case (Some es)
    obtain out where "read_entries sha (sort_key fst es) h = (Inr out, h)" using read_entries_calm [OF q] by blast
    then show ?thesis using Some q by (simp add: stub_Observe_def)
  qed (simp add: stub_Observe_def q)
qed

text \<open>What was observed is the files in the directory that read as services.\<close>

lemma stub_Observe_services:
  assumes "stub_Observe sha root h = (Inr obs, h')" "dir_ok root h"
  shows "sv \<in> set (ob_Services obs) \<longleftrightarrow>
      (\<exists>t. int64 (os_ID sv) \<and> visible root h (path_name (os_ID sv)) = Some (File t) \<and> sv = observed_service sha (os_ID sv) t)"
    and "distinct (map os_ID (ob_Services obs))"
proof -
  define read where "read ne = map_option (\<lambda>i. observed_service sha i (case snd ne of File t \<Rightarrow> t | Dir \<Rightarrow> '''')) (service_id ne)"
    for ne :: "string \<times> entry"
  obtain h1 where oc: "os_call h = (None, h1)" using assms(1) by (auto simp: stub_Observe_def split: prod.splits option.splits)
  have d1: "fh_dirs h1 = fh_dirs h" by (rule os_call_dirs' [OF oc])
  have obs: "ob_Services obs = sort_key os_ID (List.map_filter read (sort_key fst (dir_entries root h)))"
  proof (cases "go_get (fh_dirs h) root")
    case None
    then show ?thesis using assms(1) oc d1 by (auto simp: stub_Observe_def dir_entries_def map_filter_simps)
  next
    case (Some es)
    obtain r h2 where re: "read_entries sha (sort_key fst es) h1 = (r, h2)" by (cases "read_entries sha (sort_key fst es) h1")
    obtain out where out: "r = Inr out" using assms(1) oc d1 Some re by (cases r) (auto simp: stub_Observe_def)
    have "ob_Services obs = sort_key os_ID out" using assms(1) oc d1 Some re out by (auto simp: stub_Observe_def)
    moreover have "out = List.map_filter read (sort_key fst es)" using read_entries_Inr [OF re [unfolded out]] by (simp add: read_def [abs_def])
    ultimately show ?thesis using Some by (simp add: dir_entries_def)
  qed
  have wf: "go_wf (dir_entries root h)" using assms(2) by (simp add: dir_ok_def)
  have id: "service_id (m, e) = Some i \<Longrightarrow> \<exists>t. e = File t \<and> \<not> hidden m" for m e i
    using hidden_no_id [of m e] by (cases e) (auto simp: service_id_def)
  have mem: "sv \<in> set (ob_Services obs) \<longleftrightarrow> (\<exists>m e. go_get (dir_entries root h) m = Some e \<and> read (m, e) = Some sv)" for sv
  proof -
    have "sv \<in> set (List.map_filter read es) \<longleftrightarrow> (\<exists>x \<in> set es. read x = Some sv)" for es
      by (induction es) (auto simp: map_filter_simps split: option.splits)
    then show ?thesis by (auto simp: obs go_get_in_set [OF wf])
  qed
  show "sv \<in> set (ob_Services obs) \<longleftrightarrow>
      (\<exists>t. int64 (os_ID sv) \<and> visible root h (path_name (os_ID sv)) = Some (File t) \<and> sv = observed_service sha (os_ID sv) t)"
  proof
    assume "sv \<in> set (ob_Services obs)"
    then obtain m e i where e: "go_get (dir_entries root h) m = Some e" "service_id (m, e) = Some i"
      "sv = observed_service sha i (case e of File t \<Rightarrow> t | Dir \<Rightarrow> '''')" by (auto simp: mem read_def)
    then have "m = path_name i" using assms(2) by (auto simp: dir_ok_alt)
    with e id [OF e(2)] service_id_int64 [OF e(2)] show "\<exists>t. int64 (os_ID sv) \<and> visible root h (path_name (os_ID sv)) = Some (File t) \<and> sv = observed_service sha (os_ID sv) t"
      by (auto simp: observed_service_def visible_def)
  next
    assume "\<exists>t. int64 (os_ID sv) \<and> visible root h (path_name (os_ID sv)) = Some (File t) \<and> sv = observed_service sha (os_ID sv) t"
    then obtain t where t: "int64 (os_ID sv)" "go_get (dir_entries root h) (path_name (os_ID sv)) = Some (File t)"
      "sv = observed_service sha (os_ID sv) t" by (auto simp: visible_def split: if_splits)
    then have "read (path_name (os_ID sv), File t) = Some sv" by (simp add: read_def service_id_path)
    then show "sv \<in> set (ob_Services obs)" using t(2) mem by blast
  qed
  have "distinct (map os_ID (List.map_filter read es))"
    if "distinct (map fst es)" "\<forall>ne \<in> set es. case service_id ne of None \<Rightarrow> True | Some i \<Rightarrow> fst ne = path_name i" for es
    using that
  proof (induction es)
    case (Cons ne es)
    then have ih: "distinct (map os_ID (List.map_filter read es))" by simp
    show ?case
    proof (cases "service_id ne")
      case (Some i)
      have "i \<notin> os_ID ` set (List.map_filter read es)"
      proof
        assume "i \<in> os_ID ` set (List.map_filter read es)"
        then obtain x where "x \<in> set es" "service_id x = Some i" by (auto simp: map_filter_def read_def observed_service_def)
        then have "fst x = path_name i" "fst ne = path_name i" using Cons.prems(2) Some by (auto split: option.splits)
        then show False using Cons.prems(1) \<open>x \<in> set es\<close> by (metis distinct.simps(2) image_eqI list.simps(9) set_map)
      qed
      moreover have "read ne = Some (observed_service sha i (case snd ne of File t \<Rightarrow> t | Dir \<Rightarrow> ''''))" using Some by (simp add: read_def)
      ultimately show ?thesis using ih by (simp add: map_filter_simps observed_service_def)
    next
      case None
      then have "read ne = None" by (simp add: read_def)
      then show ?thesis using ih by (simp add: map_filter_simps)
    qed
  qed (simp add: map_filter_simps)
  from this [of "sort_key fst (dir_entries root h)"] show "distinct (map os_ID (ob_Services obs))"
    using wf assms(2) by (simp add: obs dir_ok_def distinct_map)
qed

section \<open>What a plan contains\<close>

abbreviation unseq :: "Step \<Rightarrow> Step" where
  "unseq s \<equiv> s\<lparr>sp_Seq := 0\<rparr>"

abbreviation mk_step :: "string \<Rightarrow> Disruption \<Rightarrow> int \<Rightarrow> (string \<times> string) list option \<Rightarrow> Step" where
  "mk_step k d i p \<equiv> \<lparr>sp_Seq = 0, sp_Kind = k, sp_Disruption = d, sp_ServiceID = i, sp_Payload = p\<rparr>"

text \<open>What is to be done for a service, given what is visible of the directory.\<close>

definition todo :: "(string \<Rightarrow> string) \<Rightarrow> (string \<Rightarrow> entry option) \<Rightarrow> service \<Rightarrow> Step list" where
  "todo sha v svc =
     (let wr = [mk_step ''write_service'' DisruptRestart (svc_ID svc) (Some [(''body'', render sha svc)])] in
      case v (path_name (svc_ID svc)) of
        Some (File t) \<Rightarrow> if isManaged t then (if sha (after_line t) = sha (payloadOf svc) then [] else wr)
          else [mk_step ''blocked_unmanaged'' DisruptNone (svc_ID svc) None]
      | _ \<Rightarrow> wr)"

definition doc_ok :: "document \<Rightarrow> bool" where
  "doc_ok desired \<longleftrightarrow> distinct (map svc_ID (Services desired)) \<and> (\<forall>s \<in> set (Services desired). int64 (svc_ID s))"

lemma seen_get:
  "distinct (map os_ID xs) \<Longrightarrow> go_get (fold (\<lambda>obs m. go_set (os_ID obs) obs m) xs m) i = Some x
    \<longleftrightarrow> x \<in> set xs \<and> os_ID x = i \<or> i \<notin> os_ID ` set xs \<and> go_get m i = Some x"
proof (induction xs arbitrary: m)
  case (Cons y xs)
  then have "os_ID y \<notin> os_ID ` set xs" by simp
  then show ?case using Cons by (cases "os_ID y = i") auto
qed simp

lemma seen_visible:
  assumes "stub_Observe sha root h = (Inr obs, h')" "dir_ok root h" "int64 i"
  shows "go_get (fold (\<lambda>obs m. go_set (os_ID obs) obs m) (ob_Services obs) []) i
    = (case visible root h (path_name i) of Some (File t) \<Rightarrow> Some (observed_service sha i t) | _ \<Rightarrow> None)"
proof -
  note o = stub_Observe_services [OF assms(1,2)]
  have some: "go_get (fold (\<lambda>obs m. go_set (os_ID obs) obs m) (ob_Services obs) []) i = Some x
      \<longleftrightarrow> (\<exists>t. visible root h (path_name i) = Some (File t) \<and> x = observed_service sha i t)" for x
    using seen_get [OF o(2), of "[]" i x] o(1) [of x] assms(3) by (auto simp: observed_service_def)
  show ?thesis
  proof (cases "go_get (fold (\<lambda>obs m. go_set (os_ID obs) obs m) (ob_Services obs) []) i")
    case None
    then show ?thesis using some by (auto split: option.splits entry.splits)
  qed (use some in auto)
qed

lemma plan_service_todo:
  assumes "go_get seen (svc_ID svc) = (case v (path_name (svc_ID svc)) of Some (File t) \<Rightarrow> Some (observed_service sha (svc_ID svc) t) | _ \<Rightarrow> None)"
  shows "map unseq (plan_service sha seen svc steps) = map unseq steps @ todo sha v svc"
  unfolding plan_service_def assms todo_def
  by (auto simp: stub_step_def observed_service_def Let_def split: option.splits entry.splits)

lemma plan_services_todo:
  assumes "\<And>svc. svc \<in> set svcs \<Longrightarrow> go_get seen (svc_ID svc)
    = (case v (path_name (svc_ID svc)) of Some (File t) \<Rightarrow> Some (observed_service sha (svc_ID svc) t) | _ \<Rightarrow> None)"
  shows "map unseq (fold (plan_service sha seen) svcs steps) = map unseq steps @ concat (map (todo sha v) svcs)"
  using assms
proof (induction svcs arbitrary: steps)
  case (Cons svc svcs)
  have "map unseq (plan_service sha seen svc steps) = map unseq steps @ todo sha v svc"
    by (rule plan_service_todo, rule Cons.prems) simp
  then show ?case using Cons.IH [of "plan_service sha seen svc steps"] Cons.prems by simp
qed simp

lemma plan_removals_todo:
  "map unseq (fold (plan_removal ids) obs steps) = map unseq steps
    @ map (\<lambda>x. mk_step ''remove_service'' DisruptRestart (os_ID x) None) (filter (\<lambda>x. os_ID x \<notin> set ids \<and> os_Managed x) obs)"
  by (induction obs arbitrary: steps) (auto simp: plan_removal_def stub_step_def)

lemma stub_Plan_todo:
  assumes "stub_Observe sha root h = (Inr obs, h')" "dir_ok root h" "doc_ok desired"
  obtains p where "stub_Plan sha desired obs = Inr p"
    "map unseq p = concat (map (todo sha (visible root h)) (sort_key svc_ID (Services desired)))
      @ map (\<lambda>x. mk_step ''remove_service'' DisruptRestart (os_ID x) None)
          (filter (\<lambda>x. os_ID x \<notin> svc_ID ` set (Services desired) \<and> os_Managed x) (ob_Services obs))"
proof
  let ?seen = "fold (\<lambda>obs m. go_set (os_ID obs) obs m) (ob_Services obs) []"
  let ?svcs = "sort_key svc_ID (Services desired)"
  show "stub_Plan sha desired obs = Inr (fold (plan_removal (map svc_ID ?svcs)) (ob_Services obs) (fold (plan_service sha ?seen) ?svcs []))"
    by (simp add: stub_Plan_def Let_def)
  have "go_get ?seen (svc_ID svc) = (case visible root h (path_name (svc_ID svc)) of Some (File t) \<Rightarrow> Some (observed_service sha (svc_ID svc) t) | _ \<Rightarrow> None)"
    if "svc \<in> set ?svcs" for svc using seen_visible [OF assms(1,2)] assms(3) that by (simp add: doc_ok_def)
  from plan_services_todo [of ?svcs, OF this]
  show "map unseq (fold (plan_removal (map svc_ID ?svcs)) (ob_Services obs) (fold (plan_service sha ?seen) ?svcs []))
    = concat (map (todo sha (visible root h)) ?svcs)
      @ map (\<lambda>x. mk_step ''remove_service'' DisruptRestart (os_ID x) None)
          (filter (\<lambda>x. os_ID x \<notin> svc_ID ` set (Services desired) \<and> os_Managed x) (ob_Services obs))"
    by (simp add: plan_removals_todo)
qed

section \<open>In sync\<close>

text \<open>Every desired service has its file, managed and with the checksum of its payload, and no other service has a managed file.\<close>

definition stub_sync :: "(string \<Rightarrow> string) \<Rightarrow> string \<Rightarrow> document \<Rightarrow> fs_host \<Rightarrow> bool" where
  "stub_sync sha root desired h \<longleftrightarrow>
     (\<forall>s \<in> set (Services desired). case visible root h (path_name (svc_ID s)) of
        Some (File t) \<Rightarrow> isManaged t \<and> sha (after_line t) = sha (payloadOf s) | _ \<Rightarrow> False)
     \<and> (\<forall>i. int64 i \<longrightarrow> i \<notin> svc_ID ` set (Services desired) \<longrightarrow>
        (case visible root h (path_name i) of Some (File t) \<Rightarrow> \<not> isManaged t | _ \<Rightarrow> True))"

lemma todo_Nil: "todo sha v s = [] \<longleftrightarrow> (case v (path_name (svc_ID s)) of
    Some (File t) \<Rightarrow> isManaged t \<and> sha (after_line t) = sha (payloadOf s) | _ \<Rightarrow> False)"
  by (auto simp: todo_def Let_def split: option.splits entry.splits)

lemma stub_Plan_empty:
  assumes "stub_Observe sha root h = (Inr obs, h')" "dir_ok root h" "doc_ok desired"
  shows "stub_Plan sha desired obs = Inr [] \<longleftrightarrow> stub_sync sha root desired h"
proof -
  obtain p where p: "stub_Plan sha desired obs = Inr p" "map unseq p = concat (map (todo sha (visible root h)) (sort_key svc_ID (Services desired)))
      @ map (\<lambda>x. mk_step ''remove_service'' DisruptRestart (os_ID x) None)
          (filter (\<lambda>x. os_ID x \<notin> svc_ID ` set (Services desired) \<and> os_Managed x) (ob_Services obs))"
    by (rule stub_Plan_todo [OF assms])
  have "p = [] \<longleftrightarrow> map unseq p = []" by simp
  also have "\<dots> \<longleftrightarrow> (\<forall>s \<in> set (Services desired). todo sha (visible root h) s = [])
      \<and> (\<forall>x \<in> set (ob_Services obs). os_ID x \<in> svc_ID ` set (Services desired) \<or> \<not> os_Managed x)"
    unfolding p(2) by (auto simp: filter_empty_conv)
  also have "\<dots> \<longleftrightarrow> stub_sync sha root desired h"
  proof -
    have "(\<forall>x \<in> set (ob_Services obs). os_ID x \<in> svc_ID ` set (Services desired) \<or> \<not> os_Managed x)
      \<longleftrightarrow> (\<forall>i. int64 i \<longrightarrow> i \<notin> svc_ID ` set (Services desired) \<longrightarrow>
        (case visible root h (path_name i) of Some (File t) \<Rightarrow> \<not> isManaged t | _ \<Rightarrow> True))" (is "?A \<longleftrightarrow> ?B")
    proof
      assume a: ?A
      show ?B
      proof (intro allI impI)
        fix i assume i: "int64 i" "i \<notin> svc_ID ` set (Services desired)"
        have "\<not> isManaged t" if "visible root h (path_name i) = Some (File t)" for t
        proof -
          have "observed_service sha i t \<in> set (ob_Services obs)"
            using that i(1) by (auto simp: stub_Observe_services(1) [OF assms(1,2)] observed_service_def)
          from bspec [OF a this] show ?thesis using i(2) by (simp add: observed_service_def)
        qed
        then show "case visible root h (path_name i) of Some (File t) \<Rightarrow> \<not> isManaged t | _ \<Rightarrow> True"
          by (auto split: option.splits entry.splits)
      qed
    next
      assume b: ?B
      show ?A
      proof
        fix x assume "x \<in> set (ob_Services obs)"
        then obtain t where "int64 (os_ID x)" "visible root h (path_name (os_ID x)) = Some (File t)" "x = observed_service sha (os_ID x) t"
          using stub_Observe_services(1) [OF assms(1,2), of x] by blast
        then show "os_ID x \<in> svc_ID ` set (Services desired) \<or> \<not> os_Managed x"
          using b [rule_format, of "os_ID x"] by (auto simp: observed_service_def) (metis ObservedService.select_convs(3))
      qed
    qed
    then show ?thesis unfolding stub_sync_def todo_Nil by simp
  qed
  finally show ?thesis using p(1) by simp
qed

section \<open>Carrying out a plan\<close>

lemma step_effect_unseq [simp]: "step_effect (s\<lparr>sp_Seq := n\<rparr>) = step_effect s"
  by (simp add: step_effect_def fun_eq_iff)

lemma fold_effect_unseq: "fold step_effect (map unseq p) = fold step_effect p"
  by (induction p) simp_all

lemma stub_Apply_seq:
  "stub_Apply root (s\<lparr>sp_Seq := n\<rparr>) h = ((res, err), h') \<Longrightarrow> \<exists>res'. stub_Apply root s h = ((res', err), h') \<and> sres_OK res' = sres_OK res"
  by (auto simp: stub_Apply_def apply_write_def stub_fail_def stub_done_def split: if_splits option.splits prod.splits)

lemma run_plan_stub:
  assumes "fh_faults h = []"
    and "\<And>s. s \<in> set p \<Longrightarrow> sp_Kind s = ''write_service'' \<and> sp_Payload s \<noteq> None \<and> visible root h (path_name (sp_ServiceID s)) \<noteq> Some Dir
      \<or> sp_Kind s = ''remove_service''"
  shows "\<exists>h2. run_plan (stub_New sha root) p h = Some h2 \<and> fh_faults h2 = [] \<and> visible root h2 = fold step_effect p (visible root h)"
  using assms
proof (induction p arbitrary: h)
  case (Cons s p)
  obtain res h1 where ap: "stub_Apply root s h = ((res, None), h1)" "sres_OK res" "fh_faults h1 = []"
    using stub_Apply_calm [of h s root] Cons.prems by auto
  have v: "visible root h1 = step_effect s (visible root h)" using stub_Apply_effect(1) [OF ap(1)] by simp
  have "\<exists>h2. run_plan (stub_New sha root) p h1 = Some h2 \<and> fh_faults h2 = [] \<and> visible root h2 = fold step_effect p (visible root h1)"
  proof (rule Cons.IH [OF ap(3)])
    fix x assume x: "x \<in> set p"
    have "visible root h1 n = Some Dir \<Longrightarrow> visible root h n = Some Dir" for n
      unfolding v by (auto simp: step_effect_def split: if_splits)
    then show "sp_Kind x = ''write_service'' \<and> sp_Payload x \<noteq> None \<and> visible root h1 (path_name (sp_ServiceID x)) \<noteq> Some Dir
      \<or> sp_Kind x = ''remove_service''" using Cons.prems(2) [of x] x by auto
  qed
  then show ?case using ap v by (simp add: applies_def stub_New_def)
qed simp

lemma fold_effect_other:
  "(\<And>s. s \<in> set p \<Longrightarrow> path_name (sp_ServiceID s) \<noteq> n) \<Longrightarrow> fold step_effect p v n = v n"
  by (induction p arbitrary: v) (auto simp: step_effect_def)

lemma fold_effect_step:
  assumes "s \<in> set p" "distinct (map (path_name \<circ> sp_ServiceID) p)"
  shows "\<exists>w. fold step_effect p v (path_name (sp_ServiceID s)) = step_effect s w (path_name (sp_ServiceID s))"
  using assms
proof (induction p arbitrary: v)
  case (Cons x p)
  show ?case
  proof (cases "x = s")
    case True
    then have "fold step_effect p (step_effect s v) (path_name (sp_ServiceID s)) = step_effect s v (path_name (sp_ServiceID s))"
      using Cons.prems(2) by (intro fold_effect_other) (auto simp: image_iff)
    then show ?thesis using True by auto
  qed (use Cons in auto)
qed simp

lemma todo_ids: "s \<in> set (todo sha v svc) \<Longrightarrow> sp_ServiceID s = svc_ID svc" "length (todo sha v svc) \<le> 1"
  by (auto simp: todo_def Let_def split: option.splits entry.splits if_splits)

lemma todos_distinct:
  "distinct (map svc_ID svcs) \<Longrightarrow> distinct (map sp_ServiceID (concat (map (todo sha v) svcs)))
    \<and> sp_ServiceID ` set (concat (map (todo sha v) svcs)) \<subseteq> svc_ID ` set svcs"
proof (induction svcs)
  case (Cons svc svcs)
  have "distinct (map sp_ServiceID (todo sha v svc))" using todo_ids(2) [of sha v svc] by (cases "todo sha v svc") auto
  then show ?case using Cons by (force dest: todo_ids(1))
qed simp

lemma render_managed: "isManaged (render sha s)"
  by (simp add: isManaged_def has_prefix_def render_def)

lemma render_payload: "CHR 0x0A \<notin> set (sha (payloadOf s)) \<Longrightarrow> after_line (render sha s) = payloadOf s"
proof -
  assume "CHR 0x0A \<notin> set (sha (payloadOf s))"
  then have "\<forall>c \<in> set (MarkerPrefix @ '' sha256='' @ sha (payloadOf s)). c \<noteq> CHR 0x0A" by (auto simp: MarkerPrefix_def)
  then have "dropWhile (\<lambda>c. c \<noteq> CHR 0x0A) ((MarkerPrefix @ '' sha256='' @ sha (payloadOf s)) @ nl @ payloadOf s) = nl @ payloadOf s"
    by (subst dropWhile_append2) (auto simp: nl_def)
  then show ?thesis by (simp add: after_line_def render_def nl_def)
qed

text \<open>A host that answers: no faults, and nothing at the place of a desired service that is not ours.\<close>

definition stub_calm :: "string \<Rightarrow> document \<Rightarrow> fs_host \<Rightarrow> bool" where
  "stub_calm root desired h \<longleftrightarrow> fh_faults h = [] \<and> (\<forall>s \<in> set (Services desired).
     case visible root h (path_name (svc_ID s)) of None \<Rightarrow> True | Some Dir \<Rightarrow> False | Some (File t) \<Rightarrow> isManaged t)"

definition stub_inv :: "(string \<Rightarrow> string) \<Rightarrow> string \<Rightarrow> document \<Rightarrow> fs_host \<Rightarrow> bool" where
  "stub_inv sha root desired h \<longleftrightarrow> (\<forall>x. CHR 0x0A \<notin> set (sha x)) \<and> doc_ok desired \<and> dir_ok root h"

lemma todo_calm:
  assumes "case v (path_name (svc_ID svc)) of None \<Rightarrow> True | Some Dir \<Rightarrow> False | Some (File t) \<Rightarrow> isManaged t"
  shows "todo sha v svc = [] \<or> todo sha v svc = [mk_step ''write_service'' DisruptRestart (svc_ID svc) (Some [(''body'', render sha svc)])]"
proof (cases "v (path_name (svc_ID svc))")
  case (Some e)
  then show ?thesis using assms by (cases e) (simp_all add: todo_def Let_def)
qed (simp add: todo_def Let_def)

lemma stub_plan_calm:
  assumes "stub_inv sha root desired h" "stub_calm root desired h" "stub_Observe sha root h = (Inr obs, h')"
  shows "\<exists>plan h2. stub_Plan sha desired obs = Inr plan \<and> run_plan (stub_New sha root) plan h' = Some h2 \<and> stub_calm root desired h2
    \<and> stub_sync sha root desired h2
    \<and> (\<forall>n. n \<notin> path_name ` svc_ID ` set (Services desired) \<longrightarrow> (\<forall>t. visible root h n = Some (File t) \<longrightarrow> \<not> isManaged t) \<longrightarrow> visible root h2 n = visible root h n)
    \<and> (\<forall>s \<in> set (Services desired). \<exists>t. visible root h2 (path_name (svc_ID s)) = Some (File t)
        \<and> (t = render sha s \<or> visible root h (path_name (svc_ID s)) = Some (File t)))"
proof -
  let ?ids = "svc_ID ` set (Services desired)" and ?v = "visible root h"
  have inv: "dir_ok root h" "doc_ok desired" "\<And>x. CHR 0x0A \<notin> set (sha x)" and q: "fh_faults h = []"
    using assms(1,2) by (auto simp: stub_inv_def stub_calm_def)
  have h': "h' = h" using stub_Observe_calm [OF q, of sha root] assms(3) by auto
  define A where "A = concat (map (todo sha ?v) (sort_key svc_ID (Services desired)))"
  define B where "B = map (\<lambda>x. mk_step ''remove_service'' DisruptRestart (os_ID x) None)
      (filter (\<lambda>x. os_ID x \<notin> ?ids \<and> os_Managed x) (ob_Services obs))"
  obtain p where p: "stub_Plan sha desired obs = Inr p" "map unseq p = A @ B"
    unfolding A_def B_def by (rule stub_Plan_todo [OF assms(3) inv(1,2)])
  have dom: "s \<in> set A \<Longrightarrow> \<exists>svc \<in> set (Services desired). s \<in> set (todo sha ?v svc)" for s by (auto simp: A_def)
  have wr: "todo sha ?v svc = [] \<or> todo sha ?v svc = [mk_step ''write_service'' DisruptRestart (svc_ID svc) (Some [(''body'', render sha svc)])]"
    if "svc \<in> set (Services desired)" for svc
    by (rule todo_calm, rule bspec [OF conjunct2 [OF assms(2) [unfolded stub_calm_def]] that])
  have stepsB: "s \<in> set B \<Longrightarrow> sp_Kind s = ''remove_service'' \<and> int64 (sp_ServiceID s) \<and> sp_ServiceID s \<notin> ?ids
      \<and> (\<exists>t. ?v (path_name (sp_ServiceID s)) = Some (File t) \<and> isManaged t)" for s
    using stub_Observe_services(1) [OF assms(3) inv(1)] by (auto simp: B_def) (metis ObservedService.select_convs(3) observed_service_def)
  have int: "s \<in> set (A @ B) \<Longrightarrow> int64 (sp_ServiceID s)" for s
    using dom stepsB inv(2) todo_ids(1) by (fastforce simp: doc_ok_def)
  have "distinct (map sp_ServiceID (A @ B))"
  proof -
    have dA: "distinct (map sp_ServiceID A)" "sp_ServiceID ` set A \<subseteq> ?ids"
      using todos_distinct [of "sort_key svc_ID (Services desired)"] inv(2) by (auto simp: A_def doc_ok_def distinct_map)
    have "map sp_ServiceID B = map os_ID (filter (\<lambda>x. os_ID x \<notin> ?ids \<and> os_Managed x) (ob_Services obs))" by (simp add: B_def)
    then have "distinct (map sp_ServiceID B)" using stub_Observe_services(2) [OF assms(3) inv(1)] by (simp add: distinct_map_filter)
    moreover have "sp_ServiceID ` set B \<inter> ?ids = {}" using stepsB by auto
    then have "sp_ServiceID ` set A \<inter> sp_ServiceID ` set B = {}" using dA(2) by blast
    ultimately show ?thesis using dA(1) by simp
  qed
  then have dist: "distinct (map (path_name \<circ> sp_ServiceID) (A @ B))"
    using int path_name_inj unfolding distinct_map by (auto simp: inj_on_def)
  have "\<exists>h2. run_plan (stub_New sha root) p h = Some h2 \<and> fh_faults h2 = [] \<and> visible root h2 = fold step_effect p ?v"
  proof (rule run_plan_stub [OF q])
    fix s assume "s \<in> set p"
    then have u: "unseq s \<in> set (A @ B)" unfolding p(2) [symmetric] by simp
    show "sp_Kind s = ''write_service'' \<and> sp_Payload s \<noteq> None \<and> ?v (path_name (sp_ServiceID s)) \<noteq> Some Dir
        \<or> sp_Kind s = ''remove_service''"
    proof (cases "unseq s \<in> set B")
      case True
      then show ?thesis using stepsB [of "unseq s"] by simp
    next
      case False
      then have "unseq s \<in> set A" using u by simp
      then obtain svc where svc: "svc \<in> set (Services desired)" "unseq s \<in> set (todo sha ?v svc)" using dom by blast
      have "unseq s = mk_step ''write_service'' DisruptRestart (svc_ID svc) (Some [(''body'', render sha svc)])"
        using wr [OF svc(1)] svc(2) by auto
      from arg_cong [OF this, of sp_Kind] arg_cong [OF this, of sp_Payload] arg_cong [OF this, of sp_ServiceID]
      have "sp_Kind s = ''write_service''" "sp_Payload s \<noteq> None" "sp_ServiceID s = svc_ID svc" by simp_all
      moreover have "?v (path_name (svc_ID svc)) \<noteq> Some Dir"
        using bspec [OF conjunct2 [OF assms(2) [unfolded stub_calm_def]] svc(1)] by auto
      ultimately show ?thesis by simp
    qed
  qed
  then obtain h2 where h2: "run_plan (stub_New sha root) p h = Some h2" "fh_faults h2 = []" "visible root h2 = fold step_effect (A @ B) ?v"
    unfolding fold_effect_unseq [of p, unfolded p(2), symmetric] by blast
  have served: "\<exists>t. visible root h2 (path_name (svc_ID s)) = Some (File t) \<and> isManaged t \<and> sha (after_line t) = sha (payloadOf s)
      \<and> (t = render sha s \<or> ?v (path_name (svc_ID s)) = Some (File t))"
    if s: "s \<in> set (Services desired)" for s
  proof (cases "todo sha ?v s = []")
    case True
    have "path_name (sp_ServiceID x) \<noteq> path_name (svc_ID s)" if x: "x \<in> set (A @ B)" for x
    proof
      assume "path_name (sp_ServiceID x) = path_name (svc_ID s)"
      then have id: "sp_ServiceID x = svc_ID s" using path_name_inj int [OF x] inv(2) s by (auto simp: doc_ok_def)
      then have "x \<in> set A" using x stepsB [of x] s by auto
      then obtain svc where "svc \<in> set (Services desired)" "x \<in> set (todo sha ?v svc)" using dom by blast
      moreover from this have "svc = s" using todo_ids(1) [of x sha ?v svc] id inv(2) s by (auto simp: doc_ok_def distinct_map inj_on_def)
      ultimately show False using True by simp
    qed
    then have "visible root h2 (path_name (svc_ID s)) = ?v (path_name (svc_ID s))" unfolding h2(3) by (rule fold_effect_other)
    then show ?thesis using True unfolding todo_Nil by (auto split: option.splits entry.splits)
  next
    case False
    let ?w = "mk_step ''write_service'' DisruptRestart (svc_ID s) (Some [(''body'', render sha s)])"
    have "?w \<in> set (A @ B)" using False wr [OF s] s by (force simp: A_def)
    from fold_effect_step [OF this dist, of ?v] have "visible root h2 (path_name (svc_ID s)) = Some (File (render sha s))"
      unfolding h2(3) by (auto simp: step_effect_def)
    then show ?thesis using render_managed render_payload [OF inv(3)] by simp
  qed
  have others: "visible root h2 n = ?v n"
    if n: "n \<notin> path_name ` ?ids" "\<And>t. ?v n = Some (File t) \<Longrightarrow> \<not> isManaged t" for n
    unfolding h2(3)
  proof (rule fold_effect_other)
    fix x assume "x \<in> set (A @ B)"
    then show "path_name (sp_ServiceID x) \<noteq> n" using dom [of x] todo_ids(1) stepsB [of x] n by (auto; metis)
  qed
  have removed: "\<not> isManaged t" if i: "int64 i" "i \<notin> ?ids" "visible root h2 (path_name i) = Some (File t)" for i t
  proof
    assume m: "isManaged t"
    show False
    proof (cases "\<exists>t. ?v (path_name i) = Some (File t) \<and> isManaged t")
      case True
      then obtain t' where t': "?v (path_name i) = Some (File t')" "isManaged t'" by blast
      have "observed_service sha i t' \<in> set (ob_Services obs)"
        using t' i(1) by (auto simp: stub_Observe_services(1) [OF assms(3) inv(1)] observed_service_def)
      then have "mk_step ''remove_service'' DisruptRestart i None \<in> set (A @ B)"
        using i(2) t'(2) by (force simp: B_def observed_service_def)
      from fold_effect_step [OF this dist, of ?v] have "visible root h2 (path_name i) = None"
        unfolding h2(3) by (auto simp: step_effect_def)
      then show False using i(3) by simp
    next
      case False
      have "path_name i \<notin> path_name ` ?ids" using i(1,2) path_name_inj inv(2) by (auto simp: doc_ok_def)
      then have "visible root h2 (path_name i) = ?v (path_name i)" using others False by blast
      then show False using False i(3) m by simp
    qed
  qed
  have "stub_sync sha root desired h2"
    unfolding stub_sync_def using served removed by (fastforce split: option.splits entry.splits)
  moreover have "stub_calm root desired h2"
    unfolding stub_calm_def using h2(2) served by (fastforce split: option.splits entry.splits)
  ultimately show ?thesis using p(1) h2(1) h' others served by blast
qed

section \<open>The file adapter keeps the contract\<close>

lemma stub_simps [simp]: "ad_Observe (stub_New sha root) = stub_Observe sha root" "ad_Plan (stub_New sha root) = stub_Plan sha"
  "ad_Apply (stub_New sha root) = stub_Apply root" "ad_Descriptor (stub_New sha root) = stub_Descriptor"
  by (simp_all add: stub_New_def)

lemma stub_sync_cong: "fh_dirs h' = fh_dirs h \<Longrightarrow> stub_sync sha root desired h' = stub_sync sha root desired h"
  using visible_cong [of h' h root] by (simp add: stub_sync_def)

interpretation stub_node: adapter_progress "[stub_New sha root]" desired "stub_inv sha root desired" "\<lambda>ad. stub_sync sha root desired"
  "stub_calm root desired"
  for sha root desired
proof (unfold_locales, goal_cases)
  case (1 ad h)
  then show ?case using dir_ok_cong [OF stub_Observe_frame [of sha root h], of root] by (simp add: stub_inv_def)
next
  case (2 ad ad' h)
  then show ?case using stub_sync_cong [OF stub_Observe_frame [of sha root h]] by simp
next
  case (3 ad h s)
  obtain res err h' where ap: "stub_Apply root s h = ((res, err), h')" by (metis prod.collapse)
  show ?case using 3 stub_Apply_effect(4) [OF ap] ap by (simp add: stub_inv_def)
next
  case (4 ad ad' h s)
  then show ?case by simp
next
  case (5 ad h obs h')
  then show ?case using stub_Plan_empty [of sha root h obs h' desired] by (auto simp: stub_inv_def)
next
  case (6 ad s n h res err h')
  then show ?case using stub_Apply_seq [of root s n h] by simp
next
  case (7 ad h)
  then have "fh_faults h = []" by (simp add: stub_calm_def)
  with 7 show ?case using stub_Observe_calm [of h sha root] by auto
next
  case (8 ad h obs h')
  then have ad: "ad = stub_New sha root" and ob: "stub_Observe sha root h = (Inr obs, h')" by auto
  from stub_plan_calm [OF 8(2,3) ob] show ?case unfolding ad by auto
next
  case (9 ad h obs h')
  then show ?case using stub_Plan_empty [of sha root h obs h' desired] by (auto simp: stub_inv_def)
qed


lemma node_progress:
  assumes "\<And>x. CHR 0x0A \<notin> set (sha x)" and "doc_ok desired" and "dir_ok root (w_host w)" and "stub_calm root desired (w_host w)"
    and "rc_ads opts = [stub_New sha root]" and "rc_AllowDisruptive opts = None"
  shows "\<exists>run w'. Converge (NewReconciler opts) desired w = (run, None, w') \<and> run_Converged run
    \<and> stub_sync sha root desired (w_host w')
    \<and> (\<exists>run2 w2. Converge (NewReconciler opts) desired w' = (run2, None, w2) \<and> run_Converged run2 \<and> run_Steps run2 = [])"
proof -
  have ads: "rc_ads (NewReconciler opts) = [stub_New sha root]" and allow: "disruptiveAllowed (NewReconciler opts) v" for v
    using assms(5,6) by (simp_all add: NewReconciler_def disruptiveAllowed_def Let_def)
  have "stub_inv sha root desired (w_host w)" using assms(1-3) by (simp add: stub_inv_def)
  from stub_node.Converge_progress [OF ads _ NewReconciler_retries allow this assms(4)] show ?thesis by auto
qed


section \<open>Files that are not ours\<close>

lemma plan_spares_unmanaged:
  assumes "stub_Observe sha root h = (Inr obs, h')" "dir_ok root h" "doc_ok desired" "stub_Plan sha desired obs = Inr plan"
    "visible root h n = Some (File t)" "\<not> isManaged t" "s \<in> set plan" "path_name (sp_ServiceID s) = n"
  shows "sp_Kind s = ''blocked_unmanaged''"
proof -
  obtain p where p: "stub_Plan sha desired obs = Inr p" "map unseq p = concat (map (todo sha (visible root h)) (sort_key svc_ID (Services desired)))
      @ map (\<lambda>x. mk_step ''remove_service'' DisruptRestart (os_ID x) None)
          (filter (\<lambda>x. os_ID x \<notin> svc_ID ` set (Services desired) \<and> os_Managed x) (ob_Services obs))"
    by (rule stub_Plan_todo [OF assms(1-3)])
  have "unseq s \<in> set (map unseq p)" using p(1) assms(4,7) by simp
  then consider svc where "svc \<in> set (Services desired)" "unseq s \<in> set (todo sha (visible root h) svc)"
    | x where "x \<in> set (ob_Services obs)" "os_Managed x" "unseq s = mk_step ''remove_service'' DisruptRestart (os_ID x) None"
    unfolding p(2) by auto
  then show ?thesis
  proof cases
    case (1 svc)
    have "sp_ServiceID s = svc_ID svc" using todo_ids(1) [OF 1(2)] by simp
    then have "visible root h (path_name (svc_ID svc)) = Some (File t)" using assms(5,8) by simp
    then have "todo sha (visible root h) svc = [mk_step ''blocked_unmanaged'' DisruptNone (svc_ID svc) None]"
      using assms(6) by (simp add: todo_def Let_def)
    then have "unseq s = mk_step ''blocked_unmanaged'' DisruptNone (svc_ID svc) None" using 1(2) by simp
    from arg_cong [OF this, of sp_Kind] show ?thesis by simp
  next
    case (2 x)
    obtain t' where "visible root h (path_name (os_ID x)) = Some (File t')" "x = observed_service sha (os_ID x) t'"
      using 2(1) stub_Observe_services(1) [OF assms(1,2), of x] by blast
    moreover have "sp_ServiceID s = os_ID x" using arg_cong [OF 2(3), of sp_ServiceID] by simp
    ultimately have "os_Managed x = isManaged t" using assms(5,8) by (metis ObservedService.select_convs(3) entry.inject observed_service_def option.inject)
    then show ?thesis using 2(2) assms(6) by simp
  qed
qed


section \<open>Crashes\<close>

text \<open>The hosts a crash may leave behind: the one before each call of a write, and the last one.\<close>

fun stage_trace :: "os_stage list \<Rightarrow> fs_host \<Rightarrow> fs_host list" where
  "stage_trace [] h = [h]"
| "stage_trace ((label, f) # stages) h =
     h # (case os_call h of (Some e, h1) \<Rightarrow> [h1]
          | (None, h1) \<Rightarrow> (case f h1 of Inl e \<Rightarrow> [h1] | Inr h2 \<Rightarrow> stage_trace stages h2))"

definition write_trace :: "string \<Rightarrow> string \<Rightarrow> string \<Rightarrow> fs_host \<Rightarrow> fs_host list" where
  "write_trace root name body h =
     h # (case os_call h of
        (Some e, h1) \<Rightarrow> [h1]
      | (None, h1) \<Rightarrow>
          (let tmp = temp_name (dir_entries root h1);
               states = stage_trace (write_stages root tmp name body) (put_entry root tmp (File '''') h1)
           in states @ [remove_quietly root tmp (last states)]))"

lemma stage_trace_last: "last (stage_trace stages h) = snd (run_stages stages h) \<and> stage_trace stages h \<noteq> []"
  by (induction stages h rule: run_stages.induct) (auto split: prod.splits option.splits sum.splits)

lemma stage_trace_quiet:
  assumes "\<And>l f h1 h2. (l, f) \<in> set stages \<Longrightarrow> f h1 = Inr h2 \<Longrightarrow> quiet h1 h2" "x \<in> set (stage_trace stages h)"
  shows "quiet h x"
  using assms
proof (induction stages arbitrary: h)
  case (Cons lf stages)
  obtain l f where lf: "lf = (l, f)" by (cases lf)
  obtain e h1 where oc: "os_call h = (e, h1)" by (cases "os_call h")
  have q1: "quiet h h1" by (rule quiet_os_call(2) [OF oc])
  show ?case
  proof (cases "x \<in> {h, h1}")
    case False
    then obtain h2 where h2: "e = None" "f h1 = Inr h2" "x \<in> set (stage_trace stages h2)"
      using Cons.prems(2) lf oc by (cases e; cases "f h1") auto
    have "quiet h1 h2" using Cons.prems(1) [of l f] h2(2) lf by simp
    moreover have "(l, f) \<in> set stages \<Longrightarrow> f y = Inr z \<Longrightarrow> quiet y z" for l f y z using Cons.prems(1) [of l f y z] by simp
    then have "quiet h2 x" by (rule Cons.IH [OF _ h2(3)])
    ultimately show ?thesis using q1 quiet_trans by blast
  qed (use q1 in auto)
qed simp

lemma stage_trace_append:
  "x \<in> set (stage_trace (xs @ ys) h) \<Longrightarrow> x \<in> set (stage_trace xs h) \<or> (\<exists>h1. run_stages xs h = (None, h1) \<and> x \<in> set (stage_trace ys h1))"
proof (induction xs arbitrary: h)
  case (Cons lf xs)
  obtain l f where lf: "lf = (l, f)" by (cases lf)
  obtain e h1 where oc: "os_call h = (e, h1)" by (cases "os_call h")
  show ?case
  proof (cases "\<exists>h2. e = None \<and> f h1 = Inr h2")
    case True
    then obtain h2 where "e = None" "f h1 = Inr h2" by blast
    then show ?thesis using Cons.prems Cons.IH [of h2] lf oc by auto
  next
    case False
    then show ?thesis using Cons.prems lf oc by (cases e; cases "f h1") auto
  qed
qed simp

lemma write_trace_last: "last (write_trace root name body h) = snd (atomicWrite root name body h)"
proof (cases "os_call h")
  case (Pair e h1)
  let ?tmp = "temp_name (dir_entries root h1)"
  have "last (stage_trace (write_stages root ?tmp name body) (put_entry root ?tmp (File '''') h1))
      = snd (run_stages (write_stages root ?tmp name body) (put_entry root ?tmp (File '''') h1))"
    using stage_trace_last by blast
  then show ?thesis using Pair by (cases e) (simp_all add: write_trace_def atomicWrite_def Let_def case_prod_beta)
qed

text \<open>C30: a crash never leaves a truncated file. At every moment of a write, and wherever it is interrupted or fails, the file of the
  service holds either its whole old contents or the whole new ones, and every other visible file is as it was; the last of
  these moments is the one the write returns with.\<close>
theorem crash_never_truncates:
  assumes "x \<in> set (write_trace root (path_name i) body h)"
  shows "visible root x (path_name i) \<in> {visible root h (path_name i), Some (File body)}
    \<and> (\<forall>m. m \<noteq> path_name i \<longrightarrow> visible root x m = visible root h m)
    \<and> (\<forall>root'. root' \<noteq> root \<longrightarrow> visible root' x = visible root' h)
    \<and> last (write_trace root (path_name i) body h) = snd (atomicWrite root (path_name i) body h)"
proof -
  let ?n = "path_name i"
  obtain e h1 where oc: "os_call h = (e, h1)" by (cases "os_call h")
  have q1: "quiet h h1" by (rule quiet_os_call(2) [OF oc])
  define tmp where "tmp = temp_name (dir_entries root h1)"
  define h2 where "h2 = put_entry root tmp (File '''') h1"
  define pre where "pre = take 4 (write_stages root tmp ?n body)"
  have tmp: "hidden tmp" by (simp add: tmp_def)
  have q2: "quiet h h2" using quiet_trans [OF q1 quiet_hidden(1) [OF tmp]] by (simp add: h2_def)
  have stages: "write_stages root tmp ?n body = pre @ [(''rename into place'', rename_entry root tmp ?n)]"
    by (simp add: write_stages_def pre_def)
  define old where "old x \<longleftrightarrow> quiet h x" for x
  define new where "new x \<longleftrightarrow> visible root x = (visible root h)(?n \<mapsto> File body) \<and> (\<forall>root'. root' \<noteq> root \<longrightarrow> visible root' x = visible root' h)" for x
  have inside: "old y \<or> new y" if y: "y \<in> set (stage_trace (write_stages root tmp ?n body) h2)" for y
    using stage_trace_append [OF y [unfolded stages]]
  proof (elim disjE exE conjE)
    assume "y \<in> set (stage_trace pre h2)"
    then have "quiet h2 y"
      by (rule stage_trace_quiet [rotated]) (use quiet_hidden(1) [OF tmp] in \<open>auto simp: pre_def write_stages_def\<close>)
    then show ?thesis using quiet_trans [OF q2] by (simp add: old_def)
  next
    fix h3 assume run: "run_stages pre h2 = (None, h3)"
      and y3: "y \<in> set (stage_trace [(''rename into place'', rename_entry root tmp ?n)] h3)"
    note f = filled_stages [OF tmp run [unfolded pre_def]]
    have q3: "quiet h h3" by (rule quiet_trans [OF q2 f(1)])
    obtain e5 h5 where o5: "os_call h3 = (e5, h5)" by (cases "os_call h3")
    have q5: "quiet h h5" by (rule quiet_trans [OF q3 quiet_os_call(2) [OF o5]])
    have "go_get (dir_entries root h5) tmp = Some (File body)" using f(2) dir_entries_cong [OF os_call_dirs' [OF o5]] by simp
    then have "new z" if "rename_entry root tmp ?n h5 = Inr z" for z
      using rename_effect [OF that tmp temp_hidden(2)] q5 by (auto simp: new_def quiet_def)
    moreover have "y = h3 \<or> y = h5 \<or> (\<exists>z. rename_entry root tmp ?n h5 = Inr z \<and> y = z)"
      using y3 o5 by (auto split: option.splits sum.splits)
    ultimately show ?thesis using q3 q5 by (auto simp: old_def)
  qed
  have tidy: "old y \<Longrightarrow> old (remove_quietly root tmp y)" "new y \<Longrightarrow> new (remove_quietly root tmp y)" for y
    using quiet_remove_quietly [OF tmp, of y root] quiet_trans by (auto simp: old_def new_def quiet_def)
  have "old x \<or> new x"
  proof (cases e)
    case (Some a)
    then show ?thesis using assms oc q1 by (auto simp: write_trace_def old_def)
  next
    case None
    define states where "states = stage_trace (write_stages root tmp ?n body) h2"
    have "last states \<in> set states" using stage_trace_last unfolding states_def by (metis last_in_set)
    then have "old (last states) \<or> new (last states)" using inside by (simp add: states_def)
    moreover have "x = h \<or> x \<in> set states \<or> x = remove_quietly root tmp (last states)"
      using assms oc None by (auto simp: write_trace_def Let_def tmp_def [symmetric] h2_def [symmetric] states_def [symmetric])
    ultimately show ?thesis using inside tidy by (auto simp: states_def old_def)
  qed
  then show ?thesis using write_trace_last by (auto simp: old_def new_def quiet_def)
qed

section \<open>A concrete node\<close>

definition demo_sha :: "string \<Rightarrow> string" where
  "demo_sha s = concat (map (\<lambda>c. if c = CHR 0x0A then ''aa'' else [CHR ''b'', c]) s)"

lemma demo_sha_inj: "inj demo_sha"
proof (rule injI)
  fix x y :: string
  show "demo_sha x = demo_sha y \<Longrightarrow> x = y"
  proof (induction x arbitrary: y)
    case Nil
    then show ?case by (cases y) (auto simp: demo_sha_def split: if_splits)
  next
    case (Cons c x)
    obtain d y' where y: "y = d # y'" using Cons.prems by (cases y) (auto simp: demo_sha_def split: if_splits)
    then have "c = d" "demo_sha x = demo_sha y'" using Cons.prems by (auto simp: demo_sha_def split: if_splits)
    then show ?case using Cons.IH y by simp
  qed
qed

lemma demo_sha_line: "CHR 0x0A \<notin> set (demo_sha x)"
  by (auto simp: demo_sha_def split: if_splits)

definition node_doc :: document where
  "node_doc = \<lparr>SchemaVersion = 2, Revision = 4, NodeID = 1, Services = [\<lparr>svc_ID = 7, svc_Kind = ''stub'', svc_Enabled = True, svc_Params = ''p''\<rparr>,
     \<lparr>svc_ID = 3, svc_Kind = ''stub'', svc_Enabled = False, svc_Params = ''q''\<rparr>], Subjects = [], Outbounds = [], Routing = None, DNS = None\<rparr>"

definition node_host :: "string option list \<Rightarrow> fs_host" where
  "node_host faults = \<lparr>fh_dirs = [(''/etc/a'', [(path_name 9, File (MarkerPrefix @ nl @ ''old'')), (''notes'', File ''mine''), (path_name 11, File ''hand'')])],
     fh_faults = faults\<rparr>"

definition node_opts :: "fs_host Reconciler" where
  "node_opts = \<lparr>rc_ads = [stub_New demo_sha ''/etc/a''], rc_MaxRetries = 3, rc_RetryBase = 0, rc_AllowDisruptive = None, rc_took = (\<lambda>_ _. 5)\<rparr>"

definition node_world :: "string option list \<Rightarrow> fs_host world" where
  "node_world faults = \<lparr>w_host = node_host faults, w_now = 0, w_deadline = None\<rparr>"

text \<open>The fourth call, the creation of a temporary file, fails once.\<close>

definition flaky :: "string option list" where
  "flaky = [None, None, None, None, Some ''disk full'']"

definition node_run :: "Run \<times> string option \<times> fs_host world" where
  "node_run = Converge (NewReconciler node_opts) node_doc (node_world flaky)"

lemma node_ok: "doc_ok node_doc" "dir_ok ''/etc/a'' (node_host f)" "rc_ads node_opts = [stub_New demo_sha ''/etc/a'']" "rc_AllowDisruptive node_opts = None"
proof -
  show "doc_ok node_doc" by code_simp
  have "dir_ok ''/etc/a'' (node_host [])" by code_simp
  then show "dir_ok ''/etc/a'' (node_host f)" by (simp add: dir_ok_def dir_entries_def node_host_def)
qed (simp_all add: node_opts_def)

lemma node_run_converged: "run_Converged (fst node_run)"
  by code_simp




theorem crash_never_truncates_witness:
  "visible ''/etc/a'' (write_trace ''/etc/a'' (path_name 9) ''new'' (node_host flaky) ! 3) (path_name 9)
    \<in> {Some (File (MarkerPrefix @ nl @ ''old'')), Some (File ''new'')}"
proof -
  have "3 < length (write_trace ''/etc/a'' (path_name 9) ''new'' (node_host flaky))" by code_simp
  from crash_never_truncates [OF nth_mem [OF this]] show ?thesis
    by (simp add: visible_def dir_entries_def node_host_def hidden_def path_name_def filePrefix_def)
qed



end
