(* ===== verification/AgentLoop.thy ===== *)
theory AgentLoop
  imports Convergence Enforcer StubAdapter
begin

text \<open>
  The agent's side of the control stream, \<open>src/internal/node/agent/client.go\<close> and \<open>enforcement.go\<close>, and the panel's handlers
  it talks to, \<open>GetDesiredSnapshot\<close> and \<open>onApplyReport\<close> of \<open>src/internal/panel/control/control_service.go\<close>: one
  reconciliation from the database to the host and back.

  Decoding the document (\<open>json.Unmarshal\<close>) and SHA-256 are parameters; the caller a TLS certificate was verified for is an
  argument, \<open>None\<close> for a peer that is not enrolled. Messages are records with the fields of the protocol. Random choice in
  \<open>jitter\<close> is an argument.
\<close>

section \<open>Backoff\<close>

definition baseReconnectBackoff :: int where "baseReconnectBackoff = 1000000000"
definition MaxReconnectBackoff :: int where "MaxReconnectBackoff = 60000000000"

fun double_until :: "nat \<Rightarrow> int \<Rightarrow> int" where
  "double_until 0 d = d"
| "double_until (Suc n) d = (if wrap64 (2 * d) \<ge> MaxReconnectBackoff then MaxReconnectBackoff else double_until n (wrap64 (2 * d)))"

definition reconnectBackoff :: "int \<Rightarrow> int" where
  "reconnectBackoff attempt = double_until (nat ((if attempt < 1 then 1 else attempt) - 1)) baseReconnectBackoff"

text \<open>\<open>rnd\<close> is what \<open>rand.Int63n\<close> draws below its argument.\<close>

definition jitter :: "(int \<Rightarrow> int) \<Rightarrow> int \<Rightarrow> int" where
  "jitter rnd d = (if d \<le> 0 then d else let spread = d div 4 in if spread \<le> 0 then d else d - rnd spread div 2)"

section \<open>The panel's handlers\<close>

datatype rpc_err = Unauthenticated | PermissionDenied | Internal panel_err | Transport

record snapshot_response =
  sp_Revision :: int
  sp_Document :: string
  sp_Sha256 :: string

definition GetDesiredSnapshot :: "codec \<Rightarrow> unsealer \<Rightarrow> int \<Rightarrow> int option \<Rightarrow> int \<Rightarrow> panel_db \<Rightarrow> rpc_err + snapshot_response" where
  "GetDesiredSnapshot c u now caller nodeID d =
     (case caller of None \<Rightarrow> Inl Unauthenticated
      | Some callerID \<Rightarrow>
          if nodeID \<noteq> callerID then Inl PermissionDenied
          else (case BuildDesiredSnapshot c u now callerID d of
              Inl e \<Rightarrow> Inl (Internal e)
            | Inr snap \<Rightarrow> Inr \<lparr>sp_Revision = snap_Revision snap, sp_Document = snap_Bytes snap, sp_Sha256 = snap_SHA256 snap\<rparr>))"

record wire_step =
  ws_Seq :: int
  ws_Ok :: bool
  ws_Error :: string
  ws_Kind :: string
  ws_Disruption :: string
  ws_DurationMs :: int

record apply_report =
  ar_TargetRevision :: int
  ar_Converged :: bool
  ar_Deferred :: bool
  ar_Error :: string
  ar_DocSha256 :: string
  ar_Steps :: "wire_step list"

definition apply_input :: "int \<Rightarrow> int \<Rightarrow> apply_report \<Rightarrow> apply_run_input" where
  "apply_input nodeID now r = \<lparr>in_NodeID = nodeID, in_TargetRevision = ar_TargetRevision r, in_Converged = ar_Converged r,
     in_Deferred = ar_Deferred r, in_Err = ar_Error r, in_DocSHA256 = ar_DocSha256 r,
     in_Steps = map (\<lambda>s. \<lparr>st_Seq = ws_Seq s, st_Kind = ws_Kind s, st_Disruption = ws_Disruption s, st_OK = ws_Ok s, st_Err = ws_Error s,
       st_DurationMS = ws_DurationMs s\<rparr>) (ar_Steps r),
     in_Now = now\<rparr>"

definition onApplyReport :: "int \<Rightarrow> int \<Rightarrow> apply_report \<Rightarrow> panel_db \<Rightarrow> (panel_err + run_result) \<times> panel_db" where
  "onApplyReport nodeID now r d = RecordApplyRun (apply_input nodeID now r) d"

section \<open>The agent\<close>

record 'h agent =
  ag_NodeID :: int
  ag_rec :: "'h Reconciler"
  ag_enforcer :: "enforcer option"
  ag_world :: "'h world"

text \<open>\<open>NewClient\<close>: three attempts, two seconds, no maintenance window.\<close>

definition NewClient :: "int \<Rightarrow> 'h adapter list \<Rightarrow> (Step \<Rightarrow> 'h \<Rightarrow> int) \<Rightarrow> 'h world \<Rightarrow> 'h agent" where
  "NewClient nodeID ads took w = \<lparr>ag_NodeID = nodeID,
     ag_rec = NewReconciler \<lparr>rc_ads = ads, rc_MaxRetries = 3, rc_RetryBase = 2000000000, rc_AllowDisruptive = None, rc_took = took\<rparr>,
     ag_enforcer = Some New, ag_world = w\<rparr>"

definition verifySnapshot :: "(string \<Rightarrow> string) \<Rightarrow> string \<Rightarrow> string \<Rightarrow> string option" where
  "verifySnapshot sha doc claimed = (if sha doc \<noteq> claimed
     then Some (''snapshot hash mismatch: computed '' @ sha doc @ '', panel reported '' @ claimed) else None)"

definition syncEnforcement :: "document \<Rightarrow> enforcer option \<Rightarrow> enforcer option" where
  "syncEnforcement desired e = map_option (UpdatePolicies (map (\<lambda>s. \<lparr>pol_SubjectID = subj_ID s, pol_MaxDevices = subj_MaxDevices s,
     pol_MaxIPs = subj_MaxIPs s, pol_MaxConnections = subj_MaxConnections s, pol_SpeedLimitUpKbps = subj_SpeedLimitUpKbps s,
     pol_SpeedLimitDownKbps = subj_SpeedLimitDownKbps s, pol_QuotaBytes = None, pol_QuotaUsedBytes = None\<rparr>) (Subjects desired))) e"

definition wrap32 :: "int \<Rightarrow> int" where
  "wrap32 x = (x + 2 ^ 31) mod 2 ^ 32 - 2 ^ 31"

definition milliseconds :: "int \<Rightarrow> int" where
  "milliseconds d = (if d < 0 then - ((- d) div 1000000) else d div 1000000)"

definition wire_of_step :: "StepResult \<Rightarrow> wire_step" where
  "wire_of_step s = \<lparr>ws_Seq = wrap32 (sres_Seq s), ws_Ok = sres_OK s, ws_Error = sres_Err s, ws_Kind = sres_Kind s,
     ws_Disruption = disruption_String (sres_Disruption s), ws_DurationMs = milliseconds (sres_Duration s)\<rparr>"

text \<open>One reconciliation with the snapshot the panel answered: the error returned, the report handed to \<open>stream.Send\<close>,
  and the agent. \<open>sent\<close> is whether \<open>Send\<close> returns without error.\<close>

definition reconcileOnce :: "(string \<Rightarrow> string) \<Rightarrow> (string \<Rightarrow> document option) \<Rightarrow> rpc_err + snapshot_response \<Rightarrow> bool \<Rightarrow> 'h agent
    \<Rightarrow> string option \<times> apply_report option \<times> 'h agent" where
  "reconcileOnce sha decode resp sent a =
     (case resp of
        Inl e \<Rightarrow> (Some ''fetch snapshot'', None, a)
      | Inr snap \<Rightarrow>
          (case verifySnapshot sha (sp_Document snap) (sp_Sha256 snap) of
             Some e \<Rightarrow> (Some e, None, a)
           | None \<Rightarrow>
               (case decode (sp_Document snap) of
                  None \<Rightarrow> (Some ''decode desired document'', None, a)
                | Some desired \<Rightarrow>
                    (case CheckSchemaVersion (SchemaVersion desired) of
                       Some e \<Rightarrow> ((if sent then None else Some ''report unsupported schema''),
                         Some \<lparr>ar_TargetRevision = sp_Revision snap, ar_Converged = False, ar_Deferred = False, ar_Error = e,
                           ar_DocSha256 = sp_Sha256 snap, ar_Steps = []\<rparr>, a)
                     | None \<Rightarrow>
                         (let enf = syncEnforcement desired (ag_enforcer a);
                              (run, runErr, w) = Converge (ag_rec a) desired (ag_world a)
                          in ((if sent then runErr else Some ''send apply report''),
                              Some \<lparr>ar_TargetRevision = sp_Revision snap, ar_Converged = run_Converged run, ar_Deferred = run_Deferred run,
                                ar_Error = run_Err run, ar_DocSha256 = sp_Sha256 snap, ar_Steps = map wire_of_step (run_Steps run)\<rparr>,
                              a\<lparr>ag_enforcer := enf, ag_world := w\<rparr>))))))"

section \<open>Commands\<close>

datatype command_body =
    RestartAdapters "string list"
  | UpdateGeoData "string list"
  | UpgradeCore string "string list"
  | FetchLogs string int
  | UnknownCommand

datatype result_body =
    RestartResult "(string \<times> bool \<times> string) list"
  | GeoResult "(string \<times> bool \<times> string \<times> GeoDataResult) list"
  | UpgradeResult string bool string bool string
  | LogsResult string bool string string
  | NoBody

definition err_text :: "string option \<Rightarrow> string" where
  "err_text e = (case e of None \<Rightarrow> '''' | Some s \<Rightarrow> s)"

definition quoted :: "string \<Rightarrow> string" where
  "quoted s = [CHR 0x22] @ s @ [CHR 0x22]"

definition targeted_err :: "string \<Rightarrow> string \<Rightarrow> ('a \<times> string option) targeted \<Rightarrow> string" where
  "targeted_err kind concept t = (case t of
     NotFound \<Rightarrow> ''this node runs no '' @ quoted kind @ '' adapter''
   | NotCapable \<Rightarrow> ''the '' @ quoted kind @ '' adapter on this node has no '' @ concept @ '' concept''
   | Ran (x, e) \<Rightarrow> err_text e)"

definition handleCommand :: "'h adapter list \<Rightarrow> string \<times> command_body \<Rightarrow> 'h \<Rightarrow> (string \<times> result_body) \<times> 'h" where
  "handleCommand ads cmd h = (case snd cmd of
     RestartAdapters kinds \<Rightarrow> (let (out, h1) = RestartAll ads kinds h
       in ((fst cmd, RestartResult (map (\<lambda>(k, e). (k, e = None, err_text e)) out)), h1))
   | UpdateGeoData urls \<Rightarrow> (let (out, h1) = registry_UpdateGeoData ads urls h
       in ((fst cmd, GeoResult (map (\<lambda>(k, r, e). (k, e = None, err_text e, r)) out)), h1))
   | UpgradeCore kind args \<Rightarrow> (let (t, h1) = registry_UpgradeCore ads kind args h;
         (v, rb, good) = (case t of Ran (r, e) \<Rightarrow> (cv_InstalledVersion r, cv_RolledBack r, e = None) | _ \<Rightarrow> ('''', False, False))
       in ((fst cmd, UpgradeResult kind good v rb (targeted_err kind ''core-version'' t)), h1))
   | FetchLogs kind lines \<Rightarrow> (let (t, h1) = registry_ReadLogs ads kind lines h;
         (logs, good) = (case t of Ran (l, e) \<Rightarrow> (l, e = None) | _ \<Rightarrow> ('''', False))
       in ((fst cmd, LogsResult kind good logs (targeted_err kind ''log-reading'' t)), h1))
   | UnknownCommand \<Rightarrow> ((fst cmd, NoBody), h))"

section \<open>Reconnection\<close>

lemma wrap64_id: "- (2 ^ 63) \<le> x \<Longrightarrow> x < 2 ^ 63 \<Longrightarrow> wrap64 x = x"
  by (simp add: wrap64_def)

lemma double_until_min:
  "0 < d \<Longrightarrow> d < MaxReconnectBackoff \<Longrightarrow> double_until n d = min MaxReconnectBackoff (d * 2 ^ n)"
proof (induction n arbitrary: d)
  case (Suc n)
  have w: "wrap64 (2 * d) = 2 * d" using Suc.prems by (intro wrap64_id) (simp_all add: MaxReconnectBackoff_def)
  show ?case
  proof (cases "2 * d \<ge> MaxReconnectBackoff")
    case True
    have "2 * d * 1 \<le> 2 * d * 2 ^ n" using Suc.prems(1) by (intro mult_left_mono) simp_all
    then have "MaxReconnectBackoff \<le> d * 2 ^ Suc n" using True by simp
    then show ?thesis using True w by (simp add: min_def)
  next
    case False
    then show ?thesis using Suc.IH [of "2 * d"] Suc.prems w by (simp add: mult.assoc mult.left_commute)
  qed
qed (simp add: min_def)

text \<open>reconnecting never hammers and never stalls. The delay before attempt \<open>n\<close> is one second doubled \<open>n - 1\<close> times and
  capped at a minute, for every attempt count, with no overflow; the jitter takes away at most an eighth of it.\<close>
theorem reconnect_backoff_exact:
  assumes "\<And>s. 0 < s \<Longrightarrow> 0 \<le> rnd s \<and> rnd s < s"
  shows "reconnectBackoff n = min 60000000000 (1000000000 * 2 ^ nat (max n 1 - 1))
    \<and> 7 * reconnectBackoff n \<le> 8 * jitter rnd (reconnectBackoff n) \<and> jitter rnd (reconnectBackoff n) \<le> reconnectBackoff n"
proof -
  have eq: "reconnectBackoff n = min MaxReconnectBackoff (baseReconnectBackoff * 2 ^ nat ((if n < 1 then 1 else n) - 1))"
    unfolding reconnectBackoff_def by (rule double_until_min) (simp_all add: baseReconnectBackoff_def MaxReconnectBackoff_def)
  have "0 \<le> reconnectBackoff n" unfolding eq by (simp add: MaxReconnectBackoff_def baseReconnectBackoff_def)
  then have "7 * reconnectBackoff n \<le> 8 * jitter rnd (reconnectBackoff n) \<and> jitter rnd (reconnectBackoff n) \<le> reconnectBackoff n"
    using assms [of "reconnectBackoff n div 4"] by (auto simp: jitter_def Let_def)
  moreover have "(if n < 1 then 1 else n) = max n 1" by simp
  ultimately show ?thesis using eq by (simp only: MaxReconnectBackoff_def baseReconnectBackoff_def)
qed

theorem reconnect_backoff_exact_witness:
  "reconnectBackoff 4 = 8000000000 \<and> jitter (\<lambda>s. s div 2) 8000000000 \<le> 8000000000"
proof -
  have "0 < s \<Longrightarrow> 0 \<le> s div 2 \<and> s div 2 < s" for s :: int by simp
  note h = reconnect_backoff_exact [of "\<lambda>s. s div 2" 4, OF this]
  have e: "reconnectBackoff 4 = 8000000000" using conjunct1 [OF h] by simp
  show ?thesis by (rule conjI [OF e conjunct2 [OF conjunct2 [OF h], unfolded e]])
qed

section \<open>From the database to the host and back\<close>

lemma wrap32_id: "0 \<le> x \<Longrightarrow> x < 2 ^ 31 \<Longrightarrow> wrap32 x = x"
  by (simp add: wrap32_def)

lemma schema_supported: "build_document c u now nid d = Inr doc \<Longrightarrow> CheckSchemaVersion (SchemaVersion doc) = None"
  by (elim build_document_shape) (simp add: CheckSchemaVersion_def MaxSchemaVersion_def effectiveSchemaVersion_def)

text \<open>C3: one reconciliation, end to end. When the panel serves a document it has issued, a reachable node whose host answers and
  has nothing foreign in the place of a service fetches it, verifies it, brings every service into place and reports; the
  panel then marks it online at exactly that revision. The step count is below the \<open>int32\<close> of the protocol.\<close>
theorem reconcile_end_to_end:
  assumes "rev_inv d" and "get_node d nid = Some n"
    and "BuildDesiredSnapshot c u now nid d = Inr snap" and "issued_with d nid (snap_Revision snap) (snap_SHA256 snap)"
    and "\<forall>r \<in> set (t_node_apply_steps d). step_run_id r \<in> run_id ` set (t_node_apply_runs d)"
    and "snap_SHA256 snap = sha (snap_Bytes snap)" and "decode (snap_Bytes snap) = Some (snap_Document snap)"
    and "\<And>x. CHR 0x0A \<notin> set (sha x)" and "doc_ok (snap_Document snap)"
    and "dir_ok root (w_host w)" and "stub_calm root (snap_Document snap) (w_host w)"
    and "length (run_Steps (fst (Converge (ag_rec (NewClient nid [stub_New sha root] took w)) (snap_Document snap) w))) \<le> 2 ^ 31"
  shows "\<exists>report a'. reconcileOnce sha decode (GetDesiredSnapshot c u now (Some nid) nid d) True (NewClient nid [stub_New sha root] took w)
        = (None, Some report, a')
      \<and> stub_sync sha root (snap_Document snap) (w_host (ag_world a'))
      \<and> fst (onApplyReport nid now' report d)
        = Inr \<lparr>out_Status = StatusOnline, out_AppliedRevision = snap_Revision snap, out_Integrity = False\<rparr>"
proof -
  let ?a = "NewClient nid [stub_New sha root] took w" and ?doc = "snap_Document snap"
  let ?opts = "\<lparr>rc_ads = [stub_New sha root], rc_MaxRetries = 3, rc_RetryBase = 2000000000, rc_AllowDisruptive = None, rc_took = took\<rparr>"
  have rec: "ag_rec ?a = NewReconciler ?opts" "ag_world ?a = w" by (simp_all add: NewClient_def)
  obtain run w' where conv: "Converge (NewReconciler ?opts) ?doc w = (run, None, w')" "run_Converged run"
    and sync: "stub_sync sha root ?doc (w_host w')"
    using node_progress [of sha ?doc root w ?opts] assms(8-11) by auto
  have honest: "map sres_Seq (run_Steps run) = map int [0..<length (run_Steps run)]" "\<not> run_Deferred run" "run_Err run = ''''"
    using run_report [OF conv(1)] conv(2) by auto
  define report where "report = \<lparr>ar_TargetRevision = snap_Revision snap, ar_Converged = True, ar_Deferred = False,
      ar_Error = '''', ar_DocSha256 = snap_SHA256 snap, ar_Steps = map wire_of_step (run_Steps run)\<rparr>"
  obtain doc where "build_document c u now nid d = Inr doc" "?doc = doc"
    using assms(3) by (auto simp: BuildDesiredSnapshot_def bind_result_Inr split: option.splits prod.splits)
  then have schema: "CheckSchemaVersion (SchemaVersion ?doc) = None" using schema_supported by blast
  have "reconcileOnce sha decode (GetDesiredSnapshot c u now (Some nid) nid d) True ?a
      = (None, Some report, ?a\<lparr>ag_enforcer := syncEnforcement ?doc (ag_enforcer ?a), ag_world := w'\<rparr>)"
    using assms(3,6,7) schema conv honest rec
    by (simp add: reconcileOnce_def GetDesiredSnapshot_def verifySnapshot_def report_def)
  moreover have "fst (onApplyReport nid now' report d) = Inr \<lparr>out_Status = StatusOnline, out_AppliedRevision = snap_Revision snap, out_Integrity = False\<rparr>"
  proof -
    have len: "length (run_Steps run) \<le> 2 ^ 31" using assms(12) conv(1) rec(1) by simp
    have "map (wrap32 \<circ> int) [0..<length (run_Steps run)] = map int [0..<length (run_Steps run)]"
      using len by (intro map_cong refl) (simp add: wrap32_id)
    then have "map st_Seq (in_Steps (apply_input nid now' report)) = map int [0..<length (run_Steps run)]"
      using arg_cong [OF honest(1), of "map wrap32"] by (simp add: apply_input_def report_def wire_of_step_def comp_def)
    then have "distinct (map st_Seq (in_Steps (apply_input nid now' report)))" by (simp add: distinct_map)
    with apply_run_converges [of d "apply_input nid now' report" n] assms(1,2,4,5)
    show ?thesis by (simp add: onApplyReport_def apply_input_def report_def)
  qed
  ultimately show ?thesis using sync by auto
qed

section \<open>A concrete reconciliation\<close>

definition loop_codec :: codec where
  "loop_codec = demo_codec\<lparr>canonical_Hash := (\<lambda>doc. map_option (\<lambda>(b, _). (b, demo_sha b)) (canonical_Hash demo_codec doc))\<rparr>"

text \<open>Subject 5 is paid until 500.\<close>

definition loop_db :: panel_db where
  "loop_db = demo_db\<lparr>t_subjects := [(demo_subject 5)\<lparr>s_expires_at := Some 500\<rparr>, demo_subject 4]\<rparr>"

definition loop_commit :: "(panel_err + commit_result) \<times> panel_db" where
  "loop_commit = CommitNodeChange loop_codec (Some Some) 100 1 (SystemActor ''op'') ''r1'' ''init'' Inr loop_db"

definition loop_snap :: "int \<Rightarrow> snapshot" where
  "loop_snap now = (case BuildDesiredSnapshot loop_codec (Some Some) now 1 (snd loop_commit) of Inr s \<Rightarrow> s | Inl e \<Rightarrow> demo_snap)"

definition loop_world :: "fs_host world" where
  "loop_world = \<lparr>w_host = \<lparr>fh_dirs = [], fh_faults = []\<rparr>, w_now = 0, w_deadline = None\<rparr>"

abbreviation loop_agent :: "fs_host agent" where
  "loop_agent \<equiv> NewClient 1 [stub_New demo_sha ''/etc/a''] (\<lambda>_ _. 5) loop_world"

definition loop_once :: "int \<Rightarrow> string option \<times> apply_report option \<times> fs_host agent" where
  "loop_once now = reconcileOnce demo_sha (\<lambda>_. Some (snap_Document (loop_snap now)))
     (GetDesiredSnapshot loop_codec (Some Some) now (Some 1) 1 (snd loop_commit)) True loop_agent"

lemma loop_built:
  "BuildDesiredSnapshot loop_codec (Some Some) 200 1 (snd loop_commit) = Inr (loop_snap 200)"
  by code_simp

lemma loop_inv: "rev_inv (snd loop_commit)"
proof -
  have r: "rev_inv loop_db"
    unfolding rev_inv_def by (simp add: loop_db_def demo_db_def demo_node_def revs_of_def node_revs_def sql_where_def empty_db_def)
  have n: "get_node loop_db 1 = Some demo_node" by code_simp
  have "is_ok (fst loop_commit)" by code_simp
  then obtain x where x: "fst loop_commit = Inr x" unfolding is_ok_def by (cases "fst loop_commit") auto
  have "commit_tx loop_codec (Some Some) 100 1 (SystemActor ''op'') ''r1'' ''init'' Inr loop_db = Inr (x, snd loop_commit)"
    using x by (cases "commit_tx loop_codec (Some Some) 100 1 (SystemActor ''op'') ''r1'' ''init'' Inr loop_db")
      (auto simp: loop_commit_def CommitNodeChange_def store_write_def split: prod.splits)
  from commit_spec(1) [OF r Inr_respects n this] show ?thesis .
qed

theorem reconcile_end_to_end_witness:
  "\<exists>report a'. loop_once 200 = (None, Some report, a')
    \<and> fst (onApplyReport 1 201 report (snd loop_commit))
      = Inr \<lparr>out_Status = StatusOnline, out_AppliedRevision = snap_Revision (loop_snap 200), out_Integrity = False\<rparr>"
proof -
  have 1: "\<not> Option.is_none (get_node (snd loop_commit) 1)" by code_simp
  have 2: "issued_with (snd loop_commit) 1 (snap_Revision (loop_snap 200)) (snap_SHA256 (loop_snap 200))" by code_simp
  have 3: "\<forall>r \<in> set (t_node_apply_steps (snd loop_commit)). step_run_id r \<in> run_id ` set (t_node_apply_runs (snd loop_commit))" by code_simp
  have 4: "snap_SHA256 (loop_snap 200) = demo_sha (snap_Bytes (loop_snap 200))" by code_simp
  have 5: "doc_ok (snap_Document (loop_snap 200))" "dir_ok ''/etc/a'' (w_host loop_world)"
    "stub_calm ''/etc/a'' (snap_Document (loop_snap 200)) (w_host loop_world)" by code_simp+
  have "length (run_Steps (fst (Converge (ag_rec loop_agent) (snap_Document (loop_snap 200)) loop_world))) \<le> 9" by code_simp
  also have "(9::nat) \<le> 2 ^ 31" by simp
  finally have 6: "length (run_Steps (fst (Converge (ag_rec loop_agent) (snap_Document (loop_snap 200)) loop_world))) \<le> 2 ^ 31" .
  from 1 obtain n where n: "get_node (snd loop_commit) 1 = Some n" by (cases "get_node (snd loop_commit) 1") simp_all
  from reconcile_end_to_end [OF loop_inv n loop_built 2 3 4 refl demo_sha_line 5 6, of 201]
  show ?thesis unfolding loop_once_def by blast
qed


end
