(* ===== verification/Hub.thy ===== *)
theory Hub
  imports AgentLoop
begin

text \<open>
  The hub of the control plane, \<open>src/internal/panel/control/hub.go\<close>: which node holds a stream, revision bumps, commands and their
  results, under arbitrary interleavings of streams, requests and agents.

  Channels have an identity (their place in a heap), room for one value and a closed flag; closing a closed channel and sending on
  one are panics, values of \<open>go_panic\<close>. What runs under \<open>mu\<close> is one step; \<open>SendCommand\<close> and \<open>DeliverResult\<close>, which give up their lock
  in between, are several. The waiting of \<open>SendCommand\<close> is a choice: the result if there is one, the deadline or the context.
\<close>

section \<open>Channels\<close>

record 'a chan =
  ch_buf :: "'a option"
  ch_closed :: bool

datatype go_panic = CloseOfClosed | SendOnClosed

definition new_chan :: "'a chan" where
  "new_chan = \<lparr>ch_buf = None, ch_closed = False\<rparr>"

definition close_chan :: "nat \<Rightarrow> 'a chan list \<Rightarrow> go_panic + 'a chan list" where
  "close_chan i cs = (if ch_closed (cs ! i) then Inl CloseOfClosed else Inr (cs[i := (cs ! i)\<lparr>ch_closed := True\<rparr>]))"

text \<open>\<open>select\<close> with a send and a default: whether the value was taken.\<close>

definition try_send :: "nat \<Rightarrow> 'a \<Rightarrow> 'a chan list \<Rightarrow> go_panic + (bool \<times> 'a chan list)" where
  "try_send i v cs = (if ch_closed (cs ! i) then Inl SendOnClosed
     else if ch_buf (cs ! i) = None then Inr (True, cs[i := (cs ! i)\<lparr>ch_buf := Some v\<rparr>])
     else Inr (False, cs))"

text \<open>A receive: a buffered value, also from a closed channel; \<open>None\<close> from a closed and empty one. An open and empty one blocks.\<close>

definition can_recv :: "'a chan \<Rightarrow> bool" where
  "can_recv c \<longleftrightarrow> ch_buf c \<noteq> None \<or> ch_closed c"

definition recv_chan :: "nat \<Rightarrow> 'a chan list \<Rightarrow> 'a option \<times> 'a chan list" where
  "recv_chan i cs = (ch_buf (cs ! i), cs[i := (cs ! i)\<lparr>ch_buf := None\<rparr>])"

section \<open>The hub\<close>

type_synonym command = "string \<times> command_body"
type_synonym command_result = "string \<times> result_body"

record hub =
  hb_bumps :: "int chan list"
  hb_commands :: "command chan list"
  hb_results :: "command_result chan list"
  hb_conns :: "(int, nat) gomap"
  hb_cmds :: "(int, nat) gomap"
  hb_pending :: "(string, nat) gomap"

definition NewHub :: hub where
  "NewHub = \<lparr>hb_bumps = [], hb_commands = [], hb_results = [], hb_conns = [], hb_cmds = [], hb_pending = []\<rparr>"

definition close_existing :: "nat option \<Rightarrow> 'a chan list \<Rightarrow> go_panic + 'a chan list" where
  "close_existing existing cs = (case existing of None \<Rightarrow> Inr cs | Some i \<Rightarrow> close_chan i cs)"

definition Register :: "int \<Rightarrow> hub \<Rightarrow> go_panic + ((nat \<times> nat) \<times> hub)" where
  "Register nodeID h =
     (let bumpCh = length (hb_bumps h); cmdCh = length (hb_commands h) in
      bind_result (close_existing (go_get (hb_conns h) nodeID) (hb_bumps h @ [new_chan])) (\<lambda>bumps.
      bind_result (close_existing (go_get (hb_cmds h) nodeID) (hb_commands h @ [new_chan])) (\<lambda>commands.
        Inr ((bumpCh, cmdCh), h\<lparr>hb_bumps := bumps, hb_commands := commands,
          hb_conns := go_set nodeID bumpCh (hb_conns h), hb_cmds := go_set nodeID cmdCh (hb_cmds h)\<rparr>))))"

text \<open>The body that \<open>once\<close> guards.\<close>

definition release :: "int \<Rightarrow> nat \<Rightarrow> nat \<Rightarrow> hub \<Rightarrow> go_panic + hub" where
  "release nodeID bumpCh cmdCh h =
     bind_result (if go_get (hb_conns h) nodeID = Some bumpCh
         then bind_result (close_chan bumpCh (hb_bumps h)) (\<lambda>bumps. Inr (h\<lparr>hb_conns := go_del nodeID (hb_conns h), hb_bumps := bumps\<rparr>))
         else Inr h) (\<lambda>h1.
       if go_get (hb_cmds h1) nodeID = Some cmdCh
       then bind_result (close_chan cmdCh (hb_commands h1)) (\<lambda>commands. Inr (h1\<lparr>hb_cmds := go_del nodeID (hb_cmds h1), hb_commands := commands\<rparr>))
       else Inr h1)"

definition Notify :: "int \<Rightarrow> int \<Rightarrow> hub \<Rightarrow> go_panic + (bool \<times> hub)" where
  "Notify nodeID revision h = (case go_get (hb_conns h) nodeID of
     None \<Rightarrow> Inr (False, h)
   | Some ch \<Rightarrow> bind_result (try_send ch revision (hb_bumps h)) (\<lambda>(_, bumps). Inr (True, h\<lparr>hb_bumps := bumps\<rparr>)))"

definition Online :: "int \<Rightarrow> hub \<Rightarrow> bool" where
  "Online nodeID h \<longleftrightarrow> go_get (hb_conns h) nodeID \<noteq> None"

definition Count :: "hub \<Rightarrow> nat" where
  "Count h = length (hb_conns h)"

text \<open>\<open>SendCommand\<close>: register the caller, hand the command over, wait, and forget the caller. \<open>DeliverResult\<close>: find the caller, answer it.\<close>

definition send_begin :: "command \<Rightarrow> hub \<Rightarrow> nat \<times> hub" where
  "send_begin cmd h = (length (hb_results h), h\<lparr>hb_results := hb_results h @ [new_chan],
     hb_pending := go_set (fst cmd) (length (hb_results h)) (hb_pending h)\<rparr>)"

definition send_deliver :: "int \<Rightarrow> command \<Rightarrow> hub \<Rightarrow> go_panic + (bool \<times> hub)" where
  "send_deliver nodeID cmd h = (case go_get (hb_cmds h) nodeID of
     None \<Rightarrow> Inr (False, h)
   | Some ch \<Rightarrow> bind_result (try_send ch cmd (hb_commands h)) (\<lambda>(sent, commands). Inr (sent, h\<lparr>hb_commands := commands\<rparr>)))"

definition send_end :: "string \<Rightarrow> hub \<Rightarrow> hub" where
  "send_end commandID h = h\<lparr>hb_pending := go_del commandID (hb_pending h)\<rparr>"

definition deliver_find :: "command_result \<Rightarrow> hub \<Rightarrow> nat option" where
  "deliver_find result h = go_get (hb_pending h) (fst result)"

definition deliver_put :: "command_result \<Rightarrow> nat \<Rightarrow> hub \<Rightarrow> go_panic + hub" where
  "deliver_put result ch h = bind_result (try_send ch result (hb_results h)) (\<lambda>(_, results). Inr (h\<lparr>hb_results := results\<rparr>))"

section \<open>Streams, callers and deliveries\<close>

record stream =
  sm_node :: int
  sm_bumps :: nat
  sm_cmds :: nat
  sm_released :: bool

datatype send_err = ErrCommandNotDelivered | ErrCommandTimeout | ErrContext

datatype phase = Registered | Waiting | Leaving "send_err + command_result" | Returned "send_err + command_result"

record caller =
  ca_node :: int
  ca_cmd :: command
  ca_chan :: nat
  ca_phase :: phase

record plane =
  pl_hub :: hub
  pl_streams :: "stream list"
  pl_callers :: "caller list"
  pl_deliveries :: "(command_result \<times> nat) list"

definition plane_init :: plane where
  "plane_init = \<lparr>pl_hub = NewHub, pl_streams = [], pl_callers = [], pl_deliveries = []\<rparr>"

definition set_phase :: "nat \<Rightarrow> phase \<Rightarrow> plane \<Rightarrow> plane" where
  "set_phase k ph s = s\<lparr>pl_callers := (pl_callers s)[k := (pl_callers s ! k)\<lparr>ca_phase := ph\<rparr>]\<rparr>"

datatype event =
    EvRegister int
  | EvRelease nat
  | EvNotify int int
  | EvRecvBump nat
  | EvRecvCommand nat
  | EvSend int command
  | EvHandOver nat
  | EvAnswer nat
  | EvGiveUp nat send_err
  | EvReturn nat
  | EvResult command_result
  | EvPut nat

text \<open>What one step of the system does: \<open>None\<close> where the event is not possible, a panic, or the next state.\<close>

fun plane_step :: "event \<Rightarrow> plane \<Rightarrow> (go_panic + plane) option" where
  "plane_step (EvRegister n) s = Some (bind_result (Register n (pl_hub s)) (\<lambda>((b, c), h).
     Inr (s\<lparr>pl_hub := h, pl_streams := pl_streams s @ [\<lparr>sm_node = n, sm_bumps = b, sm_cmds = c, sm_released = False\<rparr>]\<rparr>)))"
| "plane_step (EvRelease k) s =
     (if k < length (pl_streams s) then
        (let m = pl_streams s ! k in
         if sm_released m then Some (Inr s)
         else Some (bind_result (release (sm_node m) (sm_bumps m) (sm_cmds m) (pl_hub s)) (\<lambda>h.
           Inr (s\<lparr>pl_hub := h, pl_streams := (pl_streams s)[k := m\<lparr>sm_released := True\<rparr>]\<rparr>))))
      else None)"
| "plane_step (EvNotify n r) s = Some (bind_result (Notify n r (pl_hub s)) (\<lambda>(_, h). Inr (s\<lparr>pl_hub := h\<rparr>)))"
| "plane_step (EvRecvBump k) s =
     (if k < length (pl_streams s) \<and> \<not> sm_released (pl_streams s ! k) \<and> can_recv (hb_bumps (pl_hub s) ! sm_bumps (pl_streams s ! k))
      then Some (Inr (s\<lparr>pl_hub := (pl_hub s)\<lparr>hb_bumps := snd (recv_chan (sm_bumps (pl_streams s ! k)) (hb_bumps (pl_hub s)))\<rparr>\<rparr>)) else None)"
| "plane_step (EvRecvCommand k) s =
     (if k < length (pl_streams s) \<and> \<not> sm_released (pl_streams s ! k) \<and> can_recv (hb_commands (pl_hub s) ! sm_cmds (pl_streams s ! k))
      then Some (Inr (s\<lparr>pl_hub := (pl_hub s)\<lparr>hb_commands := snd (recv_chan (sm_cmds (pl_streams s ! k)) (hb_commands (pl_hub s)))\<rparr>\<rparr>)) else None)"
| "plane_step (EvSend n cmd) s = (let (ch, h) = send_begin cmd (pl_hub s) in
     Some (Inr (s\<lparr>pl_hub := h, pl_callers := pl_callers s @ [\<lparr>ca_node = n, ca_cmd = cmd, ca_chan = ch, ca_phase = Registered\<rparr>]\<rparr>)))"
| "plane_step (EvHandOver k) s =
     (if k < length (pl_callers s) \<and> ca_phase (pl_callers s ! k) = Registered then
        Some (bind_result (send_deliver (ca_node (pl_callers s ! k)) (ca_cmd (pl_callers s ! k)) (pl_hub s)) (\<lambda>(sent, h).
          Inr (set_phase k (if sent then Waiting else Leaving (Inl ErrCommandNotDelivered)) (s\<lparr>pl_hub := h\<rparr>))))
      else None)"
| "plane_step (EvAnswer k) s =
     (if k < length (pl_callers s) \<and> ca_phase (pl_callers s ! k) = Waiting then
        (case recv_chan (ca_chan (pl_callers s ! k)) (hb_results (pl_hub s)) of
           (Some r, results) \<Rightarrow> Some (Inr (set_phase k (Leaving (Inr r)) (s\<lparr>pl_hub := (pl_hub s)\<lparr>hb_results := results\<rparr>\<rparr>)))
         | (None, _) \<Rightarrow> None)
      else None)"
| "plane_step (EvGiveUp k e) s =
     (if k < length (pl_callers s) \<and> ca_phase (pl_callers s ! k) = Waiting \<and> e \<noteq> ErrCommandNotDelivered
      then Some (Inr (set_phase k (Leaving (Inl e)) s)) else None)"
| "plane_step (EvReturn k) s =
     (if k < length (pl_callers s) then
        (case ca_phase (pl_callers s ! k) of
           Leaving r \<Rightarrow> Some (Inr (set_phase k (Returned r) (s\<lparr>pl_hub := send_end (fst (ca_cmd (pl_callers s ! k))) (pl_hub s)\<rparr>)))
         | _ \<Rightarrow> None)
      else None)"
| "plane_step (EvResult r) s = (case deliver_find r (pl_hub s) of
     None \<Rightarrow> Some (Inr s) | Some ch \<Rightarrow> Some (Inr (s\<lparr>pl_deliveries := pl_deliveries s @ [(r, ch)]\<rparr>)))"
| "plane_step (EvPut k) s =
     (if k < length (pl_deliveries s) then
        Some (bind_result (deliver_put (fst (pl_deliveries s ! k)) (snd (pl_deliveries s ! k)) (pl_hub s)) (\<lambda>h.
          Inr (s\<lparr>pl_hub := h, pl_deliveries := take k (pl_deliveries s) @ drop (Suc k) (pl_deliveries s)\<rparr>)))
      else None)"

inductive plane_reach :: "plane \<Rightarrow> bool" where
  start: "plane_reach plane_init"
| step: "plane_reach s \<Longrightarrow> plane_step e s = Some (Inr t) \<Longrightarrow> plane_reach t"

section \<open>The invariant\<close>

text \<open>The channels a map points to are those of a stream of that node and open; every other stream's are closed.\<close>

definition wired :: "('a chan list) \<Rightarrow> (int, nat) gomap \<Rightarrow> (int \<times> nat) list \<Rightarrow> bool" where
  "wired cs m owners \<longleftrightarrow> distinct (map snd owners) \<and> (\<forall>(n, b) \<in> set owners. b < length cs \<and> (ch_closed (cs ! b) \<longleftrightarrow> go_get m n \<noteq> Some b))
     \<and> (\<forall>n b. go_get m n = Some b \<longrightarrow> (n, b) \<in> set owners) \<and> length owners = length cs"

definition caller_ok :: "command_result chan list \<Rightarrow> caller \<Rightarrow> bool" where
  "caller_ok rs c \<longleftrightarrow> ca_chan c < length rs \<and> (\<forall>r. ch_buf (rs ! ca_chan c) = Some r \<longrightarrow> fst r = fst (ca_cmd c))
     \<and> (\<forall>r. ca_phase c = Leaving (Inr r) \<or> ca_phase c = Returned (Inr r) \<longrightarrow> fst r = fst (ca_cmd c))"

definition answering :: "caller list \<Rightarrow> string \<Rightarrow> nat \<Rightarrow> bool" where
  "answering callers i ch \<longleftrightarrow> (\<exists>c \<in> set callers. ca_chan c = ch \<and> fst (ca_cmd c) = i)"

definition streams_inv :: "hub \<Rightarrow> stream list \<Rightarrow> bool" where
  "streams_inv h ms \<longleftrightarrow> wired (hb_bumps h) (hb_conns h) (map (\<lambda>m. (sm_node m, sm_bumps m)) ms)
   \<and> wired (hb_commands h) (hb_cmds h) (map (\<lambda>m. (sm_node m, sm_cmds m)) ms)
   \<and> (\<forall>m \<in> set ms. go_get (hb_conns h) (sm_node m) = Some (sm_bumps m) \<longleftrightarrow> go_get (hb_cmds h) (sm_node m) = Some (sm_cmds m))
   \<and> (\<forall>m \<in> set ms. sm_released m \<longrightarrow> go_get (hb_conns h) (sm_node m) \<noteq> Some (sm_bumps m))"

definition callers_inv :: "hub \<Rightarrow> caller list \<Rightarrow> (command_result \<times> nat) list \<Rightarrow> bool" where
  "callers_inv h cs ds \<longleftrightarrow> distinct (map ca_chan cs) \<and> (\<forall>c \<in> set cs. caller_ok (hb_results h) c)
   \<and> (\<forall>ch < length (hb_results h). \<not> ch_closed (hb_results h ! ch))
   \<and> (\<forall>i ch. go_get (hb_pending h) i = Some ch \<longrightarrow> answering cs i ch)
   \<and> (\<forall>(r, ch) \<in> set ds. answering cs (fst r) ch)"

definition plane_inv :: "plane \<Rightarrow> bool" where
  "plane_inv s \<longleftrightarrow> streams_inv (pl_hub s) (pl_streams s) \<and> callers_inv (pl_hub s) (pl_callers s) (pl_deliveries s)"

section \<open>Channels behind a map\<close>

lemma closed_of_buf [simp]: "ch_closed (cs[i := (cs ! i)\<lparr>ch_buf := v\<rparr>] ! b) = ch_closed (cs ! b)"
  by (cases "i = b"; cases "i < length cs") (simp_all add: list_update_beyond)

lemma buf_of_closed [simp]: "ch_buf (cs[i := (cs ! i)\<lparr>ch_closed := v\<rparr>] ! b) = ch_buf (cs ! b)"
  by (cases "i = b"; cases "i < length cs") (simp_all add: list_update_beyond)

lemma nth_upd: "cs[i := x] ! b = (if i = b \<and> i < length cs then x else cs ! b)"
  by (cases "i = b"; cases "i < length cs") (simp_all add: list_update_beyond)

lemma wired_open: "wired cs m owners \<Longrightarrow> go_get m n = Some b \<Longrightarrow> b < length cs \<and> \<not> ch_closed (cs ! b) \<and> (n, b) \<in> set owners"
  unfolding wired_def by fastforce

lemma wired_owner: "wired cs m owners \<Longrightarrow> (n, b) \<in> set owners \<Longrightarrow> b < length cs \<and> (ch_closed (cs ! b) \<longleftrightarrow> go_get m n \<noteq> Some b)"
  unfolding wired_def by fastforce

lemma wired_unique: "wired cs m owners \<Longrightarrow> (n, b) \<in> set owners \<Longrightarrow> (n', b) \<in> set owners \<Longrightarrow> n' = n"
  unfolding wired_def distinct_map by (metis inj_onD prod.inject snd_conv)

lemma wiredI:
  assumes "distinct (map snd owners)" and "\<And>n b. (n, b) \<in> set owners \<Longrightarrow> b < length cs \<and> (ch_closed (cs ! b) \<longleftrightarrow> go_get m n \<noteq> Some b)"
    and "\<And>n b. go_get m n = Some b \<Longrightarrow> (n, b) \<in> set owners" and "length owners = length cs"
  shows "wired cs m owners"
  using assms unfolding wired_def by auto

text \<open>Storing and taking values.\<close>

lemma wired_buf: "wired cs m owners \<Longrightarrow> wired (cs[i := (cs ! i)\<lparr>ch_buf := v\<rparr>]) m owners"
  by (rule wiredI) (auto simp: wired_def)

lemma wired_send:
  assumes "wired cs m owners" and "go_get m n = Some b"
  shows "\<exists>sent cs'. try_send b v cs = Inr (sent, cs') \<and> wired cs' m owners"
  using wired_open [OF assms] wired_buf [OF assms(1)] assms(1) by (auto simp: try_send_def)

text \<open>A stream that registers closes the one before it; one that leaves closes its own, if it is still its own.\<close>

lemma wired_close:
  assumes w: "wired cs m owners" and g: "go_get m n = Some b"
  shows "\<exists>cs'. close_chan b cs = Inr cs' \<and> wired cs' (go_del n m) owners"
proof -
  note ow = wired_open [OF w g]
  have "wired (cs[b := (cs ! b)\<lparr>ch_closed := True\<rparr>]) (go_del n m) owners"
  proof (rule wiredI)
    fix n' b' assume in_o: "(n', b') \<in> set owners"
    show "b' < length (cs[b := (cs ! b)\<lparr>ch_closed := True\<rparr>])
        \<and> (ch_closed (cs[b := (cs ! b)\<lparr>ch_closed := True\<rparr>] ! b') \<longleftrightarrow> go_get (go_del n m) n' \<noteq> Some b')"
    proof (cases "b' = b")
      case True
      then have "n' = n" using wired_unique [OF w, of n b n'] ow in_o by simp
      then show ?thesis using True ow by simp
    next
      case False
      then have "go_get (go_del n m) n' = Some b' \<longleftrightarrow> go_get m n' = Some b'" using g by simp
      then show ?thesis using False wired_owner [OF w in_o] by simp
    qed
  next
    show "(n', b') \<in> set owners" if "go_get (go_del n m) n' = Some b'" for n' b'
      using that wired_open [OF w, of n' b'] by (simp split: if_splits)
  qed (use w in \<open>simp_all add: wired_def\<close>)
  then show ?thesis using ow by (simp add: close_chan_def)
qed

lemma wired_append:
  assumes w: "wired cs m owners" and g: "go_get m n = None"
  shows "wired (cs @ [new_chan]) (go_set n (length cs) m) (owners @ [(n, length cs)])"
proof (rule wiredI)
  have "b < length cs" if "b \<in> set (map snd owners)" for b using that wired_owner [OF w] by auto
  then show "distinct (map snd (owners @ [(n, length cs)]))" using w by (fastforce simp: wired_def)
  fix n' b' assume "(n', b') \<in> set (owners @ [(n, length cs)])"
  then show "b' < length (cs @ [new_chan]) \<and> (ch_closed ((cs @ [new_chan]) ! b') \<longleftrightarrow> go_get (go_set n (length cs) m) n' \<noteq> Some b')"
    using wired_owner [OF w, of n' b'] g by (auto simp: nth_append new_chan_def)
next
  show "(n', b') \<in> set (owners @ [(n, length cs)])" if "go_get (go_set n (length cs) m) n' = Some b'" for n' b'
    using that wired_open [OF w, of n' b'] by (auto split: if_splits)
qed (use w in \<open>simp add: wired_def\<close>)

lemma close_chan_append: "b < length cs \<Longrightarrow> close_chan b (cs @ xs) = (case close_chan b cs of Inl e \<Rightarrow> Inl e | Inr cs' \<Rightarrow> Inr (cs' @ xs))"
  by (auto simp: close_chan_def nth_append list_update_append)

lemma close_chan_length: "close_chan b cs = Inr cs' \<Longrightarrow> length cs' = length cs"
  by (auto simp: close_chan_def split: if_splits)

lemma wired_cong: "wired cs m owners \<Longrightarrow> (\<And>k. go_get m' k = go_get m k) \<Longrightarrow> wired cs m' owners"
  by (simp add: wired_def)

lemma wired_register:
  assumes w: "wired cs m owners"
  shows "\<exists>cs'. close_existing (go_get m n) (cs @ [new_chan]) = Inr cs' \<and> wired cs' (go_set n (length cs) m) (owners @ [(n, length cs)])"
proof (cases "go_get m n")
  case None
  then show ?thesis using wired_append [OF w] by (simp add: close_existing_def)
next
  case (Some b)
  obtain cs' where c: "close_chan b cs = Inr cs'" "wired cs' (go_del n m) owners" using wired_close [OF w Some] by blast
  have "wired (cs' @ [new_chan]) (go_set n (length cs) (go_del n m)) (owners @ [(n, length cs)])"
    using wired_append [OF c(2), of n] close_chan_length [OF c(1)] by simp
  then have "wired (cs' @ [new_chan]) (go_set n (length cs) m) (owners @ [(n, length cs)])"
    by (rule wired_cong) simp
  then show ?thesis using Some c(1) wired_open [OF w Some] by (simp add: close_existing_def close_chan_append)
qed

lemma close_chan_buf: "close_chan b cs = Inr cs' \<Longrightarrow> i < length cs \<Longrightarrow> ch_buf (cs' ! i) = ch_buf (cs ! i)"
  by (auto simp: close_chan_def split: if_splits)

lemma close_existing_buf:
  "close_existing x (cs @ [new_chan]) = Inr cs' \<Longrightarrow> i < length cs \<Longrightarrow> ch_buf (cs' ! i) = ch_buf (cs ! i)"
  using close_chan_buf [of _ "cs @ [new_chan]" cs' i] by (auto simp: close_existing_def nth_append split: option.splits)

section \<open>Nothing panics\<close>

lemma caller_buf:
  assumes "caller_ok rs c" and "\<And>v. ch_buf x = Some v \<Longrightarrow> i = ca_chan c \<Longrightarrow> fst v = fst (ca_cmd c)"
  shows "caller_ok (rs[i := x]) c"
  using assms unfolding caller_ok_def nth_upd by auto

lemma caller_append: "caller_ok rs c \<Longrightarrow> caller_ok (rs @ xs) c"
  unfolding caller_ok_def by (auto simp: nth_append)

lemma answering_append: "answering cs i ch \<Longrightarrow> answering (cs @ xs) i ch"
  unfolding answering_def by auto

lemma answering_phase: "k < length cs \<Longrightarrow> answering cs i ch \<Longrightarrow> answering (cs[k := (cs ! k)\<lparr>ca_phase := ph\<rparr>]) i ch"
  unfolding answering_def by (metis (no_types, lifting) caller.ext_inject caller.surjective caller.update_convs(4) in_set_conv_nth length_list_update nth_list_update)

lemma wired_fresh: "wired cs m owners \<Longrightarrow> (n, b) \<in> set owners \<Longrightarrow> b \<noteq> length cs"
  using wired_owner by blast

lemma Register_ok:
  assumes "streams_inv h ms"
  obtains b c h' where "Register n h = Inr ((b, c), h')" "streams_inv h' (ms @ [\<lparr>sm_node = n, sm_bumps = b, sm_cmds = c, sm_released = False\<rparr>])"
    "hb_results h' = hb_results h" "hb_pending h' = hb_pending h" "\<And>i. i < length (hb_bumps h) \<Longrightarrow> ch_buf (hb_bumps h' ! i) = ch_buf (hb_bumps h ! i)"
proof -
  have w: "wired (hb_bumps h) (hb_conns h) (map (\<lambda>m. (sm_node m, sm_bumps m)) ms)" "wired (hb_commands h) (hb_cmds h) (map (\<lambda>m. (sm_node m, sm_cmds m)) ms)"
    using assms by (simp_all add: streams_inv_def)
  obtain bs where bs: "close_existing (go_get (hb_conns h) n) (hb_bumps h @ [new_chan]) = Inr bs"
    "wired bs (go_set n (length (hb_bumps h)) (hb_conns h)) (map (\<lambda>m. (sm_node m, sm_bumps m)) ms @ [(n, length (hb_bumps h))])"
    using wired_register [OF w(1)] by blast
  obtain cs where cs: "close_existing (go_get (hb_cmds h) n) (hb_commands h @ [new_chan]) = Inr cs"
    "wired cs (go_set n (length (hb_commands h)) (hb_cmds h)) (map (\<lambda>m. (sm_node m, sm_cmds m)) ms @ [(n, length (hb_commands h))])"
    using wired_register [OF w(2)] by blast
  have fresh: "sm_bumps m \<noteq> length (hb_bumps h) \<and> sm_cmds m \<noteq> length (hb_commands h)" if "m \<in> set ms" for m
    using wired_fresh [OF w(1), of "sm_node m"] wired_fresh [OF w(2), of "sm_node m"] that by auto
  have old: "(if sm_node m = n then Some (length (hb_bumps h)) else go_get (hb_conns h) (sm_node m)) = Some (sm_bumps m)
      \<longleftrightarrow> (if sm_node m = n then Some (length (hb_commands h)) else go_get (hb_cmds h) (sm_node m)) = Some (sm_cmds m)"
    "sm_released m \<Longrightarrow> (if sm_node m = n then Some (length (hb_bumps h)) else go_get (hb_conns h) (sm_node m)) \<noteq> Some (sm_bumps m)"
    "sm_released m \<Longrightarrow> (if sm_node m = n then Some (length (hb_commands h)) else go_get (hb_cmds h) (sm_node m)) \<noteq> Some (sm_cmds m)" if "m \<in> set ms" for m
    using fresh [OF that] that assms unfolding streams_inv_def by auto
  let ?h = "h\<lparr>hb_bumps := bs, hb_commands := cs, hb_conns := go_set n (length (hb_bumps h)) (hb_conns h), hb_cmds := go_set n (length (hb_commands h)) (hb_cmds h)\<rparr>"
  have "streams_inv ?h (ms @ [\<lparr>sm_node = n, sm_bumps = length (hb_bumps h), sm_cmds = length (hb_commands h), sm_released = False\<rparr>])"
    unfolding streams_inv_def using bs(2) cs(2) by (simp add: old split del: if_split)
  then show thesis using close_existing_buf [OF bs(1)]
    by (intro that [of "length (hb_bumps h)" "length (hb_commands h)" ?h]) (simp_all add: Register_def Let_def bs(1) cs(1))
qed

lemma release_ok:
  assumes "streams_inv h ms" and "k < length ms"
  obtains h' where "release (sm_node (ms ! k)) (sm_bumps (ms ! k)) (sm_cmds (ms ! k)) h = Inr h'" "streams_inv h' (ms[k := (ms ! k)\<lparr>sm_released := True\<rparr>])"
    "hb_results h' = hb_results h" "hb_pending h' = hb_pending h" "\<And>i. i < length (hb_bumps h) \<Longrightarrow> ch_buf (hb_bumps h' ! i) = ch_buf (hb_bumps h ! i)"
proof -
  let ?m = "ms ! k" and ?ms = "ms[k := (ms ! k)\<lparr>sm_released := True\<rparr>]"
  have keys: "map (\<lambda>m. (sm_node m, sm_bumps m)) ?ms = map (\<lambda>m. (sm_node m, sm_bumps m)) ms" "map (\<lambda>m. (sm_node m, sm_cmds m)) ?ms = map (\<lambda>m. (sm_node m, sm_cmds m)) ms"
    by (rule nth_equalityI; simp add: nth_upd)+
  have w: "wired (hb_bumps h) (hb_conns h) (map (\<lambda>m. (sm_node m, sm_bumps m)) ms)" "wired (hb_commands h) (hb_cmds h) (map (\<lambda>m. (sm_node m, sm_cmds m)) ms)"
    using assms(1) by (simp_all add: streams_inv_def)
  have in_ms: "?m \<in> set ms" using assms(2) by simp
  have sub: "\<exists>m' \<in> set ms. sm_node m = sm_node m' \<and> sm_bumps m = sm_bumps m' \<and> sm_cmds m = sm_cmds m' \<and> (sm_released m \<longrightarrow> sm_released m' \<or> m' = ?m)" if "m \<in> set ?ms" for m
    using that in_ms set_update_subset_insert [of ms k "?m\<lparr>sm_released := True\<rparr>"] by fastforce
  show thesis
  proof (cases "go_get (hb_conns h) (sm_node ?m) = Some (sm_bumps ?m)")
    case True
    then have cmd: "go_get (hb_cmds h) (sm_node ?m) = Some (sm_cmds ?m)" using assms(1) in_ms by (simp add: streams_inv_def)
    obtain bs where bs: "close_chan (sm_bumps ?m) (hb_bumps h) = Inr bs" "wired bs (go_del (sm_node ?m) (hb_conns h)) (map (\<lambda>m. (sm_node m, sm_bumps m)) ms)"
      using wired_close [OF w(1) True] by blast
    obtain cs where cs: "close_chan (sm_cmds ?m) (hb_commands h) = Inr cs" "wired cs (go_del (sm_node ?m) (hb_cmds h)) (map (\<lambda>m. (sm_node m, sm_cmds m)) ms)"
      using wired_close [OF w(2) cmd] by blast
    let ?h = "h\<lparr>hb_conns := go_del (sm_node ?m) (hb_conns h), hb_bumps := bs, hb_cmds := go_del (sm_node ?m) (hb_cmds h), hb_commands := cs\<rparr>"
    have "streams_inv ?h ?ms"
      unfolding streams_inv_def keys using bs(2) cs(2) sub assms(1) by (auto simp: streams_inv_def) metis+
    then show thesis using that [of ?h] bs(1) cs(1) True cmd close_chan_buf [OF bs(1)] by (simp add: release_def)
  next
    case False
    then have "go_get (hb_cmds h) (sm_node ?m) \<noteq> Some (sm_cmds ?m)" using assms(1) in_ms by (simp add: streams_inv_def)
    moreover have "streams_inv h ?ms" unfolding streams_inv_def keys using sub assms(1) False by (auto simp: streams_inv_def) metis+
    ultimately show thesis using that [of h] False by (simp add: release_def)
  qed
qed

lemma Notify_ok:
  assumes "streams_inv h ms"
  obtains found h' where "Notify n r h = Inr (found, h')" "streams_inv h' ms" "hb_results h' = hb_results h" "hb_pending h' = hb_pending h"
    "found \<longleftrightarrow> Online n h" "\<And>i. i < length (hb_bumps h) \<Longrightarrow> ch_buf (hb_bumps h ! i) \<noteq> None \<Longrightarrow> ch_buf (hb_bumps h' ! i) = ch_buf (hb_bumps h ! i)"
    "\<And>b. go_get (hb_conns h) n = Some b \<Longrightarrow> ch_buf (hb_bumps h' ! b) \<noteq> None" "hb_conns h' = hb_conns h"
proof (cases "go_get (hb_conns h) n")
  case None
  then show thesis using that [of False h] assms by (simp add: Notify_def Online_def)
next
  case (Some b)
  obtain sent bs where s: "try_send b r (hb_bumps h) = Inr (sent, bs)" "wired bs (hb_conns h) (map (\<lambda>m. (sm_node m, sm_bumps m)) ms)"
    using wired_send [of "hb_bumps h" "hb_conns h"] Some assms unfolding streams_inv_def by blast
  have "b < length (hb_bumps h)" using wired_open [of "hb_bumps h" "hb_conns h"] Some assms unfolding streams_inv_def by blast
  then have "ch_buf (bs ! b) \<noteq> None" "\<And>i. ch_buf (hb_bumps h ! i) \<noteq> None \<Longrightarrow> ch_buf (bs ! i) = ch_buf (hb_bumps h ! i)"
    using s(1) by (auto simp: try_send_def nth_upd split: if_splits)
  moreover have "streams_inv (h\<lparr>hb_bumps := bs\<rparr>) ms" using s(2) assms by (auto simp: streams_inv_def)
  ultimately show thesis using Some s(1) by (intro that [of True "h\<lparr>hb_bumps := bs\<rparr>"]) (simp_all add: Notify_def Online_def)
qed

lemma send_deliver_ok:
  assumes "streams_inv h ms"
  obtains sent h' where "send_deliver n cmd h = Inr (sent, h')" "streams_inv h' ms" "hb_results h' = hb_results h" "hb_pending h' = hb_pending h" "hb_bumps h' = hb_bumps h"
proof (cases "go_get (hb_cmds h) n")
  case None
  then show thesis using that [of False h] assms by (simp add: send_deliver_def)
next
  case (Some b)
  obtain sent cs where s: "try_send b cmd (hb_commands h) = Inr (sent, cs)" "wired cs (hb_cmds h) (map (\<lambda>m. (sm_node m, sm_cmds m)) ms)"
    using wired_send [of "hb_commands h" "hb_cmds h"] Some assms unfolding streams_inv_def by blast
  moreover have "streams_inv (h\<lparr>hb_commands := cs\<rparr>) ms" using s(2) assms by (auto simp: streams_inv_def)
  ultimately show thesis using Some by (intro that [of sent "h\<lparr>hb_commands := cs\<rparr>"]) (simp_all add: send_deliver_def)
qed

section \<open>Callers\<close>

lemma callers_same: "callers_inv h cs ds \<Longrightarrow> hb_results h' = hb_results h \<Longrightarrow> hb_pending h' = hb_pending h \<Longrightarrow> callers_inv h' cs ds"
  by (simp add: callers_inv_def)

lemma streams_same:
  "streams_inv h ms \<Longrightarrow> hb_bumps h' = hb_bumps h \<Longrightarrow> hb_commands h' = hb_commands h \<Longrightarrow> hb_conns h' = hb_conns h \<Longrightarrow> hb_cmds h' = hb_cmds h \<Longrightarrow> streams_inv h' ms"
  unfolding streams_inv_def by (elim conjE, intro conjI; simp only:)

lemma callers_begin:
  assumes "callers_inv h cs ds"
  shows "callers_inv (h\<lparr>hb_results := hb_results h @ [new_chan], hb_pending := go_set (fst cmd) (length (hb_results h)) (hb_pending h)\<rparr>)
    (cs @ [\<lparr>ca_node = n, ca_cmd = cmd, ca_chan = length (hb_results h), ca_phase = Registered\<rparr>]) ds"
proof -
  have "ca_chan c \<noteq> length (hb_results h)" if "c \<in> set cs" for c using that assms by (auto simp: callers_inv_def caller_ok_def)
  then have "distinct (map ca_chan (cs @ [\<lparr>ca_node = n, ca_cmd = cmd, ca_chan = length (hb_results h), ca_phase = Registered\<rparr>]))"
    using assms by (force simp: callers_inv_def)
  moreover have "caller_ok (hb_results h @ [new_chan]) \<lparr>ca_node = n, ca_cmd = cmd, ca_chan = length (hb_results h), ca_phase = Registered\<rparr>"
    by (simp add: caller_ok_def new_chan_def)
  moreover have "\<forall>ch < length (hb_results h @ [new_chan]). \<not> ch_closed ((hb_results h @ [new_chan]) ! ch)"
    using assms by (auto simp: callers_inv_def nth_append new_chan_def less_Suc_eq)
  moreover have "answering (cs @ [\<lparr>ca_node = n, ca_cmd = cmd, ca_chan = length (hb_results h), ca_phase = Registered\<rparr>]) (fst cmd) (length (hb_results h))"
    by (simp add: answering_def)
  ultimately show ?thesis using assms caller_append answering_append unfolding callers_inv_def by (auto split: if_splits)
qed

lemma callers_phase:
  assumes "callers_inv h cs ds" and "k < length cs" and "\<And>r. ph = Leaving (Inr r) \<or> ph = Returned (Inr r) \<Longrightarrow> fst r = fst (ca_cmd (cs ! k))"
  shows "callers_inv h (cs[k := (cs ! k)\<lparr>ca_phase := ph\<rparr>]) ds"
proof -
  let ?cs = "cs[k := (cs ! k)\<lparr>ca_phase := ph\<rparr>]"
  have "map ca_chan ?cs = map ca_chan cs" by (rule nth_equalityI) (simp_all add: nth_upd)
  moreover have "caller_ok (hb_results h) (cs ! k)" using assms(1,2) by (simp add: callers_inv_def)
  then have "caller_ok (hb_results h) ((cs ! k)\<lparr>ca_phase := ph\<rparr>)" using assms(3) by (auto simp: caller_ok_def)
  then have "\<forall>c \<in> set ?cs. caller_ok (hb_results h) c"
    using assms(1) set_update_subset_insert [of cs k "(cs ! k)\<lparr>ca_phase := ph\<rparr>"] by (auto simp: callers_inv_def)
  ultimately show ?thesis using assms(1) answering_phase [OF assms(2)] unfolding callers_inv_def by auto
qed

lemma callers_end: "callers_inv h cs ds \<Longrightarrow> callers_inv (send_end i h) cs ds"
  by (auto simp: callers_inv_def send_end_def split: if_splits)

lemma callers_result:
  assumes "callers_inv h cs ds" and "\<And>c v. c \<in> set cs \<Longrightarrow> ca_chan c = i \<Longrightarrow> x = Some v \<Longrightarrow> fst v = fst (ca_cmd c)"
  shows "callers_inv (h\<lparr>hb_results := (hb_results h)[i := (hb_results h ! i)\<lparr>ch_buf := x\<rparr>]\<rparr>) cs ds"
proof -
  have "caller_ok ((hb_results h)[i := (hb_results h ! i)\<lparr>ch_buf := x\<rparr>]) c" if "c \<in> set cs" for c
    using that assms by (intro caller_buf) (auto simp: callers_inv_def)
  then show ?thesis using assms(1) unfolding callers_inv_def by simp
qed

lemma callers_recv:
  "callers_inv h cs ds \<Longrightarrow> callers_inv (h\<lparr>hb_results := snd (recv_chan i (hb_results h))\<rparr>) cs ds"
  unfolding recv_chan_def snd_conv by (rule callers_result) auto

lemma callers_put:
  assumes inv: "callers_inv h cs ds" and a: "answering cs (fst r) ch"
  obtains h' where "deliver_put r ch h = Inr h'" "callers_inv h' cs ds" "hb_bumps h' = hb_bumps h" "hb_commands h' = hb_commands h"
    "hb_conns h' = hb_conns h" "hb_cmds h' = hb_cmds h"
proof -
  obtain c where c: "c \<in> set cs" "ca_chan c = ch" "fst (ca_cmd c) = fst r" using a by (auto simp: answering_def)
  then have "ch < length (hb_results h)" using inv by (auto simp: callers_inv_def caller_ok_def)
  then have cl: "\<not> ch_closed (hb_results h ! ch)" using inv by (simp add: callers_inv_def)
  have "c' = c" if "c' \<in> set cs" "ca_chan c' = ch" for c'
    using that c inv inj_onD [of ca_chan "set cs" c' c] by (simp add: callers_inv_def distinct_map)
  then have "callers_inv (h\<lparr>hb_results := (hb_results h)[ch := (hb_results h ! ch)\<lparr>ch_buf := Some r\<rparr>]\<rparr>) cs ds"
    using c(3) by (intro callers_result [OF inv]) auto
  then show thesis using that inv cl by (cases "ch_buf (hb_results h ! ch) = None") (auto simp: deliver_put_def try_send_def)
qed

lemma callers_find: "callers_inv h cs ds \<Longrightarrow> deliver_find r h = Some ch \<Longrightarrow> callers_inv h cs (ds @ [(r, ch)])"
  by (auto simp: callers_inv_def deliver_find_def)

lemma callers_done: "callers_inv h cs ds \<Longrightarrow> callers_inv h cs (take k ds @ drop (Suc k) ds)"
  by (auto simp: callers_inv_def dest: in_set_takeD in_set_dropD)

section \<open>Every step keeps the invariant and none panics\<close>

lemma streams_recv_bump: "streams_inv h ms \<Longrightarrow> streams_inv (h\<lparr>hb_bumps := snd (recv_chan i (hb_bumps h))\<rparr>) ms"
  by (auto simp: streams_inv_def recv_chan_def wired_buf)

lemma streams_recv_command: "streams_inv h ms \<Longrightarrow> streams_inv (h\<lparr>hb_commands := snd (recv_chan i (hb_commands h))\<rparr>) ms"
  by (auto simp: streams_inv_def recv_chan_def wired_buf)

lemma plane_step_ok:
  assumes inv: "plane_inv s" and step: "plane_step e s = Some r"
  shows "\<exists>t. r = Inr t \<and> plane_inv t"
proof -
  have S: "streams_inv (pl_hub s) (pl_streams s)" and C: "callers_inv (pl_hub s) (pl_callers s) (pl_deliveries s)"
    using inv by (simp_all add: plane_inv_def)
  show ?thesis
  proof (cases e)
    case (EvRegister n)
    obtain b c h' where h: "Register n (pl_hub s) = Inr ((b, c), h')" "streams_inv h' (pl_streams s @ [\<lparr>sm_node = n, sm_bumps = b, sm_cmds = c, sm_released = False\<rparr>])"
      "hb_results h' = hb_results (pl_hub s)" "hb_pending h' = hb_pending (pl_hub s)" by (rule Register_ok [OF S])
    then show ?thesis using EvRegister step callers_same [OF C h(3,4)] by (auto simp: plane_inv_def)
  next
    case (EvRelease k)
    then have k: "k < length (pl_streams s)" using step by (auto split: if_splits)
    let ?m = "pl_streams s ! k"
    obtain h' where h: "release (sm_node ?m) (sm_bumps ?m) (sm_cmds ?m) (pl_hub s) = Inr h'" "streams_inv h' ((pl_streams s)[k := ?m\<lparr>sm_released := True\<rparr>])"
      "hb_results h' = hb_results (pl_hub s)" "hb_pending h' = hb_pending (pl_hub s)" by (rule release_ok [OF S k])
    show ?thesis using EvRelease step k h(1,2) callers_same [OF C h(3,4)] inv by (cases "sm_released ?m") (auto simp: plane_inv_def Let_def)
  next
    case (EvNotify n rv)
    obtain found h' where h: "Notify n rv (pl_hub s) = Inr (found, h')" "streams_inv h' (pl_streams s)"
      "hb_results h' = hb_results (pl_hub s)" "hb_pending h' = hb_pending (pl_hub s)" by (rule Notify_ok [OF S])
    then show ?thesis using EvNotify step callers_same [OF C h(3,4)] by (auto simp: plane_inv_def)
  next
    case (EvRecvBump k)
    let ?h = "(pl_hub s)\<lparr>hb_bumps := snd (recv_chan (sm_bumps (pl_streams s ! k)) (hb_bumps (pl_hub s)))\<rparr>"
    have "streams_inv ?h (pl_streams s)" "callers_inv ?h (pl_callers s) (pl_deliveries s)"
      using streams_recv_bump [OF S] callers_same [OF C, of ?h] by simp_all
    then show ?thesis using EvRecvBump step by (auto simp: plane_inv_def split: if_splits)
  next
    case (EvRecvCommand k)
    let ?h = "(pl_hub s)\<lparr>hb_commands := snd (recv_chan (sm_cmds (pl_streams s ! k)) (hb_commands (pl_hub s)))\<rparr>"
    have "streams_inv ?h (pl_streams s)" "callers_inv ?h (pl_callers s) (pl_deliveries s)"
      using streams_recv_command [OF S] callers_same [OF C, of ?h] by simp_all
    then show ?thesis using EvRecvCommand step by (auto simp: plane_inv_def split: if_splits)
  next
    case (EvSend n cmd)
    let ?h = "snd (send_begin cmd (pl_hub s))"
    have "streams_inv ?h (pl_streams s)" by (rule streams_same [OF S]) (simp_all add: send_begin_def)
    then show ?thesis using EvSend step callers_begin [OF C, of cmd n] by (auto simp: plane_inv_def send_begin_def)
  next
    case (EvHandOver k)
    then have k: "k < length (pl_callers s)" using step by (auto split: if_splits)
    let ?c = "pl_callers s ! k"
    obtain sent h' where h: "send_deliver (ca_node ?c) (ca_cmd ?c) (pl_hub s) = Inr (sent, h')" "streams_inv h' (pl_streams s)"
      "hb_results h' = hb_results (pl_hub s)" "hb_pending h' = hb_pending (pl_hub s)" by (rule send_deliver_ok [OF S])
    have "callers_inv h' ((pl_callers s)[k := ?c\<lparr>ca_phase := if sent then Waiting else Leaving (Inl ErrCommandNotDelivered)\<rparr>]) (pl_deliveries s)"
      by (rule callers_phase [OF callers_same [OF C h(3,4)] k]) (auto split: if_splits)
    then show ?thesis using EvHandOver step h(1,2) by (auto simp: plane_inv_def set_phase_def split: if_splits)
  next
    case (EvAnswer k)
    then obtain v results where k: "k < length (pl_callers s)" and rv: "recv_chan (ca_chan (pl_callers s ! k)) (hb_results (pl_hub s)) = (Some v, results)"
      and r: "r = Inr (set_phase k (Leaving (Inr v)) (s\<lparr>pl_hub := (pl_hub s)\<lparr>hb_results := results\<rparr>\<rparr>))"
      using step by (auto split: if_splits prod.splits option.splits)
    have "caller_ok (hb_results (pl_hub s)) (pl_callers s ! k)" using C k by (simp add: callers_inv_def)
    then have id: "fst v = fst (ca_cmd (pl_callers s ! k))" using rv by (cases v) (auto simp: caller_ok_def recv_chan_def)
    have "callers_inv ((pl_hub s)\<lparr>hb_results := results\<rparr>) (pl_callers s) (pl_deliveries s)"
      using callers_recv [OF C, of "ca_chan (pl_callers s ! k)"] rv by simp
    then have "callers_inv ((pl_hub s)\<lparr>hb_results := results\<rparr>) ((pl_callers s)[k := (pl_callers s ! k)\<lparr>ca_phase := Leaving (Inr v)\<rparr>]) (pl_deliveries s)"
      using k id by (intro callers_phase) auto
    moreover have "streams_inv ((pl_hub s)\<lparr>hb_results := results\<rparr>) (pl_streams s)" by (rule streams_same [OF S]) simp_all
    ultimately show ?thesis using r by (simp add: plane_inv_def set_phase_def)
  next
    case (EvGiveUp k err)
    then have k: "k < length (pl_callers s)" using step by (auto split: if_splits)
    have "callers_inv (pl_hub s) ((pl_callers s)[k := (pl_callers s ! k)\<lparr>ca_phase := Leaving (Inl err)\<rparr>]) (pl_deliveries s)"
      by (rule callers_phase [OF C k]) auto
    then show ?thesis using EvGiveUp step S by (auto simp: plane_inv_def set_phase_def split: if_splits)
  next
    case (EvReturn k)
    then obtain x where k: "k < length (pl_callers s)" and ph: "ca_phase (pl_callers s ! k) = Leaving x"
      and r: "r = Inr (set_phase k (Returned x) (s\<lparr>pl_hub := send_end (fst (ca_cmd (pl_callers s ! k))) (pl_hub s)\<rparr>))"
      using step by (auto split: if_splits phase.splits)
    have "caller_ok (hb_results (pl_hub s)) (pl_callers s ! k)" using C k by (simp add: callers_inv_def)
    then have id: "x = Inr v \<Longrightarrow> fst v = fst (ca_cmd (pl_callers s ! k))" for v using ph by (auto simp: caller_ok_def)
    have "callers_inv (send_end (fst (ca_cmd (pl_callers s ! k))) (pl_hub s)) ((pl_callers s)[k := (pl_callers s ! k)\<lparr>ca_phase := Returned x\<rparr>]) (pl_deliveries s)"
      using id by (intro callers_phase [OF callers_end [OF C] k]) auto
    moreover have "streams_inv (send_end (fst (ca_cmd (pl_callers s ! k))) (pl_hub s)) (pl_streams s)"
      by (rule streams_same [OF S]) (simp_all add: send_end_def)
    ultimately show ?thesis using r by (simp add: plane_inv_def set_phase_def)
  next
    case (EvResult res)
    show ?thesis
    proof (cases "deliver_find res (pl_hub s)")
      case None
      then show ?thesis using EvResult step inv by auto
    next
      case (Some ch)
      from callers_find [OF C this] show ?thesis using EvResult step S Some by (auto simp: plane_inv_def)
    qed
  next
    case (EvPut k)
    then have k: "k < length (pl_deliveries s)" using step by (auto split: if_splits)
    let ?d = "pl_deliveries s ! k"
    have "(fst ?d, snd ?d) \<in> set (pl_deliveries s)" using k by simp
    then have "answering (pl_callers s) (fst (fst ?d)) (snd ?d)" using C unfolding callers_inv_def by fast
    then obtain h' where h: "deliver_put (fst ?d) (snd ?d) (pl_hub s) = Inr h'" "callers_inv h' (pl_callers s) (pl_deliveries s)"
      "hb_bumps h' = hb_bumps (pl_hub s)" "hb_commands h' = hb_commands (pl_hub s)" "hb_conns h' = hb_conns (pl_hub s)" "hb_cmds h' = hb_cmds (pl_hub s)"
      by (rule callers_put [OF C])
    show ?thesis using EvPut step k h(1) callers_done [OF h(2)] streams_same [OF S h(3-6)] by (auto simp: plane_inv_def)
  qed
qed

lemma reach_inv: "plane_reach s \<Longrightarrow> plane_inv s"
proof (induction rule: plane_reach.induct)
  case start
  then show ?case by (simp add: plane_inv_def plane_init_def NewHub_def streams_inv_def callers_inv_def wired_def)
next
  case (step s e t)
  then show ?case using plane_step_ok by fastforce
qed

text \<open>C24: the hub never panics. However streams connect, reconnect and leave while requests notify nodes, send commands and agents
  answer, no channel is closed twice and nothing is sent on a closed one.\<close>
theorem hub_never_panics:
  assumes "plane_reach s" and "plane_step e s = Some r"
  shows "\<exists>t. r = Inr t"
  using plane_step_ok [OF reach_inv [OF assms(1)] assms(2)] by blast

definition live :: "plane \<Rightarrow> nat \<Rightarrow> bool" where
  "live s k \<longleftrightarrow> k < length (pl_streams s) \<and> \<not> ch_closed (hb_bumps (pl_hub s) ! sm_bumps (pl_streams s ! k))"

lemma live_iff:
  assumes "plane_reach s" and "k < length (pl_streams s)"
  shows "live s k \<longleftrightarrow> go_get (hb_conns (pl_hub s)) (sm_node (pl_streams s ! k)) = Some (sm_bumps (pl_streams s ! k))"
proof -
  have w: "wired (hb_bumps (pl_hub s)) (hb_conns (pl_hub s)) (map (\<lambda>m. (sm_node m, sm_bumps m)) (pl_streams s))"
    using reach_inv [OF assms(1)] by (simp add: plane_inv_def streams_inv_def)
  show ?thesis using wired_owner [OF w, of "sm_node (pl_streams s ! k)" "sm_bumps (pl_streams s ! k)"] assms(2) by (auto simp: live_def)
qed

lemma online_live: "plane_reach s \<Longrightarrow> Online n (pl_hub s) \<longleftrightarrow> (\<exists>k. live s k \<and> sm_node (pl_streams s ! k) = n)"
proof
  assume r: "plane_reach s" and "Online n (pl_hub s)"
  then obtain b where b: "go_get (hb_conns (pl_hub s)) n = Some b" by (auto simp: Online_def)
  have w: "wired (hb_bumps (pl_hub s)) (hb_conns (pl_hub s)) (map (\<lambda>m. (sm_node m, sm_bumps m)) (pl_streams s))"
    using reach_inv [OF r] by (simp add: plane_inv_def streams_inv_def)
  obtain k where "k < length (pl_streams s)" "sm_node (pl_streams s ! k) = n" "sm_bumps (pl_streams s ! k) = b"
    using wired_open [OF w b] by (auto simp: in_set_conv_nth)
  then show "\<exists>k. live s k \<and> sm_node (pl_streams s ! k) = n" using live_iff [OF r] b by auto
next
  assume r: "plane_reach s" and "\<exists>k. live s k \<and> sm_node (pl_streams s ! k) = n"
  then show "Online n (pl_hub s)" using live_iff [OF r] by (auto simp: Online_def live_def)
qed

text \<open>C25: one live stream per node. In every reachable state a node counts as online iff one of its streams is live, at most one is, a
  live one has both of its channels open and has not been released, and every other stream of the node finds both closed, so
  a superseded stream learns that it is.\<close>
theorem hub_one_live_stream:
  assumes "plane_reach s"
  shows "(Online n (pl_hub s) \<longleftrightarrow> (\<exists>k. live s k \<and> sm_node (pl_streams s ! k) = n))
    \<and> (\<forall>j k. live s j \<and> live s k \<and> sm_node (pl_streams s ! j) = sm_node (pl_streams s ! k) \<longrightarrow> j = k)
    \<and> (\<forall>k < length (pl_streams s). (live s k \<longleftrightarrow> \<not> ch_closed (hb_commands (pl_hub s) ! sm_cmds (pl_streams s ! k)))
         \<and> (live s k \<longrightarrow> \<not> sm_released (pl_streams s ! k)))"
proof -
  let ?h = "pl_hub s" and ?ms = "pl_streams s"
  have inv: "streams_inv ?h ?ms" using reach_inv [OF assms] by (simp add: plane_inv_def)
  then have w: "wired (hb_commands ?h) (hb_cmds ?h) (map (\<lambda>m. (sm_node m, sm_cmds m)) ?ms)" and d: "distinct (map sm_bumps ?ms)"
    by (simp_all add: streams_inv_def wired_def comp_def)
  have "j = k" if "live s j" "live s k" "sm_node (?ms ! j) = sm_node (?ms ! k)" for j k
    using that live_iff [OF assms] d nth_eq_iff_index_eq [of "map sm_bumps ?ms" j k] by (auto simp: live_def)
  moreover have "live s k \<longleftrightarrow> \<not> ch_closed (hb_commands ?h ! sm_cmds (?ms ! k))" if "k < length ?ms" for k
    using wired_owner [OF w, of "sm_node (?ms ! k)" "sm_cmds (?ms ! k)"] live_iff [OF assms that] inv that by (auto simp: streams_inv_def)
  moreover have "live s k \<longrightarrow> \<not> sm_released (?ms ! k)" if "k < length ?ms" for k
    using live_iff [OF assms that] inv nth_mem [OF that] unfolding streams_inv_def by blast
  ultimately show ?thesis using online_live [OF assms] by blast
qed

definition bumped :: "plane \<Rightarrow> nat \<Rightarrow> bool" where
  "bumped s k \<longleftrightarrow> ch_buf (hb_bumps (pl_hub s) ! sm_bumps (pl_streams s ! k)) \<noteq> None"

fun plane_run :: "event list \<Rightarrow> plane \<Rightarrow> plane option" where
  "plane_run [] s = Some s"
| "plane_run (e # es) s = (case plane_step e s of Some (Inr t) \<Rightarrow> plane_run es t | _ \<Rightarrow> None)"

lemma plane_run_reach: "plane_run es s = Some t \<Longrightarrow> plane_reach s \<Longrightarrow> plane_reach t"
  by (induction es s rule: plane_run.induct) (auto split: option.splits sum.splits intro: plane_reach.step)

lemma stream_bump_range: "plane_inv s \<Longrightarrow> k < length (pl_streams s) \<Longrightarrow> sm_bumps (pl_streams s ! k) < length (hb_bumps (pl_hub s))"
  unfolding plane_inv_def streams_inv_def wired_def by fastforce

lemma distinct_bumps: "plane_inv s \<Longrightarrow> j < length (pl_streams s) \<Longrightarrow> k < length (pl_streams s) \<Longrightarrow> j \<noteq> k
    \<Longrightarrow> sm_bumps (pl_streams s ! j) \<noteq> sm_bumps (pl_streams s ! k)"
  unfolding plane_inv_def streams_inv_def wired_def by (metis (no_types, lifting) comp_apply length_map list.map_comp nth_eq_iff_index_eq nth_map snd_conv)

lemma bumped_step:
  assumes inv: "plane_inv s" and k: "k < length (pl_streams s)" and step: "plane_step e s = Some (Inr t)" and e: "e \<noteq> EvRecvBump k" and b: "bumped s k"
  shows "bumped t k \<and> k < length (pl_streams t)"
proof -
  have S: "streams_inv (pl_hub s) (pl_streams s)" using inv by (simp add: plane_inv_def)
  note range = stream_bump_range [OF inv k]
  have same: "bumped t k" if "hb_bumps (pl_hub t) = hb_bumps (pl_hub s)" "pl_streams t = pl_streams s" using that b by (simp add: bumped_def)
  show ?thesis
  proof (cases e)
    case (EvRegister n)
    show ?thesis by (rule Register_ok [OF S, of n]) (use EvRegister step b k range in \<open>auto simp: bumped_def nth_append\<close>)
  next
    case (EvRelease j)
    then have j: "j < length (pl_streams s)" using step by (auto split: if_splits)
    have node: "sm_bumps ((pl_streams s)[j := (pl_streams s ! j)\<lparr>sm_released := True\<rparr>] ! k) = sm_bumps (pl_streams s ! k)" by (simp add: nth_upd)
    show ?thesis by (rule release_ok [OF S j])
      (use EvRelease step b k range j node in \<open>auto simp: bumped_def Let_def split: if_splits\<close>)
  next
    case (EvNotify n r)
    show ?thesis by (rule Notify_ok [OF S, of n r]) (use EvNotify step b k range in \<open>auto simp: bumped_def\<close>)
  next
    case (EvRecvBump j)
    then have "j < length (pl_streams s)" "j \<noteq> k" using step e by (auto split: if_splits)
    then show ?thesis using EvRecvBump step b k distinct_bumps [OF inv, of j k] by (auto simp: bumped_def recv_chan_def split: if_splits)
  next
    case (EvHandOver j)
    show ?thesis by (rule send_deliver_ok [OF S, of "ca_node (pl_callers s ! j)" "ca_cmd (pl_callers s ! j)"])
      (use EvHandOver step b k in \<open>auto simp: bumped_def set_phase_def split: if_splits\<close>)
  next
    case (EvPut j)
    have "hb_bumps (pl_hub t) = hb_bumps (pl_hub s) \<and> pl_streams t = pl_streams s"
      using EvPut step by (auto simp: deliver_put_def try_send_def bind_result_Inr split: if_splits)
    then show ?thesis using same k by simp
  next
    case (EvSend n cmd)
    then show ?thesis using step same k by (auto simp: send_begin_def)
  qed (use step same k in \<open>auto simp: set_phase_def send_end_def split: if_splits prod.splits option.splits phase.splits\<close>)
qed

lemma bumped_run:
  "plane_run es s = Some t \<Longrightarrow> plane_inv s \<Longrightarrow> k < length (pl_streams s) \<Longrightarrow> bumped s k \<Longrightarrow> EvRecvBump k \<notin> set es \<Longrightarrow> bumped t k"
proof (induction es s rule: plane_run.induct)
  case (2 e es s)
  then obtain s' where s': "plane_step e s = Some (Inr s')" "plane_run es s' = Some t" by (auto split: option.splits sum.splits)
  have "bumped s' k \<and> k < length (pl_streams s')" using bumped_step [OF "2.prems"(2,3) s'(1)] "2.prems"(4,5) by auto
  moreover have "plane_inv s'" using plane_step_ok [OF "2.prems"(2) s'(1)] by simp
  ultimately show ?case using "2.IH" [OF s'(1) refl s'(2)] "2.prems"(5) by simp
qed simp

text \<open>C26: a bump is not lost. After a notification the live stream of the node has one to read, and keeps it, through whatever else happens,
  until that stream reads it: a dropped bump is always one behind an unread bump, and the agent that reads it fetches the latest document.\<close>
theorem hub_bump_not_lost:
  assumes "plane_reach s" and "live s k" and "sm_node (pl_streams s ! k) = n" and "EvRecvBump k \<notin> set es"
    and "plane_run (EvNotify n r # es) s = Some t"
  shows "bumped t k"
proof -
  have inv: "plane_inv s" and S: "streams_inv (pl_hub s) (pl_streams s)" using reach_inv [OF assms(1)] by (simp_all add: plane_inv_def)
  obtain s' where s': "plane_step (EvNotify n r) s = Some (Inr s')" "plane_run es s' = Some t" using assms(5) by (auto split: option.splits sum.splits)
  have k: "k < length (pl_streams s)" using assms(2) by (simp add: live_def)
  have "bumped s' k \<and> pl_streams s' = pl_streams s"
    by (rule Notify_ok [OF S, of n r]) (use s'(1) assms(2,3) live_iff [OF assms(1) k] in \<open>auto simp: bumped_def\<close>)
  then show ?thesis using bumped_run [OF s'(2)] plane_step_ok [OF inv s'(1)] assms(4) k by simp
qed

text \<open>C27: a caller gets the answer to its own command. Whatever results arrive, late, repeated or for nobody, a \<open>SendCommand\<close> that returns a
  result returns one with the identifier of its command, which the agent's handler puts into every answer.\<close>
theorem hub_answers_own_command:
  assumes "plane_reach s" and "c \<in> set (pl_callers s)" and "ca_phase c = Returned (Inr r)"
  shows "fst r = fst (ca_cmd c) \<and> fst (fst (handleCommand ads (ca_cmd c) h)) = fst r"
proof -
  have "caller_ok (hb_results (pl_hub s)) c" using reach_inv [OF assms(1)] assms(2) by (simp add: plane_inv_def callers_inv_def)
  then have "fst r = fst (ca_cmd c)" using assms(3) by (cases r) (auto simp: caller_ok_def)
  moreover have "fst (fst (handleCommand ads cmd h)) = fst cmd" for cmd
    by (auto simp: handleCommand_def Let_def split: command_body.splits prod.splits)
  ultimately show ?thesis by simp
qed

section \<open>Two streams and a command\<close>

definition hub_events :: "event list" where
  "hub_events = [EvRegister 7, EvNotify 7 3, EvRegister 7, EvRelease 0, EvNotify 7 4, EvSend 7 (''c1'', RestartAdapters []), EvHandOver 0, EvNotify 7 5,
     EvRecvCommand 1, EvResult (''c1'', RestartResult []), EvPut 0, EvAnswer 0, EvReturn 0]"

definition hub_demo :: plane where
  "hub_demo = the (plane_run hub_events plane_init)"

lemma hub_demo_run: "plane_run hub_events plane_init = Some hub_demo"
  by code_simp

lemma hub_demo_reach: "plane_reach hub_demo"
  by (rule plane_run_reach [OF hub_demo_run plane_reach.start])

theorem hub_never_panics_witness: "\<exists>t. plane_step (EvRelease 1) hub_demo = Some (Inr t)"
proof -
  have "\<not> Option.is_none (plane_step (EvRelease 1) hub_demo)" by code_simp
  then obtain r where r: "plane_step (EvRelease 1) hub_demo = Some r" by (auto simp: Option.is_none_def)
  with hub_never_panics [OF hub_demo_reach r] show ?thesis by auto
qed

theorem hub_one_live_stream_witness: "Online 7 (pl_hub hub_demo) \<and> \<not> live hub_demo 0 \<and> live hub_demo 1"
proof -
  have "live hub_demo 1" "sm_node (pl_streams hub_demo ! 1) = 7" "sm_node (pl_streams hub_demo ! 0) = 7" by code_simp+
  then show ?thesis using hub_one_live_stream [OF hub_demo_reach, of 7] by (metis zero_neq_one)
qed

theorem hub_bump_not_lost_witness: "bumped (the (plane_run [EvNotify 7 9, EvNotify 8 1] hub_demo)) 1"
proof -
  have "live hub_demo 1" "sm_node (pl_streams hub_demo ! 1) = 7" by code_simp+
  moreover have "plane_run [EvNotify 7 9, EvNotify 8 1] hub_demo = Some (the (plane_run [EvNotify 7 9, EvNotify 8 1] hub_demo))" by code_simp
  ultimately show ?thesis using hub_bump_not_lost [OF hub_demo_reach, of 1 7 "[EvNotify 8 1]" 9] by simp
qed

theorem hub_answers_own_command_witness:
  "ca_phase (pl_callers hub_demo ! 0) = Returned (Inr (''c1'', RestartResult [])) \<and> fst (''c1'', RestartResult []) = fst (ca_cmd (pl_callers hub_demo ! 0))"
proof -
  have c: "pl_callers hub_demo ! 0 \<in> set (pl_callers hub_demo)" "ca_phase (pl_callers hub_demo ! 0) = Returned (Inr (''c1'', RestartResult []))" by code_simp+
  with hub_answers_own_command [OF hub_demo_reach c, of "[] :: nat adapter list" 0] show ?thesis by simp
qed

end
