(* ===== verification/Accounting.thy ===== *)
theory Accounting
  imports Document "HOL-Library.Word"
begin

text \<open>
  Usage accounting, \<open>src/internal/panel/nodes/accounting.go\<close>: the ingest of a node's report, the
  hourly fold behind its watermark, the daily recomputation and the pruning of raw deltas.

  Byte counts arrive as \<open>uint64\<close>: their sum wraps at 64 bits, and the database driver refuses a
  value of \<open>2 ^ 63\<close> or more. An integer expression that leaves the range of \<open>int64\<close> inside SQLite
  becomes a real, which a STRICT integer column refuses, and \<open>SUM\<close> raises an error of its own:
  both are \<open>ErrConstraint\<close>. Foreign keys and the uniqueness constraints of the schema guard the inserts.
\<close>

section \<open>Ingest\<close>

type_synonym uint64 = "64 word"

record UsageDelta =
  u_SubjectID :: int
  u_ServiceID :: int
  u_UplinkBytes :: uint64
  u_DownlinkBytes :: uint64

text \<open>A value the column type holds: the driver's and SQLite's bound on integers.\<close>

definition int64_range :: "int \<Rightarrow> bool" where
  "int64_range x \<longleftrightarrow> - (2 ^ 63) \<le> x \<and> x < 2 ^ 63"

definition resolveService :: "int \<Rightarrow> int \<Rightarrow> panel_db \<Rightarrow> int option" where
  "resolveService nodeID reported d =
     (if reported = 0 then None
      else map_option sv_id (sql_one (\<lambda>v. sv_id v = reported \<and> sv_node_id v = nodeID) (t_services d)))"

text \<open>The \<open>UNIQUE (node_id, sequence, subject_id, service_id)\<close> key, in which NULLs are distinct.\<close>

definition delta_clash :: "delta_row \<Rightarrow> delta_row \<Rightarrow> bool" where
  "delta_clash x y \<longleftrightarrow> ud_node_id x = ud_node_id y \<and> ud_sequence x = ud_sequence y
     \<and> ud_subject_id x = ud_subject_id y \<and> ud_service_id x = ud_service_id y \<and> ud_service_id x \<noteq> None"

definition mk_delta :: "int \<Rightarrow> int \<Rightarrow> UsageDelta \<Rightarrow> int option \<Rightarrow> int \<Rightarrow> int \<Rightarrow> delta_row" where
  "mk_delta nodeID sequence sample serviceID now rowid =
     \<lparr>ud_id = rowid, ud_node_id = nodeID, ud_subject_id = u_SubjectID sample, ud_service_id = serviceID,
      ud_outbound_id = None, ud_sequence = sequence, ud_uplink = uint (u_UplinkBytes sample),
      ud_downlink = uint (u_DownlinkBytes sample), ud_created_at = now\<rparr>"

text \<open>The foreign keys, the range of the bound values and the uniqueness key of one insert.\<close>

definition delta_check :: "panel_db \<Rightarrow> delta_row \<Rightarrow> bool" where
  "delta_check d row \<longleftrightarrow> ud_uplink row < 2 ^ 63 \<and> ud_downlink row < 2 ^ 63
     \<and> ud_node_id row \<in> n_id ` set (t_nodes d) \<and> ud_subject_id row \<in> s_id ` set (t_subjects d)
     \<and> \<not> (\<exists>x \<in> set (t_usage_deltas d). delta_clash x row)"

definition insert_delta :: "int \<Rightarrow> int \<Rightarrow> UsageDelta \<Rightarrow> int option \<Rightarrow> int \<Rightarrow> panel_db \<Rightarrow> panel_err + panel_db" where
  "insert_delta nodeID sequence sample serviceID now d =
     (let row = mk_delta nodeID sequence sample serviceID now (t_delta_seq d + 1)
      in if delta_check d row
         then Inr (d\<lparr>t_usage_deltas := t_usage_deltas d @ [row], t_delta_seq := t_delta_seq d + 1\<rparr>)
         else Inl (ErrConstraint ''usage_deltas''))"

definition sample_bytes :: "UsageDelta \<Rightarrow> uint64" where
  "sample_bytes sample = u_UplinkBytes sample + u_DownlinkBytes sample"

definition add_usage :: "int \<Rightarrow> int \<Rightarrow> panel_db \<Rightarrow> panel_err + panel_db" where
  "add_usage subjectID n d =
     (if n < 2 ^ 63 \<and> list_all (\<lambda>r. s_id r = subjectID \<longrightarrow> int64_range (s_quota_used_bytes r + n) \<and> 0 \<le> s_quota_used_bytes r + n)
             (t_subjects d)
      then Inr (d\<lparr>t_subjects := sql_update (\<lambda>r. s_id r = subjectID)
                  (\<lambda>r. r\<lparr>s_quota_used_bytes := s_quota_used_bytes r + n\<rparr>) (t_subjects d)\<rparr>)
      else Inl (ErrConstraint ''subjects''))"

definition activate_row :: "int \<Rightarrow> subject_row \<Rightarrow> subject_row" where
  "activate_row now r = r\<lparr>s_expires_at := map_option (\<lambda>h. now + h) (s_on_hold_seconds r),
     s_on_hold_seconds := None, s_status_changed_at := Some now\<rparr>"

definition activateIfOnHold :: "int \<Rightarrow> bool \<Rightarrow> int \<Rightarrow> panel_db \<Rightarrow> panel_err + panel_db" where
  "activateIfOnHold subjectID used now d =
     (if \<not> used then Inr d
      else if list_all (\<lambda>r. s_id r = subjectID \<longrightarrow> (case s_on_hold_seconds r of None \<Rightarrow> True | Some h \<Rightarrow> int64_range (now + h)))
             (t_subjects d)
      then Inr (d\<lparr>t_subjects := sql_update (\<lambda>r. s_id r = subjectID \<and> s_on_hold_seconds r \<noteq> None)
                  (activate_row now) (t_subjects d)\<rparr>)
      else Inl (ErrConstraint ''subjects''))"

definition ingest_sample :: "int \<Rightarrow> int \<Rightarrow> int \<Rightarrow> UsageDelta \<Rightarrow> panel_db \<Rightarrow> panel_err + panel_db" where
  "ingest_sample nodeID sequence now sample d =
     bind_result (insert_delta nodeID sequence sample (resolveService nodeID (u_ServiceID sample) d) now d)
       (\<lambda>d1. bind_result (add_usage (u_SubjectID sample) (uint (sample_bytes sample)) d1)
         (\<lambda>d2. activateIfOnHold (u_SubjectID sample) (sample_bytes sample > 0) now d2))"

fun ingest_samples :: "int \<Rightarrow> int \<Rightarrow> int \<Rightarrow> UsageDelta list \<Rightarrow> panel_db \<Rightarrow> panel_err + panel_db" where
  "ingest_samples nodeID sequence now [] d = Inr d"
| "ingest_samples nodeID sequence now (x # xs) d =
     bind_result (ingest_sample nodeID sequence now x d) (ingest_samples nodeID sequence now xs)"

definition already_applied :: "int \<Rightarrow> int \<Rightarrow> panel_db \<Rightarrow> bool" where
  "already_applied nodeID sequence d \<longleftrightarrow>
     (\<exists>r \<in> set (t_usage_deltas d). ud_node_id r = nodeID \<and> ud_sequence r = sequence)"

definition IngestUsageReport ::
  "int \<Rightarrow> int \<Rightarrow> UsageDelta list \<Rightarrow> int \<Rightarrow> panel_db \<Rightarrow> (panel_err + unit) \<times> panel_db" where
  "IngestUsageReport nodeID sequence samples now =
     store_write (\<lambda>d. if already_applied nodeID sequence d then Inr ((), d)
       else bind_result (ingest_samples nodeID sequence now samples d) (\<lambda>d'. Inr ((), d')))"

section \<open>Pruning\<close>

definition PruneUsageDeltas :: "int \<Rightarrow> int \<Rightarrow> panel_db \<Rightarrow> (panel_err + nat) \<times> panel_db" where
  "PruneUsageDeltas retentionSeconds now =
     store_write (\<lambda>d. let cutoff = now - retentionSeconds
       in Inr (sql_count (\<lambda>r. ud_created_at r < cutoff) (t_usage_deltas d),
               d\<lparr>t_usage_deltas := sql_delete (\<lambda>r. ud_created_at r < cutoff) (t_usage_deltas d)\<rparr>))"

section \<open>Rollups\<close>

text \<open>SQLite's integer division truncates towards zero.\<close>

definition sqlite_div :: "int \<Rightarrow> int \<Rightarrow> int" where
  "sqlite_div a b = (if a < 0 then - (- a div b) else a div b)"

definition coalesce0 :: "int option \<Rightarrow> int" where
  "coalesce0 x = (case x of None \<Rightarrow> 0 | Some v \<Rightarrow> v)"

type_synonym bucket = "int \<times> int \<times> int \<times> int"

text \<open>The unique index of both rollup tables: subject, start, node and service, NULL read as zero.\<close>

definition rollup_key :: "rollup_row \<Rightarrow> bucket" where
  "rollup_key r = (ru_subject_id r, ru_start r, coalesce0 (ru_node_id r), coalesce0 (ru_service_id r))"

definition hour_of :: "delta_row \<Rightarrow> rollup_row" where
  "hour_of r = \<lparr>ru_subject_id = ud_subject_id r, ru_node_id = Some (ud_node_id r), ru_service_id = ud_service_id r,
     ru_outbound_id = None, ru_start = sqlite_div (ud_created_at r) 3600 * 3600,
     ru_uplink = ud_uplink r, ru_downlink = ud_downlink r\<rparr>"

definition day_of :: "rollup_row \<Rightarrow> rollup_row" where
  "day_of r = r\<lparr>ru_outbound_id := None, ru_start := sqlite_div (ru_start r) 86400 * 86400\<rparr>"

text \<open>\<open>SELECT ..., SUM(..), SUM(..) GROUP BY subject_id, node_id, service_id, start\<close>; in a GROUP BY NULLs are equal.\<close>

definition group_key :: "rollup_row \<Rightarrow> int \<times> int option \<times> int option \<times> int" where
  "group_key r = (ru_subject_id r, ru_node_id r, ru_service_id r, ru_start r)"

definition group_row :: "int \<times> int option \<times> int option \<times> int \<Rightarrow> rollup_row list \<Rightarrow> rollup_row" where
  "group_row k rs = (case k of (s, n, v, t) \<Rightarrow>
     \<lparr>ru_subject_id = s, ru_node_id = n, ru_service_id = v, ru_outbound_id = None, ru_start = t,
      ru_uplink = sum_list (map ru_uplink rs), ru_downlink = sum_list (map ru_downlink rs)\<rparr>)"

definition sql_group :: "rollup_row list \<Rightarrow> rollup_row list" where
  "sql_group rows = map (\<lambda>k. group_row k (filter (\<lambda>r. group_key r = k) rows)) (remdups (map group_key rows))"

definition rollup_fits :: "rollup_row \<Rightarrow> bool" where
  "rollup_fits r \<longleftrightarrow> 0 \<le> ru_uplink r \<and> ru_uplink r < 2 ^ 63 \<and> 0 \<le> ru_downlink r \<and> ru_downlink r < 2 ^ 63"

text \<open>
  \<open>INSERT ... ON CONFLICT DO UPDATE\<close>, row by row; \<open>mrg\<close> is the SET clause, applied to the row in
  the table and the excluded row.
\<close>

fun upsert :: "string \<Rightarrow> (rollup_row \<Rightarrow> rollup_row \<Rightarrow> rollup_row) \<Rightarrow> rollup_row list \<Rightarrow> rollup_row list
    \<Rightarrow> panel_err + rollup_row list" where
  "upsert name mrg [] t = Inr t"
| "upsert name mrg (g # gs) t =
     (case sql_one (\<lambda>r. rollup_key r = rollup_key g) t of
        None \<Rightarrow> if rollup_fits g then upsert name mrg gs (t @ [g]) else Inl (ErrConstraint name)
      | Some old \<Rightarrow> if rollup_fits g \<and> rollup_fits (mrg old g)
          then upsert name mrg gs (sql_update (\<lambda>r. rollup_key r = rollup_key g) (\<lambda>r. mrg r g) t)
          else Inl (ErrConstraint name))"

definition add_rollup :: "rollup_row \<Rightarrow> rollup_row \<Rightarrow> rollup_row" where
  "add_rollup r g = r\<lparr>ru_uplink := ru_uplink r + ru_uplink g, ru_downlink := ru_downlink r + ru_downlink g\<rparr>"

definition set_rollup :: "rollup_row \<Rightarrow> rollup_row \<Rightarrow> rollup_row" where
  "set_rollup r g = r\<lparr>ru_uplink := ru_uplink g, ru_downlink := ru_downlink g\<rparr>"

definition watermark :: "panel_db \<Rightarrow> int" where
  "watermark d = coalesce0 (t_rollup_state d)"

definition delta_ceiling :: "panel_db \<Rightarrow> int" where
  "delta_ceiling d = (let ids = map ud_id (sql_where (\<lambda>r. watermark d < ud_id r) (t_usage_deltas d))
     in if ids = [] then watermark d else foldr max ids (hd ids))"

definition RollupHourly :: "int \<Rightarrow> panel_db \<Rightarrow> (panel_err + unit) \<times> panel_db" where
  "RollupHourly now =
     store_write (\<lambda>d. let w = watermark d; ceiling = delta_ceiling d
       in if ceiling \<le> w then Inr ((), d)
          else bind_result
            (upsert ''usage_rollups_hourly'' add_rollup
               (sql_group (map hour_of (sql_where (\<lambda>r. w < ud_id r \<and> ud_id r \<le> ceiling) (t_usage_deltas d))))
               (t_rollups_hourly d))
            (\<lambda>t. Inr ((), d\<lparr>t_rollups_hourly := t, t_rollup_state := Some ceiling\<rparr>)))"

definition RollupDaily :: "int \<Rightarrow> panel_db \<Rightarrow> (panel_err + unit) \<times> panel_db" where
  "RollupDaily now =
     store_write (\<lambda>d. bind_result
       (upsert ''usage_rollups_daily'' set_rollup
          (sql_group (map day_of (sql_where (\<lambda>r. ru_start r < now) (t_rollups_hourly d))))
          (t_rollups_daily d))
       (\<lambda>t. Inr ((), d\<lparr>t_rollups_daily := t\<rparr>)))"

section \<open>Grouping and merging keep every byte\<close>

text \<open>
  The bytes a rollup table holds in a set of buckets. The byte column \<open>f\<close> is one that the grouping
  adds up.
\<close>

definition roll_sum :: "(rollup_row \<Rightarrow> int) \<Rightarrow> (bucket \<Rightarrow> bool) \<Rightarrow> rollup_row list \<Rightarrow> int" where
  "roll_sum f Q t = sum_list (map f (filter (\<lambda>r. Q (rollup_key r)) t))"

definition byte_column :: "(rollup_row \<Rightarrow> int) \<Rightarrow> bool" where
  "byte_column f \<longleftrightarrow> f = ru_uplink \<or> f = ru_downlink"

lemma byte_columns [simp]: "byte_column ru_uplink" "byte_column ru_downlink"
  by (simp_all add: byte_column_def)

lemma roll_sum_simps [simp]:
  "roll_sum f Q [] = 0"
  "roll_sum f Q (r # rs) = (if Q (rollup_key r) then f r else 0) + roll_sum f Q rs"
  "roll_sum f Q (xs @ ys) = roll_sum f Q xs + roll_sum f Q ys"
  by (simp_all add: roll_sum_def)

lemma group_row_byte: "byte_column f \<Longrightarrow> f (group_row k rs) = sum_list (map f rs)"
  by (auto simp: byte_column_def group_row_def split: prod.split)

lemma add_rollup_byte: "byte_column f \<Longrightarrow> f (add_rollup r g) = f r + f g"
  by (auto simp: byte_column_def add_rollup_def)

lemma set_rollup_byte: "byte_column f \<Longrightarrow> f (set_rollup r g) = f g"
  by (auto simp: byte_column_def set_rollup_def)

lemma rollup_key_merge [simp]:
  "rollup_key (add_rollup r g) = rollup_key r" "rollup_key (set_rollup r g) = rollup_key r"
  by (simp_all add: rollup_key_def add_rollup_def set_rollup_def)

definition key_of_group :: "int \<times> int option \<times> int option \<times> int \<Rightarrow> bucket" where
  "key_of_group k = (case k of (s, n, v, t) \<Rightarrow> (s, t, coalesce0 n, coalesce0 v))"

lemma rollup_key_group: "rollup_key r = key_of_group (group_key r)"
  by (simp add: rollup_key_def key_of_group_def group_key_def)

lemma rollup_key_group_row [simp]: "rollup_key (group_row k rs) = key_of_group k"
  by (cases k) (simp add: rollup_key_def key_of_group_def group_row_def)

lemma sum_groups:
  fixes g :: "'a \<Rightarrow> int"
  assumes "finite A" and "set (map key rows) \<subseteq> A"
  shows "(\<Sum>k \<in> A. if Q k then sum_list (map g (filter (\<lambda>r. key r = k) rows)) else 0)
    = sum_list (map g (filter (\<lambda>r. Q (key r)) rows))"
  using assms(2)
proof (induction rows)
  case (Cons r rows)
  have "(\<Sum>k \<in> A. if Q k then sum_list (map g (filter (\<lambda>r. key r = k) (r # rows))) else 0)
      = (\<Sum>k \<in> A. (if k = key r then (if Q k then g r else 0) else 0)
          + (if Q k then sum_list (map g (filter (\<lambda>r. key r = k) rows)) else 0))"
    by (rule sum.cong) auto
  also have "\<dots> = (if Q (key r) then g r else 0)
      + (\<Sum>k \<in> A. if Q k then sum_list (map g (filter (\<lambda>r. key r = k) rows)) else 0)"
    using Cons.prems assms(1) by (simp add: sum.distrib)
  finally show ?case using Cons by simp
qed (simp cong: if_cong)

lemma roll_sum_group:
  assumes "byte_column f"
  shows "roll_sum f Q (sql_group rows) = roll_sum f Q rows"
proof -
  let ?g = "\<lambda>k. if Q (key_of_group k) then sum_list (map f (filter (\<lambda>r. group_key r = k) rows)) else 0"
  have "roll_sum f Q (sql_group rows) = sum_list (map ?g (remdups (map group_key rows)))"
  proof -
    have "roll_sum f Q (map (\<lambda>k. group_row k (h k)) ks)
        = sum_list (map (\<lambda>k. if Q (key_of_group k) then sum_list (map f (h k)) else 0) ks)" for h ks
      using assms by (induction ks) (simp_all add: group_row_byte)
    then show ?thesis by (simp add: sql_group_def)
  qed
  also have "\<dots> = sum ?g (set (remdups (map group_key rows)))"
    by (rule sum_list_distinct_conv_sum_set) simp
  also have "\<dots> = sum_list (map f (filter (\<lambda>r. Q (key_of_group (group_key r))) rows))"
    by (rule sum_groups [where Q = "\<lambda>k. Q (key_of_group k)"]) simp_all
  finally show ?thesis by (simp add: roll_sum_def rollup_key_group)
qed

lemma roll_sum_update_miss:
  "\<forall>r \<in> set t. rollup_key r \<noteq> k \<Longrightarrow> sql_update (\<lambda>r. rollup_key r = k) h t = t"
  by (induction t) auto

lemma roll_sum_add_one:
  assumes "byte_column f" "distinct (map rollup_key t)" "rollup_key g \<in> rollup_key ` set t"
  shows "roll_sum f Q (sql_update (\<lambda>r. rollup_key r = rollup_key g) (\<lambda>r. add_rollup r g) t)
    = roll_sum f Q t + (if Q (rollup_key g) then f g else 0)"
  using assms(2, 3)
proof (induction t)
  case (Cons r t)
  show ?case
  proof (cases "rollup_key r = rollup_key g")
    case True
    then have "\<forall>x \<in> set t. rollup_key x \<noteq> rollup_key g" using Cons.prems by (auto simp: image_iff)
    then show ?thesis using True assms(1) by (simp add: roll_sum_update_miss add_rollup_byte)
  next
    case False
    then show ?thesis using Cons by auto
  qed
qed simp

lemma upsert_keys:
  assumes "upsert name mrg gs t = Inr t'" "distinct (map rollup_key t)"
    and "\<And>r g. rollup_key (mrg r g) = rollup_key r"
  shows "distinct (map rollup_key t') \<and> rollup_key ` set t' = rollup_key ` set t \<union> rollup_key ` set gs"
  using assms(1, 2)
proof (induction gs arbitrary: t)
  case (Cons g gs)
  show ?case
  proof (cases "sql_one (\<lambda>r. rollup_key r = rollup_key g) t")
    case None
    then have "rollup_key g \<notin> rollup_key ` set t" by (auto simp: sql_one_None)
    then show ?thesis using None Cons.prems Cons.IH [of "t @ [g]"] by (auto split: if_splits)
  next
    case (Some old)
    let ?t = "sql_update (\<lambda>r. rollup_key r = rollup_key g) (\<lambda>r. mrg r g) t"
    have keys: "map rollup_key ?t = map rollup_key t" using assms(3) by (intro sql_update_keys) simp
    then have set: "rollup_key ` set ?t = rollup_key ` set t" by (metis set_map)
    have "rollup_key g \<in> rollup_key ` set t" using Some by (auto dest!: sql_one_Some) (metis imageI)
    then show ?thesis using Some Cons.prems Cons.IH [of ?t] keys set by (auto split: if_splits)
  qed
qed auto

lemma upsert_add:
  assumes "upsert name add_rollup gs t = Inr t'" "distinct (map rollup_key t)" "byte_column f"
  shows "roll_sum f Q t' = roll_sum f Q t + roll_sum f Q gs"
  using assms(1, 2)
proof (induction gs arbitrary: t)
  case (Cons g gs)
  show ?case
  proof (cases "sql_one (\<lambda>r. rollup_key r = rollup_key g) t")
    case None
    then have "rollup_key g \<notin> rollup_key ` set t" by (auto simp: sql_one_None)
    then show ?thesis using None Cons.prems Cons.IH [of "t @ [g]"] by (auto split: if_splits)
  next
    case (Some old)
    let ?t = "sql_update (\<lambda>r. rollup_key r = rollup_key g) (\<lambda>r. add_rollup r g) t"
    have "map rollup_key ?t = map rollup_key t" by (intro sql_update_keys) simp
    then have "distinct (map rollup_key ?t)" using Cons.prems(2) by simp
    moreover have "rollup_key g \<in> rollup_key ` set t" using Some by (auto dest!: sql_one_Some) (metis imageI)
    then have "roll_sum f Q ?t = roll_sum f Q t + (if Q (rollup_key g) then f g else 0)"
      using Cons.prems(2) assms(3) by (intro roll_sum_add_one)
    ultimately show ?thesis using Some Cons.prems(1) Cons.IH [of ?t] by (auto split: if_splits)
  qed
qed simp

section \<open>The hourly fold\<close>

definition unfolded :: "panel_db \<Rightarrow> delta_row list" where
  "unfolded d = sql_where (\<lambda>r. watermark d < ud_id r) (t_usage_deltas d)"

text \<open>All the traffic the panel has on record in a set of buckets: folded and not yet folded.\<close>

definition recorded :: "(rollup_row \<Rightarrow> int) \<Rightarrow> (bucket \<Rightarrow> bool) \<Rightarrow> panel_db \<Rightarrow> int" where
  "recorded f Q d = roll_sum f Q (t_rollups_hourly d) + roll_sum f Q (map hour_of (unfolded d))"

lemma foldr_max_ge: "x \<in> set xs \<Longrightarrow> x \<le> foldr max xs (m :: int)"
  by (induction xs) auto

lemma foldr_max_base: "m \<le> foldr max xs (m :: int)"
  by (induction xs) auto

lemma delta_ceiling_bounds:
  "watermark d \<le> delta_ceiling d" "r \<in> set (t_usage_deltas d) \<Longrightarrow> watermark d < ud_id r \<Longrightarrow> ud_id r \<le> delta_ceiling d"
proof -
  let ?ids = "map ud_id (sql_where (\<lambda>r. watermark d < ud_id r) (t_usage_deltas d))"
  show "watermark d \<le> delta_ceiling d"
  proof (cases "?ids = []")
    case False
    then have "hd ?ids \<in> set ?ids" by (rule hd_in_set)
    then have "watermark d < hd ?ids" by auto
    then show ?thesis using foldr_max_base [of "hd ?ids" ?ids] False by (simp add: delta_ceiling_def Let_def)
  qed (simp add: delta_ceiling_def)
  assume r: "r \<in> set (t_usage_deltas d)" "watermark d < ud_id r"
  then have mem: "ud_id r \<in> set ?ids" by auto
  then have "?ids \<noteq> []" by (metis empty_iff list.set(1))
  moreover have "ud_id r \<le> foldr max ?ids (hd ?ids)" using mem by (rule foldr_max_ge)
  ultimately show "ud_id r \<le> delta_ceiling d" by (simp add: delta_ceiling_def Let_def)
qed

lemma fold_range: "sql_where (\<lambda>r. watermark d < ud_id r \<and> ud_id r \<le> delta_ceiling d) (t_usage_deltas d) = unfolded d"
  unfolding unfolded_def sql_where_def by (rule filter_cong) (auto intro: delta_ceiling_bounds)

lemma ceiling_unfolded: "delta_ceiling d \<le> watermark d \<Longrightarrow> unfolded d = []"
  unfolding unfolded_def sql_where_def using delta_ceiling_bounds(2) by (fastforce simp: filter_empty_conv)

lemma unfolded_after:
  "watermark d' = delta_ceiling d \<Longrightarrow> t_usage_deltas d' = t_usage_deltas d \<Longrightarrow> unfolded d' = []"
  unfolding unfolded_def sql_where_def
  using delta_ceiling_bounds(1) [of d] delta_ceiling_bounds(2) [of _ d] by (fastforce simp: filter_empty_conv not_less)

lemma RollupHourly_ok:
  assumes "RollupHourly now d = (Inr (), d')"
  obtains "d' = d" "unfolded d = []"
  | t where "upsert ''usage_rollups_hourly'' add_rollup (sql_group (map hour_of (unfolded d))) (t_rollups_hourly d) = Inr t"
      "d' = d\<lparr>t_rollups_hourly := t, t_rollup_state := Some (delta_ceiling d)\<rparr>" "unfolded d' = []"
proof -
  let ?u = "upsert ''usage_rollups_hourly'' add_rollup (sql_group (map hour_of (unfolded d))) (t_rollups_hourly d)"
  have eq: "(if delta_ceiling d \<le> watermark d then Inr ((), d)
      else bind_result ?u (\<lambda>t. Inr ((), d\<lparr>t_rollups_hourly := t, t_rollup_state := Some (delta_ceiling d)\<rparr>)))
      = Inr ((), d')"
    using assms unfolding RollupHourly_def store_write_commit Let_def fold_range .
  show thesis
  proof (cases "delta_ceiling d \<le> watermark d")
    case True
    then show thesis using eq that(1) ceiling_unfolded by simp
  next
    case False
    then obtain t where t: "?u = Inr t" "d' = d\<lparr>t_rollups_hourly := t, t_rollup_state := Some (delta_ceiling d)\<rparr>"
      using eq by (auto simp: bind_result_Inr)
    moreover have "unfolded d' = []"
      by (rule unfolded_after [of _ d]) (simp_all add: t(2) watermark_def coalesce0_def)
    ultimately show thesis by (rule that(2))
  qed
qed

lemma rollup_hourly_fold:
  assumes "distinct (map rollup_key (t_rollups_hourly d))" and "RollupHourly now d = (Inr (), d')"
  shows "recorded ru_uplink Q d' = recorded ru_uplink Q d \<and> recorded ru_downlink Q d' = recorded ru_downlink Q d
    \<and> unfolded d' = [] \<and> distinct (map rollup_key (t_rollups_hourly d'))
    \<and> d'\<lparr>t_rollups_hourly := t_rollups_hourly d, t_rollup_state := t_rollup_state d\<rparr> = d"
proof (rule RollupHourly_ok [OF assms(2)])
  assume "d' = d" "unfolded d = []"
  then show ?thesis using assms(1) by simp
next
  fix t
  assume t: "upsert ''usage_rollups_hourly'' add_rollup (sql_group (map hour_of (unfolded d))) (t_rollups_hourly d) = Inr t"
    and d': "d' = d\<lparr>t_rollups_hourly := t, t_rollup_state := Some (delta_ceiling d)\<rparr>" and u: "unfolded d' = []"
  have "distinct (map rollup_key t)" using upsert_keys [OF t assms(1)] by simp
  moreover have "recorded f Q d' = recorded f Q d" if "byte_column f" for f
  proof -
    have "roll_sum f Q t = roll_sum f Q (t_rollups_hourly d) + roll_sum f Q (map hour_of (unfolded d))"
      using upsert_add [OF t assms(1) that] that by (simp add: roll_sum_group)
    then show ?thesis unfolding recorded_def u by (simp add: d')
  qed
  ultimately show ?thesis using u d' by simp
qed

lemma foldr_max_mem: "foldr max xs (m :: int) \<in> insert m (set xs)"
  by (induction xs) (auto simp: max_def)

lemma delta_ceiling_mem: "delta_ceiling d \<in> insert (watermark d) (ud_id ` set (t_usage_deltas d))"
proof -
  let ?ids = "map ud_id (sql_where (\<lambda>r. watermark d < ud_id r) (t_usage_deltas d))"
  show ?thesis
  proof (cases "?ids = []")
    case False
    then have "foldr max ?ids (hd ?ids) \<in> set ?ids"
      using foldr_max_mem [of ?ids "hd ?ids"] hd_in_set [OF False] by (metis insert_absorb)
    then show ?thesis using False by (auto simp: delta_ceiling_def Let_def)
  qed (simp add: delta_ceiling_def)
qed

lemma RollupHourly_watermark:
  assumes "RollupHourly now d = (Inr (), d')"
  shows "watermark d' \<in> insert (watermark d) (ud_id ` set (t_usage_deltas d))"
  by (rule RollupHourly_ok [OF assms]) (use delta_ceiling_mem [of d] in \<open>simp_all add: watermark_def coalesce0_def\<close>)

text \<open>C20: the hourly fold counts every delta exactly once. After a successful run nothing is left to fold, the
  traffic on record (rollups plus unfolded deltas) is unchanged in every set of buckets and in both directions,
  the deltas themselves, the daily rollups and the subjects are untouched, and a second run changes nothing.\<close>
theorem rollup_hourly_exactly_once:
  assumes "distinct (map rollup_key (t_rollups_hourly d))" and "RollupHourly now d = (Inr (), d')"
  shows "recorded ru_uplink Q d' = recorded ru_uplink Q d \<and> recorded ru_downlink Q d' = recorded ru_downlink Q d
    \<and> unfolded d' = [] \<and> distinct (map rollup_key (t_rollups_hourly d'))
    \<and> d'\<lparr>t_rollups_hourly := t_rollups_hourly d, t_rollup_state := t_rollup_state d\<rparr> = d
    \<and> RollupHourly now' d' = (Inr (), d')"
proof -
  note fold = rollup_hourly_fold [OF assms, of Q]
  then have "delta_ceiling d' = watermark d'" by (simp add: delta_ceiling_def unfolded_def)
  then have "RollupHourly now' d' = (Inr (), d')" by (simp add: RollupHourly_def store_write_def)
  then show ?thesis using fold by blast
qed

section \<open>What one report does\<close>

text \<open>The specification of an ingest: what it does to one row of \<open>subjects\<close>.\<close>

definition bytes_for :: "int \<Rightarrow> UsageDelta list \<Rightarrow> int" where
  "bytes_for s samples = sum_list (map (\<lambda>x. uint (u_UplinkBytes x) + uint (u_DownlinkBytes x))
     (filter (\<lambda>x. u_SubjectID x = s) samples))"

definition charge :: "int \<Rightarrow> UsageDelta list \<Rightarrow> subject_row \<Rightarrow> subject_row" where
  "charge now samples r =
     (let r' = r\<lparr>s_quota_used_bytes := s_quota_used_bytes r + bytes_for (s_id r) samples\<rparr>
      in if bytes_for (s_id r) samples > 0 \<and> s_on_hold_seconds r \<noteq> None then activate_row now r' else r')"

fun delta_rows :: "int \<Rightarrow> int \<Rightarrow> int \<Rightarrow> panel_db \<Rightarrow> int \<Rightarrow> UsageDelta list \<Rightarrow> delta_row list" where
  "delta_rows nodeID sequence now d base [] = []"
| "delta_rows nodeID sequence now d base (x # xs) =
     mk_delta nodeID sequence x (resolveService nodeID (u_ServiceID x) d) now (base + 1)
       # delta_rows nodeID sequence now d (base + 1) xs"

lemma bytes_for_simps [simp]:
  "bytes_for s [] = 0"
  "bytes_for s (x # xs) = (if u_SubjectID x = s then uint (u_UplinkBytes x) + uint (u_DownlinkBytes x) else 0) + bytes_for s xs"
  by (simp_all add: bytes_for_def)

lemma bytes_for_nonneg: "0 \<le> bytes_for s xs"
  by (induction xs) (auto intro: add_nonneg_nonneg)

lemma sample_bytes_exact:
  assumes "uint (u_UplinkBytes x) < 2 ^ 63" "uint (u_DownlinkBytes x) < 2 ^ 63"
  shows "uint (sample_bytes x) = uint (u_UplinkBytes x) + uint (u_DownlinkBytes x)"
proof -
  have "uint (u_UplinkBytes x) + uint (u_DownlinkBytes x) < 2 ^ 64" using assms by simp
  then show ?thesis
    unfolding sample_bytes_def by (subst uint_add_lem [THEN iffD1]) simp_all
qed

lemma length_delta_rows [simp]: "length (delta_rows n q now d b xs) = length xs"
  by (induction xs arbitrary: b) auto


lemma delta_rows_cong: "t_services d' = t_services d \<Longrightarrow> delta_rows n q now d' b xs = delta_rows n q now d b xs"
  by (induction xs arbitrary: b) (simp_all add: resolveService_def)

lemma s_id_activate [simp]: "s_id (activate_row now r) = s_id r"
  by (simp add: activate_row_def)

lemma s_id_charge [simp]: "s_id (charge now xs r) = s_id r"
  by (simp add: charge_def Let_def)

lemma charge_Nil [simp]: "charge now [] = (\<lambda>r. r)"
  by (rule ext) (simp add: charge_def)

lemma charge_Cons: "charge now (x # xs) r = charge now xs (charge now [x] r)"
proof (cases "u_SubjectID x = s_id r")
  case True
  have nn: "0 \<le> bytes_for (s_id r) xs" "0 \<le> uint (u_UplinkBytes x) + uint (u_DownlinkBytes x)"
    by (simp_all add: bytes_for_nonneg)
  show ?thesis
  proof (cases "0 < uint (u_UplinkBytes x) + uint (u_DownlinkBytes x)")
    case pos: True
    then show ?thesis using True nn
      by (cases "s_on_hold_seconds r") (simp_all add: charge_def activate_row_def Let_def)
  next
    case False
    then have z: "uint (u_UplinkBytes x) + uint (u_DownlinkBytes x) = 0" using nn(2) by linarith
    show ?thesis using True z by (simp add: charge_def)
  qed
qed (simp add: charge_def)

text \<open>One sample: a row in \<open>usage_deltas\<close>, the exact bytes on the subject, its clock started if they are positive.\<close>

lemma ingest_sample_spec:
  assumes "ingest_sample n q now x d = Inr d'"
  shows "d' = d\<lparr>t_usage_deltas := t_usage_deltas d @ [mk_delta n q x (resolveService n (u_ServiceID x) d) now (t_delta_seq d + 1)],
      t_delta_seq := t_delta_seq d + 1, t_subjects := map (charge now [x]) (t_subjects d)\<rparr>"
proof -
  obtain d1 d2 where 1: "insert_delta n q x (resolveService n (u_ServiceID x) d) now d = Inr d1"
    and 2: "add_usage (u_SubjectID x) (uint (sample_bytes x)) d1 = Inr d2"
    and 3: "activateIfOnHold (u_SubjectID x) (sample_bytes x > 0) now d2 = Inr d'"
    using assms unfolding ingest_sample_def bind_result_Inr by blast
  let ?row = "mk_delta n q x (resolveService n (u_ServiceID x) d) now (t_delta_seq d + 1)"
  have chk: "delta_check d ?row" and d1: "d1 = d\<lparr>t_usage_deltas := t_usage_deltas d @ [?row], t_delta_seq := t_delta_seq d + 1\<rparr>"
    using 1 by (simp_all add: insert_delta_def Let_def split: if_splits)
  have ex: "uint (sample_bytes x) = uint (u_UplinkBytes x) + uint (u_DownlinkBytes x)"
    using chk by (intro sample_bytes_exact) (simp_all add: delta_check_def mk_delta_def)
  have used: "sample_bytes x > 0 \<longleftrightarrow> 0 < uint (u_UplinkBytes x) + uint (u_DownlinkBytes x)"
    unfolding ex [symmetric] by (simp add: word_less_def)
  let ?add = "\<lambda>r. r\<lparr>s_quota_used_bytes := s_quota_used_bytes r + uint (sample_bytes x)\<rparr>"
  have d2: "d2 = d1\<lparr>t_subjects := sql_update (\<lambda>r. s_id r = u_SubjectID x) ?add (t_subjects d1)\<rparr>"
    using 2 by (simp add: add_usage_def split: if_splits)
  have d': "d' = d2\<lparr>t_subjects := (if sample_bytes x > 0
       then sql_update (\<lambda>r. s_id r = u_SubjectID x \<and> s_on_hold_seconds r \<noteq> None) (activate_row now) (t_subjects d2)
       else t_subjects d2)\<rparr>"
    using 3 by (simp add: activateIfOnHold_def split: if_splits)
  have row: "(let r' = (if s_id r = u_SubjectID x then ?add r else r)
      in if sample_bytes x > 0 then (if s_id r' = u_SubjectID x \<and> s_on_hold_seconds r' \<noteq> None then activate_row now r' else r') else r')
      = charge now [x] r" for r
    unfolding used by (simp add: charge_def ex Let_def)
  have "t_subjects d' = map (charge now [x]) (t_subjects d)"
    unfolding d' d2 d1 row [symmetric] by (simp add: sql_update_def Let_def)
  then show ?thesis unfolding d' d2 d1 by simp
qed

lemma ingest_samples_spec:
  "ingest_samples n q now xs d = Inr d' \<Longrightarrow>
    d' = d\<lparr>t_usage_deltas := t_usage_deltas d @ delta_rows n q now d (t_delta_seq d) xs,
      t_delta_seq := t_delta_seq d + int (length xs), t_subjects := map (charge now xs) (t_subjects d)\<rparr>"
proof (induction xs arbitrary: d)
  case (Cons x xs)
  then obtain d1 where 1: "ingest_sample n q now x d = Inr d1" and 2: "ingest_samples n q now xs d1 = Inr d'"
    by (auto simp: bind_result_Inr)
  note d1 = ingest_sample_spec [OF 1]
  have rows: "delta_rows n q now d1 b xs = delta_rows n q now d b xs" for b
    by (rule delta_rows_cong) (simp add: d1)
  have "map (charge now (x # xs)) rs = map (charge now xs) (map (charge now [x]) rs)" for rs
    by (simp add: charge_Cons [of now x xs])
  then show ?case using Cons.IH [OF 2] unfolding rows by (simp add: d1)
qed simp

section \<open>Ingest is exact and idempotent\<close>

lemma IngestUsageReport_ok:
  assumes "IngestUsageReport n q xs now d = (Inr (), d')" and "\<not> already_applied n q d"
  shows "d' = d\<lparr>t_usage_deltas := t_usage_deltas d @ delta_rows n q now d (t_delta_seq d) xs,
      t_delta_seq := t_delta_seq d + int (length xs), t_subjects := map (charge now xs) (t_subjects d)\<rparr>"
  using assms ingest_samples_spec [of n q now xs d d']
  unfolding IngestUsageReport_def store_write_commit by (auto simp: bind_result_Inr)

lemma Ingest_replay: "already_applied n q d \<Longrightarrow> IngestUsageReport n q xs now d = (Inr (), d)"
  by (simp add: IngestUsageReport_def store_write_def)

lemma already_applied_cong: "t_usage_deltas d' = t_usage_deltas d \<Longrightarrow> already_applied n q d' = already_applied n q d"
  by (simp add: already_applied_def)

text \<open>a report that is accepted adds exactly its bytes. Each subject's running total grows by the sum
  of its samples, with no wrap-around; a subject on hold starts its clock at this moment if and only if one of its
  samples carries bytes; the deltas are the samples in order, under fresh ids, attributed to a service of the
  reporting node or to none; nothing else changes. A report that is refused changes nothing at all.\<close>
theorem ingest_exact:
  assumes "\<not> already_applied n q d"
  shows "(case IngestUsageReport n q xs now d of
      (Inl e, d') \<Rightarrow> d' = d
    | (Inr u, d') \<Rightarrow> d' = d\<lparr>t_usage_deltas := t_usage_deltas d @ delta_rows n q now d (t_delta_seq d) xs,
        t_delta_seq := t_delta_seq d + int (length xs), t_subjects := map (charge now xs) (t_subjects d)\<rparr>)"
proof -
  obtain r d' where eq: "IngestUsageReport n q xs now d = (r, d')" by (cases "IngestUsageReport n q xs now d")
  show ?thesis
  proof (cases r)
    case (Inl e)
    then have "d' = d" using eq unfolding IngestUsageReport_def by (simp add: store_write_Inl)
    then show ?thesis using eq Inl by simp
  next
    case (Inr u)
    then show ?thesis using IngestUsageReport_ok [OF _ assms] eq by simp
  qed
qed

definition demo_samples :: "UsageDelta list" where
  "demo_samples = [\<lparr>u_SubjectID = 5, u_ServiceID = 1, u_UplinkBytes = 100, u_DownlinkBytes = 200\<rparr>,
     \<lparr>u_SubjectID = 4, u_ServiceID = 9, u_UplinkBytes = 7, u_DownlinkBytes = 0\<rparr>]"

definition acct_db :: panel_db where
  "acct_db = demo_db\<lparr>t_subjects := [demo_subject 4, (demo_subject 5)\<lparr>s_on_hold_seconds := Some 86400\<rparr>]\<rparr>"

theorem ingest_exact_witness:
  "\<not> already_applied 1 1 acct_db \<and> (case IngestUsageReport 1 1 demo_samples 7200 acct_db of
      (Inl e, d') \<Rightarrow> False
    | (Inr u, d') \<Rightarrow> t_subjects d' = map (charge 7200 demo_samples) (t_subjects acct_db)
        \<and> map s_expires_at (t_subjects d') = [None, Some 93600]
        \<and> map ud_service_id (t_usage_deltas d') = [Some 1, None])"
proof -
  have n: "\<not> already_applied 1 1 acct_db" by code_simp
  have "is_ok (fst (IngestUsageReport 1 1 demo_samples 7200 acct_db))" by code_simp
  moreover have "map s_expires_at (map (charge 7200 demo_samples) (t_subjects acct_db)) = [None, Some 93600]" by code_simp
  moreover have "map ud_service_id (t_usage_deltas acct_db @ delta_rows 1 1 7200 acct_db (t_delta_seq acct_db) demo_samples) = [Some 1, None]"
    by code_simp
  ultimately show ?thesis using ingest_exact [OF n, of 7200 demo_samples] n
    by (auto split: prod.splits sum.splits)
qed

section \<open>Runs\<close>

datatype acct_op =
    OpIngest int int "UsageDelta list" int
  | OpHourly int
  | OpDaily int
  | OpPrune int int

fun acct_step :: "acct_op \<Rightarrow> panel_db \<Rightarrow> panel_db" where
  "acct_step (OpIngest n q xs now) d = snd (IngestUsageReport n q xs now d)"
| "acct_step (OpHourly now) d = snd (RollupHourly now d)"
| "acct_step (OpDaily now) d = snd (RollupDaily now d)"
| "acct_step (OpPrune ret now) d = snd (PruneUsageDeltas ret now d)"

fun no_prune :: "acct_op \<Rightarrow> bool" where
  "no_prune (OpPrune _ _) = False"
| "no_prune _ = True"

lemma snd_RollupHourly: "t_usage_deltas (snd (RollupHourly now d)) = t_usage_deltas d"
  by (auto simp: RollupHourly_def store_write_def Let_def bind_result_def split: sum.splits)

lemma snd_RollupDaily: "\<exists>t. snd (RollupDaily now d) = d\<lparr>t_rollups_daily := t\<rparr>"
proof (cases "upsert ''usage_rollups_daily'' set_rollup
    (sql_group (map day_of (sql_where (\<lambda>r. ru_start r < now) (t_rollups_hourly d)))) (t_rollups_daily d)")
  case (Inl e)
  then have "snd (RollupDaily now d) = d\<lparr>t_rollups_daily := t_rollups_daily d\<rparr>"
    by (simp add: RollupDaily_def store_write_state)
  then show ?thesis by blast
next
  case (Inr t)
  then have "snd (RollupDaily now d) = d\<lparr>t_rollups_daily := t\<rparr>" by (simp add: RollupDaily_def store_write_state)
  then show ?thesis by blast
qed

lemma snd_Ingest:
  "snd (IngestUsageReport n q xs now d) = d \<or>
   snd (IngestUsageReport n q xs now d) = d\<lparr>t_usage_deltas := t_usage_deltas d @ delta_rows n q now d (t_delta_seq d) xs,
        t_delta_seq := t_delta_seq d + int (length xs), t_subjects := map (charge now xs) (t_subjects d)\<rparr>"
proof (cases "fst (IngestUsageReport n q xs now d)")
  case (Inl e)
  then have "snd (IngestUsageReport n q xs now d) = d" unfolding IngestUsageReport_def by (rule store_write_rollback)
  then show ?thesis by simp
next
  case (Inr u)
  then have eq: "IngestUsageReport n q xs now d = (Inr (), snd (IngestUsageReport n q xs now d))" by (simp add: prod_eq_iff)
  show ?thesis
  proof (cases "already_applied n q d")
    case True
    then show ?thesis by (simp add: Ingest_replay)
  next
    case False
    then show ?thesis using IngestUsageReport_ok [OF eq] by simp
  qed
qed

lemma step_keeps_deltas:
  "no_prune a \<Longrightarrow> set (t_usage_deltas d) \<subseteq> set (t_usage_deltas (acct_step a d))"
proof (cases a)
  case (OpIngest n q xs now)
  then show ?thesis using snd_Ingest [of n q xs now d] by auto
next
  case (OpDaily now)
  then show ?thesis using snd_RollupDaily [of now d] by auto
qed (simp_all add: snd_RollupHourly)

interpretation applied_machine: invariant_machine acct_step no_prune "already_applied n q"
  by unfold_locales (use step_keeps_deltas in \<open>fastforce simp: already_applied_def\<close>)

text \<open>C8: a report is applied at most once. Once a report with at least one sample is accepted, the same
  sequence number from the same node is ignored, whatever it then carries and whatever further reports and
  rollups have run in between, as long as the deltas have not been pruned.\<close>
theorem ingest_at_most_once:
  assumes "IngestUsageReport n q xs now d = (Inr (), d1)" and "xs \<noteq> []" and "list_all no_prune ops"
  shows "IngestUsageReport n q ys now' (fold acct_step ops d1) = (Inr (), fold acct_step ops d1)"
proof -
  have "already_applied n q d1"
  proof (cases "already_applied n q d")
    case True
    then show ?thesis using assms(1) by (simp add: Ingest_replay)
  next
    case False
    obtain x xs' where "xs = x # xs'" using assms(2) by (cases xs) auto
    then show ?thesis using IngestUsageReport_ok [OF assms(1) False] by (auto simp: already_applied_def mk_delta_def)
  qed
  then show ?thesis using applied_machine.run_inv [OF assms(3)] by (intro Ingest_replay)
qed

theorem ingest_at_most_once_witness:
  "IngestUsageReport 1 1 (demo_samples @ demo_samples) 9000
       (fold acct_step [OpHourly 0, OpDaily 9000] (snd (IngestUsageReport 1 1 demo_samples 7200 acct_db)))
     = (Inr (), fold acct_step [OpHourly 0, OpDaily 9000] (snd (IngestUsageReport 1 1 demo_samples 7200 acct_db)))"
proof (rule ingest_at_most_once)
  have "is_ok (fst (IngestUsageReport 1 1 demo_samples 7200 acct_db))" by code_simp
  then show "IngestUsageReport 1 1 demo_samples 7200 acct_db = (Inr (), snd (IngestUsageReport 1 1 demo_samples 7200 acct_db))"
    by (cases "IngestUsageReport 1 1 demo_samples 7200 acct_db") (auto simp: is_ok_def split: sum.splits)
qed (simp_all add: demo_samples_def)

theorem rollup_hourly_exactly_once_witness:
  "let d = snd (IngestUsageReport 1 1 demo_samples 7200 acct_db); d' = snd (RollupHourly 0 d)
   in recorded ru_uplink (\<lambda>k. fst k = 5) d' = 100 \<and> unfolded d' = []"
proof -
  let ?d = "snd (IngestUsageReport 1 1 demo_samples 7200 acct_db)"
  have di: "distinct (map rollup_key (t_rollups_hourly ?d))" by code_simp
  have "is_ok (fst (RollupHourly 0 ?d))" by code_simp
  then have ok: "RollupHourly 0 ?d = (Inr (), snd (RollupHourly 0 ?d))"
    by (cases "RollupHourly 0 ?d") (auto simp: is_ok_def split: sum.splits)
  have "recorded ru_uplink (\<lambda>k. fst k = 5) ?d = 100" by code_simp
  then show ?thesis using rollup_hourly_exactly_once [OF di ok] unfolding Let_def by metis
qed

section \<open>The quota counter and the billing record agree\<close>

definition of_subject :: "int \<Rightarrow> bucket \<Rightarrow> bool" where
  "of_subject s k \<longleftrightarrow> fst k = s"

definition billed_bytes :: "int \<Rightarrow> panel_db \<Rightarrow> int" where
  "billed_bytes s d = recorded ru_uplink (of_subject s) d + recorded ru_downlink (of_subject s) d"

definition acct_inv :: "panel_db \<Rightarrow> bool" where
  "acct_inv d \<longleftrightarrow> distinct (map rollup_key (t_rollups_hourly d)) \<and> watermark d \<le> t_delta_seq d
     \<and> (\<forall>r \<in> set (t_usage_deltas d). ud_id r \<le> t_delta_seq d)
     \<and> (\<forall>r \<in> set (t_subjects d). s_quota_used_bytes r = billed_bytes (s_id r) d)"

lemma delta_rows_ids: "r \<in> set (delta_rows n q now d b xs) \<Longrightarrow> b < ud_id r \<and> ud_id r \<le> b + int (length xs)"
  by (induction xs arbitrary: b) (fastforce simp: mk_delta_def)+

lemma roll_sum_delta_rows:
  "roll_sum ru_uplink (of_subject s) (map hour_of (delta_rows n q now d b xs))
   + roll_sum ru_downlink (of_subject s) (map hour_of (delta_rows n q now d b xs)) = bytes_for s xs"
  by (induction xs arbitrary: b)
    (auto simp: of_subject_def rollup_key_def hour_of_def mk_delta_def algebra_simps)

lemma quota_charge: "s_quota_used_bytes (charge now xs r) = s_quota_used_bytes r + bytes_for (s_id r) xs"
  by (simp add: charge_def Let_def activate_row_def)

lemma acct_inv_ingest:
  assumes "acct_inv d"
    and d': "d' = d\<lparr>t_usage_deltas := t_usage_deltas d @ delta_rows n q now d (t_delta_seq d) xs,
        t_delta_seq := t_delta_seq d + int (length xs), t_subjects := map (charge now xs) (t_subjects d)\<rparr>"
  shows "acct_inv d'"
proof -
  let ?new = "delta_rows n q now d (t_delta_seq d) xs"
  have w: "watermark d' = watermark d" by (simp add: d' watermark_def)
  have wm: "watermark d \<le> t_delta_seq d" using assms(1) by (simp add: acct_inv_def)
  have "unfolded d' = unfolded d @ ?new"
    unfolding unfolded_def w using wm by (auto simp: d' sql_where_def dest!: delta_rows_ids intro!: filter_True)
  then have billed: "billed_bytes s d' = billed_bytes s d + bytes_for s xs" for s
    unfolding billed_bytes_def recorded_def roll_sum_delta_rows [of s n q now d "t_delta_seq d" xs, symmetric]
    by (simp add: d')
  have "ud_id r \<le> t_delta_seq d'" if "r \<in> set (t_usage_deltas d')" for r
  proof -
    have "r \<in> set (t_usage_deltas d) \<or> r \<in> set ?new" using that by (auto simp: d')
    then show ?thesis using assms(1) delta_rows_ids [of r] by (fastforce simp: acct_inv_def d')
  qed
  moreover have "\<forall>r \<in> set (t_subjects d'). s_quota_used_bytes r = billed_bytes (s_id r) d'"
    unfolding billed using assms(1) by (simp add: d' acct_inv_def quota_charge)
  moreover have "distinct (map rollup_key (t_rollups_hourly d'))" "watermark d' \<le> t_delta_seq d'"
    using assms(1) w by (simp_all add: d' acct_inv_def)
  ultimately show ?thesis by (simp add: acct_inv_def)
qed

lemma acct_inv_hourly:
  assumes "acct_inv d"
  shows "acct_inv (snd (RollupHourly now d))"
proof (cases "fst (RollupHourly now d)")
  case (Inl e)
  then have "snd (RollupHourly now d) = d" unfolding RollupHourly_def by (rule store_write_rollback)
  then show ?thesis using assms by simp
next
  case (Inr u)
  define d' where "d' = snd (RollupHourly now d)"
  have ok: "RollupHourly now d = (Inr (), d')" using Inr by (simp add: d'_def prod_eq_iff)
  have di: "distinct (map rollup_key (t_rollups_hourly d))" using assms by (simp add: acct_inv_def)
  note * = rollup_hourly_fold [OF di ok]
  have frame: "d'\<lparr>t_rollups_hourly := t_rollups_hourly d, t_rollup_state := t_rollup_state d\<rparr> = d" using * by blast
  have same: "t_usage_deltas d' = t_usage_deltas d" "t_subjects d' = t_subjects d" "t_delta_seq d' = t_delta_seq d"
    using arg_cong [OF frame, of t_usage_deltas] arg_cong [OF frame, of t_subjects] arg_cong [OF frame, of t_delta_seq]
    by simp_all
  have "billed_bytes s d' = billed_bytes s d" for s using * by (simp add: billed_bytes_def)
  moreover have "watermark d' \<le> t_delta_seq d'"
    using RollupHourly_watermark [OF ok] assms same by (auto simp: acct_inv_def)
  ultimately show ?thesis using assms same * by (simp add: acct_inv_def d'_def [symmetric])
qed

lemma acct_step_inv: "no_prune a \<Longrightarrow> acct_inv d \<Longrightarrow> acct_inv (acct_step a d)"
proof (cases a)
  case (OpIngest n q xs now)
  assume inv: "acct_inv d"
  show ?thesis unfolding OpIngest acct_step.simps
  proof (rule disjE [OF snd_Ingest [of n q xs now d]])
    assume "snd (IngestUsageReport n q xs now d) = d"
    then show "acct_inv (snd (IngestUsageReport n q xs now d))" using inv by simp
  qed (rule acct_inv_ingest [OF inv])
next
  case (OpDaily now)
  assume inv: "acct_inv d"
  obtain t where "snd (RollupDaily now d) = d\<lparr>t_rollups_daily := t\<rparr>" using snd_RollupDaily by blast
  then show ?thesis unfolding OpDaily acct_step.simps using inv
    by (simp add: acct_inv_def billed_bytes_def recorded_def unfolded_def watermark_def)
qed (simp_all add: acct_inv_hourly)

interpretation acct_machine: invariant_machine acct_step no_prune acct_inv
  by unfold_locales (rule acct_step_inv)

text \<open>C4: the two books agree. However reports, hourly folds and daily folds interleave and whichever of them
  fail, every subject's quota counter equals the bytes on record for it: the hourly rollups plus the deltas
  not folded yet. No byte is lost by a fold and none is counted twice.\<close>
theorem quota_matches_record:
  assumes "acct_inv d" and "list_all no_prune ops" and "r \<in> set (t_subjects (fold acct_step ops d))"
  shows "s_quota_used_bytes r = billed_bytes (s_id r) (fold acct_step ops d)"
  using acct_machine.run_inv [OF assms(2,1)] assms(3) by (simp add: acct_inv_def)

definition demo_acct_ops :: "acct_op list" where
  "demo_acct_ops = [OpIngest 1 1 demo_samples 7200, OpHourly 0, OpIngest 1 2 demo_samples 7300, OpIngest 1 2 demo_samples 7300,
     OpHourly 0, OpHourly 0, OpDaily 9000, OpIngest 1 3 demo_samples 9100]"

definition demo_charged :: subject_row where
  "demo_charged = t_subjects (fold acct_step demo_acct_ops acct_db) ! 1"

theorem quota_matches_record_witness:
  "s_quota_used_bytes demo_charged = 900 \<and> billed_bytes 5 (fold acct_step demo_acct_ops acct_db) = 900"
proof -
  have inv: "acct_inv acct_db" by code_simp
  have np: "list_all no_prune demo_acct_ops" by code_simp
  have len: "1 < length (t_subjects (fold acct_step demo_acct_ops acct_db))" by code_simp
  have mem: "demo_charged \<in> set (t_subjects (fold acct_step demo_acct_ops acct_db))"
    unfolding demo_charged_def using len by (intro nth_mem)
  have "s_quota_used_bytes demo_charged = 900" "s_id demo_charged = 5" by (code_simp, code_simp)
  then show ?thesis using quota_matches_record [OF inv np mem] by simp
qed

section \<open>Pruning\<close>

lemma roll_sum_partition:
  "roll_sum f Q (map h xs) = roll_sum f Q (map h (filter P xs)) + roll_sum f Q (map h (filter (\<lambda>x. \<not> P x) xs))"
  by (induction xs) auto

text \<open>pruning does not look at the rollup watermark. What it takes off the record is exactly the traffic of
  the pruned deltas that had not been folded, so it is harmless after a complete fold; but a delta older than the
  retention that no fold has reached yet is lost to billing, and pruning a report lets the same sequence number be
  applied a second time.\<close>
theorem prune_exact:
  "recorded f Q (snd (PruneUsageDeltas ret now d))
     = recorded f Q d - roll_sum f Q (map hour_of (filter (\<lambda>r. ud_created_at r < now - ret) (unfolded d)))
   \<and> (\<exists>d0 xs. let d1 = snd (IngestUsageReport 1 1 xs 0 d0); d2 = snd (PruneUsageDeltas 10 100 (snd (RollupHourly 0 d1)))
        in billed_bytes 5 d1 = 300 \<and> billed_bytes 5 d2 = 300
           \<and> billed_bytes 5 (snd (IngestUsageReport 1 1 xs 100 d2)) = 600)"
proof
  let ?P = "\<lambda>r :: delta_row. ud_created_at r < now - ret"
  let ?d = "snd (PruneUsageDeltas ret now d)"
  have "?d = d\<lparr>t_usage_deltas := filter (\<lambda>r. \<not> ?P r) (t_usage_deltas d)\<rparr>"
    by (simp add: PruneUsageDeltas_def store_write_state Let_def sql_delete_def)
  then have "unfolded ?d = filter (\<lambda>r. \<not> ?P r) (unfolded d)" and "t_rollups_hourly ?d = t_rollups_hourly d"
    by (simp_all add: unfolded_def watermark_def sql_where_def conj_commute)
  then show "recorded f Q ?d = recorded f Q d - roll_sum f Q (map hour_of (filter ?P (unfolded d)))"
    unfolding recorded_def using roll_sum_partition [of f Q hour_of "unfolded d" ?P] by simp
  let ?d1 = "snd (IngestUsageReport 1 1 demo_samples 0 acct_db)"
  let ?d2 = "snd (PruneUsageDeltas 10 100 (snd (RollupHourly 0 ?d1)))"
  have "billed_bytes 5 ?d1 = 300" by code_simp
  moreover have "billed_bytes 5 ?d2 = 300" by code_simp
  moreover have "billed_bytes 5 (snd (IngestUsageReport 1 1 demo_samples 100 ?d2)) = 600" by code_simp
  ultimately show "\<exists>d0 xs. let d1 = snd (IngestUsageReport 1 1 xs 0 d0); d2 = snd (PruneUsageDeltas 10 100 (snd (RollupHourly 0 d1)))
        in billed_bytes 5 d1 = 300 \<and> billed_bytes 5 d2 = 300
           \<and> billed_bytes 5 (snd (IngestUsageReport 1 1 xs 100 d2)) = 600"
    unfolding Let_def by blast
qed

section \<open>The daily recomputation\<close>

lemma roll_sum_none: "k \<notin> rollup_key ` set t \<Longrightarrow> roll_sum f ((=) k) t = 0"
  by (induction t) auto

lemma roll_sum_set_one:
  assumes "byte_column f" "distinct (map rollup_key t)" "rollup_key g \<in> rollup_key ` set t"
  shows "roll_sum f ((=) k) (sql_update (\<lambda>r. rollup_key r = rollup_key g) (\<lambda>r. set_rollup r g) t)
    = (if k = rollup_key g then f g else roll_sum f ((=) k) t)"
  using assms(2, 3)
proof (induction t)
  case (Cons r t)
  show ?case
  proof (cases "rollup_key r = rollup_key g")
    case True
    then have "rollup_key g \<notin> rollup_key ` set t" using Cons.prems by auto
    moreover from this have "\<forall>x \<in> set t. rollup_key x \<noteq> rollup_key g" by (auto simp: image_iff)
    ultimately show ?thesis using True assms(1) by (auto simp: roll_sum_update_miss set_rollup_byte roll_sum_none)
  next
    case False
    then show ?thesis using Cons by auto
  qed
qed simp

lemma upsert_set:
  assumes "upsert name set_rollup gs t = Inr t'" "distinct (map rollup_key t)" "distinct (map rollup_key gs)" "byte_column f"
  shows "roll_sum f ((=) k) t' = (if k \<in> rollup_key ` set gs then roll_sum f ((=) k) gs else roll_sum f ((=) k) t)"
  using assms(1-3)
proof (induction gs arbitrary: t)
  case (Cons g gs)
  have g: "rollup_key g \<notin> rollup_key ` set gs" using Cons.prems(3) by auto
  then have z: "roll_sum f ((=) (rollup_key g)) gs = 0" by (rule roll_sum_none)
  show ?case
  proof (cases "sql_one (\<lambda>r. rollup_key r = rollup_key g) t")
    case None
    then have "rollup_key g \<notin> rollup_key ` set t" by (auto simp: sql_one_None)
    moreover from this have "roll_sum f ((=) (rollup_key g)) t = 0" by (rule roll_sum_none)
    ultimately show ?thesis using None Cons.prems Cons.IH [of "t @ [g]"] g z
      by (cases "k = rollup_key g") (simp_all split: if_splits)
  next
    case (Some old)
    let ?t = "sql_update (\<lambda>r. rollup_key r = rollup_key g) (\<lambda>r. set_rollup r g) t"
    have "map rollup_key ?t = map rollup_key t" by (intro sql_update_keys) simp
    then have "distinct (map rollup_key ?t)" using Cons.prems(2) by simp
    moreover have "rollup_key g \<in> rollup_key ` set t" using Some by (auto dest!: sql_one_Some) (metis imageI)
    then have "roll_sum f ((=) k) ?t = (if k = rollup_key g then f g else roll_sum f ((=) k) t)"
      using Cons.prems(2) assms(4) by (intro roll_sum_set_one)
    ultimately show ?thesis using Some Cons.prems Cons.IH [of ?t] g z
      by (cases "k = rollup_key g") (simp_all split: if_splits)
  qed
qed simp

lemma upsert_keeps:
  assumes "upsert name mrg gs t = Inr t'" "r \<in> set t" "rollup_key r \<notin> rollup_key ` set gs"
  shows "r \<in> set t'"
  using assms
proof (induction gs arbitrary: t)
  case (Cons g gs)
  have "r \<in> set (sql_update (\<lambda>r. rollup_key r = rollup_key g) (\<lambda>r. mrg r g) t)"
    using sql_update_mem [OF Cons.prems(2), of "\<lambda>r. rollup_key r = rollup_key g" "\<lambda>r. mrg r g"] Cons.prems(3) by simp
  then show ?case using Cons by (auto split: option.splits if_splits)
qed simp

lemma rollup_fits_set [simp]: "rollup_fits (set_rollup r g) = rollup_fits g"
  by (simp add: rollup_fits_def set_rollup_def)

lemma set_rollup_idem [simp]: "set_rollup (set_rollup r g) g = set_rollup r g" "set_rollup g g = g"
  by (simp_all add: set_rollup_def)

definition up_to_date :: "rollup_row list \<Rightarrow> rollup_row \<Rightarrow> bool" where
  "up_to_date t g \<longleftrightarrow> rollup_fits g \<and> (\<exists>r \<in> set t. rollup_key r = rollup_key g \<and> set_rollup r g = r)"

lemma upsert_set_up_to_date:
  assumes "upsert name set_rollup gs t = Inr t'" "distinct (map rollup_key gs)"
  shows "list_all (up_to_date t') gs"
  using assms
proof (induction gs arbitrary: t)
  case (Cons g gs)
  have g: "rollup_key g \<notin> rollup_key ` set gs" using Cons.prems(2) by auto
  show ?case
  proof (cases "sql_one (\<lambda>r. rollup_key r = rollup_key g) t")
    case None
    then have fits: "rollup_fits g" and up: "upsert name set_rollup gs (t @ [g]) = Inr t'"
      using Cons.prems(1) by (auto split: if_splits)
    have "g \<in> set t'" by (rule upsert_keeps [OF up _ g]) simp
    then have "up_to_date t' g" unfolding up_to_date_def using fits by (auto intro: bexI [of _ g])
    then show ?thesis using Cons.IH [OF up] Cons.prems(2) by simp
  next
    case (Some old)
    let ?t = "sql_update (\<lambda>r. rollup_key r = rollup_key g) (\<lambda>r. set_rollup r g) t"
    have fits: "rollup_fits g" and up: "upsert name set_rollup gs ?t = Inr t'"
      using Cons.prems(1) Some by (auto split: if_splits)
    have old: "old \<in> set t" "rollup_key old = rollup_key g" using Some by (auto dest: sql_one_Some)
    then have "set_rollup old g \<in> set ?t"
      using sql_update_mem [OF old(1), of "\<lambda>r. rollup_key r = rollup_key g" "\<lambda>r. set_rollup r g"] by simp
    then have "set_rollup old g \<in> set t'" using old(2) g by (intro upsert_keeps [OF up]) simp_all
    then have "up_to_date t' g" unfolding up_to_date_def using fits old(2) by (auto intro: bexI [of _ "set_rollup old g"])
    then show ?thesis using Cons.IH [OF up] Cons.prems(2) by simp
  qed
qed simp

lemma upsert_fixpoint:
  assumes "distinct (map rollup_key t)" "list_all (up_to_date t) gs"
  shows "upsert name set_rollup gs t = Inr t"
  using assms(2)
proof (induction gs)
  case (Cons g gs)
  obtain r where fits: "rollup_fits g" and r: "r \<in> set t" "rollup_key r = rollup_key g" "set_rollup r g = r"
    using Cons.prems by (auto simp: up_to_date_def)
  have one: "sql_one (\<lambda>r. rollup_key r = rollup_key g) t = Some r"
    using sql_one_key [OF assms(1)] r by simp
  have "x = r" if "x \<in> set t" "rollup_key x = rollup_key g" for x
    using that r assms(1) inj_onD [of rollup_key "set t" x r] by (simp add: distinct_map)
  then have "sql_update (\<lambda>r. rollup_key r = rollup_key g) (\<lambda>r. set_rollup r g) t = t"
    unfolding sql_update_def using r(3) by (intro map_idI) auto
  then show ?case using Cons one fits by simp
qed simp

definition ids_positive :: "rollup_row \<Rightarrow> bool" where
  "ids_positive r \<longleftrightarrow> ru_node_id r \<noteq> Some 0 \<and> ru_service_id r \<noteq> Some 0"

lemma coalesce0_inj: "x \<noteq> Some 0 \<Longrightarrow> y \<noteq> Some 0 \<Longrightarrow> coalesce0 x = coalesce0 y \<longleftrightarrow> x = y"
  by (auto simp: coalesce0_def split: option.splits)

lemma distinct_group_keys:
  assumes "list_all ids_positive rows"
  shows "distinct (map rollup_key (sql_group rows))"
proof -
  have "inj_on key_of_group (set (remdups (map group_key rows)))"
    using assms by (auto simp: inj_on_def key_of_group_def group_key_def ids_positive_def list_all_iff coalesce0_inj)
  then show ?thesis by (simp add: sql_group_def distinct_map o_def)
qed

lemma rollup_key_sql_group: "rollup_key ` set (sql_group rows) = rollup_key ` set rows"
proof -
  have "rollup_key ` set (sql_group rows) = key_of_group ` group_key ` set rows"
    by (simp add: sql_group_def image_image)
  then show ?thesis by (simp add: image_image rollup_key_group)
qed

text \<open>the daily fold recomputes. After a successful run every day that has an hourly row before the cutoff holds
  exactly the sum of those rows, per subject, node and service and in both directions; every other day is left
  as it was; and running it again changes nothing, so that no day is inflated however often it runs.\<close>
theorem rollup_daily_recomputes:
  assumes "distinct (map rollup_key (t_rollups_daily d))" and "list_all ids_positive (t_rollups_hourly d)"
    and "RollupDaily now d = (Inr (), d')" and "f = ru_uplink \<or> f = ru_downlink"
  shows "roll_sum f ((=) k) (t_rollups_daily d') =
      (let hours = map day_of (filter (\<lambda>r. ru_start r < now) (t_rollups_hourly d))
       in if k \<in> rollup_key ` set hours then roll_sum f ((=) k) hours else roll_sum f ((=) k) (t_rollups_daily d))
    \<and> d'\<lparr>t_rollups_daily := t_rollups_daily d\<rparr> = d \<and> RollupDaily now d' = (Inr (), d')"
proof -
  let ?hours = "map day_of (filter (\<lambda>r. ru_start r < now) (t_rollups_hourly d))"
  have f: "byte_column f" using assms(4) by (auto simp: byte_column_def)
  obtain t where t: "upsert ''usage_rollups_daily'' set_rollup (sql_group ?hours) (t_rollups_daily d) = Inr t"
    and d': "d' = d\<lparr>t_rollups_daily := t\<rparr>"
    using assms(3) unfolding RollupDaily_def store_write_commit bind_result_Inr sql_where_def by blast
  have "list_all ids_positive ?hours" using assms(2) by (auto simp: list_all_iff ids_positive_def day_of_def)
  then have dg: "distinct (map rollup_key (sql_group ?hours))" by (rule distinct_group_keys)
  have "roll_sum f ((=) k) t = (if k \<in> rollup_key ` set ?hours then roll_sum f ((=) k) ?hours else roll_sum f ((=) k) (t_rollups_daily d))"
    using upsert_set [OF t assms(1) dg f] by (simp only: rollup_key_sql_group roll_sum_group [OF f])
  moreover have "upsert ''usage_rollups_daily'' set_rollup (sql_group ?hours) t = Inr t"
    using upsert_keys [OF t assms(1)] upsert_set_up_to_date [OF t dg] by (intro upsert_fixpoint) simp_all
  then have "RollupDaily now d' = (Inr (), d')"
    by (simp add: RollupDaily_def store_write_def sql_where_def d')
  ultimately show ?thesis by (simp add: d' Let_def)
qed

theorem rollup_daily_recomputes_witness:
  "let d = fold acct_step demo_acct_ops acct_db; d' = snd (RollupDaily 90000 d)
   in roll_sum ru_downlink ((=) (5, 0, 1, 1)) (t_rollups_daily d') = 400 \<and> RollupDaily 90000 d' = (Inr (), d')"
proof -
  let ?d = "fold acct_step demo_acct_ops acct_db"
  have 1: "distinct (map rollup_key (t_rollups_daily ?d))" by code_simp
  have 2: "list_all ids_positive (t_rollups_hourly ?d)" by code_simp
  have "is_ok (fst (RollupDaily 90000 ?d))" by code_simp
  then have 3: "RollupDaily 90000 ?d = (Inr (), snd (RollupDaily 90000 ?d))"
    by (cases "RollupDaily 90000 ?d") (auto simp: is_ok_def split: sum.splits)
  have "(let hours = map day_of (filter (\<lambda>r. ru_start r < 90000) (t_rollups_hourly ?d))
       in if (5, 0, 1, 1) \<in> rollup_key ` set hours then roll_sum ru_downlink ((=) (5, 0, 1, 1)) hours
          else roll_sum ru_downlink ((=) (5, 0, 1, 1)) (t_rollups_daily ?d)) = 400" by code_simp
  then show ?thesis
    using rollup_daily_recomputes [OF 1 2 3 disjI2 [OF refl], of "(5, 0, 1, 1)"] unfolding Let_def by metis
qed

end
