(* ===== verification/AgentAccounting.thy ===== *)
theory AgentAccounting
  imports Accounting
begin

text \<open>
  The node's accounting loop, \<open>src/internal/node/agent/accounting.go\<close>, composed with the panel's handler
  \<open>onUsageReport\<close> (\<open>src/internal/panel/control/control_service.go\<close>) and the ingest behind it.

  What the environment decides in one poll is a record: what each reporting adapter answers, whether each write
  of the state file succeeds (a failed write leaves whatever it leaves), whether \<open>stream.Send\<close> returns an error
  and, independently of that, whether the message reaches the panel. The state file is modelled by
  what reading it back yields; JSON encoding and decoding are Go's.
\<close>

section \<open>Samples\<close>

record adapter_sample =
  as_SubjectID :: int
  as_ServiceID :: int
  as_UplinkBytes :: uint64
  as_DownlinkBytes :: uint64

record proto_sample =
  ps_SubjectId :: int
  ps_ServiceId :: int
  ps_UplinkBytes :: uint64
  ps_DownlinkBytes :: uint64

definition protoSamplesFrom :: "adapter_sample list \<Rightarrow> proto_sample list" where
  "protoSamplesFrom samples = map (\<lambda>s. \<lparr>ps_SubjectId = as_SubjectID s, ps_ServiceId = as_ServiceID s,
     ps_UplinkBytes = as_UplinkBytes s, ps_DownlinkBytes = as_DownlinkBytes s\<rparr>) samples"

record usage_report =
  rp_NodeId :: int
  rp_Sequence :: int
  rp_Samples :: "proto_sample list"

definition report_deltas :: "usage_report \<Rightarrow> UsageDelta list" where
  "report_deltas r = map (\<lambda>s. \<lparr>u_SubjectID = ps_SubjectId s, u_ServiceID = ps_ServiceId s,
     u_UplinkBytes = ps_UplinkBytes s, u_DownlinkBytes = ps_DownlinkBytes s\<rparr>) (rp_Samples r)"

text \<open>The node's identity is that of its authenticated stream, not the one the report names.\<close>

definition onUsageReport :: "int \<Rightarrow> usage_report \<Rightarrow> int \<Rightarrow> panel_db \<Rightarrow> (panel_err + unit) \<times> panel_db" where
  "onUsageReport nodeID r now = IngestUsageReport nodeID (rp_Sequence r) (report_deltas r) now"

section \<open>The state file\<close>

record accounting_state =
  st_Sequence :: int
  st_Pending :: "proto_sample list"

datatype acct_file = FileMissing | FileUnreadable | FileCorrupt | FileHolds accounting_state

datatype agent_err = UsageFailed string | LoadFailed | SaveFailed | SendFailed

definition loadAccountingState :: "acct_file \<Rightarrow> agent_err + accounting_state" where
  "loadAccountingState f = (case f of
       FileMissing \<Rightarrow> Inr \<lparr>st_Sequence = 0, st_Pending = []\<rparr>
     | FileUnreadable \<Rightarrow> Inl LoadFailed
     | FileCorrupt \<Rightarrow> Inr \<lparr>st_Sequence = 0, st_Pending = []\<rparr>
     | FileHolds st \<Rightarrow> Inr st)"

text \<open>\<open>None\<close>: the write succeeded; \<open>Some f\<close>: it failed and left \<open>f\<close>.\<close>

definition saveAccountingState :: "acct_file option \<Rightarrow> accounting_state \<Rightarrow> (agent_err + unit) \<times> acct_file" where
  "saveAccountingState out st = (case out of None \<Rightarrow> (Inr (), FileHolds st) | Some f \<Rightarrow> (Inl SaveFailed, f))"

section \<open>One poll\<close>

record poll_env =
  pe_usage :: "(string + adapter_sample list) list"
  pe_save1 :: "acct_file option"
  pe_send_ok :: bool
  pe_delivered :: bool
  pe_save2 :: "acct_file option"
  pe_now :: int

fun poll_usage :: "(string + adapter_sample list) list \<Rightarrow> agent_err + adapter_sample list" where
  "poll_usage [] = Inr []"
| "poll_usage (Inl e # rest) = Inl (UsageFailed e)"
| "poll_usage (Inr got # rest) = bind_result (poll_usage rest) (\<lambda>more. Inr (got @ more))"

text \<open>
  The result, the state file afterwards and the report handed to \<open>stream.Send\<close>, if one was:
  first from the point where the state is to be saved with the new samples, then the whole poll.
\<close>

definition save_and_send :: "int \<Rightarrow> poll_env \<Rightarrow> accounting_state \<Rightarrow> (agent_err + unit) \<times> acct_file \<times> usage_report option" where
  "save_and_send nodeID e st1 =
     (let report = \<lparr>rp_NodeId = nodeID, rp_Sequence = st_Sequence st1, rp_Samples = st_Pending st1\<rparr> in
      case saveAccountingState (pe_save1 e) st1 of
        (Inl err, f1) \<Rightarrow> (Inl err, f1, None)
      | (Inr _, f1) \<Rightarrow>
          if \<not> pe_send_ok e then (Inl SendFailed, f1, Some report)
          else (Inr (), snd (saveAccountingState (pe_save2 e) (st1\<lparr>st_Pending := []\<rparr>)), Some report))"

definition pollAndReport :: "int \<Rightarrow> poll_env \<Rightarrow> acct_file \<Rightarrow> (agent_err + unit) \<times> acct_file \<times> usage_report option" where
  "pollAndReport nodeID e f =
     (case poll_usage (pe_usage e) of
        Inl err \<Rightarrow> (Inl err, f, None)
      | Inr samples \<Rightarrow>
          if samples = [] then (Inr (), f, None)
          else (case loadAccountingState f of
              Inl err \<Rightarrow> (Inl err, f, None)
            | Inr st \<Rightarrow> save_and_send nodeID e
                \<lparr>st_Sequence = st_Sequence st + 1, st_Pending = st_Pending st @ protoSamplesFrom samples\<rparr>))"

section \<open>The agent and the panel together\<close>

record acct_sys =
  sys_file :: acct_file
  sys_db :: panel_db
  sys_refused :: nat

definition acct_sys_step :: "int \<Rightarrow> poll_env \<Rightarrow> acct_sys \<Rightarrow> acct_sys" where
  "acct_sys_step nodeID e s =
     (case pollAndReport nodeID e (sys_file s) of
        (res, f, None) \<Rightarrow> s\<lparr>sys_file := f\<rparr>
      | (res, f, Some report) \<Rightarrow>
          if pe_delivered e then
            (case onUsageReport nodeID report (pe_now e) (sys_db s) of
               (Inl err, d) \<Rightarrow> s\<lparr>sys_file := f, sys_db := d, sys_refused := Suc (sys_refused s)\<rparr>
             | (Inr _, d) \<Rightarrow> s\<lparr>sys_file := f, sys_db := d\<rparr>)
          else s\<lparr>sys_file := f\<rparr>)"

section \<open>Reports carry fresh sequence numbers\<close>

definition file_sequence :: "acct_file \<Rightarrow> int" where
  "file_sequence f = (case loadAccountingState f of Inl _ \<Rightarrow> 0 | Inr st \<Rightarrow> st_Sequence st)"

text \<open>The panel has seen no sequence number of this node beyond the one in the state file.\<close>

definition fresh_sequences :: "int \<Rightarrow> acct_sys \<Rightarrow> bool" where
  "fresh_sequences n s \<longleftrightarrow> (\<forall>r \<in> set (t_usage_deltas (sys_db s)). ud_node_id r = n \<longrightarrow> ud_sequence r \<le> file_sequence (sys_file s))"

definition writes_work :: "poll_env \<Rightarrow> bool" where
  "writes_work e \<longleftrightarrow> pe_save1 e = None \<and> pe_save2 e = None"

lemma poll_cases:
  assumes "writes_work e"
  obtains res where "pollAndReport n e f = (res, f, None)"
  | st res f' report where "loadAccountingState f = Inr st" "pollAndReport n e f = (res, f', Some report)"
      "file_sequence f' = st_Sequence st + 1" "rp_Sequence report = st_Sequence st + 1"
proof (cases "poll_usage (pe_usage e)")
  case (Inr samples)
  show thesis
  proof (cases "samples = []")
    case False
    show thesis
    proof (cases "loadAccountingState f")
      case (Inl err)
      then show thesis using that(1) Inr False by (simp add: pollAndReport_def)
    next
      case st: (Inr st)
      show thesis
        by (cases "pe_send_ok e")
          (use that(2) st Inr False assms in \<open>simp_all add: pollAndReport_def save_and_send_def saveAccountingState_def
             writes_work_def file_sequence_def loadAccountingState_def\<close>)
    qed
  qed (use that(1) Inr in \<open>simp add: pollAndReport_def\<close>)
qed (use that(1) in \<open>simp add: pollAndReport_def\<close>)

lemma ingest_deltas:
  "r \<in> set (t_usage_deltas (snd (IngestUsageReport n q xs now d))) \<Longrightarrow>
     r \<in> set (t_usage_deltas d) \<or> ud_node_id r = n \<and> ud_sequence r = q"
proof -
  have rows: "x \<in> set (delta_rows n q now d b xs) \<Longrightarrow> ud_node_id x = n \<and> ud_sequence x = q" for x b
    by (induction xs arbitrary: b) (auto simp: mk_delta_def)
  assume "r \<in> set (t_usage_deltas (snd (IngestUsageReport n q xs now d)))"
  then show ?thesis using snd_Ingest [of n q xs now d] rows by auto
qed

lemma sys_db_step:
  "sys_db (acct_sys_step n e s) = (case pollAndReport n e (sys_file s) of
     (res, f, None) \<Rightarrow> sys_db s
   | (res, f, Some report) \<Rightarrow> if pe_delivered e then snd (onUsageReport n report (pe_now e) (sys_db s)) else sys_db s)"
  "sys_file (acct_sys_step n e s) = fst (snd (pollAndReport n e (sys_file s)))"
  by (auto simp: acct_sys_step_def split: prod.splits option.splits sum.splits)

lemma fresh_step: "writes_work e \<Longrightarrow> fresh_sequences n s \<Longrightarrow> fresh_sequences n (acct_sys_step n e s)"
proof -
  assume w: "writes_work e" and fresh: "fresh_sequences n s"
  show ?thesis
  proof (rule poll_cases [OF w, of n "sys_file s"])
    fix res assume "pollAndReport n e (sys_file s) = (res, sys_file s, None)"
    then show ?thesis using fresh by (simp add: fresh_sequences_def sys_db_step)
  next
    fix st res f' report
    assume st: "loadAccountingState (sys_file s) = Inr st" and poll: "pollAndReport n e (sys_file s) = (res, f', Some report)"
      and seq: "file_sequence f' = st_Sequence st + 1" "rp_Sequence report = st_Sequence st + 1"
    have "file_sequence (sys_file s) = st_Sequence st" using st by (simp add: file_sequence_def)
    then have old: "r \<in> set (t_usage_deltas (sys_db s)) \<Longrightarrow> ud_node_id r = n \<Longrightarrow> ud_sequence r \<le> file_sequence f'" for r
      using fresh seq by (fastforce simp: fresh_sequences_def)
    have "ud_sequence r \<le> file_sequence f'"
      if "r \<in> set (t_usage_deltas (sys_db (acct_sys_step n e s)))" "ud_node_id r = n" for r
    proof (cases "pe_delivered e")
      case True
      then have "r \<in> set (t_usage_deltas (sys_db s)) \<or> ud_node_id r = n \<and> ud_sequence r = rp_Sequence report"
        using that(1) poll ingest_deltas unfolding sys_db_step onUsageReport_def by simp
      then show ?thesis using old that(2) seq by auto
    next
      case False
      then show ?thesis using that old poll by (simp add: sys_db_step)
    qed
    then show ?thesis using poll by (simp add: fresh_sequences_def sys_db_step(2))
  qed
qed

interpretation fresh_machine: invariant_machine "acct_sys_step n" writes_work "fresh_sequences n" for n
  by unfold_locales (rule fresh_step)

text \<open>the agent never repeats a sequence number. As long as its state file survives, whatever polls fail and
  whatever messages are lost or reported lost, the next report it hands to the stream carries a sequence number
  the panel has not applied; so the panel's idempotency check never discards one, not even a report
  that repeats samples the panel already has.\<close>
theorem agent_sequences_fresh:
  assumes "fresh_sequences n s" and "list_all writes_work es" and "writes_work e"
    and "pollAndReport n e (sys_file (fold (acct_sys_step n) es s)) = (res, f, Some report)"
  shows "\<not> already_applied n (rp_Sequence report) (sys_db (fold (acct_sys_step n) es s))"
proof -
  have fresh: "fresh_sequences n (fold (acct_sys_step n) es s)" by (rule fresh_machine.run_inv [OF assms(2,1)])
  show ?thesis
  proof (rule poll_cases [OF assms(3), of n "sys_file (fold (acct_sys_step n) es s)"])
    fix st res' f' report'
    assume "loadAccountingState (sys_file (fold (acct_sys_step n) es s)) = Inr st"
      and "pollAndReport n e (sys_file (fold (acct_sys_step n) es s)) = (res', f', Some report')"
      and "rp_Sequence report' = st_Sequence st + 1"
    then show ?thesis using fresh assms(4)
      by (fastforce simp: fresh_sequences_def already_applied_def file_sequence_def)
  qed (use assms(4) in simp)
qed

section \<open>End to end\<close>

definition no_pending :: "acct_file \<Rightarrow> bool" where
  "no_pending f \<longleftrightarrow> (case loadAccountingState f of Inl _ \<Rightarrow> True | Inr st \<Rightarrow> st_Pending st = [])"

definition quiet :: "poll_env \<Rightarrow> bool" where
  "quiet e \<longleftrightarrow> writes_work e \<and> pe_send_ok e \<and> pe_delivered e"

text \<open>The bytes of a subject that one poll reads from the adapters.\<close>

definition polled_bytes :: "int \<Rightarrow> poll_env \<Rightarrow> int" where
  "polled_bytes s e = (case poll_usage (pe_usage e) of Inl _ \<Rightarrow> 0
     | Inr xs \<Rightarrow> sum_list (map (\<lambda>x. uint (as_UplinkBytes x) + uint (as_DownlinkBytes x)) (filter (\<lambda>x. as_SubjectID x = s) xs)))"

definition used_of :: "panel_db \<Rightarrow> (int \<times> int) list" where
  "used_of d = map (\<lambda>r. (s_id r, s_quota_used_bytes r)) (t_subjects d)"

lemma bytes_for_wire:
  "bytes_for s (report_deltas \<lparr>rp_NodeId = n, rp_Sequence = q, rp_Samples = protoSamplesFrom xs\<rparr>)
     = sum_list (map (\<lambda>x. uint (as_UplinkBytes x) + uint (as_DownlinkBytes x)) (filter (\<lambda>x. as_SubjectID x = s) xs))"
  by (induction xs) (simp_all add: report_deltas_def protoSamplesFrom_def)

lemma quiet_poll:
  assumes "quiet e" "no_pending f"
  obtains res where "pollAndReport n e f = (res, f, None)" "\<forall>s. polled_bytes s e = 0 \<or> loadAccountingState f = Inl LoadFailed"
  | res f' report where "pollAndReport n e f = (res, f', Some report)" "no_pending f'"
      "\<forall>s. bytes_for s (report_deltas report) = polled_bytes s e"
proof (cases "poll_usage (pe_usage e)")
  case (Inl err)
  then show thesis using that(1) by (simp add: pollAndReport_def polled_bytes_def)
next
  case (Inr xs)
  show thesis
  proof (cases "xs = []")
    case True
    then show thesis using that(1) Inr by (simp add: pollAndReport_def polled_bytes_def)
  next
    case False
    show thesis
    proof (cases "loadAccountingState f")
      case (Inl err)
      then have "loadAccountingState f = Inl LoadFailed" by (cases f) (simp_all add: loadAccountingState_def)
      then show thesis using that(1) \<open>poll_usage (pe_usage e) = Inr xs\<close> False by (simp add: pollAndReport_def)
    next
      case st: (Inr st)
      let ?report = "\<lparr>rp_NodeId = n, rp_Sequence = st_Sequence st + 1, rp_Samples = protoSamplesFrom xs\<rparr>"
      have "st_Pending st = []" using assms(2) st by (simp add: no_pending_def)
      then have "pollAndReport n e f = (Inr (), FileHolds \<lparr>st_Sequence = st_Sequence st + 1, st_Pending = []\<rparr>, Some ?report)"
        using Inr False st assms(1)
        by (simp add: pollAndReport_def save_and_send_def saveAccountingState_def quiet_def writes_work_def)
      then show thesis using Inr that(2) bytes_for_wire [of _ n "st_Sequence st + 1" xs]
        by (simp add: polled_bytes_def no_pending_def loadAccountingState_def)
    qed
  qed
qed

lemma used_charge: "used_of (d\<lparr>t_usage_deltas := x, t_delta_seq := y, t_subjects := map (charge now xs) (t_subjects d)\<rparr>)
    = map (\<lambda>(i, b). (i, b + bytes_for i xs)) (used_of d)"
  by (simp add: used_of_def quota_charge)

lemma refused_mono: "sys_refused s \<le> sys_refused (fold (acct_sys_step n) es s)"
proof (induction es arbitrary: s)
  case (Cons e es)
  have "sys_refused s \<le> sys_refused (acct_sys_step n e s)"
    by (auto simp: acct_sys_step_def split: prod.splits option.splits sum.splits)
  then show ?case using Cons [of "acct_sys_step n e s"] by simp
qed simp

lemma quiet_step:
  assumes "quiet e" "no_pending (sys_file s)" "fresh_sequences n s" "sys_file s \<noteq> FileUnreadable"
    and "sys_refused (acct_sys_step n e s) = sys_refused s"
  shows "no_pending (sys_file (acct_sys_step n e s)) \<and> sys_file (acct_sys_step n e s) \<noteq> FileUnreadable
    \<and> used_of (sys_db (acct_sys_step n e s)) = map (\<lambda>(i, b). (i, b + polled_bytes i e)) (used_of (sys_db s))"
proof (rule quiet_poll [OF assms(1,2), of n])
  fix res assume poll: "pollAndReport n e (sys_file s) = (res, sys_file s, None)"
    and z: "\<forall>i. polled_bytes i e = 0 \<or> loadAccountingState (sys_file s) = Inl LoadFailed"
  have "loadAccountingState (sys_file s) \<noteq> Inl LoadFailed" using assms(4) by (cases "sys_file s") (simp_all add: loadAccountingState_def)
  then have "(\<lambda>(i, b). (i, b + polled_bytes i e)) = (\<lambda>x. x)" using z by (auto simp: fun_eq_iff)
  then show ?thesis using poll assms(2,4) by (simp add: sys_db_step)
next
  fix res f report
  assume poll: "pollAndReport n e (sys_file s) = (res, f, Some report)" and f: "no_pending f"
    and bytes: "\<forall>i. bytes_for i (report_deltas report) = polled_bytes i e"
  have del: "pe_delivered e" and w: "writes_work e" using assms(1) by (simp_all add: quiet_def)
  have fresh: "\<not> already_applied n (rp_Sequence report) (sys_db s)"
  proof (rule poll_cases [OF w, of n "sys_file s"])
    fix st res' f' report' assume "loadAccountingState (sys_file s) = Inr st"
      and "pollAndReport n e (sys_file s) = (res', f', Some report')" and "rp_Sequence report' = st_Sequence st + 1"
    then show ?thesis using poll assms(3) by (fastforce simp: fresh_sequences_def already_applied_def file_sequence_def)
  qed (use poll in simp)
  have "is_ok (fst (onUsageReport n report (pe_now e) (sys_db s)))"
    using assms(5) poll del by (auto simp: acct_sys_step_def split: prod.splits sum.splits)
  then have ok: "IngestUsageReport n (rp_Sequence report) (report_deltas report) (pe_now e) (sys_db s)
      = (Inr (), sys_db (acct_sys_step n e s))"
  proof -
    have "sys_db (acct_sys_step n e s) = snd (onUsageReport n report (pe_now e) (sys_db s))"
      using poll del by (simp add: sys_db_step)
    then show ?thesis
      using \<open>is_ok (fst (onUsageReport n report (pe_now e) (sys_db s)))\<close>
      by (cases "onUsageReport n report (pe_now e) (sys_db s)") (auto simp: onUsageReport_def is_ok_def split: sum.splits)
  qed
  have "sys_file (acct_sys_step n e s) \<noteq> FileUnreadable"
    using poll w by (auto simp: sys_db_step(2) pollAndReport_def save_and_send_def saveAccountingState_def writes_work_def Let_def
        split: sum.splits if_splits)
  then show ?thesis
    using poll f IngestUsageReport_ok [OF ok fresh] used_charge bytes by (simp add: sys_db_step(2))
qed


definition demo_poll :: "int \<Rightarrow> bool \<Rightarrow> bool \<Rightarrow> uint64 \<Rightarrow> poll_env" where
  "demo_poll svc ok delivered bytes =
     \<lparr>pe_usage = [Inr [\<lparr>as_SubjectID = 5, as_ServiceID = svc, as_UplinkBytes = bytes, as_DownlinkBytes = 0\<rparr>]],
      pe_save1 = None, pe_send_ok = ok, pe_delivered = delivered, pe_save2 = None, pe_now = 7200\<rparr>"

definition demo_sys :: acct_sys where
  "demo_sys = \<lparr>sys_file = FileMissing, sys_db = acct_db, sys_refused = 0\<rparr>"


theorem agent_sequences_fresh_witness:
  "\<not> already_applied 1 2 (sys_db (fold (acct_sys_step 1) [demo_poll 0 False True 300] demo_sys))"
proof -
  let ?s = "fold (acct_sys_step 1) [demo_poll 0 False True 300] demo_sys"
  let ?r = "\<lparr>rp_NodeId = 1, rp_Sequence = 2, rp_Samples =
    [\<lparr>ps_SubjectId = 5, ps_ServiceId = 0, ps_UplinkBytes = 300, ps_DownlinkBytes = 0\<rparr>,
     \<lparr>ps_SubjectId = 5, ps_ServiceId = 0, ps_UplinkBytes = 1, ps_DownlinkBytes = 0\<rparr>]\<rparr>"
  have 1: "fresh_sequences 1 demo_sys" by code_simp
  have 2: "list_all writes_work [demo_poll 0 False True 300]" "writes_work (demo_poll 0 True True 1)"
    by (simp_all add: writes_work_def demo_poll_def)
  have 3: "pollAndReport 1 (demo_poll 0 True True 1) (sys_file ?s)
      = (Inr (), FileHolds \<lparr>st_Sequence = 2, st_Pending = []\<rparr>, Some ?r)" by code_simp
  from agent_sequences_fresh [OF 1 2 3] show ?thesis by simp
qed

text \<open>one failed send corrupts the books, in one of two ways. The pending samples go out again under the next
  sequence number. If the failed message had arrived after all, unattributed samples are charged twice. If it had
  not, the repeated report carries two samples of the same subject and service, the uniqueness key of the panel
  refuses the whole report, and the agent, whose send succeeded, has dropped the samples: the traffic is never charged.\<close>
theorem agent_retry_corrupts:
  "(let s = fold (acct_sys_step 1) [demo_poll 0 False True 300, demo_poll 0 True True 20] demo_sys
    in map snd (used_of (sys_db s)) = [0, 620] \<and> sys_refused s = 0)
   \<and> (let s = fold (acct_sys_step 1) [demo_poll 1 False False 300, demo_poll 1 True True 20] demo_sys
    in map snd (used_of (sys_db s)) = [0, 0] \<and> sys_refused s = 1 \<and> no_pending (sys_file s))"
  unfolding Let_def by (intro conjI; code_simp)

section \<open>Reports the panel refuses\<close>

lemma ingest_sample_unknown:
  "u_SubjectID x \<notin> s_id ` set (t_subjects d) \<Longrightarrow> is_ok (ingest_sample n q now x d) = False"
  by (simp add: ingest_sample_def insert_delta_def delta_check_def mk_delta_def Let_def)

lemma ingest_samples_unknown:
  "x \<in> set xs \<Longrightarrow> u_SubjectID x \<notin> s_id ` set (t_subjects d) \<Longrightarrow> \<not> is_ok (ingest_samples n q now xs d)"
proof (induction xs arbitrary: d)
  case (Cons y ys)
  show ?case
  proof (cases "ingest_sample n q now y d")
    case (Inr d1)
    have "y \<noteq> x" using ingest_sample_unknown [OF Cons.prems(2), of n q now] Inr by auto
    moreover have "s_id ` set (t_subjects d1) = s_id ` set (t_subjects d)"
      using ingest_sample_spec [OF Inr] by (simp add: image_image)
    ultimately show ?thesis using Cons Inr by auto
  qed simp
qed simp

text \<open>one sample of a subject the panel no longer has makes it refuse the whole report: nothing of the report is
  charged, to any subject.\<close>
theorem unknown_subject_refuses_report:
  assumes "x \<in> set xs" and "u_SubjectID x \<notin> s_id ` set (t_subjects d)" and "\<not> already_applied n q d"
  shows "\<exists>e. IngestUsageReport n q xs now d = (Inl e, d)"
proof -
  obtain e where "ingest_samples n q now xs d = Inl e"
    using ingest_samples_unknown [OF assms(1,2), of n q now] by (cases "ingest_samples n q now xs d") auto
  then show ?thesis using assms(3) by (simp add: IngestUsageReport_def store_write_def)
qed

theorem unknown_subject_refuses_report_witness:
  "\<exists>e. IngestUsageReport 1 1 (demo_samples @ [\<lparr>u_SubjectID = 77, u_ServiceID = 0, u_UplinkBytes = 1, u_DownlinkBytes = 1\<rparr>])
     7200 acct_db = (Inl e, acct_db)"
proof (rule unknown_subject_refuses_report)
  show "\<lparr>u_SubjectID = 77, u_ServiceID = 0, u_UplinkBytes = 1, u_DownlinkBytes = 1\<rparr>
      \<in> set (demo_samples @ [\<lparr>u_SubjectID = 77, u_ServiceID = 0, u_UplinkBytes = 1, u_DownlinkBytes = 1\<rparr>])" by simp
  show "u_SubjectID \<lparr>u_SubjectID = 77, u_ServiceID = 0, u_UplinkBytes = 1, u_DownlinkBytes = 1\<rparr> \<notin> s_id ` set (t_subjects acct_db)"
    by code_simp
  show "\<not> already_applied 1 1 acct_db" by code_simp
qed

end
