(* ===== verification/Billable.thy ===== *)
theory Billable
  imports Prelude "HOL-Library.Word"
begin

unbundle bit_operations_syntax

text \<open>
  Billing arithmetic, \<open>src/internal/panel/nodes/billable.go\<close>. An \<open>int64\<close> is a 64-bit word read
  with \<open>sint\<close>, a \<open>uint64\<close> the same word read with \<open>uint\<close>, and the conversions between the two
  are the identity on words. \<open>bits.Mul64\<close> and \<open>bits.Div64\<close> are the 128-bit operations of Go's
  \<open>math/bits\<close>; \<open>Div64\<close> panics when the quotient does not fit, which is the \<open>None\<close> of the model.
\<close>

type_synonym int64 = "64 word"

datatype bill_err =
    NegativeRaw int64
  | NegativeQuota int64
  | NegativeCoefficient int64 nat
  | ZeroDenominator
  | CoefficientOverflow
  | DivPanic

definition CoefficientUnit :: int64 where "CoefficientUnit = 10000"

record factors =
  f_Node :: int64
  f_Service :: int64
  f_Subject :: int64
  f_Reseller :: int64
  f_Outbound :: int64

definition UnitFactors :: factors where
  "UnitFactors = \<lparr>f_Node = CoefficientUnit, f_Service = CoefficientUnit, f_Subject = CoefficientUnit,
     f_Reseller = CoefficientUnit, f_Outbound = CoefficientUnit\<rparr>"

definition All :: "factors \<Rightarrow> int64 list" where
  "All f = [f_Node f, f_Service f, f_Subject f, f_Reseller f, f_Outbound f]"

definition maxInt64 :: int64 where "maxInt64 = drop_bit 1 (NOT 0)"

definition Mul64 :: "int64 \<Rightarrow> int64 \<Rightarrow> int64 \<times> int64" where
  "Mul64 x y = (word_of_int (uint x * uint y div 2 ^ 64), x * y)"

definition Div64 :: "int64 \<Rightarrow> int64 \<Rightarrow> int64 \<Rightarrow> (int64 \<times> int64) option" where
  "Div64 hi lo y =
     (if y = 0 \<or> y \<le> hi then None
      else (let n = uint hi * 2 ^ 64 + uint lo
            in Some (word_of_int (n div uint y), word_of_int (n mod uint y))))"

definition mulDiv :: "int64 \<Rightarrow> int64 \<Rightarrow> int64 \<Rightarrow> bill_err + int64" where
  "mulDiv x num den =
     (if den = 0 then Inl ZeroDenominator
      else (case Mul64 x num of (hi, lo) \<Rightarrow>
        if den \<le> hi then Inl CoefficientOverflow
        else (case Div64 hi lo den of
            None \<Rightarrow> Inl DivPanic
          | Some (q, r) \<Rightarrow> if maxInt64 < q then Inl CoefficientOverflow else Inr q)))"

definition mulDivCeil :: "int64 \<Rightarrow> int64 \<Rightarrow> int64 \<Rightarrow> bill_err + int64" where
  "mulDivCeil x num den =
     (if den = 0 then Inl ZeroDenominator
      else (case Mul64 x num of (hi, lo) \<Rightarrow>
        if den \<le> hi then Inl CoefficientOverflow
        else (case Div64 hi lo den of
            None \<Rightarrow> Inl DivPanic
          | Some (q, r) \<Rightarrow>
              (let q' = (if r \<noteq> 0 then q + 1 else q)
               in if maxInt64 < q' then Inl CoefficientOverflow else Inr q'))))"

fun bill_loop :: "nat \<Rightarrow> int64 list \<Rightarrow> int64 \<Rightarrow> bill_err + int64" where
  "bill_loop i [] v = Inr v"
| "bill_loop i (k # ks) v =
     (if sint k < 0 then Inl (NegativeCoefficient k i)
      else (case mulDiv v k CoefficientUnit of Inl e \<Rightarrow> Inl e | Inr v' \<Rightarrow> bill_loop (Suc i) ks v'))"

definition Billable :: "int64 \<Rightarrow> factors \<Rightarrow> bill_err + int64" where
  "Billable raw f = (if sint raw < 0 then Inl (NegativeRaw raw) else bill_loop 0 (All f) raw)"

fun threshold_loop :: "nat \<Rightarrow> int64 list \<Rightarrow> int64 \<Rightarrow> bill_err + int64" where
  "threshold_loop i [] v = Inr v"
| "threshold_loop i (k # ks) v =
     (if sint k < 0 then Inl (NegativeCoefficient k i)
      else if k = 0 then Inr maxInt64
      else (case mulDivCeil v CoefficientUnit k of Inl e \<Rightarrow> Inl e | Inr v' \<Rightarrow> threshold_loop (Suc i) ks v'))"

definition Threshold :: "int64 \<Rightarrow> factors \<Rightarrow> bill_err + int64" where
  "Threshold billableQuota f =
     (if sint billableQuota < 0 then Inl (NegativeQuota billableQuota)
      else threshold_loop 0 (All f) billableQuota)"

section \<open>Lemmas\<close>

lemma maxInt64_eq: "maxInt64 = 0x7FFFFFFFFFFFFFFF"
  unfolding maxInt64_def by (simp add: mask_eq_exp_minus_1)

lemma sint_int64: "sint (x :: int64) = (if uint x < 2 ^ 63 then uint x else uint x - 2 ^ 64)"
proof -
  have lt: "uint x < 2 ^ 64" using uint_lt2p [of x] by simp
  have bit: "bit (uint x) 63 \<longleftrightarrow> \<not> uint x < 2 ^ 63"
  proof (cases "uint x < 2 ^ 63")
    case True
    then have "uint x div 2 ^ 63 = 0" by simp
    then show ?thesis using True by (simp add: bit_iff_odd)
  next
    case False
    then have "uint x div 2 ^ 63 = 1"
      using lt by (intro int_div_pos_eq [where r = "uint x - 2 ^ 63"]) auto
    then show ?thesis using False by (simp add: bit_iff_odd)
  qed
  have "sint x = take_bit 64 (uint x) - 2 ^ 64 * of_bool (bit (uint x) 63)"
    by (simp add: sint_uint signed_take_bit_eq_take_bit_minus)
  also have "take_bit 64 (uint x) = uint x"
    using lt by (simp add: take_bit_int_eq_self_iff)
  finally show ?thesis using bit by (cases "uint x < 2 ^ 63") auto
qed

lemma sint_nonneg: "0 \<le> sint (x :: int64) \<longleftrightarrow> uint x < 2 ^ 63"
  using uint_lt2p [of x] by (auto simp: sint_int64)

lemma sint_eq_uint: "uint (x :: int64) < 2 ^ 63 \<Longrightarrow> sint x = uint x"
  by (simp add: sint_int64)

lemma uint_word_of: "0 \<le> n \<Longrightarrow> n < 2 ^ 64 \<Longrightarrow> uint (word_of_int n :: int64) = n"
  by (simp add: uint_word_of_int_eq take_bit_int_eq_self)

lemma int_div_less:
  assumes "0 < (d :: int)" "p < n * d"
  shows "p div d < n"
proof (rule ccontr)
  assume "\<not> p div d < n"
  then have "n * d \<le> p div d * d" using assms(1) by (intro mult_right_mono) auto
  moreover have "p div d * d \<le> p" using pos_mod_sign [OF assms(1), of p] div_mult_mod_eq [of p d] by linarith
  ultimately show False using assms(2) by linarith
qed

lemma Mul64_exact: "Mul64 x y = (hi, lo) \<Longrightarrow> uint hi * 2 ^ 64 + uint lo = uint x * uint y"
proof -
  assume "Mul64 x y = (hi, lo)"
  then have hi: "hi = word_of_int (uint x * uint y div 2 ^ 64)" and lo: "lo = x * y" by (simp_all add: Mul64_def)
  have "uint x * uint y < 2 ^ 64 * 2 ^ 64"
    using uint_lt2p [of x] uint_lt2p [of y] by (intro mult_strict_mono) auto
  then have "uint x * uint y div 2 ^ 64 < 2 ^ 64" by (simp add: div_less_iff_less_mult)
  then have "uint hi = uint x * uint y div 2 ^ 64"
    unfolding hi by (intro uint_word_of) (simp_all add: pos_imp_zdiv_nonneg_iff)
  moreover have "uint lo = uint x * uint y mod 2 ^ 64"
    unfolding lo by (simp add: uint_word_ariths)
  ultimately show ?thesis by (metis div_mult_mod_eq)
qed

text \<open>What \<open>mulDiv\<close> computes: the exact quotient, or the overflow error when it does not fit in 63 bits.\<close>

lemma mulDiv_spec:
  assumes "den \<noteq> 0"
  shows "mulDiv x num den =
    (if uint x * uint num div uint den < 2 ^ 63 then Inr (word_of_int (uint x * uint num div uint den))
     else Inl CoefficientOverflow)"
proof -
  obtain hi lo where m: "Mul64 x num = (hi, lo)" by (cases "Mul64 x num")
  let ?p = "uint x * uint num" and ?d = "uint den"
  have p: "?p = uint hi * 2 ^ 64 + uint lo" using Mul64_exact [OF m] by simp
  have dpos: "0 < ?d" using assms by (metis uint_0_iff uint_ge_0 order_le_less)
  show ?thesis
  proof (cases "den \<le> hi")
    case True
    then have "?d * 2 ^ 64 \<le> uint hi * 2 ^ 64" by (intro mult_right_mono) (simp_all add: word_le_def)
    then have "?d * 2 ^ 64 \<le> ?p" unfolding p using uint_ge_0 [of lo] by linarith
    then have "?d * 2 ^ 64 div ?d \<le> ?p div ?d" using dpos by (rule zdiv_mono1)
    then have "2 ^ 64 \<le> ?p div ?d" using dpos by simp
    then show ?thesis using True m assms by (simp add: mulDiv_def)
  next
    case False
    then have "uint hi + 1 \<le> ?d" by (simp add: word_le_def)
    then have "(uint hi + 1) * 2 ^ 64 \<le> ?d * 2 ^ 64" by (rule mult_right_mono) simp
    moreover have "uint lo < 2 ^ 64" using uint_lt2p [of lo] by simp
    ultimately have "?p < ?d * 2 ^ 64" unfolding p by (simp add: algebra_simps)
    then have "?p < 2 ^ 64 * ?d" by (simp only: mult.commute)
    then have q: "?p div ?d < 2 ^ 64" by (rule int_div_less [OF dpos])
    have "0 \<le> ?p div ?d" using dpos by (simp add: pos_imp_zdiv_nonneg_iff)
    then have u: "uint (word_of_int (?p div ?d) :: int64) = ?p div ?d" using q by (rule uint_word_of)
    have "maxInt64 < word_of_int (?p div ?d) \<longleftrightarrow> \<not> ?p div ?d < 2 ^ 63"
      unfolding word_less_def u maxInt64_eq by auto
    then show ?thesis
      using False assms m by (simp add: mulDiv_def Div64_def p Let_def)
  qed
qed

text \<open>The five steps over the integers.\<close>

definition bill_step :: "int \<Rightarrow> int \<Rightarrow> int" where
  "bill_step k v = v * k div 10000"

lemma uint_unit [simp]: "uint CoefficientUnit = 10000" "CoefficientUnit \<noteq> 0"
  by (simp_all add: CoefficientUnit_def)

lemma bill_loop_Inr:
  "bill_loop i ks v = Inr w \<Longrightarrow> uint v < 2 ^ 63 \<Longrightarrow>
     uint w = fold bill_step (map uint ks) (uint v) \<and> uint w < 2 ^ 63 \<and> list_all (\<lambda>k. uint k < 2 ^ 63) ks"
proof (induction ks arbitrary: i v)
  case (Cons k ks)
  have "\<not> sint k < 0" using Cons.prems(1) by (simp split: if_splits)
  then have k: "uint k < 2 ^ 63" unfolding sint_nonneg [symmetric] by linarith
  let ?q = "uint v * uint k div 10000"
  have spec: "mulDiv v k CoefficientUnit = (if ?q < 2 ^ 63 then Inr (word_of_int ?q) else Inl CoefficientOverflow)"
    by (subst mulDiv_spec) simp_all
  then have q: "?q < 2 ^ 63" and rest: "bill_loop (Suc i) ks (word_of_int ?q) = Inr w"
    using Cons.prems(1) by (auto split: if_splits)
  have "0 \<le> ?q" by (simp add: pos_imp_zdiv_nonneg_iff)
  then have "uint (word_of_int ?q :: int64) = ?q" using q by (intro uint_word_of) auto
  then show ?case using Cons.IH [OF rest] q k by (simp add: bill_step_def)
qed simp

lemma bill_loop_no_panic: "bill_loop i ks v \<noteq> Inl DivPanic"
proof (induction ks arbitrary: i v)
  case (Cons k ks)
  have "mulDiv v k CoefficientUnit \<noteq> Inl DivPanic" by (subst mulDiv_spec) simp_all
  then show ?case using Cons.IH by (auto split: sum.splits)
qed simp

lemma Billable_Inr:
  assumes "Billable raw f = Inr v"
  shows "sint v = fold bill_step (map sint (All f)) (sint raw)" and "0 \<le> sint v" and "0 \<le> sint raw"
    and "list_all (\<lambda>k. 0 \<le> sint k) (All f)"
proof -
  have "\<not> sint raw < 0" and loop: "bill_loop 0 (All f) raw = Inr v"
    using assms by (simp_all add: Billable_def split: if_splits)
  then have raw: "uint raw < 2 ^ 63" unfolding sint_nonneg [symmetric] by linarith
  note spec = bill_loop_Inr [OF loop raw]
  have "map sint (All f) = map uint (All f)"
    using spec by (auto simp: list_all_iff sint_eq_uint)
  then show "sint v = fold bill_step (map sint (All f)) (sint raw)"
    unfolding \<open>map sint (All f) = map uint (All f)\<close> using spec raw by (simp add: sint_eq_uint)
  show "0 \<le> sint v" "0 \<le> sint raw" "list_all (\<lambda>k. 0 \<le> sint k) (All f)"
    using spec raw by (simp_all add: sint_nonneg)
qed

lemma bill_step_bounds:
  assumes "0 \<le> v" "0 \<le> k"
  shows "0 \<le> bill_step k v" "bill_step k v * 10000 \<le> v * k" "v * k < (bill_step k v + 1) * 10000"
proof -
  have "v * k = bill_step k v * 10000 + v * k mod 10000" unfolding bill_step_def by simp
  moreover have "0 \<le> v * k mod 10000" "v * k mod 10000 < 10000" by simp_all
  ultimately show "bill_step k v * 10000 \<le> v * k" and "v * k < (bill_step k v + 1) * 10000"
    unfolding distrib_right by linarith+
  show "0 \<le> bill_step k v" using assms by (simp add: bill_step_def pos_imp_zdiv_nonneg_iff)
qed

lemma fold_bill_step_le:
  assumes "0 \<le> v" "list_all (\<lambda>k. 0 \<le> k) ks"
  shows "0 \<le> fold bill_step ks v \<and> fold bill_step ks v * 10000 ^ length ks \<le> v * prod_list ks"
  using assms
proof (induction ks arbitrary: v)
  case (Cons k ks)
  then have b: "0 \<le> bill_step k v" "bill_step k v * 10000 \<le> v * k" "0 \<le> k" and ks: "list_all (\<lambda>k. 0 \<le> k) ks"
    using bill_step_bounds by auto
  have pk: "0 \<le> prod_list ks" using ks by (induction ks) auto
  note IH = Cons.IH [OF b(1) ks]
  have "fold bill_step ks (bill_step k v) * 10000 ^ length ks * 10000 \<le> bill_step k v * prod_list ks * 10000"
    using IH by simp
  also have "\<dots> = bill_step k v * 10000 * prod_list ks" by simp
  also have "\<dots> \<le> v * k * prod_list ks" using b(2) pk by (rule mult_right_mono)
  finally show ?case using IH by (simp add: ac_simps)
qed simp

lemma fold_bill_step_gt:
  assumes "0 \<le> v" "list_all (\<lambda>k. 0 \<le> k \<and> k \<le> 10000) ks"
  shows "v * prod_list ks < (fold bill_step ks v + int (length ks) + 1) * 10000 ^ length ks
    \<and> (ks \<noteq> [] \<longrightarrow> v * prod_list ks < (fold bill_step ks v + int (length ks)) * 10000 ^ length ks)"
  using assms
proof (induction ks arbitrary: v)
  case (Cons k ks)
  then have k: "0 \<le> k" "k \<le> 10000" and ks: "list_all (\<lambda>k. 0 \<le> k \<and> k \<le> 10000) ks" by auto
  note b = bill_step_bounds [OF Cons.prems(1) k(1)]
  have pk: "0 \<le> prod_list ks" "prod_list ks \<le> 10000 ^ length ks"
  proof -
    show "0 \<le> prod_list ks" using ks by (induction ks) auto
    show "prod_list ks \<le> 10000 ^ length ks"
      using ks by (induction ks) (auto intro!: mult_mono prod_list_nonneg simp: list_all_iff)
  qed
  let ?w = "bill_step k v" and ?r = "fold bill_step ks (bill_step k v)" and ?n = "length ks"
  have lower: "?w * prod_list ks \<le> (?r + int ?n) * 10000 ^ ?n"
  proof (cases "ks = []")
    case False
    then show ?thesis using Cons.IH [OF b(1) ks] by simp
  qed simp
  have "v * k * prod_list ks \<le> ((?w + 1) * 10000 - 1) * prod_list ks"
    using b(3) pk(1) by (intro mult_right_mono) auto
  also have "\<dots> = ?w * prod_list ks * 10000 + 9999 * prod_list ks" by (simp add: algebra_simps)
  also have "\<dots> \<le> (?r + int ?n) * 10000 ^ ?n * 10000 + 9999 * 10000 ^ ?n"
    using lower pk(2) by (intro add_mono) simp_all
  also have "\<dots> < (?r + int ?n + 1) * 10000 ^ Suc ?n" by (simp add: algebra_simps)
  finally have main: "v * prod_list (k # ks) < (fold bill_step (k # ks) v + int (length (k # ks))) * 10000 ^ length (k # ks)"
    by (simp add: algebra_simps)
  also have "\<dots> \<le> (fold bill_step (k # ks) v + int (length (k # ks)) + 1) * 10000 ^ length (k # ks)"
    by (intro mult_right_mono) simp_all
  finally show ?case using main by simp
qed simp

lemma fold_bill_step_mono:
  "0 \<le> v \<Longrightarrow> v \<le> v' \<Longrightarrow> list_all (\<lambda>k. 0 \<le> k) ks \<Longrightarrow> fold bill_step ks v \<le> fold bill_step ks v'"
proof (induction ks arbitrary: v v')
  case (Cons k ks)
  have "bill_step k v \<le> bill_step k v'"
    unfolding bill_step_def using Cons.prems by (intro zdiv_mono1 mult_right_mono) auto
  then show ?case using Cons bill_step_bounds(1) [of v k] by simp
qed simp

text \<open>a bill never exceeds the exact product of the raw bytes and the five coefficients (scaled by
  ten thousand each), and, when no coefficient is above one, it is less than five bytes below it.
  A computed bill is never negative, and it is computed only from non-negative inputs.\<close>
theorem billable_bounds:
  assumes "Billable raw f = Inr v"
  shows "0 \<le> sint v \<and> 0 \<le> sint raw \<and> list_all (\<lambda>k. 0 \<le> sint k) (All f)
    \<and> sint v * 10000 ^ 5 \<le> sint raw * prod_list (map sint (All f))
    \<and> (list_all (\<lambda>k. sint k \<le> 10000) (All f) \<longrightarrow>
         sint raw * prod_list (map sint (All f)) < (sint v + 5) * 10000 ^ 5)"
proof -
  note spec = Billable_Inr [OF assms]
  have len: "length (map sint (All f)) = 5" and ne: "map sint (All f) \<noteq> []" by (simp_all add: All_def)
  have nn: "list_all (\<lambda>k. 0 \<le> k) (map sint (All f))" using spec(4) by (simp add: list_all_iff)
  have "sint v * 10000 ^ 5 \<le> sint raw * prod_list (map sint (All f))"
    using fold_bill_step_le [OF spec(3) nn] unfolding len spec(1) [symmetric] by simp
  moreover have "sint raw * prod_list (map sint (All f)) < (sint v + 5) * 10000 ^ 5"
    if "list_all (\<lambda>k. sint k \<le> 10000) (All f)"
  proof -
    have "list_all (\<lambda>k. 0 \<le> k \<and> k \<le> 10000) (map sint (All f))"
      using that spec(4) by (simp add: list_all_iff)
    from fold_bill_step_gt [OF spec(3) this] show ?thesis
      using ne unfolding len spec(1) [symmetric] by simp
  qed
  ultimately show ?thesis using spec by blast
qed

definition demo_factors :: factors where
  "demo_factors = \<lparr>f_Node = 5000, f_Service = 10000, f_Subject = 7500, f_Reseller = 10000, f_Outbound = 10000\<rparr>"

theorem billable_bounds_witness:
  "Billable 1000 demo_factors = Inr 375 \<and> sint (375 :: int64) * 10000 ^ 5 \<le> sint (1000 :: int64) * prod_list (map sint (All demo_factors))"
proof -
  have b: "Billable 1000 demo_factors = Inr 375" by code_simp
  then show ?thesis using billable_bounds [OF b] by blast
qed

text \<open>more traffic never bills less: at fixed coefficients the bill is monotone in the raw bytes.\<close>
theorem billable_mono:
  assumes "Billable raw f = Inr v" and "Billable raw' f = Inr v'" and "sint raw \<le> sint raw'"
  shows "sint v \<le> sint v'"
proof -
  have "list_all (\<lambda>k. 0 \<le> k) (map sint (All f))"
    using Billable_Inr(4) [OF assms(1)] by (simp add: list_all_iff)
  then show ?thesis
    unfolding Billable_Inr(1) [OF assms(1)] Billable_Inr(1) [OF assms(2)]
    using Billable_Inr(3) [OF assms(1)] assms(3) by (intro fold_bill_step_mono)
qed

theorem billable_mono_witness: "sint (375 :: int64) \<le> sint (750 :: int64)"
proof (rule billable_mono [of 1000 demo_factors _ 2000])
  show "Billable 1000 demo_factors = Inr 375" by code_simp
  show "Billable 2000 demo_factors = Inr 750" by code_simp
  show "sint (1000 :: int64) \<le> sint (2000 :: int64)" by code_simp
qed

lemma fold_unit: "0 \<le> v \<Longrightarrow> fold bill_step (replicate n 10000) v = v"
  by (induction n) (simp_all add: bill_step_def)

lemma mulDiv_unit:
  assumes "uint v < 2 ^ 63"
  shows "mulDiv v CoefficientUnit CoefficientUnit = Inr v"
proof -
  have "uint v * uint CoefficientUnit div uint CoefficientUnit = uint v" by simp
  then show ?thesis using assms by (simp add: mulDiv_spec)
qed

text \<open>at unit coefficients the bill is the raw byte count, and the arithmetic cannot panic: whatever
  the inputs, \<open>bits.Div64\<close> is never called with a quotient that does not fit.\<close>
theorem billable_unit_and_no_panic:
  "(0 \<le> sint raw \<longrightarrow> Billable raw UnitFactors = Inr raw) \<and> Billable raw' f \<noteq> Inl DivPanic"
proof
  have "uint raw < 2 ^ 63 \<Longrightarrow> bill_loop 0 (All UnitFactors) raw = Inr raw"
    by (simp add: All_def UnitFactors_def mulDiv_unit sint_nonneg not_less)
  then show "0 \<le> sint raw \<longrightarrow> Billable raw UnitFactors = Inr raw"
    unfolding Billable_def sint_nonneg [symmetric] by auto
  show "Billable raw' f \<noteq> Inl DivPanic"
    by (simp add: Billable_def bill_loop_no_panic)
qed

theorem billable_unit_witness: "Billable 123456 UnitFactors = Inr 123456"
proof -
  have "0 \<le> sint (123456 :: int64)" by code_simp
  then show ?thesis using billable_unit_and_no_panic [of 123456 0 UnitFactors] by blast
qed

text \<open>the truncation is not limited to five bytes once a later coefficient exceeds one: with the node
  at one half and the service at one hundred, one raw byte bills nothing although the exact bill is
  fifty bytes.\<close>
theorem billable_truncation_amplified:
  "\<exists>f. Billable 1 f = Inr 0 \<and> 1 * prod_list (map sint (All f)) = 50 * 10000 ^ 5"
proof -
  let ?f = "\<lparr>f_Node = 5000, f_Service = 1000000, f_Subject = 10000, f_Reseller = 10000, f_Outbound = 10000\<rparr>"
  have "Billable 1 ?f = Inr 0" by code_simp
  moreover have "1 * prod_list (map sint (All ?f)) = 50 * 10000 ^ 5" by code_simp
  ultimately show ?thesis by blast
qed

text \<open>\<open>Threshold\<close> is not an upper rounding of the raw bytes that reach a quota: it can return a count
  whose bill is still below the quota, and its ceiling division can wrap to zero, so that a quota of
  more than nine exabytes is reached by no traffic at all.\<close>
theorem threshold_too_low:
  "(\<exists>f t b. Threshold 11 f = Inr t \<and> Billable t f = Inr b \<and> sint b < 11)
   \<and> (\<exists>f q. sint q > 9 * 10 ^ 18 \<and> Threshold q f = Inr 0)"
proof
  let ?f = "\<lparr>f_Node = 2500, f_Service = 30000, f_Subject = 10000, f_Reseller = 10000, f_Outbound = 10000\<rparr>"
  have "Threshold 11 ?f = Inr 15" "Billable 15 ?f = Inr 9" "sint (9 :: int64) < 11" by (code_simp, code_simp, code_simp)
  then show "\<exists>f t b. Threshold 11 f = Inr t \<and> Billable t f = Inr b \<and> sint b < 11" by blast
  let ?g = "\<lparr>f_Node = 4996, f_Service = 10000, f_Subject = 10000, f_Reseller = 10000, f_Outbound = 10000\<rparr>"
  have "sint (9215993339225291987 :: int64) > 9 * 10 ^ 18" "Threshold 9215993339225291987 ?g = Inr 0"
    by (code_simp, code_simp)
  then show "\<exists>f q. sint q > 9 * 10 ^ 18 \<and> Threshold q f = Inr 0" by blast
qed

end
