(* ===== verification/Quota.thy ===== *)
theory Quota
  imports Accounting Billable Convergence "HOL-Library.Product_Lexorder"
begin

text \<open>
  Bills and quotas: the bill of one subject (\<open>src/internal/panel/nodes/billable_query.go\<close>), the search for
  subjects over quota (\<open>quota_billable.go\<close>), the sweeper that freezes them and the sweeper that opens the
  next period (\<open>quota.go\<close>).

  A column is an integer within the range of \<open>int64\<close>; where Go computes with the value it is a word. A sum
  that SQLite cannot represent is the error \<open>QSql\<close>. The callback \<open>CommitFunc\<close> of both sweepers is an argument;
  \<open>commit_func\<close> is what \<open>cmd/antimage-panel/main.go\<close> passes for it.
\<close>

section \<open>Usage groups\<close>

datatype quota_err = QSql | QBill int bill_err | QNoSubject int | QPanel panel_err

record usage_line =
  ul_node :: "int option"
  ul_service :: "int option"
  ul_outbound :: "int option"
  ul_bytes :: int

text \<open>The rows of the \<open>raw\<close> table expression: the rollups in the window and the deltas in it above the watermark.\<close>

definition raw_lines :: "int \<Rightarrow> int \<Rightarrow> int \<Rightarrow> panel_db \<Rightarrow> usage_line list" where
  "raw_lines subjectID start stop d =
     map (\<lambda>h. \<lparr>ul_node = ru_node_id h, ul_service = ru_service_id h, ul_outbound = ru_outbound_id h,
               ul_bytes = ru_uplink h + ru_downlink h\<rparr>)
       (sql_where (\<lambda>h. ru_subject_id h = subjectID \<and> start \<le> ru_start h \<and> ru_start h < stop) (t_rollups_hourly d))
     @ map (\<lambda>x. \<lparr>ul_node = Some (ud_node_id x), ul_service = ud_service_id x, ul_outbound = ud_outbound_id x,
                 ul_bytes = ud_uplink x + ud_downlink x\<rparr>)
       (sql_where (\<lambda>x. ud_subject_id x = subjectID \<and> start \<le> ud_created_at x \<and> ud_created_at x < stop
          \<and> watermark d < ud_id x) (t_usage_deltas d))"

text \<open>\<open>GROUP BY key ORDER BY key\<close>; a group is never empty and its plain columns are those of one of its rows.\<close>

definition sql_groups :: "('r \<Rightarrow> 'k :: linorder) \<Rightarrow> 'r list \<Rightarrow> 'r list list" where
  "sql_groups key rows = map (\<lambda>k. filter (\<lambda>r. key r = k) rows) (sort (remdups (map key rows)))"

definition sum_bytes :: "usage_line list \<Rightarrow> quota_err + int64" where
  "sum_bytes rs = (let n = sum_list (map ul_bytes rs) in if int64_range n then Inr (word_of_int n) else Inl QSql)"

definition node_coef :: "panel_db \<Rightarrow> int option \<Rightarrow> int64" where
  "node_coef d x = (case x of None \<Rightarrow> CoefficientUnit | Some i \<Rightarrow>
     (case sql_one (\<lambda>n. n_id n = i) (t_nodes d) of None \<Rightarrow> CoefficientUnit | Some n \<Rightarrow> word_of_int (n_usage_coefficient n)))"

definition service_coef :: "panel_db \<Rightarrow> int option \<Rightarrow> int64" where
  "service_coef d x = (case x of None \<Rightarrow> CoefficientUnit | Some i \<Rightarrow>
     (case sql_one (\<lambda>v. sv_id v = i) (t_services d) of None \<Rightarrow> CoefficientUnit | Some v \<Rightarrow> word_of_int (sv_usage_coefficient v)))"

definition outbound_coef :: "panel_db \<Rightarrow> int option \<Rightarrow> int64" where
  "outbound_coef d x = (case x of None \<Rightarrow> CoefficientUnit | Some i \<Rightarrow>
     (case sql_one (\<lambda>b. ob_id b = i) (t_outbounds d) of None \<Rightarrow> CoefficientUnit | Some b \<Rightarrow> word_of_int (ob_usage_coefficient b)))"

text \<open>The two outer joins from a subject to its reseller.\<close>

definition reseller_coef :: "panel_db \<Rightarrow> int \<Rightarrow> int64" where
  "reseller_coef d subjectID =
     (case sql_one (\<lambda>w. ow_subject_id w = subjectID) (t_reseller_subjects d) of
        None \<Rightarrow> CoefficientUnit
      | Some w \<Rightarrow> (case sql_one (\<lambda>r. rs_id r = ow_reseller_id w) (t_resellers d) of
          None \<Rightarrow> CoefficientUnit | Some r \<Rightarrow> word_of_int (rs_usage_coefficient r)))"

section \<open>The bill of one subject\<close>

record billable_group =
  g_NodeID :: "int option"
  g_ServiceID :: "int option"
  g_OutboundID :: "int option"
  g_RawBytes :: int64
  g_Factors :: factors
  g_Billable :: int64

record billable_report =
  br_SubjectID :: int
  br_From :: int
  br_To :: int
  br_RawBytes :: int64
  br_Billable :: int64
  br_Groups :: "billable_group list"

definition subjectCoefficients :: "panel_db \<Rightarrow> int \<Rightarrow> quota_err + (int64 \<times> int64)" where
  "subjectCoefficients d subjectID =
     (case sql_one (\<lambda>s. s_id s = subjectID) (t_subjects d) of
        None \<Rightarrow> Inl (QNoSubject subjectID)
      | Some s \<Rightarrow> Inr (word_of_int (s_usage_coefficient s), reseller_coef d subjectID))"

definition line_key :: "usage_line \<Rightarrow> int \<times> int \<times> int" where
  "line_key r = (coalesce0 (ul_node r), coalesce0 (ul_service r), coalesce0 (ul_outbound r))"

definition bill_group :: "panel_db \<Rightarrow> int \<Rightarrow> int64 \<times> int64 \<Rightarrow> usage_line list \<Rightarrow> quota_err + billable_group" where
  "bill_group d subjectID coefs rs =
     bind_result (sum_bytes rs) (\<lambda>bytes.
       let f = \<lparr>f_Node = node_coef d (ul_node (hd rs)), f_Service = service_coef d (ul_service (hd rs)),
                f_Subject = fst coefs, f_Reseller = snd coefs, f_Outbound = outbound_coef d (ul_outbound (hd rs))\<rparr>
       in case Billable bytes f of
            Inl e \<Rightarrow> Inl (QBill subjectID e)
          | Inr b \<Rightarrow> Inr \<lparr>g_NodeID = ul_node (hd rs), g_ServiceID = ul_service (hd rs), g_OutboundID = ul_outbound (hd rs),
              g_RawBytes = bytes, g_Factors = f, g_Billable = b\<rparr>)"

text \<open>The loop over the rows: the totals are \<open>int64\<close> additions, unguarded.\<close>

fun bill_groups :: "panel_db \<Rightarrow> int \<Rightarrow> int64 \<times> int64 \<Rightarrow> usage_line list list \<Rightarrow> billable_report \<Rightarrow> quota_err + billable_report" where
  "bill_groups d subjectID coefs [] report = Inr report"
| "bill_groups d subjectID coefs (rs # rest) report =
     bind_result (bill_group d subjectID coefs rs) (\<lambda>g.
       bill_groups d subjectID coefs rest
         (report\<lparr>br_RawBytes := br_RawBytes report + g_RawBytes g, br_Billable := br_Billable report + g_Billable g,
            br_Groups := br_Groups report @ [g]\<rparr>))"

definition BillableForSubject :: "int \<Rightarrow> int \<Rightarrow> int \<Rightarrow> panel_db \<Rightarrow> quota_err + billable_report" where
  "BillableForSubject subjectID start stop d =
     bind_result (subjectCoefficients d subjectID) (\<lambda>coefs.
       bill_groups d subjectID coefs (sql_groups line_key (raw_lines subjectID start stop d))
         \<lparr>br_SubjectID = subjectID, br_From = start, br_To = stop, br_RawBytes = 0, br_Billable = 0, br_Groups = []\<rparr>)"

section \<open>Subjects over quota\<close>

record over_quota =
  oq_SubjectID :: int
  oq_Billable :: int64
  oq_Quota :: int64

definition eligible :: "subject_row \<Rightarrow> bool" where
  "eligible s \<longleftrightarrow> s_quota_bytes s \<noteq> None \<and> s_frozen_at s = None \<and> s_enabled s"

definition period_start :: "subject_row \<Rightarrow> int" where
  "period_start s = (case s_quota_period_start s of None \<Rightarrow> s_created_at s | Some p \<Rightarrow> p)"

record quota_line =
  ql_subject :: int
  ql_quota :: int64
  ql_factors :: factors
  ql_bytes :: int64

definition quota_key :: "usage_line \<Rightarrow> int \<times> int" where
  "quota_key r = (coalesce0 (ul_node r), coalesce0 (ul_service r))"

definition quota_line_of :: "panel_db \<Rightarrow> subject_row \<Rightarrow> usage_line list \<Rightarrow> quota_err + quota_line" where
  "quota_line_of d s rs =
     bind_result (sum_bytes rs) (\<lambda>bytes. Inr
       \<lparr>ql_subject = s_id s, ql_quota = (case s_quota_bytes s of None \<Rightarrow> 0 | Some q \<Rightarrow> word_of_int q),
        ql_factors = \<lparr>f_Node = node_coef d (ul_node (hd rs)), f_Service = service_coef d (ul_service (hd rs)),
          f_Subject = word_of_int (s_usage_coefficient s), f_Reseller = reseller_coef d (s_id s),
          f_Outbound = CoefficientUnit\<rparr>,
        ql_bytes = bytes\<rparr>)"

fun collect :: "('a \<Rightarrow> 'e + 'b) \<Rightarrow> 'a list \<Rightarrow> 'e + 'b list" where
  "collect f [] = Inr []"
| "collect f (x # xs) = bind_result (f x) (\<lambda>y. bind_result (collect f xs) (\<lambda>ys. Inr (y # ys)))"

text \<open>The rows of the query, in the order of the subject's id.\<close>

definition quota_segment :: "int \<Rightarrow> panel_db \<Rightarrow> subject_row \<Rightarrow> quota_err + quota_line list" where
  "quota_segment now d s = collect (quota_line_of d s) (sql_groups quota_key (raw_lines (s_id s) (period_start s) now d))"

definition quota_lines :: "int \<Rightarrow> panel_db \<Rightarrow> quota_err + quota_line list" where
  "quota_lines now d = bind_result (collect (quota_segment now d) (sort_key s_id (sql_where eligible (t_subjects d))))
     (\<lambda>segs. Inr (concat segs))"

definition flush :: "over_quota option \<Rightarrow> over_quota list \<Rightarrow> over_quota list" where
  "flush current out = (case current of None \<Rightarrow> out
     | Some c \<Rightarrow> if sint (oq_Quota c) \<le> sint (oq_Billable c) then out @ [c] else out)"

definition fresh_total :: "quota_line \<Rightarrow> over_quota" where
  "fresh_total g = \<lparr>oq_SubjectID = ql_subject g, oq_Billable = 0, oq_Quota = ql_quota g\<rparr>"

definition same_subject :: "over_quota option \<Rightarrow> quota_line \<Rightarrow> bool" where
  "same_subject current g \<longleftrightarrow> (case current of None \<Rightarrow> False | Some c \<Rightarrow> oq_SubjectID c = ql_subject g)"

fun quota_loop :: "over_quota option \<Rightarrow> over_quota list \<Rightarrow> quota_line list \<Rightarrow> quota_err + over_quota list" where
  "quota_loop current out [] = Inr (flush current out)"
| "quota_loop current out (g # gs) =
     (let out' = (if same_subject current g then out else flush current out);
          c = (if same_subject current g then the current else fresh_total g)
      in case Billable (ql_bytes g) (ql_factors g) of
           Inl e \<Rightarrow> Inl (QBill (ql_subject g) e)
         | Inr b \<Rightarrow> quota_loop (Some (c\<lparr>oq_Billable := oq_Billable c + b\<rparr>)) out' gs)"

definition findSubjectsOverQuota :: "int \<Rightarrow> panel_db \<Rightarrow> quota_err + over_quota list" where
  "findSubjectsOverQuota now d = bind_result (quota_lines now d) (quota_loop None [])"

section \<open>The enforcement sweeper\<close>

type_synonym committer = "int \<Rightarrow> string \<Rightarrow> string \<Rightarrow> panel_db \<Rightarrow> (panel_err + unit) \<times> panel_db"

definition commit_func :: "codec \<Rightarrow> unsealer \<Rightarrow> int \<Rightarrow> committer" where
  "commit_func c u now nodeID actr reason d =
     (case CommitNodeChange c u now nodeID (SystemActor actr) '''' reason Inr d of
        (Inl e, d') \<Rightarrow> (Inl e, d') | (Inr r, d') \<Rightarrow> (Inr (), d'))"

definition serving_nodes :: "panel_db \<Rightarrow> int list" where
  "serving_nodes d = map n_id (filter (\<lambda>n. \<exists>v \<in> set (t_services d). sv_node_id v = n_id n \<and> sv_enabled v) (t_nodes d))"

text \<open>The loop over the affected nodes stops at the first commit that fails.\<close>

fun commit_all :: "committer \<Rightarrow> string \<Rightarrow> string \<Rightarrow> int list \<Rightarrow> panel_db \<Rightarrow> (panel_err + unit) \<times> panel_db" where
  "commit_all commit actr reason [] d = (Inr (), d)"
| "commit_all commit actr reason (n # ns) d =
     (case commit n actr reason d of
        (Inl e, d') \<Rightarrow> (Inl e, d')
      | (Inr _, d') \<Rightarrow> commit_all commit actr reason ns d')"

definition freeze_row :: "int \<Rightarrow> subject_row \<Rightarrow> subject_row" where
  "freeze_row now s = s\<lparr>s_enabled := False, s_frozen_at := Some now, s_frozen_reason := Some ''quota_exceeded''\<rparr>"

definition freeze_update :: "int \<Rightarrow> int \<Rightarrow> panel_db \<Rightarrow> panel_db" where
  "freeze_update subjectID now d =
     d\<lparr>t_subjects := sql_update (\<lambda>s. s_id s = subjectID \<and> s_enabled s) (freeze_row now) (t_subjects d)\<rparr>"

definition freezeSubject :: "committer \<Rightarrow> int \<Rightarrow> int \<Rightarrow> panel_db \<Rightarrow> (panel_err + unit) \<times> panel_db" where
  "freezeSubject commit subjectID now d =
     (case store_write (\<lambda>d. let d' = freeze_update subjectID now d in Inr (serving_nodes d', d')) d of
        (Inl e, d') \<Rightarrow> (Inl e, d')
      | (Inr nodes, d') \<Rightarrow>
          commit_all commit ''system:quota-enforcer'' (''quota exceeded for subject '' @ fmt_d subjectID) nodes d')"

definition QuotaEnforcementSweeper_Run :: "committer \<Rightarrow> int \<Rightarrow> panel_db \<Rightarrow> (quota_err + unit) \<times> panel_db" where
  "QuotaEnforcementSweeper_Run commit now d =
     (case findSubjectsOverQuota now d of
        Inl e \<Rightarrow> (Inl e, d)
      | Inr toFreeze \<Rightarrow> (Inr (), fold (\<lambda>c d. snd (freezeSubject commit (oq_SubjectID c) now d)) toFreeze d))"

section \<open>The reset sweeper\<close>

definition DefaultQuotaPeriodSeconds :: int where
  "DefaultQuotaPeriodSeconds = 30 * 24 * 60 * 60"

definition reset_due :: "int \<Rightarrow> subject_row \<Rightarrow> bool" where
  "reset_due now s \<longleftrightarrow> (case s_quota_reset_at s of None \<Rightarrow> False | Some t \<Rightarrow> t \<le> now)"

definition int64_add :: "int \<Rightarrow> int \<Rightarrow> int" where
  "int64_add a b = sint (word_of_int (a + b) :: int64)"

definition reset_row :: "int \<Rightarrow> int \<Rightarrow> bool \<Rightarrow> subject_row \<Rightarrow> subject_row" where
  "reset_row resetAt nextReset unfreeze s =
     (let s' = s\<lparr>s_quota_period_start := Some resetAt, s_quota_used_bytes := 0, s_quota_reset_at := Some nextReset\<rparr>
      in if unfreeze then s'\<lparr>s_enabled := True, s_frozen_at := None, s_frozen_reason := None\<rparr> else s')"

definition reset_tx :: "int \<Rightarrow> int \<Rightarrow> string option \<Rightarrow> panel_db \<Rightarrow> panel_err + (int list \<times> panel_db)" where
  "reset_tx subjectID resetAt frozenReason d =
     (case sql_one (\<lambda>s. s_id s = subjectID) (t_subjects d) of
        None \<Rightarrow> Inl (ErrNoRows ''subjects'')
      | Some s \<Rightarrow>
          let period = (case s_quota_period_seconds s of None \<Rightarrow> DefaultQuotaPeriodSeconds | Some p \<Rightarrow> p);
              unfreeze = (frozenReason = Some ''quota_exceeded'');
              d' = d\<lparr>t_subjects := sql_update (\<lambda>s. s_id s = subjectID)
                     (reset_row resetAt (int64_add resetAt period) unfreeze) (t_subjects d)\<rparr>
          in Inr (if unfreeze then serving_nodes d' else [], d'))"

definition resetSubject :: "committer \<Rightarrow> int \<Rightarrow> int \<Rightarrow> string option \<Rightarrow> panel_db \<Rightarrow> (panel_err + unit) \<times> panel_db" where
  "resetSubject commit subjectID resetAt frozenReason d =
     (case store_write (reset_tx subjectID resetAt frozenReason) d of
        (Inl e, d') \<Rightarrow> (Inl e, d')
      | (Inr nodes, d') \<Rightarrow> commit_all commit ''system:quota-reset'' (''quota reset for subject '' @ fmt_d subjectID) nodes d')"

text \<open>The rows are read before the loop; each reset works with the reset time and the reason read then.\<close>

definition QuotaResetSweeper_Run :: "committer \<Rightarrow> int \<Rightarrow> panel_db \<Rightarrow> (quota_err + unit) \<times> panel_db" where
  "QuotaResetSweeper_Run commit now d =
     (Inr (), fold (\<lambda>s d. snd (resetSubject commit (s_id s) (the (s_quota_reset_at s)) (s_frozen_reason s) d))
        (sql_where (reset_due now) (t_subjects d)) d)"

section \<open>The single pass finds exactly the subjects over quota\<close>

lemma collect_Inr: "collect f xs = Inr ys \<longleftrightarrow> list_all2 (\<lambda>x y. f x = Inr y) xs ys"
  by (induction xs arbitrary: ys) (auto simp: bind_result_Inr list_all2_Cons1)

definition group_bill :: "quota_line \<Rightarrow> int64" where
  "group_bill g = (case Billable (ql_bytes g) (ql_factors g) of Inl e \<Rightarrow> 0 | Inr b \<Rightarrow> b)"

definition bill_computes :: "quota_line \<Rightarrow> bool" where
  "bill_computes g \<longleftrightarrow> is_ok (Billable (ql_bytes g) (ql_factors g))"

lemma quota_loop_step:
  "bill_computes g \<Longrightarrow> quota_loop cur out (g # gs) =
     quota_loop (Some ((if same_subject cur g then the cur else fresh_total g)
        \<lparr>oq_Billable := oq_Billable (if same_subject cur g then the cur else fresh_total g) + group_bill g\<rparr>))
       (if same_subject cur g then out else flush cur out) gs"
  by (cases "Billable (ql_bytes g) (ql_factors g)") (simp_all add: group_bill_def bill_computes_def Let_def)

lemma quota_loop_ok: "quota_loop cur out gs = Inr res \<Longrightarrow> list_all bill_computes gs"
  by (induction gs arbitrary: cur out) (auto simp: bill_computes_def Let_def split: sum.splits)

lemma quota_loop_same:
  assumes "list_all bill_computes seg" "\<forall>g \<in> set seg. ql_subject g = oq_SubjectID c"
  shows "quota_loop (Some c) out (seg @ rest)
    = quota_loop (Some (c\<lparr>oq_Billable := oq_Billable c + sum_list (map group_bill seg)\<rparr>)) out rest"
  using assms
proof (induction seg arbitrary: c)
  case (Cons g seg)
  then have g: "bill_computes g" "same_subject (Some c) g" by (simp_all add: same_subject_def)
  show ?case using Cons.IH [of "c\<lparr>oq_Billable := oq_Billable c + group_bill g\<rparr>"] Cons.prems g
    by (simp add: quota_loop_step add.assoc del: quota_loop.simps)
qed simp

definition segment_total :: "quota_line list \<Rightarrow> over_quota" where
  "segment_total seg = (fresh_total (hd seg))\<lparr>oq_Billable := sum_list (map group_bill seg)\<rparr>"

lemma quota_loop_segment:
  assumes "list_all bill_computes seg" "seg \<noteq> []" "\<forall>g \<in> set seg. ql_subject g = s" "\<not> same_subject cur (hd seg)"
  shows "quota_loop cur out (seg @ rest) = quota_loop (Some (segment_total seg)) (flush cur out) rest"
proof -
  obtain g gs where seg: "seg = g # gs" using assms(2) by (cases seg) auto
  have "quota_loop cur out (seg @ rest) = quota_loop (Some ((fresh_total g)\<lparr>oq_Billable := group_bill g\<rparr>)) (flush cur out) (gs @ rest)"
    using assms by (simp add: seg quota_loop_step fresh_total_def del: quota_loop.simps)
  also have "\<dots> = quota_loop (Some (segment_total seg)) (flush cur out) rest"
    using assms by (subst quota_loop_same) (simp_all add: seg fresh_total_def segment_total_def)
  finally show ?thesis .
qed

lemma flush_append: "flush cur out = out @ flush cur []"
  by (simp add: flush_def split: option.split)

lemma quota_loop_concat:
  assumes "list_all bill_computes (concat segs)"
    and "list_all2 (\<lambda>s seg. \<forall>g \<in> set seg. ql_subject g = s) ss segs" "distinct ss"
    and "\<forall>c. cur = Some c \<longrightarrow> oq_SubjectID c \<notin> set ss"
  shows "quota_loop cur out (concat segs)
    = Inr (flush cur out @ concat (map (\<lambda>seg. if seg = [] then [] else flush (Some (segment_total seg)) []) segs))"
  using assms
proof (induction segs arbitrary: ss cur out)
  case (Cons seg segs)
  obtain s ss' where ss: "ss = s # ss'" using Cons.prems(2) by (cases ss) auto
  show ?case
  proof (cases "seg = []")
    case True
    then show ?thesis using Cons.IH [of ss' cur out] Cons.prems ss by simp
  next
    case False
    then have hd: "ql_subject (hd seg) = s" using Cons.prems(2) ss by simp
    have "\<not> same_subject cur (hd seg)" using Cons.prems(4) ss hd by (auto simp: same_subject_def split: option.split)
    then have "quota_loop cur out (concat (seg # segs)) = quota_loop (Some (segment_total seg)) (flush cur out) (concat segs)"
      using Cons.prems False ss by (simp add: quota_loop_segment [where s = s])
    also have "\<dots> = Inr (flush (Some (segment_total seg)) (flush cur out)
        @ concat (map (\<lambda>seg. if seg = [] then [] else flush (Some (segment_total seg)) []) segs))"
      using Cons.prems ss hd by (intro Cons.IH [of ss']) (auto simp: segment_total_def fresh_total_def)
    also have "flush (Some (segment_total seg)) (flush cur out) = flush cur out @ flush (Some (segment_total seg)) []"
      by (rule flush_append)
    finally show ?thesis using False by simp
  qed
qed simp

lemma sql_groups_nonempty: "rs \<in> set (sql_groups key rows) \<Longrightarrow> rs \<noteq> []"
  by (auto simp: sql_groups_def filter_empty_conv)

lemma sql_groups_Nil: "sql_groups key rows = [] \<longleftrightarrow> rows = []"
proof -
  have "sql_groups key rows = [] \<longleftrightarrow> set (sort (remdups (map key rows))) = {}"
    unfolding sql_groups_def by (metis Nil_is_map_conv set_empty)
  then show ?thesis by simp
qed

lemma list_all2_mem2: "list_all2 P xs ys \<Longrightarrow> y \<in> set ys \<Longrightarrow> \<exists>x \<in> set xs. P x y"
  by (induction rule: list_all2_induct) auto

lemma quota_line_of_Inr:
  "quota_line_of d s rs = Inr g \<Longrightarrow>
     ql_subject g = s_id s \<and> ql_quota g = (case s_quota_bytes s of None \<Rightarrow> 0 | Some q \<Rightarrow> word_of_int q)"
  by (auto simp: quota_line_of_def bind_result_Inr)

lemma quota_segment_lines:
  assumes "quota_segment now d s = Inr seg"
  shows "\<forall>g \<in> set seg. ql_subject g = s_id s \<and> ql_quota g = (case s_quota_bytes s of None \<Rightarrow> 0 | Some q \<Rightarrow> word_of_int q)"
    and "seg = [] \<longleftrightarrow> raw_lines (s_id s) (period_start s) now d = []"
proof -
  have *: "list_all2 (\<lambda>x y. quota_line_of d s x = Inr y) (sql_groups quota_key (raw_lines (s_id s) (period_start s) now d)) seg"
    using assms by (simp add: quota_segment_def collect_Inr)
  then show "seg = [] \<longleftrightarrow> raw_lines (s_id s) (period_start s) now d = []"
    by (metis list_all2_Nil list_all2_Nil2 sql_groups_Nil)
  show "\<forall>g \<in> set seg. ql_subject g = s_id s \<and> ql_quota g = (case s_quota_bytes s of None \<Rightarrow> 0 | Some q \<Rightarrow> word_of_int q)"
    using list_all2_mem2 [OF *] quota_line_of_Inr by blast
qed

text \<open>What a subject owes for its current period: the bill of each of its groups, added up without wrapping.\<close>

definition period_bill :: "int \<Rightarrow> panel_db \<Rightarrow> subject_row \<Rightarrow> int" where
  "period_bill now d s = (case quota_segment now d s of Inl e \<Rightarrow> 0 | Inr seg \<Rightarrow> sum_list (map (\<lambda>g. sint (group_bill g)) seg))"

lemma list_all2_map_eq: "list_all2 (\<lambda>x y. f x = g y) xs ys \<Longrightarrow> map f xs = map g ys"
  by (induction rule: list_all2_induct) auto

lemma list_all2_mono_mem:
  "list_all2 P xs ys \<Longrightarrow> (\<And>x y. x \<in> set xs \<Longrightarrow> P x y \<Longrightarrow> Q x y) \<Longrightarrow> list_all2 Q xs ys"
  by (induction rule: list_all2_induct) auto

lemma sint_sum_list:
  fixes ws :: "int64 list"
  assumes "\<forall>w \<in> set ws. 0 \<le> sint w" "sum_list (map sint ws) < 2 ^ 63"
  shows "sint (sum_list ws) = sum_list (map sint ws)"
  using assms
proof (induction ws)
  case (Cons w ws)
  have nn: "0 \<le> sum_list (map sint ws)" using Cons.prems(1) by (intro sum_list_nonneg) auto
  have w: "0 \<le> sint w" using Cons.prems(1) by simp
  have small: "sum_list (map sint ws) < 2 ^ 63" using Cons.prems(2) w by simp
  then have IH: "sint (sum_list ws) = sum_list (map sint ws)" using Cons by simp
  then have "uint (sum_list ws) < 2 ^ 63" "uint w < 2 ^ 63" using nn w sint_nonneg by metis+
  moreover from this have "uint (sum_list ws) = sum_list (map sint ws)" "uint w = sint w"
    using IH by (simp_all add: sint_eq_uint)
  ultimately have "uint (w + sum_list ws) = sint w + sum_list (map sint ws)"
    using Cons.prems(2) by (subst uint_add_lem [THEN iffD1]) simp_all
  then show ?case using Cons.prems(2) by (simp add: sint_eq_uint)
qed simp

lemma group_bill_nonneg: "0 \<le> sint (group_bill g)"
  by (cases "Billable (ql_bytes g) (ql_factors g)") (auto simp: group_bill_def Billable_Inr(2))

lemma filter_sort_key: "filter P (sort_key f xs) = sort_key f (filter P xs)"
  by (simp add: filter_sort)

lemma concat_if_singleton: "concat (map (\<lambda>x. if P x then [f x] else []) xs) = map f (filter P xs)"
  by (induction xs) auto

definition exceeds :: "int \<Rightarrow> panel_db \<Rightarrow> subject_row \<Rightarrow> bool" where
  "exceeds now d s \<longleftrightarrow> eligible s \<and> raw_lines (s_id s) (period_start s) now d \<noteq> []
     \<and> the (s_quota_bytes s) \<le> period_bill now d s"

lemma sint_word_of_int: "int64_range q \<Longrightarrow> sint (word_of_int q :: int64) = q"
  unfolding int64_range_def by (simp add: sint_sbintrunc' signed_take_bit_int_eq_self_iff)

lemma segment_flush:
  assumes "quota_segment now d s = Inr seg" "eligible s" "period_bill now d s < 2 ^ 63"
    and "\<forall>q. s_quota_bytes s = Some q \<longrightarrow> int64_range q"
  shows "map oq_SubjectID (if seg = [] then [] else flush (Some (segment_total seg)) []) = (if exceeds now d s then [s_id s] else [])"
proof (cases "seg = []")
  case True
  then show ?thesis using quota_segment_lines(2) [OF assms(1)] by (simp add: exceeds_def)
next
  case False
  obtain q where q: "s_quota_bytes s = Some q" using assms(2) by (auto simp: eligible_def)
  have hd: "ql_subject (hd seg) = s_id s" "ql_quota (hd seg) = word_of_int q"
    using quota_segment_lines(1) [OF assms(1)] False q by simp_all
  have pb: "period_bill now d s = sum_list (map sint (map group_bill seg))"
    using assms(1) by (simp add: period_bill_def o_def)
  then have "sint (sum_list (map group_bill seg)) = period_bill now d s"
    using assms(3) sint_sum_list [of "map group_bill seg"] group_bill_nonneg by simp
  then show ?thesis
    using False hd q assms(2,4) quota_segment_lines(2) [OF assms(1)]
    by (simp add: flush_def segment_total_def fresh_total_def exceeds_def sint_word_of_int)
qed


section \<open>Folding does not change a bill over whole hours\<close>

text \<open>All the usage on record as rollup rows, the unfolded deltas as the rows they will fold into.\<close>

definition book :: "panel_db \<Rightarrow> rollup_row list" where
  "book d = t_rollups_hourly d @ map hour_of (unfolded d)"

definition line_of :: "rollup_row \<Rightarrow> usage_line" where
  "line_of r = \<lparr>ul_node = ru_node_id r, ul_service = ru_service_id r, ul_outbound = ru_outbound_id r,
     ul_bytes = ru_uplink r + ru_downlink r\<rparr>"

definition in_window :: "int \<Rightarrow> int \<Rightarrow> int \<Rightarrow> rollup_row \<Rightarrow> bool" where
  "in_window s start stop r \<longleftrightarrow> ru_subject_id r = s \<and> start \<le> ru_start r \<and> ru_start r < stop"

text \<open>Rows the schema allows: real ids, and no outbound, which nothing writes.\<close>

definition attributed :: "rollup_row \<Rightarrow> bool" where
  "attributed r \<longleftrightarrow> ids_positive r \<and> ru_outbound_id r = None"

definition book_ok :: "panel_db \<Rightarrow> bool" where
  "book_ok d \<longleftrightarrow> distinct (map rollup_key (t_rollups_hourly d)) \<and> list_all attributed (t_rollups_hourly d)
     \<and> list_all (\<lambda>x. attributed (hour_of x) \<and> ud_outbound_id x = None \<and> 0 \<le> ud_created_at x) (t_usage_deltas d)"

definition whole_hours :: "int \<Rightarrow> bool" where
  "whole_hours t \<longleftrightarrow> t mod 3600 = 0"

lemma hour_bounds:
  assumes "whole_hours t" "0 \<le> c"
  shows "t \<le> sqlite_div c 3600 * 3600 \<longleftrightarrow> t \<le> c" "sqlite_div c 3600 * 3600 < t \<longleftrightarrow> c < t"
proof -
  define k q r where "k = t div 3600" and "q = c div 3600" and "r = c mod 3600"
  have t: "t = k * 3600" using div_mult_mod_eq [of t 3600] assms(1) unfolding whole_hours_def k_def by linarith
  have c: "c = q * 3600 + r" "0 \<le> r" "r < 3600" by (simp_all add: q_def r_def)
  have "sqlite_div c 3600 = q" using assms(2) by (simp add: sqlite_div_def q_def)
  moreover have "(t \<le> q * 3600 \<longleftrightarrow> t \<le> c) \<and> (q * 3600 < t \<longleftrightarrow> c < t)"
  proof (cases "k \<le> q")
    case True
    then have "t \<le> q * 3600" "t \<le> c" using t c by linarith+
    then show ?thesis by simp
  next
    case False
    then have "q * 3600 < t" "c < t" using t c by linarith+
    then show ?thesis by simp
  qed
  ultimately show "t \<le> sqlite_div c 3600 * 3600 \<longleftrightarrow> t \<le> c" "sqlite_div c 3600 * 3600 < t \<longleftrightarrow> c < t" by simp_all
qed

lemma raw_lines_book:
  assumes "book_ok d" "whole_hours start" "whole_hours stop"
  shows "raw_lines s start stop d = map line_of (filter (in_window s start stop) (book d))"
proof -
  have "map (\<lambda>x. \<lparr>ul_node = Some (ud_node_id x), ul_service = ud_service_id x, ul_outbound = ud_outbound_id x,
                 ul_bytes = ud_uplink x + ud_downlink x\<rparr>)
      (filter (\<lambda>x. ud_subject_id x = s \<and> start \<le> ud_created_at x \<and> ud_created_at x < stop \<and> watermark d < ud_id x) ds)
    = map line_of (filter (in_window s start stop) (map hour_of (filter (\<lambda>r. watermark d < ud_id r) ds)))"
    if "list_all (\<lambda>x. attributed (hour_of x) \<and> ud_outbound_id x = None \<and> 0 \<le> ud_created_at x) ds" for ds
    using that by (induction ds) (auto simp: in_window_def hour_of_def line_of_def hour_bounds assms)
  from this [of "t_usage_deltas d"] show ?thesis
    using assms(1) unfolding raw_lines_def book_def unfolded_def sql_where_def book_ok_def
    by (simp add: in_window_def [abs_def] line_of_def [abs_def])
qed

lemma attributed_lines:
  assumes "attributed r" "attributed r'" "line_key (line_of r) = line_key (line_of r')"
  shows "ul_node (line_of r) = ul_node (line_of r')" "ul_service (line_of r) = ul_service (line_of r')"
    "ul_outbound (line_of r) = ul_outbound (line_of r')"
  using assms coalesce0_inj [of "ru_node_id r" "ru_node_id r'"] coalesce0_inj [of "ru_service_id r" "ru_service_id r'"]
  by (simp_all add: attributed_def ids_positive_def line_key_def line_of_def)

lemma sql_groups_set: "sql_groups key rows = map (\<lambda>k. filter (\<lambda>r. key r = k) rows) (sorted_list_of_set (key ` set rows))"
  unfolding sql_groups_def by (simp add: sorted_list_of_set_sort_remdups [of "map key rows", symmetric])

text \<open>Two books with the same bytes in every bucket give every group the same bill.\<close>

definition same_books :: "rollup_row list \<Rightarrow> rollup_row list \<Rightarrow> bool" where
  "same_books b b' \<longleftrightarrow> list_all attributed b \<and> list_all attributed b' \<and> rollup_key ` set b = rollup_key ` set b'
     \<and> (\<forall>Q. roll_sum ru_uplink Q b = roll_sum ru_uplink Q b' \<and> roll_sum ru_downlink Q b = roll_sum ru_downlink Q b')"

definition window_key :: "int \<Rightarrow> int \<Rightarrow> int \<Rightarrow> int \<times> int \<times> int \<Rightarrow> bucket \<Rightarrow> bool" where
  "window_key s start stop k b = (case b of (s', t, n, v) \<Rightarrow> s' = s \<and> start \<le> t \<and> t < stop \<and> k = (n, v, 0))"

lemma window_key_iff:
  "attributed r \<Longrightarrow> window_key s start stop k (rollup_key r) \<longleftrightarrow> in_window s start stop r \<and> line_key (line_of r) = k"
  by (auto simp: window_key_def rollup_key_def in_window_def line_key_def line_of_def attributed_def coalesce0_def)

abbreviation window_lines :: "int \<Rightarrow> int \<Rightarrow> int \<Rightarrow> rollup_row list \<Rightarrow> usage_line list" where
  "window_lines s start stop b \<equiv> map line_of (filter (in_window s start stop) b)"

lemma group_bytes:
  "list_all attributed b \<Longrightarrow>
   sum_list (map ul_bytes (filter (\<lambda>r. line_key r = k) (window_lines s start stop b)))
     = roll_sum ru_uplink (window_key s start stop k) b + roll_sum ru_downlink (window_key s start stop k) b"
  by (induction b) (auto simp: window_key_iff line_of_def)

lemma window_keys:
  assumes "list_all attributed b"
  shows "line_key ` set (window_lines s start stop b) = {k. \<exists>x \<in> rollup_key ` set b. window_key s start stop k x}"
proof -
  have "k \<in> line_key ` set (window_lines s start stop b) \<longleftrightarrow> (\<exists>r \<in> set b. window_key s start stop k (rollup_key r))" for k
    using assms by (auto simp: list_all_iff window_key_iff)
  then show ?thesis by blast
qed

lemma bill_group_cong:
  assumes "rs \<noteq> []" "rs' \<noteq> []" "sum_list (map ul_bytes rs) = sum_list (map ul_bytes rs')"
    and "ul_node (hd rs) = ul_node (hd rs')" "ul_service (hd rs) = ul_service (hd rs')" "ul_outbound (hd rs) = ul_outbound (hd rs')"
    and "t_nodes d' = t_nodes d" "t_services d' = t_services d" "t_outbounds d' = t_outbounds d"
  shows "bill_group d s coefs rs = bill_group d' s coefs rs'"
proof -
  have coefs: "node_coef d' x = node_coef d x" "service_coef d' x = service_coef d x" "outbound_coef d' x = outbound_coef d x" for x
    unfolding node_coef_def service_coef_def outbound_coef_def assms(7-9) by (rule refl)+
  show ?thesis unfolding bill_group_def sum_bytes_def assms(3-6) coefs by (rule refl)
qed

lemma same_books_groups:
  assumes "same_books b b'" and "t_nodes d' = t_nodes d" "t_services d' = t_services d" "t_outbounds d' = t_outbounds d"
  shows "list_all2 (\<lambda>rs rs'. bill_group d s coefs rs = bill_group d' s coefs rs')
    (sql_groups line_key (window_lines s start stop b)) (sql_groups line_key (window_lines s start stop b'))"
proof -
  have att: "list_all attributed b" "list_all attributed b'" using assms(1) by (simp_all add: same_books_def)
  have keys: "line_key ` set (window_lines s start stop b) = line_key ` set (window_lines s start stop b')"
    unfolding window_keys [OF att(1)] window_keys [OF att(2)] using assms(1) by (simp add: same_books_def)
  let ?ks = "sorted_list_of_set (line_key ` set (window_lines s start stop b))"
  let ?g = "\<lambda>b k. filter (\<lambda>r. line_key r = k) (window_lines s start stop b)"
  have "bill_group d s coefs (?g b k) = bill_group d' s coefs (?g b' k)" if "k \<in> set ?ks" for k
  proof (rule bill_group_cong)
    have k: "k \<in> line_key ` set (window_lines s start stop b)" using that by simp
    then have k': "k \<in> line_key ` set (window_lines s start stop b')" using keys by simp
    show ne: "?g b k \<noteq> []" and ne': "?g b' k \<noteq> []" using k k' by (auto simp: filter_empty_conv)
    show "sum_list (map ul_bytes (?g b k)) = sum_list (map ul_bytes (?g b' k))"
      unfolding group_bytes [OF att(1)] group_bytes [OF att(2)] using assms(1) by (simp add: same_books_def)
    have "hd (?g b k) \<in> set (?g b k)" "hd (?g b' k) \<in> set (?g b' k)"
      by (rule hd_in_set [OF ne], rule hd_in_set [OF ne'])
    then obtain r r' where r: "hd (?g b k) = line_of r" "attributed r" "hd (?g b' k) = line_of r'" "attributed r'"
      and "line_key (line_of r) = line_key (line_of r')"
      using att by (auto simp: list_all_iff)
    then show "ul_node (hd (?g b k)) = ul_node (hd (?g b' k))" "ul_service (hd (?g b k)) = ul_service (hd (?g b' k))"
      "ul_outbound (hd (?g b k)) = ul_outbound (hd (?g b' k))"
      using attributed_lines [of r r'] by simp_all
  qed (use assms(2-4) in simp_all)
  then have "list_all2 (\<lambda>k k'. bill_group d s coefs (?g b k) = bill_group d' s coefs (?g b' k')) ?ks ?ks"
    by (simp add: list_all2_same)
  then show ?thesis unfolding sql_groups_set keys [symmetric] list_all2_map1 list_all2_map2 .
qed

lemma bill_groups_cong:
  "list_all2 (\<lambda>rs rs'. bill_group d s coefs rs = bill_group d' s coefs rs') gs gs' \<Longrightarrow>
     bill_groups d s coefs gs report = bill_groups d' s coefs gs' report"
  by (induction arbitrary: report rule: list_all2_induct) simp_all

lemma upsert_rows:
  assumes "upsert name mrg gs t = Inr t'" "list_all P t" "list_all P gs" "\<And>r g. P r \<Longrightarrow> P (mrg r g)"
  shows "list_all P t'"
  using assms(1-3)
proof (induction gs arbitrary: t)
  case (Cons g gs)
  have "list_all P (sql_update (\<lambda>r. rollup_key r = rollup_key g) (\<lambda>r. mrg r g) t)"
    unfolding list_all_iff ball_sql_update using Cons.prems(2) assms(4) by (simp add: list_all_iff)
  then show ?case using Cons by (auto split: option.splits if_splits)
qed simp

lemma attributed_group:
  assumes "list_all attributed rows"
  shows "list_all attributed (sql_group rows)"
proof -
  have "attributed (group_row (group_key r) rs)" if "r \<in> set rows" for r rs
    using that assms by (auto simp: list_all_iff attributed_def ids_positive_def group_row_def group_key_def)
  then show ?thesis by (auto simp: sql_group_def list_all_iff)
qed

lemma book_after_fold:
  assumes "book_ok d" "RollupHourly now d = (Inr (), d')"
  shows "book_ok d'" "same_books (book d) (book d')"
proof -
  have di: "distinct (map rollup_key (t_rollups_hourly d))" using assms(1) by (simp add: book_ok_def)
  have att: "list_all attributed (map hour_of (unfolded d))" "list_all attributed (t_rollups_hourly d)"
    using assms(1) by (auto simp: book_ok_def unfolded_def list_all_iff)
  have fold: "recorded ru_uplink Q d' = recorded ru_uplink Q d" "recorded ru_downlink Q d' = recorded ru_downlink Q d"
      "unfolded d' = []" "distinct (map rollup_key (t_rollups_hourly d'))" for Q
    using rollup_hourly_fold [OF di assms(2), of Q] by blast+
  have "list_all attributed (t_rollups_hourly d') \<and> t_usage_deltas d' = t_usage_deltas d
     \<and> rollup_key ` set (t_rollups_hourly d') = rollup_key ` set (book d)"
  proof (rule RollupHourly_ok [OF assms(2)])
    assume "d' = d" "unfolded d = []"
    then show ?thesis using att by (simp add: book_def)
  next
    fix t
    assume t: "upsert ''usage_rollups_hourly'' add_rollup (sql_group (map hour_of (unfolded d))) (t_rollups_hourly d) = Inr t"
      and d': "d' = d\<lparr>t_rollups_hourly := t, t_rollup_state := Some (delta_ceiling d)\<rparr>"
    have "list_all attributed t"
      by (rule upsert_rows [OF t att(2) attributed_group [OF att(1)]]) (simp add: attributed_def ids_positive_def add_rollup_def)
    moreover have "rollup_key ` set t = rollup_key ` set (book d)"
      using upsert_keys [OF t di] by (simp add: rollup_key_sql_group book_def image_Un)
    ultimately show ?thesis by (simp add: d')
  qed
  then show "book_ok d'" "same_books (book d) (book d')"
    using assms(1) fold att by (simp_all add: book_ok_def same_books_def book_def recorded_def)
qed

text \<open>when a bill is computed does not matter. Over a window of whole hours the report for a subject, with its
  groups, coefficients, totals and errors, is the same before and after the hourly fold: usage is in
  exactly one of the two places the query reads.\<close>
theorem bill_unchanged_by_fold:
  assumes "book_ok d" and "RollupHourly now d = (Inr (), d')" and "whole_hours start" and "whole_hours stop"
  shows "BillableForSubject s start stop d' = BillableForSubject s start stop d"
proof -
  have frame: "d'\<lparr>t_rollups_hourly := t_rollups_hourly d, t_rollup_state := t_rollup_state d\<rparr> = d"
    using rollup_hourly_fold [OF _ assms(2)] assms(1) by (simp add: book_ok_def)
  have same: "t_nodes d' = t_nodes d" "t_services d' = t_services d" "t_outbounds d' = t_outbounds d"
    "t_subjects d' = t_subjects d" "t_resellers d' = t_resellers d" "t_reseller_subjects d' = t_reseller_subjects d"
    using arg_cong [OF frame, of t_nodes] arg_cong [OF frame, of t_services] arg_cong [OF frame, of t_outbounds]
      arg_cong [OF frame, of t_subjects] arg_cong [OF frame, of t_resellers] arg_cong [OF frame, of t_reseller_subjects]
    by simp_all
  have coefs: "subjectCoefficients d' s = subjectCoefficients d s"
    unfolding subjectCoefficients_def reseller_coef_def same by (rule refl)
  note after = book_after_fold [OF assms(1,2)]
  have "bill_groups d s c (sql_groups line_key (raw_lines s start stop d)) r
      = bill_groups d' s c (sql_groups line_key (raw_lines s start stop d')) r" for c r
    unfolding raw_lines_book [OF assms(1,3,4)] raw_lines_book [OF after(1) assms(3,4)]
    by (intro bill_groups_cong same_books_groups after(2) same(1-3))
  then show ?thesis unfolding BillableForSubject_def coefs by simp
qed

section \<open>The commit interface\<close>

text \<open>
  What the sweepers rely on when they commit a node: no table other than the nodes and the revision log
  changes, the revision invariant is kept, a node whose commit succeeds is labelled with the
  document it now has, and commits of other nodes and failing commits leave that label valid.
\<close>

definition subject_view :: "panel_db \<Rightarrow> subject_row list \<times> service_row list \<times> (int \<times> int) list \<times> int list" where
  "subject_view d = (t_subjects d, t_services d, t_subject_services d, map n_id (t_nodes d))"

lemma commit_all_Cons:
  "commit_all commit a r (n # ns) d =
     (if is_ok (fst (commit n a r d)) then commit_all commit a r ns (snd (commit n a r d)) else commit n a r d)"
  by (cases "commit n a r d") (auto simp: is_ok_def split: sum.splits)

locale node_committer =
  fixes commit :: committer and good :: "panel_db \<Rightarrow> bool" and labelled :: "int \<Rightarrow> panel_db \<Rightarrow> bool"
  assumes commit_view: "subject_view (snd (commit n a r d)) = subject_view d"
    and commit_good: "good d \<Longrightarrow> good (snd (commit n a r d))"
    and commit_labels: "good d \<Longrightarrow> fst (commit n a r d) = Inr () \<Longrightarrow> labelled n (snd (commit n a r d))"
    and commit_keeps: "good d \<Longrightarrow> labelled m d \<Longrightarrow> labelled m (snd (commit n a r d))"
begin

lemma commit_all_view: "subject_view (snd (commit_all commit a r ns d)) = subject_view d"
  by (induction ns arbitrary: d) (simp_all add: commit_all_Cons commit_view del: commit_all.simps(2))

lemma commit_all_good: "good d \<Longrightarrow> good (snd (commit_all commit a r ns d))"
  by (induction ns arbitrary: d) (simp_all add: commit_all_Cons commit_good del: commit_all.simps(2))

lemma commit_all_keeps: "good d \<Longrightarrow> labelled m d \<Longrightarrow> labelled m (snd (commit_all commit a r ns d))"
  by (induction ns arbitrary: d) (simp_all add: commit_all_Cons commit_good commit_keeps del: commit_all.simps(2))

lemma commit_all_labels:
  "good d \<Longrightarrow> fst (commit_all commit a r ns d) = Inr () \<Longrightarrow> m \<in> set ns \<Longrightarrow> labelled m (snd (commit_all commit a r ns d))"
proof (induction ns arbitrary: d)
  case (Cons n ns)
  let ?d = "snd (commit n a r d)"
  have ok: "is_ok (fst (commit n a r d))"
    using Cons.prems(2) by (cases "is_ok (fst (commit n a r d))") (auto simp: commit_all_Cons simp del: commit_all.simps(2))
  then have "fst (commit n a r d) = Inr ()" by (cases "fst (commit n a r d)") auto
  then have "labelled n ?d" by (rule commit_labels [OF Cons.prems(1)])
  moreover have "good ?d" by (rule commit_good [OF Cons.prems(1)])
  ultimately show ?case
    using Cons.IH [of ?d] Cons.prems ok commit_all_keeps [of ?d n a r ns]
    by (auto simp: commit_all_Cons simp del: commit_all.simps(2))
qed simp

lemma freeze_result:
  "snd (freezeSubject commit sid now d)
     = snd (commit_all commit ''system:quota-enforcer'' (''quota exceeded for subject '' @ fmt_d sid)
         (serving_nodes (freeze_update sid now d)) (freeze_update sid now d))"
  "fst (freezeSubject commit sid now d)
     = fst (commit_all commit ''system:quota-enforcer'' (''quota exceeded for subject '' @ fmt_d sid)
         (serving_nodes (freeze_update sid now d)) (freeze_update sid now d))"
  by (simp_all add: freezeSubject_def store_write_def Let_def)

lemma freeze_subjects: "t_subjects (snd (freezeSubject commit sid now d)) = t_subjects (freeze_update sid now d)"
  using commit_all_view unfolding freeze_result(1) subject_view_def by auto

end

section \<open>The panel's commit\<close>

definition labelled_with :: "codec \<Rightarrow> unsealer \<Rightarrow> int \<Rightarrow> int \<Rightarrow> panel_db \<Rightarrow> bool" where
  "labelled_with c u now nid d \<longleftrightarrow>
     (\<exists>snap. BuildDesiredSnapshot c u now nid d = Inr snap \<and> latest_sha d nid = snap_SHA256 snap)"

lemma Build_frame_node:
  assumes "get_node d' nid = get_node d nid" "t_services d' = t_services d" "t_subjects d' = t_subjects d"
    "t_subject_services d' = t_subject_services d" "t_subject_credentials d' = t_subject_credentials d"
    "t_outbounds d' = t_outbounds d" "t_routing_rules d' = t_routing_rules d" "t_balancers d' = t_balancers d"
  shows "BuildDesiredSnapshot c u now nid d' = BuildDesiredSnapshot c u now nid d"
  unfolding BuildDesiredSnapshot_def build_document_def buildDNS_def buildRouting_def buildBalancers_def
    buildOutbounds_def buildSubjects_def entitled_ids_def entitled_def [abs_def] build_subject_def [abs_def]
    subjectCredentials_def build_services_def assms ..

lemma commit_tx_Inr_cases:
  assumes "commit_tx c u now nid a rid reason Inr d = Inr (r, d')"
  shows "d' = d \<or> (\<exists>nxt row au. rev_node_id row = nid \<and> d' = committed d nid nxt row au)"
  using assms by (cases rule: commit_tx_cases) blast+

lemma commit_func_cases:
  obtains "snd (commit_func c u now nid a reason d) = d"
  | nxt row au where "rev_node_id row = nid" "snd (commit_func c u now nid a reason d) = committed d nid nxt row au"
proof (cases "commit_tx c u now nid (SystemActor a) '''' reason Inr d")
  case (Inl e)
  then show thesis using that(1) by (simp add: commit_func_def CommitNodeChange_def store_write_def)
next
  case (Inr p)
  obtain r d' where p: "p = (r, d')" by (cases p)
  have "snd (commit_func c u now nid a reason d) = d'"
    using Inr p by (simp add: commit_func_def CommitNodeChange_def store_write_def)
  then show thesis using commit_tx_Inr_cases [OF Inr [unfolded p]] that by metis
qed

lemma commit_func_ok:
  "fst (commit_func c u now nid a reason d) = Inr () \<Longrightarrow>
     \<exists>r. commit_tx c u now nid (SystemActor a) '''' reason Inr d = Inr (r, snd (commit_func c u now nid a reason d))"
  by (auto simp: commit_func_def CommitNodeChange_def store_write_def split: sum.splits)

lemma get_node_committed: "m \<noteq> nid \<Longrightarrow> get_node (committed d nid nxt row au) m = get_node d m"
  unfolding get_node_def committed_def by (simp add: sql_one_update_key) (cases "sql_one (\<lambda>n. n_id n = m) (t_nodes d)"; auto dest: sql_one_Some)

lemma commit_func_get_node:
  "fst (commit_func c u now nid a reason d) = Inr () \<Longrightarrow> \<exists>n. get_node d nid = Some n"
  by (drule commit_func_ok) (auto elim!: commit_tx_cases Build_revision)

lemma commit_func_view: "subject_view (snd (commit_func c u now n a r d)) = subject_view d"
  by (rule commit_func_cases [of c u now n a r d]) (simp_all add: subject_view_def committed_def)

lemma commit_func_good: "rev_inv d \<Longrightarrow> rev_inv (snd (commit_func c u now n a r d))"
  using commit_rev_inv [OF _ Inr_respects, of d c u now n "SystemActor a" "''''" r]
  by (auto simp: commit_func_def split: prod.splits sum.splits)

lemma commit_func_labels:
  assumes "rev_inv d" "fst (commit_func c u now n a r d) = Inr ()"
  shows "labelled_with c u now n (snd (commit_func c u now n a r d))"
proof -
  obtain res where tx: "commit_tx c u now n (SystemActor a) '''' r Inr d = Inr (res, snd (commit_func c u now n a r d))"
    using commit_func_ok [OF assms(2)] by blast
  obtain row where "get_node d n = Some row" using commit_func_get_node [OF assms(2)] by blast
  from commit_spec(2,3) [OF assms(1) Inr_respects this tx] show ?thesis by (auto simp: labelled_with_def)
qed

lemma committed_keeps_label:
  assumes "m \<noteq> n" "rev_node_id row = n"
  shows "labelled_with c u now m (committed d n nxt row au) = labelled_with c u now m d"
proof -
  have "BuildDesiredSnapshot c u now m (committed d n nxt row au) = BuildDesiredSnapshot c u now m d"
    by (rule Build_frame_node, rule get_node_committed [OF assms(1)]) (simp_all add: committed_def)
  moreover have "latest_sha (committed d n nxt row au) m = latest_sha d m"
    using assms by (simp add: latest_sha_def max_revision_def)
  ultimately show ?thesis by (simp add: labelled_with_def)
qed

lemma commit_func_keeps:
  assumes "rev_inv d" "labelled_with c u now m d"
  shows "labelled_with c u now m (snd (commit_func c u now n a r d))"
proof (cases "m = n \<and> fst (commit_func c u now n a r d) = Inr ()")
  case True
  then show ?thesis using commit_func_labels [OF assms(1)] by simp
next
  case False
  show ?thesis
  proof (cases "m = n")
    case True
    then have "snd (commit_func c u now n a r d) = d"
      using False by (auto simp: commit_func_def CommitNodeChange_def store_write_def split: sum.splits)
    then show ?thesis using assms(2) by simp
  next
    case neq: False
    show ?thesis
      by (rule commit_func_cases [of c u now n a r d]) (use assms(2) committed_keeps_label [OF neq] in simp_all)
  qed
qed

interpretation panel_commit: node_committer "commit_func c u now" rev_inv "labelled_with c u now" for c u now
  by unfold_locales (rule commit_func_view commit_func_good commit_func_labels commit_func_keeps; assumption)+

section \<open>A freeze reaches the nodes\<close>

lemma frozen_not_entitled: "\<forall>s \<in> set (t_subjects (freeze_update sid now d)). s_id s = sid \<longrightarrow> \<not> s_enabled s"
  by (simp add: freeze_update_def ball_sql_update freeze_row_def)

lemma not_entitled_not_built:
  assumes "BuildDesiredSnapshot c u now nid d = Inr snap" "\<forall>s \<in> set (t_subjects d). s_id s = sid \<longrightarrow> \<not> s_enabled s"
  shows "sid \<notin> set (map subj_ID (Subjects (snap_Document snap)))"
proof -
  obtain subs where "buildSubjects d now nid u = Inr subs" "Subjects (snap_Document snap) = subs"
    using assms(1) by (rule build_document_Inr)
  then have "map subj_ID (Subjects (snap_Document snap)) = entitled_ids d now nid" using buildSubjects_ids by blast
  then show ?thesis using assms(2) by (auto simp: entitled_ids_def entitled_def)
qed

lemma freeze_update_rev: "rev_inv d \<Longrightarrow> rev_inv (freeze_update sid now d)"
  by (rule rev_inv_view [of _ d]) (simp_all add: freeze_update_def rev_view_def)

text \<open>C21: a freeze is enforced where it matters. When the sweeper's freeze of a subject returns without error, every
  node with an enabled service is labelled with the digest of the document it now has, and that document does
  not contain the subject; the subject is disabled, every other subject is as before and the revision
  history is intact.\<close>
theorem freeze_reaches_nodes:
  assumes "rev_inv d" and "freezeSubject (commit_func c u cnow) sid now d = (Inr (), d')"
  shows "(\<forall>nid \<in> set (serving_nodes d). \<exists>snap. BuildDesiredSnapshot c u cnow nid d' = Inr snap
        \<and> latest_sha d' nid = snap_SHA256 snap \<and> sid \<notin> set (map subj_ID (Subjects (snap_Document snap))))
    \<and> t_subjects d' = map (\<lambda>s. if s_id s = sid \<and> s_enabled s then freeze_row now s else s) (t_subjects d)
    \<and> rev_inv d'"
proof -
  let ?f = "freeze_update sid now d"
  have d': "d' = snd (freezeSubject (commit_func c u cnow) sid now d)" and ok: "fst (freezeSubject (commit_func c u cnow) sid now d) = Inr ()"
    using assms(2) by simp_all
  have subj: "t_subjects d' = t_subjects ?f" unfolding d' by (rule panel_commit.freeze_subjects)
  have good: "rev_inv ?f" by (rule freeze_update_rev [OF assms(1)])
  have nodes: "serving_nodes ?f = serving_nodes d" by (simp add: serving_nodes_def freeze_update_def)
  have "labelled_with c u cnow nid d'" if "nid \<in> set (serving_nodes d)" for nid
    using panel_commit.commit_all_labels [OF good] ok that unfolding d' panel_commit.freeze_result nodes by blast
  moreover have "sid \<notin> set (map subj_ID (Subjects (snap_Document snap)))" if "BuildDesiredSnapshot c u cnow nid d' = Inr snap" for nid snap
    by (rule not_entitled_not_built [OF that]) (unfold subj, rule frozen_not_entitled)
  moreover have "rev_inv d'" unfolding d' panel_commit.freeze_result by (rule panel_commit.commit_all_good [OF good])
  ultimately show ?thesis unfolding labelled_with_def
    by (intro conjI ballI) (blast, simp_all add: subj freeze_update_def sql_update_def)
qed

definition quota_db :: panel_db where
  "quota_db = snd (IngestUsageReport 1 1 demo_samples 7200
     (demo_db\<lparr>t_subjects := [demo_subject 4, (demo_subject 5)\<lparr>s_quota_bytes := Some 250\<rparr>]\<rparr>))"

theorem freeze_reaches_nodes_witness:
  "let d' = snd (freezeSubject (commit_func demo_codec (Some Some) 8000) 5 8000 quota_db)
   in latest_sha d' 1 = ''rpps'' \<and> map s_enabled (t_subjects d') = [True, False] \<and> rev_inv d'"
proof -
  have inv: "rev_inv quota_db" by code_simp
  have "is_ok (fst (freezeSubject (commit_func demo_codec (Some Some) 8000) 5 8000 quota_db))" by code_simp
  then have ok: "freezeSubject (commit_func demo_codec (Some Some) 8000) 5 8000 quota_db
      = (Inr (), snd (freezeSubject (commit_func demo_codec (Some Some) 8000) 5 8000 quota_db))"
    by (cases "freezeSubject (commit_func demo_codec (Some Some) 8000) 5 8000 quota_db") (auto simp: is_ok_def split: sum.splits)
  have 1: "latest_sha (snd (freezeSubject (commit_func demo_codec (Some Some) 8000) 5 8000 quota_db)) 1 = ''rpps''" by code_simp
  have 2: "map s_enabled (map (\<lambda>s. if s_id s = 5 \<and> s_enabled s then freeze_row 8000 s else s) (t_subjects quota_db)) = [True, False]"
    by code_simp
  show ?thesis unfolding Let_def using freeze_reaches_nodes [OF inv ok] 1 2 by metis
qed

text \<open>the freeze and the commits are separate transactions and the freeze is never retried: when the commit of a
  node fails, the subject is frozen in the database, the node keeps the document that serves it, and the next
  sweep does nothing, because the subject is already frozen.\<close>
theorem freeze_commit_gap:
  "\<exists>d now. let d1 = snd (QuotaEnforcementSweeper_Run (commit_func demo_codec None now) now d);
      d2 = snd (QuotaEnforcementSweeper_Run (commit_func demo_codec (Some Some) (now + 300)) (now + 300) d1)
    in findSubjectsOverQuota now d = Inr [\<lparr>oq_SubjectID = 5, oq_Billable = 300, oq_Quota = 250\<rparr>]
      \<and> map s_enabled (t_subjects d2) = [True, False]
      \<and> t_node_revisions d2 = t_node_revisions d \<and> findSubjectsOverQuota (now + 300) d1 = Inr []"
proof -
  let ?d1 = "snd (QuotaEnforcementSweeper_Run (commit_func demo_codec None 8000) 8000 quota_db)"
  let ?d2 = "snd (QuotaEnforcementSweeper_Run (commit_func demo_codec (Some Some) (8000 + 300)) (8000 + 300) ?d1)"
  have 1: "findSubjectsOverQuota 8000 quota_db = Inr [\<lparr>oq_SubjectID = 5, oq_Billable = 300, oq_Quota = 250\<rparr>]" by code_simp
  have 2: "map s_enabled (t_subjects ?d2) = [True, False]" by code_simp
  have 3: "t_node_revisions ?d2 = t_node_revisions quota_db" by code_simp
  have 4: "findSubjectsOverQuota (8000 + 300) ?d1 = Inr []" by code_simp
  show ?thesis unfolding Let_def by (intro exI [of _ quota_db] exI [of _ 8000] conjI 1 2 3 4)
qed


theorem bill_unchanged_by_fold_witness:
  "BillableForSubject 5 7200 10800 (snd (RollupHourly 0 quota_db)) = BillableForSubject 5 7200 10800 quota_db
   \<and> br_Billable (projr (BillableForSubject 5 7200 10800 quota_db)) = 300"
proof -
  have 1: "book_ok quota_db" by code_simp
  have "is_ok (fst (RollupHourly 0 quota_db))" by code_simp
  then have 2: "RollupHourly 0 quota_db = (Inr (), snd (RollupHourly 0 quota_db))"
    by (cases "RollupHourly 0 quota_db") (auto simp: is_ok_def split: sum.splits)
  have 3: "whole_hours 7200" "whole_hours 10800" by (simp_all add: whole_hours_def)
  have "br_Billable (projr (BillableForSubject 5 7200 10800 quota_db)) = 300" by code_simp
  then show ?thesis using bill_unchanged_by_fold [OF 1 2 3] by simp
qed

text \<open>two ways a quota is missed. When the period does not start on a whole hour, folding moves the usage of the
  first partial hour into a bucket that starts before the period, and a subject found over quota a moment ago is
  no longer found; and the 64-bit total of a subject's groups wraps, so that a subject far over quota is not found.\<close>
theorem quota_missed:
  "(\<exists>d now. findSubjectsOverQuota now d = Inr [\<lparr>oq_SubjectID = 5, oq_Billable = 300, oq_Quota = 250\<rparr>]
      \<and> findSubjectsOverQuota now (snd (RollupHourly now d)) = Inr [])
   \<and> (\<exists>d now s. s \<in> set (t_subjects d) \<and> exceeds now d s \<and> findSubjectsOverQuota now d = Inr [])"
proof
  let ?d = "quota_db\<lparr>t_subjects := [(demo_subject 5)\<lparr>s_quota_bytes := Some 250, s_quota_period_start := Some 7190\<rparr>],
     t_usage_deltas := map (\<lambda>r. r\<lparr>ud_created_at := 7195\<rparr>) (t_usage_deltas quota_db)\<rparr>"
  have "findSubjectsOverQuota 8000 ?d = Inr [\<lparr>oq_SubjectID = 5, oq_Billable = 300, oq_Quota = 250\<rparr>]" by code_simp
  moreover have "findSubjectsOverQuota 8000 (snd (RollupHourly 8000 ?d)) = Inr []" by code_simp
  ultimately show "\<exists>d now. findSubjectsOverQuota now d = Inr [\<lparr>oq_SubjectID = 5, oq_Billable = 300, oq_Quota = 250\<rparr>]
      \<and> findSubjectsOverQuota now (snd (RollupHourly now d)) = Inr []" by blast
  let ?row = "\<lambda>v. \<lparr>ru_subject_id = 5, ru_node_id = Some 1, ru_service_id = Some v, ru_outbound_id = None, ru_start = 7200,
     ru_uplink = 4611686018427387904, ru_downlink = 0\<rparr>"
  let ?s = "(demo_subject 5)\<lparr>s_quota_bytes := Some 250\<rparr>"
  let ?e = "demo_db\<lparr>t_subjects := [?s], t_rollups_hourly := [?row 1, ?row 2]\<rparr>"
  have "?s \<in> set (t_subjects ?e)" by simp
  moreover have "exceeds 8000 ?e ?s" by code_simp
  moreover have "findSubjectsOverQuota 8000 ?e = Inr []" by code_simp
  ultimately show "\<exists>d now s. s \<in> set (t_subjects d) \<and> exceeds now d s \<and> findSubjectsOverQuota now d = Inr []" by blast
qed

section \<open>The reset\<close>

definition due_row :: "int \<Rightarrow> subject_row \<Rightarrow> subject_row" where
  "due_row now s = (if reset_due now s then
     reset_row (the (s_quota_reset_at s))
       (int64_add (the (s_quota_reset_at s))
          (case s_quota_period_seconds s of None \<Rightarrow> DefaultQuotaPeriodSeconds | Some p \<Rightarrow> p))
       (s_frozen_reason s = Some ''quota_exceeded'') s
   else s)"

lemma s_id_due [simp]: "s_id (due_row now s) = s_id s"
  by (simp add: due_row_def reset_row_def Let_def)

context node_committer
begin

lemma reset_subjects:
  assumes "sql_one (\<lambda>x. s_id x = s_id s) (t_subjects d) = Some s" "reset_due now s"
  shows "t_subjects (snd (resetSubject commit (s_id s) (the (s_quota_reset_at s)) (s_frozen_reason s) d))
    = sql_update (\<lambda>x. s_id x = s_id s) (\<lambda>x. reset_row (the (s_quota_reset_at s))
       (int64_add (the (s_quota_reset_at s))
          (case s_quota_period_seconds s of None \<Rightarrow> DefaultQuotaPeriodSeconds | Some p \<Rightarrow> p))
       (s_frozen_reason s = Some ''quota_exceeded'') x) (t_subjects d)"
proof -
  have view: "t_subjects (snd (commit_all commit a r ns e)) = t_subjects e" for a r ns e
    using commit_all_view [of a r ns e] by (simp add: subject_view_def)
  show ?thesis
    unfolding resetSubject_def store_write_def reset_tx_def assms(1) Let_def by (simp add: view)
qed

lemma reset_all:
  assumes "distinct (map s_id (t_subjects d))" "distinct (map s_id due)" "set due \<subseteq> set (t_subjects d)"
    and "list_all (reset_due now) due"
  shows "t_subjects (fold (\<lambda>s d. snd (resetSubject commit (s_id s) (the (s_quota_reset_at s)) (s_frozen_reason s) d)) due d)
      = map (\<lambda>s. if s \<in> set due then due_row now s else s) (t_subjects d)"
  using assms
proof (induction due arbitrary: d)
  case (Cons s due)
  let ?d = "snd (resetSubject commit (s_id s) (the (s_quota_reset_at s)) (s_frozen_reason s) d)"
  have s: "s \<in> set (t_subjects d)" "reset_due now s" using Cons.prems by simp_all
  have uniq: "x = s" if "x \<in> set (t_subjects d)" "s_id x = s_id s" for x
    using that s(1) Cons.prems(1) inj_onD [of s_id "set (t_subjects d)" x s] by (simp add: distinct_map)
  have "sql_one (\<lambda>x. s_id x = s_id s) (t_subjects d) = Some s" using sql_one_key [OF Cons.prems(1)] s by simp
  note r = reset_subjects [OF this s(2)]
  have rows: "t_subjects ?d = map (\<lambda>x. if x = s then due_row now x else x) (t_subjects d)"
    unfolding r sql_update_def using uniq s(2) by (intro map_cong) (auto simp: due_row_def)
  have ids: "map s_id (t_subjects ?d) = map s_id (t_subjects d)" unfolding rows by simp
  have notin: "s_id s \<notin> s_id ` set due" using Cons.prems(2) by simp
  have "set due \<subseteq> set (t_subjects ?d)"
    unfolding rows using Cons.prems(3) notin by (auto simp: image_iff)
  then have "t_subjects (fold (\<lambda>s d. snd (resetSubject commit (s_id s) (the (s_quota_reset_at s)) (s_frozen_reason s) d)) due ?d)
      = map (\<lambda>s. if s \<in> set due then due_row now s else s) (t_subjects ?d)"
    using Cons.IH [of ?d] Cons.prems(1,2,4) ids by simp
  also have "\<dots> = map (\<lambda>x. if x \<in> set (s # due) then due_row now x else x) (t_subjects d)"
  proof -
    have "due_row now s \<notin> set due" using notin s_id_due [of now s] by (metis imageI)
    then show ?thesis unfolding rows map_map using notin by (intro map_cong) auto
  qed
  finally show ?case by simp
qed simp

end

text \<open>the reset sweeper opens the next period for exactly the subjects whose reset time has come: their counter
  is zero, the new period starts at the old reset time and ends one period later (thirty days when none is
  recorded), and a subject frozen for quota is enabled and unfrozen again, while a subject frozen for another
  reason stays frozen; every other subject is untouched, whatever the commits do.\<close>
theorem quota_reset_exact:
  assumes "distinct (map s_id (t_subjects d))"
  shows "t_subjects (snd (QuotaResetSweeper_Run (commit_func c u cnow) now d)) = map (due_row now) (t_subjects d)"
proof -
  let ?due = "sql_where (reset_due now) (t_subjects d)"
  have "distinct (map s_id ?due)" unfolding sql_where_def using assms by (rule distinct_map_filter)
  then have "t_subjects (snd (QuotaResetSweeper_Run (commit_func c u cnow) now d))
      = map (\<lambda>s. if s \<in> set ?due then due_row now s else s) (t_subjects d)"
    using panel_commit.reset_all [OF assms, of ?due now c u cnow]
    unfolding QuotaResetSweeper_Run_def by (simp add: list_all_iff)
  also have "\<dots> = map (due_row now) (t_subjects d)" by (rule map_cong) (auto simp: due_row_def)
  finally show ?thesis .
qed

theorem quota_reset_exact_witness:
  "map (\<lambda>s. (s_enabled s, s_quota_used_bytes s, s_quota_reset_at s))
     (t_subjects (snd (QuotaResetSweeper_Run (commit_func demo_codec (Some Some) 9000) 9000
        (freeze_update 5 8000 (quota_db\<lparr>t_subjects := map (\<lambda>s. s\<lparr>s_quota_reset_at := Some 8500\<rparr>) (t_subjects quota_db)\<rparr>)))))
   = [(True, 0, Some 2600500), (True, 0, Some 2600500)]"
proof -
  let ?d = "freeze_update 5 8000 (quota_db\<lparr>t_subjects := map (\<lambda>s. s\<lparr>s_quota_reset_at := Some 8500\<rparr>) (t_subjects quota_db)\<rparr>)"
  have 1: "distinct (map s_id (t_subjects ?d))" by code_simp
  have "map (\<lambda>s. (s_enabled s, s_quota_used_bytes s, s_quota_reset_at s)) (map (due_row 9000) (t_subjects ?d))
      = [(True, 0, Some 2600500), (True, 0, Some 2600500)]" by code_simp
  then show ?thesis by (simp only: quota_reset_exact [OF 1])
qed

end
