(* ===== verification/Subjects.thy ===== *)
theory Subjects
  imports Quota
begin

text \<open>
  The people a node serves: \<open>src/internal/panel/subjects/subjects.go\<close> (creation, credentials, changes,
  deletion), \<open>tokens.go\<close> (subscription links) and \<open>sweeper.go\<close> (expiry).

  The methods that take a transaction are functions on the database that return an error or the changed database;
  the caller's transaction rolls an error back. What is not in the repository is an argument: the random values the
  operating system and \<open>google/uuid\<close> yield, whether a string parses as a UUID, and the secret box.
\<close>

section \<open>Subjects\<close>

record Subject =
  sub_ID :: int
  sub_Name :: string
  sub_Enabled :: bool
  sub_ExpiresAt :: "int option"
  sub_ExpiredAt :: "int option"
  sub_CreatedAt :: int
  sub_Note :: string
  sub_QuotaBytes :: "int option"
  sub_QuotaUsedBytes :: int
  sub_FrozenAt :: "int option"
  sub_MaxDevices :: "int option"
  sub_MaxIPs :: "int option"
  sub_MaxConnections :: "int option"

definition Expired :: "Subject \<Rightarrow> int \<Rightarrow> bool" where
  "Expired s t \<longleftrightarrow> (case sub_ExpiresAt s of None \<Rightarrow> False | Some e \<Rightarrow> \<not> t < e)"

definition Active :: "Subject \<Rightarrow> int \<Rightarrow> bool" where
  "Active s t \<longleftrightarrow> sub_Enabled s \<and> \<not> Expired s t"

definition scanSubject :: "subject_row \<Rightarrow> Subject" where
  "scanSubject r = \<lparr>sub_ID = s_id r, sub_Name = s_name r, sub_Enabled = s_enabled r, sub_ExpiresAt = s_expires_at r,
     sub_ExpiredAt = s_expired_at r, sub_CreatedAt = s_created_at r, sub_Note = s_note r, sub_QuotaBytes = s_quota_bytes r,
     sub_QuotaUsedBytes = s_quota_used_bytes r, sub_FrozenAt = s_frozen_at r, sub_MaxDevices = s_max_devices r,
     sub_MaxIPs = s_max_ips r, sub_MaxConnections = s_max_connections r\<rparr>"

section \<open>Credentials\<close>

text \<open>
  One call's environment: the clock, the secret box (\<open>None\<close> when there is none; \<open>Seal\<close> may fail), the fresh
  token, UUID and password if the random source yields them, and the UUID parser.
\<close>

record subject_env =
  env_now :: int
  env_box :: "(string \<Rightarrow> string option) option"
  env_token :: "string option"
  env_uuid :: "string option"
  env_password :: "string option"
  env_uuid_parse :: "string \<Rightarrow> bool"

definition GenerateCredential :: "subject_env \<Rightarrow> string \<Rightarrow> panel_err + string" where
  "GenerateCredential e kind =
     (if kind = ''uuid'' then (case env_uuid e of None \<Rightarrow> Inl (ErrInvalid ''generate uuid'') | Some v \<Rightarrow> Inr v)
      else if kind = ''password'' then (case env_password e of None \<Rightarrow> Inl (ErrInvalid ''generate password'') | Some v \<Rightarrow> Inr v)
      else Inl (ErrUnknownKind kind))"

definition ValidateCredential :: "subject_env \<Rightarrow> string \<Rightarrow> string \<Rightarrow> panel_err + unit" where
  "ValidateCredential e kind v =
     (if kind = ''uuid'' then (if env_uuid_parse e v then Inr () else Inl (ErrInvalid ''not a valid uuid''))
      else if kind = ''password'' then (if length v < 16 then Inl (ErrInvalid ''password'') else Inr ())
      else Inl (ErrUnknownKind kind))"

text \<open>The upsert on \<open>(subject_id, kind)\<close>; the foreign key and the CHECK on the kind guard it.\<close>

definition upsert_credential :: "int \<Rightarrow> string \<Rightarrow> string \<Rightarrow> panel_db \<Rightarrow> panel_err + panel_db" where
  "upsert_credential subjectID kind sealed d =
     (if kind \<notin> {''uuid'', ''password''} \<or> subjectID \<notin> s_id ` set (t_subjects d)
      then Inl (ErrConstraint ''subject_credentials'')
      else if sql_one (\<lambda>c. cr_subject_id c = subjectID \<and> cr_kind c = kind) (t_subject_credentials d) = None
      then Inr (d\<lparr>t_subject_credentials := t_subject_credentials d @
        [\<lparr>cr_subject_id = subjectID, cr_kind = kind, cr_value_enc = sealed, cr_rotation = 0\<rparr>]\<rparr>)
      else Inr (d\<lparr>t_subject_credentials := sql_update (\<lambda>c. cr_subject_id c = subjectID \<and> cr_kind c = kind)
        (\<lambda>c. c\<lparr>cr_value_enc := sealed, cr_rotation := cr_rotation c + 1\<rparr>) (t_subject_credentials d)\<rparr>))"

definition putCredential :: "(string \<Rightarrow> string option) \<Rightarrow> int \<Rightarrow> string \<Rightarrow> string \<Rightarrow> panel_db \<Rightarrow> panel_err + panel_db" where
  "putCredential seal subjectID kind v d =
     (case seal v of None \<Rightarrow> Inl (ErrSeal kind) | Some sealed \<Rightarrow> upsert_credential subjectID kind sealed d)"

section \<open>Creation\<close>

record create_input =
  ci_Name :: string
  ci_Note :: string
  ci_ExpiresAt :: "int option"
  ci_ServiceIDs :: "int list"
  ci_Credentials :: "(string, string) gomap"
  ci_QuotaBytes :: "int option"
  ci_MaxDevices :: "int option"
  ci_MaxIPs :: "int option"
  ci_MaxConnections :: "int option"

definition new_subject :: "subject_env \<Rightarrow> create_input \<Rightarrow> string \<Rightarrow> string \<Rightarrow> int \<Rightarrow> subject_row" where
  "new_subject e ci name token rowid =
     \<lparr>s_id = rowid, s_name = name, s_enabled = True, s_expires_at = ci_ExpiresAt ci, s_expired_at = None,
      s_created_at = env_now e, s_note = ci_Note ci, s_frozen_at = None, s_frozen_reason = None,
      s_quota_bytes = ci_QuotaBytes ci, s_quota_used_bytes = 0, s_quota_reset_at = None, s_quota_period_start = None,
      s_quota_period_seconds = None, s_usage_coefficient = 10000, s_subscription_token = token,
      s_max_devices = ci_MaxDevices ci, s_max_ips = ci_MaxIPs ci, s_max_connections = ci_MaxConnections ci,
      s_speed_limit_up_kbps = None, s_speed_limit_down_kbps = None, s_on_hold_seconds = None, s_status_changed_at = None\<rparr>"

text \<open>
  Two unique indexes guard the insert, the name without case and the token where it is not empty; a violation of
  either is reported as a taken name.
\<close>

definition unique_subject :: "string \<Rightarrow> string \<Rightarrow> subject_row list \<Rightarrow> bool" where
  "unique_subject name token rows \<longleftrightarrow> (\<forall>r \<in> set rows. nocase (s_name r) \<noteq> nocase name)
     \<and> (token = '''' \<or> (\<forall>r \<in> set rows. s_subscription_token r \<noteq> token))"

definition insert_subject :: "subject_env \<Rightarrow> create_input \<Rightarrow> string \<Rightarrow> string \<Rightarrow> panel_db \<Rightarrow> panel_err + (int \<times> panel_db)" where
  "insert_subject e ci name token d =
     (if unique_subject name token (t_subjects d) then
        (let rowid = next_rowid s_id (t_subjects d)
         in Inr (rowid, d\<lparr>t_subjects := t_subjects d @ [new_subject e ci name token rowid]\<rparr>))
      else Inl (ErrNameTaken name))"

definition credential_value :: "subject_env \<Rightarrow> create_input \<Rightarrow> string \<Rightarrow> panel_err + string" where
  "credential_value e ci kind =
     (case go_get (ci_Credentials ci) kind of
        Some v \<Rightarrow> bind_result (ValidateCredential e kind v) (\<lambda>_. Inr v)
      | None \<Rightarrow> GenerateCredential e kind)"

fun put_credentials :: "subject_env \<Rightarrow> (string \<Rightarrow> string option) \<Rightarrow> create_input \<Rightarrow> int \<Rightarrow> string list \<Rightarrow> panel_db \<Rightarrow> panel_err + panel_db" where
  "put_credentials e seal ci sid [] d = Inr d"
| "put_credentials e seal ci sid (kind # kinds) d =
     bind_result (credential_value e ci kind) (\<lambda>v.
     bind_result (putCredential seal sid kind v d) (put_credentials e seal ci sid kinds))"

fun grant_services :: "int \<Rightarrow> int list \<Rightarrow> panel_db \<Rightarrow> panel_err + panel_db" where
  "grant_services sid [] d = Inr d"
| "grant_services sid (v # vs) d =
     (if v \<in> sv_id ` set (t_services d) \<and> sid \<in> s_id ` set (t_subjects d) \<and> (sid, v) \<notin> set (t_subject_services d)
      then grant_services sid vs (d\<lparr>t_subject_services := t_subject_services d @ [(sid, v)]\<rparr>)
      else Inl (ErrConstraint ''subject_services''))"

definition Create :: "subject_env \<Rightarrow> create_input \<Rightarrow> panel_db \<Rightarrow> panel_err + (int \<times> panel_db)" where
  "Create e ci d =
     (let name = trim_space (ci_Name ci) in
      if name = '''' then Inl (ErrInvalid ''subject name is required'')
      else (case env_box e of
          None \<Rightarrow> Inl (ErrInvalid ''no secret box configured'')
        | Some seal \<Rightarrow>
            (case env_token e of
               None \<Rightarrow> Inl (ErrInvalid ''generate random token'')
             | Some token \<Rightarrow>
                 bind_result (insert_subject e ci name token d) (\<lambda>(sid, d1).
                 bind_result (put_credentials e seal ci sid [''uuid'', ''password''] d1) (\<lambda>d2.
                 bind_result (grant_services sid (ci_ServiceIDs ci) d2) (\<lambda>d3. Inr (sid, d3)))))))"

text \<open>\<open>Rotate\<close> has no check for a missing box: sealing dereferences it and the panic unwinds the transaction.\<close>

definition Rotate :: "subject_env \<Rightarrow> int \<Rightarrow> string \<Rightarrow> panel_db \<Rightarrow> panel_err + (string \<times> panel_db)" where
  "Rotate e subjectID kind d =
     bind_result (GenerateCredential e kind) (\<lambda>v.
       case env_box e of
         None \<Rightarrow> Inl (ErrInvalid ''panic: nil secret box'')
       | Some seal \<Rightarrow> bind_result (putCredential seal subjectID kind v d) (\<lambda>d'. Inr (v, d')))"

text \<open>\<open>Credential\<close> reads one back; the opening half of the box is its own argument.\<close>

definition CredentialOf :: "(string \<Rightarrow> string option) option \<Rightarrow> int \<Rightarrow> string \<Rightarrow> panel_db \<Rightarrow> panel_err + string" where
  "CredentialOf open_box subjectID kind d =
     (case open_box of
        None \<Rightarrow> Inl (ErrInvalid ''no secret box configured'')
      | Some op \<Rightarrow>
          (case sql_one (\<lambda>c. cr_subject_id c = subjectID \<and> cr_kind c = kind) (t_subject_credentials d) of
             None \<Rightarrow> Inl (ErrNoRows ''subject_credentials'')
           | Some c \<Rightarrow> (case op (cr_value_enc c) of None \<Rightarrow> Inl (ErrUnseal kind subjectID) | Some v \<Rightarrow> Inr v)))"

section \<open>Changes\<close>

record update_input =
  up_Name :: "string option"
  up_Note :: "string option"
  up_Enabled :: "bool option"
  up_ExpiresAt :: "int option"
  up_ClearExpiry :: bool
  up_ServiceIDs :: "int list option"

abbreviation set_subject :: "int \<Rightarrow> (subject_row \<Rightarrow> subject_row) \<Rightarrow> panel_db \<Rightarrow> panel_db" where
  "set_subject i f d \<equiv> d\<lparr>t_subjects := sql_update (\<lambda>r. s_id r = i) f (t_subjects d)\<rparr>"

definition update_name :: "int \<Rightarrow> string option \<Rightarrow> panel_db \<Rightarrow> panel_err + panel_db" where
  "update_name i x d = (case x of None \<Rightarrow> Inr d | Some raw \<Rightarrow>
     (let name = trim_space raw in
      if name = '''' then Inl (ErrInvalid ''subject name cannot be empty'')
      else if \<exists>r \<in> set (t_subjects d). s_id r \<noteq> i \<and> nocase (s_name r) = nocase name then Inl (ErrNameTaken name)
      else Inr (set_subject i (\<lambda>r. r\<lparr>s_name := name\<rparr>) d)))"

definition update_note :: "int \<Rightarrow> string option \<Rightarrow> panel_db \<Rightarrow> panel_db" where
  "update_note i x d = (case x of None \<Rightarrow> d | Some n \<Rightarrow> set_subject i (\<lambda>r. r\<lparr>s_note := n\<rparr>) d)"

definition update_enabled :: "int \<Rightarrow> bool option \<Rightarrow> panel_db \<Rightarrow> panel_db" where
  "update_enabled i x d = (case x of None \<Rightarrow> d
     | Some b \<Rightarrow> set_subject i (\<lambda>r. r\<lparr>s_enabled := b, s_expired_at := (if b then None else s_expired_at r)\<rparr>) d)"

definition update_expiry :: "int \<Rightarrow> bool \<Rightarrow> int option \<Rightarrow> panel_db \<Rightarrow> panel_db" where
  "update_expiry i clear x d =
     (if clear then set_subject i (\<lambda>r. r\<lparr>s_expires_at := None, s_expired_at := None\<rparr>) d
      else (case x of None \<Rightarrow> d | Some t \<Rightarrow> set_subject i (\<lambda>r. r\<lparr>s_expires_at := Some t, s_expired_at := None\<rparr>) d))"

definition update_grants :: "int \<Rightarrow> int list option \<Rightarrow> panel_db \<Rightarrow> panel_err + panel_db" where
  "update_grants i x d = (case x of None \<Rightarrow> Inr d
     | Some vs \<Rightarrow> grant_services i vs (d\<lparr>t_subject_services := sql_delete (\<lambda>p. fst p = i) (t_subject_services d)\<rparr>))"

definition Update :: "int \<Rightarrow> update_input \<Rightarrow> panel_db \<Rightarrow> panel_err + panel_db" where
  "Update i u d =
     (if i \<notin> s_id ` set (t_subjects d) then Inl (ErrNoRows ''subjects'')
      else bind_result (update_name i (up_Name u) d) (\<lambda>d1.
        update_grants i (up_ServiceIDs u)
          (update_expiry i (up_ClearExpiry u) (up_ExpiresAt u) (update_enabled i (up_Enabled u) (update_note i (up_Note u) d1)))))"

text \<open>
  Deleting a subject cascades to its grants, credentials, usage and ownership; the ledger rows that name it keep
  their amount and lose the reference.
\<close>

definition delete_subject :: "int \<Rightarrow> panel_db \<Rightarrow> panel_db" where
  "delete_subject i d = d\<lparr>t_subjects := sql_delete (\<lambda>r. s_id r = i) (t_subjects d),
     t_subject_services := sql_delete (\<lambda>p. fst p = i) (t_subject_services d),
     t_subject_credentials := sql_delete (\<lambda>c. cr_subject_id c = i) (t_subject_credentials d),
     t_usage_deltas := sql_delete (\<lambda>x. ud_subject_id x = i) (t_usage_deltas d),
     t_rollups_hourly := sql_delete (\<lambda>x. ru_subject_id x = i) (t_rollups_hourly d),
     t_rollups_daily := sql_delete (\<lambda>x. ru_subject_id x = i) (t_rollups_daily d),
     t_reseller_subjects := sql_delete (\<lambda>w. ow_subject_id w = i) (t_reseller_subjects d),
     t_credit_ledger := sql_update (\<lambda>l. lg_subject_id l = Some i) (\<lambda>l. l\<lparr>lg_subject_id := None\<rparr>) (t_credit_ledger d)\<rparr>"

definition Delete :: "int \<Rightarrow> panel_db \<Rightarrow> panel_err + panel_db" where
  "Delete i d = (if i \<in> s_id ` set (t_subjects d) then Inr (delete_subject i d) else Inl (ErrNoRows ''subjects''))"

text \<open>The four one-column changes: zero rows affected is \<open>sql.ErrNoRows\<close>.\<close>

definition one_row :: "int \<Rightarrow> (subject_row \<Rightarrow> subject_row) \<Rightarrow> panel_db \<Rightarrow> panel_err + panel_db" where
  "one_row i f d = (if i \<in> s_id ` set (t_subjects d) then Inr (set_subject i f d) else Inl (ErrNoRows ''subjects''))"

definition Freeze :: "int \<Rightarrow> int \<Rightarrow> string \<Rightarrow> panel_db \<Rightarrow> panel_err + panel_db" where
  "Freeze now i reason = one_row i (\<lambda>r. r\<lparr>s_frozen_at := Some now, s_frozen_reason := Some reason\<rparr>)"

definition Unfreeze :: "int \<Rightarrow> panel_db \<Rightarrow> panel_err + panel_db" where
  "Unfreeze i = one_row i (\<lambda>r. r\<lparr>s_frozen_at := None, s_frozen_reason := None\<rparr>)"

definition Disable :: "int \<Rightarrow> panel_db \<Rightarrow> panel_err + panel_db" where
  "Disable i = one_row i (\<lambda>r. r\<lparr>s_enabled := False\<rparr>)"

definition Enable :: "int \<Rightarrow> panel_db \<Rightarrow> panel_err + panel_db" where
  "Enable i = one_row i (\<lambda>r. r\<lparr>s_enabled := True, s_expired_at := None\<rparr>)"

definition NodeIDsFor :: "int \<Rightarrow> panel_db \<Rightarrow> int list" where
  "NodeIDsFor i d = sort (remdups (map sv_node_id
     (filter (\<lambda>v. (i, sv_id v) \<in> set (t_subject_services d)) (t_services d))))"

section \<open>Subscription tokens\<close>

definition PeekToken :: "int \<Rightarrow> panel_db \<Rightarrow> panel_err + string" where
  "PeekToken i d = (case sql_one (\<lambda>r. s_id r = i) (t_subjects d) of
     None \<Rightarrow> Inl (ErrNoRows ''subjects'') | Some r \<Rightarrow> Inr (s_subscription_token r))"

text \<open>The partial unique index on the token column.\<close>

definition set_token :: "int \<Rightarrow> string \<Rightarrow> panel_db \<Rightarrow> panel_err + panel_db" where
  "set_token i token d =
     (if i \<in> s_id ` set (t_subjects d) \<and> token \<noteq> '''' \<and> (\<exists>r \<in> set (t_subjects d). s_id r \<noteq> i \<and> s_subscription_token r = token)
      then Inl (ErrConstraint ''subjects'') else Inr (set_subject i (\<lambda>r. r\<lparr>s_subscription_token := token\<rparr>) d))"

text \<open>
  \<open>EnsureToken\<close> reads outside the transaction and again inside it; \<open>d0\<close> is the database of the first read and
  \<open>d\<close> the one of the transaction, between which other calls may have run.
\<close>

definition EnsureToken :: "string option \<Rightarrow> int \<Rightarrow> panel_db \<Rightarrow> panel_db \<Rightarrow> (panel_err + string) \<times> panel_db" where
  "EnsureToken fresh i d0 d =
     (case PeekToken i d0 of
        Inl e \<Rightarrow> (Inl e, d)
      | Inr token \<Rightarrow>
          if token \<noteq> '''' then (Inr token, d)
          else (case fresh of
              None \<Rightarrow> (Inl (ErrInvalid ''generate random token''), d)
            | Some newToken \<Rightarrow> store_write (\<lambda>d.
                bind_result (PeekToken i d) (\<lambda>current.
                  if current \<noteq> '''' then Inr (current, d)
                  else bind_result (set_token i newToken d) (\<lambda>d'. Inr (newToken, d')))) d))"

definition RevokeToken :: "string option \<Rightarrow> int \<Rightarrow> panel_db \<Rightarrow> (panel_err + string) \<times> panel_db" where
  "RevokeToken fresh i d =
     (case fresh of
        None \<Rightarrow> (Inl (ErrInvalid ''generate random token''), d)
      | Some newToken \<Rightarrow> store_write (\<lambda>d. bind_result (set_token i newToken d) (\<lambda>d'. Inr (newToken, d'))) d)"

definition LookupByToken :: "string \<Rightarrow> panel_db \<Rightarrow> panel_err + int" where
  "LookupByToken token d =
     (if token = '''' then Inl ErrTokenNotFound
      else (case sql_one (\<lambda>r. s_subscription_token r = token) (t_subjects d) of
          None \<Rightarrow> Inl ErrTokenNotFound
        | Some r \<Rightarrow> if s_enabled r then Inr (s_id r) else Inl ErrTokenNotFound))"

definition ClearToken :: "int \<Rightarrow> panel_db \<Rightarrow> (panel_err + unit) \<times> panel_db" where
  "ClearToken i = store_write (\<lambda>d. bind_result (one_row i (\<lambda>r. r\<lparr>s_subscription_token := ''''\<rparr>) d) (\<lambda>d'. Inr ((), d')))"

section \<open>Expiry\<close>

definition due :: "int \<Rightarrow> subject_row \<Rightarrow> bool" where
  "due now r \<longleftrightarrow> s_enabled r \<and> (case s_expires_at r of None \<Rightarrow> False | Some t \<Rightarrow> t \<le> now)"

definition dueSubjects :: "int \<Rightarrow> panel_db \<Rightarrow> int list" where
  "dueSubjects now d = sort (map s_id (sql_where (due now) (t_subjects d)))"

definition expire_row :: "int \<Rightarrow> subject_row \<Rightarrow> subject_row" where
  "expire_row now r = r\<lparr>s_enabled := False, s_expired_at := Some now\<rparr>"

fun expire_all :: "int \<Rightarrow> int list \<Rightarrow> panel_db \<Rightarrow> panel_err + panel_db" where
  "expire_all now [] d = Inr d"
| "expire_all now (i # is) d =
     bind_result (audit_InTx now '''' (SystemActor ''expiry-sweeper'') ''subject.expired'' ''subject'' (Some i)
         [(''reason'', JStr ''expires_at reached'')] ''ok'' (set_subject i (expire_row now) d))
       (expire_all now is)"

text \<open>
  The loop over the affected nodes goes on after a failed commit; its order is that of a Go map and is given by the
  list. The notifications are the pairs of node and revision, in that order.
\<close>

fun republish :: "codec \<Rightarrow> unsealer \<Rightarrow> int \<Rightarrow> int list \<Rightarrow> panel_db \<Rightarrow> (int \<times> int) list \<times> panel_db" where
  "republish c u now [] d = ([], d)"
| "republish c u now (n # ns) d =
     (case CommitNodeChange c u now n (SystemActor ''expiry-sweeper'') '''' ''subject expired'' Inr d of
        (Inl err, d') \<Rightarrow> republish c u now ns d'
      | (Inr r, d') \<Rightarrow> (case republish c u now ns d' of
          (notes, d'') \<Rightarrow> (if Changed r then (n, cr_Revision r) # notes else notes, d'')))"

definition affected_nodes :: "int list \<Rightarrow> panel_db \<Rightarrow> int list" where
  "affected_nodes ids d = remdups (concat (map (\<lambda>i. NodeIDsFor i d) ids))"

definition expiry_Sweep :: "codec \<Rightarrow> unsealer \<Rightarrow> int \<Rightarrow> panel_db \<Rightarrow> (panel_err + nat) \<times> (int \<times> int) list \<times> panel_db" where
  "expiry_Sweep c u now d =
     (let ids = dueSubjects now d; nodes = affected_nodes ids d in
      if ids = [] then (Inr 0, [], d)
      else (case store_write (\<lambda>d. bind_result (expire_all now ids d) (\<lambda>d'. Inr ((), d'))) d of
          (Inl e, d') \<Rightarrow> (Inl e, [], d')
        | (Inr _, d') \<Rightarrow> (case republish c u now nodes d' of (notes, d'') \<Rightarrow> (Inr (length ids), notes, d''))))"

section \<open>The tables stay well formed\<close>

definition subjects_wf :: "subject_row list \<Rightarrow> bool" where
  "subjects_wf rows \<longleftrightarrow> distinct (map s_id rows)
     \<and> (\<forall>r \<in> set rows. \<forall>r' \<in> set rows. nocase (s_name r) = nocase (s_name r') \<longrightarrow> s_id r = s_id r')
     \<and> (\<forall>r \<in> set rows. \<forall>r' \<in> set rows.
          s_subscription_token r \<noteq> '''' \<and> s_subscription_token r = s_subscription_token r' \<longrightarrow> s_id r = s_id r')"

definition grants_wf :: "panel_db \<Rightarrow> bool" where
  "grants_wf d \<longleftrightarrow> distinct (t_subject_services d)
     \<and> (\<forall>p \<in> set (t_subject_services d). fst p \<in> s_id ` set (t_subjects d) \<and> snd p \<in> sv_id ` set (t_services d))"

definition credentials_wf :: "panel_db \<Rightarrow> bool" where
  "credentials_wf d \<longleftrightarrow> distinct (map (\<lambda>c. (cr_subject_id c, cr_kind c)) (t_subject_credentials d))
     \<and> (\<forall>c \<in> set (t_subject_credentials d). cr_kind c \<in> {''uuid'', ''password''} \<and> cr_subject_id c \<in> s_id ` set (t_subjects d))"

definition subj_inv :: "panel_db \<Rightarrow> bool" where
  "subj_inv d \<longleftrightarrow> subjects_wf (t_subjects d) \<and> grants_wf d \<and> credentials_wf d"

lemma subj_invI: "subjects_wf (t_subjects d) \<Longrightarrow> grants_wf d \<Longrightarrow> credentials_wf d \<Longrightarrow> subj_inv d"
  by (simp add: subj_inv_def)

text \<open>Frame: only the ids of the subjects matter to the two other tables.\<close>

lemma wf_frame:
  assumes "s_id ` set (t_subjects d') = s_id ` set (t_subjects d)" "t_services d' = t_services d"
  shows "t_subject_services d' = t_subject_services d \<Longrightarrow> grants_wf d' = grants_wf d"
    and "t_subject_credentials d' = t_subject_credentials d \<Longrightarrow> credentials_wf d' = credentials_wf d"
  using assms by (simp_all add: grants_wf_def credentials_wf_def)

lemma s_id_update: "(\<And>r. s_id (f r) = s_id r) \<Longrightarrow> s_id ` set (sql_update P f rows) = s_id ` set rows"
  using sql_update_keys [of P s_id f rows] by (metis set_map)

text \<open>A change of rows that keeps the ids, and the names and the tokens unique.\<close>

lemma subjects_wf_update:
  assumes "subjects_wf rows" "\<And>r. s_id (f r) = s_id r"
    and "\<And>r r'. r \<in> set rows \<Longrightarrow> r' \<in> set rows \<Longrightarrow>
      nocase (s_name (if P r then f r else r)) = nocase (s_name (if P r' then f r' else r')) \<Longrightarrow> s_id r = s_id r'"
    and "\<And>r r'. r \<in> set rows \<Longrightarrow> r' \<in> set rows \<Longrightarrow> s_subscription_token (if P r then f r else r) \<noteq> '''' \<Longrightarrow>
      s_subscription_token (if P r then f r else r) = s_subscription_token (if P r' then f r' else r') \<Longrightarrow> s_id r = s_id r'"
  shows "subjects_wf (sql_update P f rows)"
proof -
  have ids: "map s_id (sql_update P f rows) = map s_id rows" using assms(2) by (rule sql_update_keys)
  have idif: "s_id (if P r then f r else r) = s_id r" for r using assms(2) by simp
  have "distinct (map s_id rows)" using assms(1) by (simp add: subjects_wf_def)
  then show ?thesis
    unfolding subjects_wf_def ids ball_sql_update idif using assms(3,4) by blast
qed

lemma subjects_wf_same:
  assumes "subjects_wf rows" "\<And>r. s_id (f r) = s_id r" "\<And>r. s_name (f r) = s_name r"
    "\<And>r. s_subscription_token (f r) = s_subscription_token r"
  shows "subjects_wf (sql_update P f rows)"
proof (rule subjects_wf_update [OF assms(1,2)])
  have n: "s_name (if P r then f r else r) = s_name r" "s_subscription_token (if P r then f r else r) = s_subscription_token r" for r
    using assms(3,4) by simp_all
  fix r r' assume "r \<in> set rows" "r' \<in> set rows"
  then show "nocase (s_name (if P r then f r else r)) = nocase (s_name (if P r' then f r' else r')) \<Longrightarrow> s_id r = s_id r'"
    "s_subscription_token (if P r then f r else r) \<noteq> '''' \<Longrightarrow>
      s_subscription_token (if P r then f r else r) = s_subscription_token (if P r' then f r' else r') \<Longrightarrow> s_id r = s_id r'"
    using assms(1) unfolding n subjects_wf_def by blast+
qed

lemma set_subject_inv:
  assumes "subj_inv d" "subjects_wf (sql_update (\<lambda>r. s_id r = i) f (t_subjects d))" "\<And>r. s_id (f r) = s_id r"
  shows "subj_inv (set_subject i f d)"
proof (rule subj_invI)
  show "subjects_wf (t_subjects (set_subject i f d))" using assms by simp
  have ids: "s_id ` set (t_subjects (set_subject i f d)) = s_id ` set (t_subjects d)"
    using assms(3) by (simp add: s_id_update)
  show "grants_wf (set_subject i f d)" "credentials_wf (set_subject i f d)"
    using wf_frame [of "set_subject i f d" d, OF ids] assms(1) by (simp_all add: subj_inv_def)
qed

lemma set_subject_same:
  assumes "subj_inv d" "\<And>r. s_id (f r) = s_id r" "\<And>r. s_name (f r) = s_name r"
    "\<And>r. s_subscription_token (f r) = s_subscription_token r"
  shows "subj_inv (set_subject i f d)"
  using assms by (intro set_subject_inv subjects_wf_same) (simp_all add: subj_inv_def)

lemma put_credential_inv:
  assumes "subj_inv d" "putCredential seal i kind v d = Inr d'"
  shows "subj_inv d' \<and> t_subjects d' = t_subjects d \<and> t_services d' = t_services d \<and> t_subject_services d' = t_subject_services d"
proof -
  obtain sealed where up: "upsert_credential i kind sealed d = Inr d'"
    using assms(2) by (auto simp: putCredential_def split: option.splits)
  show ?thesis
  proof (cases "sql_one (\<lambda>c. cr_subject_id c = i \<and> cr_kind c = kind) (t_subject_credentials d) = None")
    case True
    have chk: "kind \<in> {''uuid'', ''password''}" "i \<in> s_id ` set (t_subjects d)"
      and d': "d' = d\<lparr>t_subject_credentials := t_subject_credentials d @
        [\<lparr>cr_subject_id = i, cr_kind = kind, cr_value_enc = sealed, cr_rotation = 0\<rparr>]\<rparr>"
      using up True by (simp_all add: upsert_credential_def split: if_splits)
    have "(i, kind) \<notin> (\<lambda>c. (cr_subject_id c, cr_kind c)) ` set (t_subject_credentials d)"
      using True by (auto simp: sql_one_None)
    then have "credentials_wf d'" using assms(1) chk by (auto simp: subj_inv_def credentials_wf_def d')
    then show ?thesis using assms(1) by (simp add: subj_inv_def d' grants_wf_def)
  next
    case False
    have d': "d' = d\<lparr>t_subject_credentials := sql_update (\<lambda>c. cr_subject_id c = i \<and> cr_kind c = kind)
        (\<lambda>c. c\<lparr>cr_value_enc := sealed, cr_rotation := cr_rotation c + 1\<rparr>) (t_subject_credentials d)\<rparr>"
      using up False by (simp add: upsert_credential_def split: if_splits)
    have "credentials_wf d'"
      using assms(1) unfolding subj_inv_def credentials_wf_def d' by (auto simp: ball_sql_update image_iff)
    then show ?thesis using assms(1) by (simp add: subj_inv_def d' grants_wf_def)
  qed
qed

lemma put_credentials_inv:
  "put_credentials e seal ci i kinds d = Inr d' \<Longrightarrow> subj_inv d \<Longrightarrow>
     subj_inv d' \<and> t_subjects d' = t_subjects d \<and> t_services d' = t_services d \<and> t_subject_services d' = t_subject_services d"
proof (induction kinds arbitrary: d)
  case (Cons k ks)
  then obtain v d1 where "putCredential seal i k v d = Inr d1" and rest: "put_credentials e seal ci i ks d1 = Inr d'"
    by (auto simp: bind_result_Inr)
  then show ?case using put_credential_inv [OF Cons.prems(2)] Cons.IH [OF rest] by auto
qed simp

lemma grant_services_spec:
  "grant_services i vs d = Inr d' \<Longrightarrow>
     d' = d\<lparr>t_subject_services := t_subject_services d @ map (Pair i) vs\<rparr> \<and> distinct vs
     \<and> (\<forall>v \<in> set vs. v \<in> sv_id ` set (t_services d) \<and> (i, v) \<notin> set (t_subject_services d))
     \<and> (vs \<noteq> [] \<longrightarrow> i \<in> s_id ` set (t_subjects d))"
proof (induction vs arbitrary: d)
  case (Cons v vs)
  have ok: "v \<in> sv_id ` set (t_services d)" "i \<in> s_id ` set (t_subjects d)" "(i, v) \<notin> set (t_subject_services d)"
    and rest: "grant_services i vs (d\<lparr>t_subject_services := t_subject_services d @ [(i, v)]\<rparr>) = Inr d'"
    using Cons.prems by (simp_all split: if_splits)
  from Cons.IH [OF rest] ok show ?case by auto
qed simp

lemma grant_services_inv: "grant_services i vs d = Inr d' \<Longrightarrow> subj_inv d \<Longrightarrow> subj_inv d'"
  by (drule grant_services_spec) (auto simp: subj_inv_def grants_wf_def credentials_wf_def distinct_map inj_on_def)

lemma subjects_wfD:
  assumes "subjects_wf rows" "r \<in> set rows" "r' \<in> set rows"
  shows "nocase (s_name r) = nocase (s_name r') \<Longrightarrow> s_id r = s_id r'"
    and "s_subscription_token r \<noteq> '''' \<Longrightarrow> s_subscription_token r = s_subscription_token r' \<Longrightarrow> s_id r = s_id r'"
  using assms unfolding subjects_wf_def by blast+

lemma subjects_wf_distinct: "subjects_wf rows \<Longrightarrow> distinct (map s_id rows)"
  unfolding subjects_wf_def by (rule conjunct1)

lemma subjects_wf_subset:
  "subjects_wf rows \<Longrightarrow> set rows' \<subseteq> set rows \<Longrightarrow> distinct (map s_id rows') \<Longrightarrow> subjects_wf rows'"
  unfolding subjects_wf_def by blast

lemma subjects_wf_snoc:
  assumes "subjects_wf rows" "s_id r \<notin> s_id ` set rows" "unique_subject (s_name r) (s_subscription_token r) rows"
  shows "subjects_wf (rows @ [r])"
proof -
  have new: "nocase (s_name x) \<noteq> nocase (s_name r)"
    "s_subscription_token r \<noteq> '''' \<Longrightarrow> s_subscription_token x \<noteq> s_subscription_token r" if "x \<in> set rows" for x
    using assms(3) that unfolding unique_subject_def by blast+
  have mem: "x \<in> set (rows @ [r]) \<longleftrightarrow> x \<in> set rows \<or> x = r" for x by auto
  have "distinct (map s_id (rows @ [r]))" using subjects_wf_distinct [OF assms(1)] assms(2) by simp
  moreover have "s_id x = s_id y" if "x \<in> set (rows @ [r])" "y \<in> set (rows @ [r])" "nocase (s_name x) = nocase (s_name y)" for x y
    using that(1,2) unfolding mem
  proof (elim disjE)
    show "x \<in> set rows \<Longrightarrow> y \<in> set rows \<Longrightarrow> s_id x = s_id y" by (rule subjects_wfD(1) [OF assms(1) _ _ that(3)])
    show "x \<in> set rows \<Longrightarrow> y = r \<Longrightarrow> s_id x = s_id y" using new(1) [of x] that(3) by simp
    show "x = r \<Longrightarrow> y \<in> set rows \<Longrightarrow> s_id x = s_id y" using new(1) [of y] that(3) by simp
  qed simp
  moreover have "s_id x = s_id y"
    if "x \<in> set (rows @ [r])" "y \<in> set (rows @ [r])" "s_subscription_token x \<noteq> ''''" "s_subscription_token x = s_subscription_token y" for x y
    using that(1,2) unfolding mem
  proof (elim disjE)
    show "x \<in> set rows \<Longrightarrow> y \<in> set rows \<Longrightarrow> s_id x = s_id y" by (rule subjects_wfD(2) [OF assms(1) _ _ that(3,4)])
    show "x \<in> set rows \<Longrightarrow> y = r \<Longrightarrow> s_id x = s_id y" using new(2) [of x] that(3,4) by simp
    show "x = r \<Longrightarrow> y \<in> set rows \<Longrightarrow> s_id x = s_id y" using new(2) [of y] that(3,4) by simp
  qed simp
  ultimately show ?thesis unfolding subjects_wf_def by blast
qed

lemma insert_subject_inv:
  assumes "subj_inv d" "insert_subject e ci name token d = Inr (i, d')"
  shows "subj_inv d' \<and> i \<notin> s_id ` set (t_subjects d) \<and> t_services d' = t_services d
    \<and> t_subjects d' = t_subjects d @ [new_subject e ci name token i] \<and> t_subject_services d' = t_subject_services d
    \<and> t_subject_credentials d' = t_subject_credentials d"
proof -
  have u: "unique_subject name token (t_subjects d)" and i: "i = next_rowid s_id (t_subjects d)"
    and d': "d' = d\<lparr>t_subjects := t_subjects d @ [new_subject e ci name token i]\<rparr>"
    using assms(2) by (auto simp: insert_subject_def Let_def split: if_splits)
  have fresh: "i \<notin> s_id ` set (t_subjects d)" using next_rowid_fresh [of s_id "t_subjects d"] by (simp add: i)
  have row: "s_id (new_subject e ci name token i) = i" "s_name (new_subject e ci name token i) = name"
    "s_subscription_token (new_subject e ci name token i) = token"
    by (simp_all add: new_subject_def)
  have "subjects_wf (t_subjects d @ [new_subject e ci name token i])"
    by (rule subjects_wf_snoc) (use assms(1) u fresh in \<open>simp_all add: subj_inv_def row\<close>)
  then have "subj_inv d'"
    using assms(1) unfolding d' subj_inv_def grants_wf_def credentials_wf_def by auto
  then show ?thesis using fresh by (simp add: d')
qed

lemma Create_Inr:
  assumes "Create e ci d = Inr (i, d')"
  obtains seal token d1 d2 where "env_box e = Some seal" "env_token e = Some token" "trim_space (ci_Name ci) \<noteq> ''''"
    "insert_subject e ci (trim_space (ci_Name ci)) token d = Inr (i, d1)"
    "put_credentials e seal ci i [''uuid'', ''password''] d1 = Inr d2" "grant_services i (ci_ServiceIDs ci) d2 = Inr d'"
  using assms by (auto simp: Create_def Let_def bind_result_Inr split: if_splits option.splits simp del: put_credentials.simps)

lemma Create_inv: "Create e ci d = Inr (i, d') \<Longrightarrow> subj_inv d \<Longrightarrow> subj_inv d'"
proof (erule Create_Inr)
  fix seal token d1 d2
  assume "subj_inv d" "insert_subject e ci (trim_space (ci_Name ci)) token d = Inr (i, d1)"
    "put_credentials e seal ci i [''uuid'', ''password''] d1 = Inr d2" "grant_services i (ci_ServiceIDs ci) d2 = Inr d'"
  then show "subj_inv d'"
    using insert_subject_inv put_credentials_inv grant_services_inv by blast
qed

lemma Rotate_inv: "Rotate e i k d = Inr (v, d') \<Longrightarrow> subj_inv d \<Longrightarrow> subj_inv d'"
  using put_credential_inv by (auto simp: Rotate_def bind_result_Inr split: option.splits)

lemma update_name_inv: "update_name i x d = Inr d' \<Longrightarrow> subj_inv d \<Longrightarrow> subj_inv d'"
proof (cases x)
  case (Some raw)
  assume up: "update_name i x d = Inr d'" and inv: "subj_inv d"
  let ?n = "trim_space raw" let ?f = "\<lambda>r. r\<lparr>s_name := ?n\<rparr>"
  have free: "\<And>r. r \<in> set (t_subjects d) \<Longrightarrow> nocase (s_name r) = nocase ?n \<Longrightarrow> s_id r = i"
    and d': "d' = set_subject i ?f d"
    using up by (auto simp: Some update_name_def Let_def split: if_splits)
  have wf: "subjects_wf (t_subjects d)" using inv by (simp add: subj_inv_def)
  have "subjects_wf (sql_update (\<lambda>r. s_id r = i) ?f (t_subjects d))"
  proof (rule subjects_wf_update [OF wf])
    fix r r' assume rs: "r \<in> set (t_subjects d)" "r' \<in> set (t_subjects d)"
    show "nocase (s_name (if s_id r = i then ?f r else r)) = nocase (s_name (if s_id r' = i then ?f r' else r')) \<Longrightarrow> s_id r = s_id r'"
      using free [OF rs(1)] free [OF rs(2)] subjects_wfD(1) [OF wf rs]
      by (cases "s_id r = i"; cases "s_id r' = i") simp_all
    show "s_subscription_token (if s_id r = i then ?f r else r) \<noteq> '''' \<Longrightarrow>
      s_subscription_token (if s_id r = i then ?f r else r) = s_subscription_token (if s_id r' = i then ?f r' else r') \<Longrightarrow> s_id r = s_id r'"
      using subjects_wfD(2) [OF wf rs] by (cases "s_id r = i"; cases "s_id r' = i") simp_all
  qed simp
  then show "subj_inv d'" unfolding d' by (rule set_subject_inv [OF inv]) simp
qed (simp add: update_name_def)

lemma set_token_inv: "set_token i token d = Inr d' \<Longrightarrow> subj_inv d \<Longrightarrow> subj_inv d'"
proof -
  assume up: "set_token i token d = Inr d'" and inv: "subj_inv d"
  let ?f = "\<lambda>r. r\<lparr>s_subscription_token := token\<rparr>"
  have free: "\<And>r r'. r \<in> set (t_subjects d) \<Longrightarrow> r' \<in> set (t_subjects d) \<Longrightarrow> s_id r' = i \<Longrightarrow> token \<noteq> ''''
        \<Longrightarrow> s_subscription_token r = token \<Longrightarrow> s_id r = i"
    and d': "d' = set_subject i ?f d"
    using up by (auto simp: set_token_def split: if_splits)
  have wf: "subjects_wf (t_subjects d)" using inv by (simp add: subj_inv_def)
  have "subjects_wf (sql_update (\<lambda>r. s_id r = i) ?f (t_subjects d))"
  proof (rule subjects_wf_update [OF wf])
    fix r r' assume rs: "r \<in> set (t_subjects d)" "r' \<in> set (t_subjects d)"
    show "nocase (s_name (if s_id r = i then ?f r else r)) = nocase (s_name (if s_id r' = i then ?f r' else r')) \<Longrightarrow> s_id r = s_id r'"
      using subjects_wfD(1) [OF wf rs] by (cases "s_id r = i"; cases "s_id r' = i") simp_all
    assume ne: "s_subscription_token (if s_id r = i then ?f r else r) \<noteq> ''''"
      and eq: "s_subscription_token (if s_id r = i then ?f r else r) = s_subscription_token (if s_id r' = i then ?f r' else r')"
    consider "s_id r = i" "s_id r' = i" | "s_id r = i" "s_id r' \<noteq> i" | "s_id r \<noteq> i" "s_id r' = i" | "s_id r \<noteq> i" "s_id r' \<noteq> i"
      by blast
    then show "s_id r = s_id r'"
    proof cases
      case 2
      then have "s_subscription_token r' = token" "token \<noteq> ''''" using eq ne by simp_all
      then show ?thesis using free [OF rs(2,1) 2(1)] 2 by blast
    next
      case 3
      then have "s_subscription_token r = token" "token \<noteq> ''''" using eq ne by simp_all
      then show ?thesis using free [OF rs 3(2)] 3 by blast
    next
      case 4
      then have "s_subscription_token r \<noteq> ''''" "s_subscription_token r = s_subscription_token r'" using eq ne by simp_all
      then show ?thesis by (rule subjects_wfD(2) [OF wf rs])
    qed simp
  qed simp
  then show "subj_inv d'" unfolding d' by (rule set_subject_inv [OF inv]) simp
qed

lemma one_row_inv:
  assumes "one_row i f d = Inr d'" "subj_inv d" "\<And>r. s_id (f r) = s_id r" "\<And>r. s_name (f r) = s_name r"
    "\<And>r. s_subscription_token (f r) = s_subscription_token r"
  shows "subj_inv d'"
  using assms set_subject_same [of d f i] by (simp add: one_row_def split: if_splits)

lemma Update_inv: "Update i u d = Inr d' \<Longrightarrow> subj_inv d \<Longrightarrow> subj_inv d'"
proof -
  assume up: "Update i u d = Inr d'" and inv: "subj_inv d"
  obtain d1 where d1: "update_name i (up_Name u) d = Inr d1"
    and rest: "update_grants i (up_ServiceIDs u) (update_expiry i (up_ClearExpiry u) (up_ExpiresAt u)
      (update_enabled i (up_Enabled u) (update_note i (up_Note u) d1))) = Inr d'"
    using up by (auto simp: Update_def bind_result_Inr split: if_splits)
  have n: "subj_inv (update_note i x d)" if "subj_inv d" for x d
    using that set_subject_same [of d _ i] by (auto simp: update_note_def split: option.splits)
  have en: "subj_inv (update_enabled i x d)" if "subj_inv d" for x d
    using that set_subject_same [of d _ i] by (auto simp: update_enabled_def split: option.splits)
  have ex: "subj_inv (update_expiry i c x d)" if "subj_inv d" for c x d
    using that set_subject_same [of d _ i] by (auto simp: update_expiry_def split: option.splits)
  have g: "subj_inv d'" if "update_grants i x d = Inr d'" "subj_inv d" for x d
  proof (cases x)
    case (Some vs)
    have "subj_inv (d\<lparr>t_subject_services := sql_delete (\<lambda>p. fst p = i) (t_subject_services d)\<rparr>)"
      using that(2) by (auto simp: subj_inv_def grants_wf_def credentials_wf_def sql_delete_def)
    then show ?thesis using that(1) grant_services_inv by (simp add: update_grants_def Some)
  qed (use that in \<open>simp add: update_grants_def\<close>)
  show ?thesis using g [OF rest] ex en n update_name_inv [OF d1 inv] by blast
qed

lemma distinct_map_delete: "distinct (map f xs) \<Longrightarrow> distinct (map f (sql_delete P xs))"
  by (simp add: sql_delete_def distinct_map_filter)

lemma delete_subject_inv: "subj_inv d \<Longrightarrow> subj_inv (delete_subject i d)"
proof (rule subj_invI)
  assume inv: "subj_inv d"
  then have wf: "subjects_wf (t_subjects d)" by (simp add: subj_inv_def)
  then have "distinct (map s_id (t_subjects (delete_subject i d)))"
    by (simp add: subjects_wf_distinct delete_subject_def distinct_map_delete)
  then show "subjects_wf (t_subjects (delete_subject i d))"
    by (rule subjects_wf_subset [OF wf, rotated]) (auto simp: delete_subject_def)
  show "grants_wf (delete_subject i d)"
    using inv by (auto simp: subj_inv_def grants_wf_def delete_subject_def sql_delete_def)
  show "credentials_wf (delete_subject i d)"
    using inv distinct_map_delete unfolding subj_inv_def credentials_wf_def delete_subject_def by auto
qed

section \<open>The expiry sweep\<close>

lemma expire_all_state:
  "\<exists>au. expire_all now ids d = Inr (d\<lparr>t_subjects := sql_update (\<lambda>r. s_id r \<in> set ids) (expire_row now) (t_subjects d),
     t_audit_log := t_audit_log d @ au\<rparr>) \<and> map au_target_id au = map Some ids \<and> (\<forall>a \<in> set au. au_action a = ''subject.expired'')"
proof (induction ids arbitrary: d)
  case Nil
  show ?case by (rule exI [of _ "[]"]) (simp add: sql_update_def)
next
  case (Cons i ids)
  define a where "a = mk_audit now '''' (SystemActor ''expiry-sweeper'') ''subject.expired'' ''subject'' (Some i)
       [(''reason'', JStr ''expires_at reached'')] ''ok''"
  let ?d = "d\<lparr>t_subjects := sql_update (\<lambda>r. s_id r = i) (expire_row now) (t_subjects d), t_audit_log := t_audit_log d @ [a]\<rparr>"
  have first: "expire_all now (i # ids) d = expire_all now ids ?d" by (simp add: audit_InTx_def a_def)
  obtain au where au: "expire_all now ids ?d = Inr (?d\<lparr>t_subjects := sql_update (\<lambda>r. s_id r \<in> set ids) (expire_row now) (t_subjects ?d),
      t_audit_log := t_audit_log ?d @ au\<rparr>)" "map au_target_id au = map Some ids" "\<forall>x \<in> set au. au_action x = ''subject.expired''"
    using Cons.IH [of ?d] by blast
  have twice: "sql_update (\<lambda>r. s_id r \<in> set ids) (expire_row now) (sql_update (\<lambda>r. s_id r = i) (expire_row now) rows)
      = sql_update (\<lambda>r. s_id r \<in> set (i # ids)) (expire_row now) rows" for rows
    by (induction rows) (auto simp: expire_row_def)
  show ?case unfolding first au(1) using au(2,3)
    by (intro exI [of _ "a # au"]) (simp add: twice [simplified] a_def mk_audit_def)
qed

context node_committer
begin

lemma fold_view: "subject_view (fold (\<lambda>n d. snd (commit n a r d)) ns d) = subject_view d"
  by (induction ns arbitrary: d) (simp_all add: commit_view)

lemma fold_good: "good d \<Longrightarrow> good (fold (\<lambda>n d. snd (commit n a r d)) ns d)"
  by (induction ns arbitrary: d) (simp_all add: commit_good)

lemma fold_keeps: "good d \<Longrightarrow> labelled m d \<Longrightarrow> labelled m (fold (\<lambda>n d. snd (commit n a r d)) ns d)"
  by (induction ns arbitrary: d) (simp_all add: commit_good commit_keeps)

end

lemma republish_Cons:
  "republish c u now (n # ns) d =
     (let res = CommitNodeChange c u now n (SystemActor ''expiry-sweeper'') '''' ''subject expired'' Inr d in
       ((case fst res of Inl _ \<Rightarrow> [] | Inr r \<Rightarrow> if Changed r then [(n, cr_Revision r)] else []) @ fst (republish c u now ns (snd res)),
        snd (republish c u now ns (snd res))))"
  by (auto simp: Let_def split: prod.splits sum.splits)

lemma commit_func_snd:
  "snd (CommitNodeChange c u now n (SystemActor a) '''' r Inr d) = snd (commit_func c u now n a r d)"
  by (auto simp: commit_func_def split: prod.splits sum.splits)

lemma republish_state:
  "snd (republish c u now ns d) = fold (\<lambda>n d. snd (commit_func c u now n ''expiry-sweeper'' ''subject expired'' d)) ns d"
  by (induction ns arbitrary: d) (simp_all add: republish_Cons Let_def commit_func_snd del: republish.simps(2))

lemma republish_notes:
  "rev_inv d \<Longrightarrow> (m, rv) \<in> set (fst (republish c u now ns d)) \<Longrightarrow> labelled_with c u now m (snd (republish c u now ns d)) \<and> m \<in> set ns"
proof (induction ns arbitrary: d)
  case (Cons n ns)
  let ?d = "snd (commit_func c u now n ''expiry-sweeper'' ''subject expired'' d)"
  have good: "rev_inv ?d" by (rule commit_func_good [OF Cons.prems(1)])
  have rest: "snd (republish c u now (n # ns) d) = snd (republish c u now ns ?d)"
    by (simp add: republish_Cons Let_def commit_func_snd del: republish.simps(2))
  consider "(m, rv) \<in> set (fst (republish c u now ns ?d))"
    | "m = n" "is_ok (fst (CommitNodeChange c u now n (SystemActor ''expiry-sweeper'') '''' ''subject expired'' Inr d))"
    using Cons.prems(2)
    by (cases "fst (CommitNodeChange c u now n (SystemActor ''expiry-sweeper'') '''' ''subject expired'' Inr d)")
      (auto simp: republish_Cons Let_def commit_func_snd simp del: republish.simps(2) split: if_splits)
  then show ?case
  proof cases
    case 1
    then show ?thesis using Cons.IH [OF good 1] rest by simp
  next
    case 2
    have "fst (commit_func c u now n ''expiry-sweeper'' ''subject expired'' d) = Inr ()"
      using 2(2) by (auto simp: commit_func_def is_ok_def split: prod.splits sum.splits)
    then have "labelled_with c u now n ?d" by (rule commit_func_labels [OF Cons.prems(1)])
    then show ?thesis
      unfolding rest republish_state using panel_commit.fold_keeps [OF good] 2(1) by simp
  qed
qed simp

lemma expiry_Sweep_eq:
  assumes "distinct (map s_id (t_subjects d))"
  obtains au where "map au_target_id au = map Some (dueSubjects now d)" "\<forall>a \<in> set au. au_action a = ''subject.expired''"
    "expiry_Sweep c u now d = (let d1 = d\<lparr>t_subjects := sql_update (due now) (expire_row now) (t_subjects d), t_audit_log := t_audit_log d @ au\<rparr>
       in (Inr (sql_count (due now) (t_subjects d)), republish c u now (affected_nodes (dueSubjects now d) d) d1))"
proof -
  let ?ids = "dueSubjects now d"
  obtain au where au: "expire_all now ?ids d = Inr (d\<lparr>t_subjects := sql_update (\<lambda>r. s_id r \<in> set ?ids) (expire_row now) (t_subjects d),
     t_audit_log := t_audit_log d @ au\<rparr>)" "map au_target_id au = map Some ?ids" "\<forall>a \<in> set au. au_action a = ''subject.expired''"
    using expire_all_state by blast
  have "r \<in> set (t_subjects d) \<Longrightarrow> s_id r \<in> set ?ids \<longleftrightarrow> due now r" for r
    using assms by (auto simp: dueSubjects_def distinct_map inj_on_def)
  then have up: "sql_update (\<lambda>r. s_id r \<in> set ?ids) (expire_row now) (t_subjects d) = sql_update (due now) (expire_row now) (t_subjects d)"
    by (rule sql_update_cong)
  have len: "length ?ids = sql_count (due now) (t_subjects d)" by (simp add: dueSubjects_def sql_count_def)
  show thesis
  proof (cases "?ids = []")
    case False
    then show thesis using au len up
      by (intro that [of au]) (simp_all add: expiry_Sweep_def Let_def store_write_def case_prod_beta)
  next
    case True
    then have "au = []" using au(2) by simp
    moreover have "sql_update (due now) (expire_row now) (t_subjects d) = t_subjects d"
      unfolding up [symmetric] True by (simp add: sql_update_def)
    moreover have "sql_count (due now) (t_subjects d) = 0" using len True by simp
    ultimately show thesis using au True
      by (intro that [of au]) (simp_all add: expiry_Sweep_def Let_def affected_nodes_def)
  qed
qed

lemma sweep_subjects:
  assumes "distinct (map s_id (t_subjects d))"
  shows "t_subjects (snd (snd (expiry_Sweep c u now d))) = sql_update (due now) (expire_row now) (t_subjects d)"
    and "t_services (snd (snd (expiry_Sweep c u now d))) = t_services d"
    and "t_subject_services (snd (snd (expiry_Sweep c u now d))) = t_subject_services d"
    and "t_subject_credentials (snd (snd (expiry_Sweep c u now d))) = t_subject_credentials d"
    and "fst (expiry_Sweep c u now d) = Inr (sql_count (due now) (t_subjects d))"
    and "rev_inv d \<Longrightarrow> rev_inv (snd (snd (expiry_Sweep c u now d)))"
proof -
  obtain au where sw: "expiry_Sweep c u now d
     = (let d1 = d\<lparr>t_subjects := sql_update (due now) (expire_row now) (t_subjects d), t_audit_log := t_audit_log d @ au\<rparr>
       in (Inr (sql_count (due now) (t_subjects d)), republish c u now (affected_nodes (dueSubjects now d) d) d1))"
    using expiry_Sweep_eq [OF assms] by blast
  define d1 where "d1 = d\<lparr>t_subjects := sql_update (due now) (expire_row now) (t_subjects d), t_audit_log := t_audit_log d @ au\<rparr>"
  note sw' = sw [unfolded Let_def, folded d1_def]
  show "fst (expiry_Sweep c u now d) = Inr (sql_count (due now) (t_subjects d))" by (simp add: sw')
  have st: "snd (snd (expiry_Sweep c u now d)) = fold (\<lambda>n d. snd (commit_func c u now n ''expiry-sweeper'' ''subject expired'' d))
      (affected_nodes (dueSubjects now d) d) d1"
    by (simp add: sw' republish_state)
  show "t_subjects (snd (snd (expiry_Sweep c u now d))) = sql_update (due now) (expire_row now) (t_subjects d)"
    "t_services (snd (snd (expiry_Sweep c u now d))) = t_services d"
    "t_subject_services (snd (snd (expiry_Sweep c u now d))) = t_subject_services d"
    using panel_commit.fold_view unfolding st subject_view_def by (auto simp: d1_def)
  have "t_subject_credentials (fold (\<lambda>n d. snd (commit_func c u now n a r d)) ns d) = t_subject_credentials d" for a r ns d
  proof (induction ns arbitrary: d)
    case (Cons n ns)
    have "t_subject_credentials (snd (commit_func c u now n a r d)) = t_subject_credentials d"
      by (rule commit_func_cases [of c u now n a r d]) (simp_all add: committed_def)
    then show ?case by (simp add: Cons.IH)
  qed simp
  then show "t_subject_credentials (snd (snd (expiry_Sweep c u now d))) = t_subject_credentials d"
    unfolding st by (simp add: d1_def)
  assume "rev_inv d"
  then have "rev_inv d1" by (rule rev_inv_view [rotated]) (simp add: d1_def rev_view_def)
  then show "rev_inv (snd (snd (expiry_Sweep c u now d)))" unfolding st by (rule panel_commit.fold_good)
qed

lemma expiry_Sweep_inv: "subj_inv d \<Longrightarrow> subj_inv (snd (snd (expiry_Sweep c u now d)))"
proof (rule subj_invI)
  assume inv: "subj_inv d"
  then have wf: "subjects_wf (t_subjects d)" by (simp add: subj_inv_def)
  note sw = sweep_subjects [OF subjects_wf_distinct [OF wf], of c u now]
  show "subjects_wf (t_subjects (snd (snd (expiry_Sweep c u now d))))"
    unfolding sw(1) by (rule subjects_wf_same [OF wf]) (simp_all add: expire_row_def)
  have ids: "s_id ` set (t_subjects (snd (snd (expiry_Sweep c u now d)))) = s_id ` set (t_subjects d)"
    unfolding sw(1) by (rule s_id_update) (simp add: expire_row_def)
  show "grants_wf (snd (snd (expiry_Sweep c u now d)))" "credentials_wf (snd (snd (expiry_Sweep c u now d)))"
    using wf_frame [OF ids sw(2)] sw(3,4) inv by (simp_all add: subj_inv_def)
qed

lemma expired_not_due: "\<not> due t (if due now r then expire_row now r else r)" if "t \<le> now"
  using that by (auto simp: due_def expire_row_def split: option.splits)

lemma sweep_again:
  assumes "distinct (map s_id (t_subjects d))"
  shows "expiry_Sweep c u now (snd (snd (expiry_Sweep c u now d))) = (Inr 0, [], snd (snd (expiry_Sweep c u now d)))"
proof -
  have "sql_where (due now) (sql_update (due now) (expire_row now) rows) = []" for rows
    by (induction rows) (simp_all add: sql_where_def expired_not_due)
  then have "dueSubjects now (snd (snd (expiry_Sweep c u now d))) = []"
    by (simp add: dueSubjects_def sweep_subjects(1) [OF assms])
  then show ?thesis by (simp add: expiry_Sweep_def)
qed

lemma sweep_republishes:
  assumes "distinct (map s_id (t_subjects d))" "rev_inv d" "(n, rv) \<in> set (fst (snd (expiry_Sweep c u now d)))"
  shows "\<exists>snap. BuildDesiredSnapshot c u now n (snd (snd (expiry_Sweep c u now d))) = Inr snap
      \<and> latest_sha (snd (snd (expiry_Sweep c u now d))) n = snap_SHA256 snap
      \<and> set (dueSubjects now d) \<inter> set (map subj_ID (Subjects (snap_Document snap))) = {}"
proof -
  let ?d' = "snd (snd (expiry_Sweep c u now d))"
  obtain au where sw: "expiry_Sweep c u now d
     = (let d1 = d\<lparr>t_subjects := sql_update (due now) (expire_row now) (t_subjects d), t_audit_log := t_audit_log d @ au\<rparr>
       in (Inr (sql_count (due now) (t_subjects d)), republish c u now (affected_nodes (dueSubjects now d) d) d1))"
    using expiry_Sweep_eq [OF assms(1)] by blast
  define d1 where "d1 = d\<lparr>t_subjects := sql_update (due now) (expire_row now) (t_subjects d), t_audit_log := t_audit_log d @ au\<rparr>"
  note sw' = sw [unfolded Let_def, folded d1_def]
  have "rev_inv d1" by (rule rev_inv_view [OF _ assms(2)]) (simp add: d1_def rev_view_def)
  then have "labelled_with c u now n ?d'" using republish_notes assms(3) by (simp add: sw')
  moreover have "sid \<notin> set (map subj_ID (Subjects (snap_Document snap)))"
    if b: "BuildDesiredSnapshot c u now n ?d' = Inr snap" and m: "sid \<in> set (dueSubjects now d)" for snap sid
  proof (rule not_entitled_not_built [OF b])
    obtain r0 where r0: "r0 \<in> set (t_subjects d)" "due now r0" "s_id r0 = sid"
      using m by (auto simp: dueSubjects_def)
    have "due now r" if "r \<in> set (t_subjects d)" "s_id r = sid" for r
      using assms(1) r0 that by (auto simp: distinct_map inj_on_def)
    then show "\<forall>s \<in> set (t_subjects ?d'). s_id s = sid \<longrightarrow> \<not> s_enabled s"
      unfolding sweep_subjects(1) [OF assms(1)] ball_sql_update by (auto simp: expire_row_def)
  qed
  ultimately show ?thesis unfolding labelled_with_def by blast
qed


definition demo_env :: subject_env where
  "demo_env = \<lparr>env_now = 100, env_box = Some (\<lambda>v. Some (rev v)), env_token = Some ''tok'', env_uuid = Some ''u-1'',
     env_password = Some ''abcdefghijklmnop'', env_uuid_parse = (\<lambda>v. length v = 36)\<rparr>"

definition demo_create :: create_input where
  "demo_create = \<lparr>ci_Name = '' ann '', ci_Note = '''', ci_ExpiresAt = Some 500, ci_ServiceIDs = [2, 1], ci_Credentials = [],
     ci_QuotaBytes = Some 1000, ci_MaxDevices = None, ci_MaxIPs = None, ci_MaxConnections = None\<rparr>"

definition no_people :: panel_db where
  "no_people = demo_db\<lparr>t_subjects := [], t_subject_services := [], t_subject_credentials := []\<rparr>"

definition people :: panel_db where
  "people = (case Create demo_env demo_create no_people of Inr (i, d) \<Rightarrow> d | Inl e \<Rightarrow> no_people)"

lemma no_people_inv: "subj_inv no_people" by code_simp

lemma people_inv: "subj_inv people" "rev_inv people" by code_simp+


section \<open>Every operation keeps the tables well formed\<close>

datatype subj_op =
    SCreate subject_env create_input
  | SUpdate int update_input
  | SDelete int
  | SRotate subject_env int string
  | SFreeze int int string
  | SUnfreeze int
  | SDisable int
  | SEnable int
  | SEnsure "string option" int panel_db
  | SRevoke "string option" int
  | SClear int
  | SSweep codec unsealer int

text \<open>A step runs one operation in its transaction; the database of \<open>EnsureToken\<close>'s first read is arbitrary.\<close>

definition in_tx :: "(panel_db \<Rightarrow> panel_err + panel_db) \<Rightarrow> panel_db \<Rightarrow> panel_db" where
  "in_tx f d = snd (store_write (\<lambda>d. bind_result (f d) (\<lambda>d'. Inr ((), d'))) d)"

fun subj_step :: "subj_op \<Rightarrow> panel_db \<Rightarrow> panel_db" where
  "subj_step (SCreate e ci) d = snd (store_write (Create e ci) d)"
| "subj_step (SUpdate i u) d = in_tx (Update i u) d"
| "subj_step (SDelete i) d = in_tx (Delete i) d"
| "subj_step (SRotate e i k) d = snd (store_write (Rotate e i k) d)"
| "subj_step (SFreeze now i reason) d = in_tx (Freeze now i reason) d"
| "subj_step (SUnfreeze i) d = in_tx (Unfreeze i) d"
| "subj_step (SDisable i) d = in_tx (Disable i) d"
| "subj_step (SEnable i) d = in_tx (Enable i) d"
| "subj_step (SEnsure fresh i d0) d = snd (EnsureToken fresh i d0 d)"
| "subj_step (SRevoke fresh i) d = snd (RevokeToken fresh i d)"
| "subj_step (SClear i) d = snd (ClearToken i d)"
| "subj_step (SSweep c u now) d = snd (snd (expiry_Sweep c u now d))"

lemma store_write_inv:
  "P d \<Longrightarrow> (\<And>r d'. fn d = Inr (r, d') \<Longrightarrow> P d \<Longrightarrow> P d') \<Longrightarrow> P (snd (store_write fn d))"
  by (auto simp: store_write_def split: sum.splits)

lemma in_tx_inv: "P d \<Longrightarrow> (\<And>d'. f d = Inr d' \<Longrightarrow> P d \<Longrightarrow> P d') \<Longrightarrow> P (in_tx f d)"
  unfolding in_tx_def by (rule store_write_inv) (auto simp: bind_result_Inr)

lemma clear_token_inv: "one_row i (\<lambda>r. r\<lparr>s_subscription_token := ''''\<rparr>) d = Inr d' \<Longrightarrow> subj_inv d \<Longrightarrow> subj_inv d'"
  by (rule set_token_inv [of i "''''" d d']) (simp_all add: one_row_def set_token_def split: if_splits)

lemma ensure_token_inv: "subj_inv d \<Longrightarrow> subj_inv (snd (EnsureToken fresh i d0 d))"
  unfolding EnsureToken_def
  by (auto split: sum.splits option.splits intro!: store_write_inv [of subj_inv]
      simp: bind_result_Inr split: if_splits intro: set_token_inv)

lemma revoke_token_inv: "subj_inv d \<Longrightarrow> subj_inv (snd (RevokeToken fresh i d))"
  unfolding RevokeToken_def
  by (auto split: option.splits intro!: store_write_inv [of subj_inv] simp: bind_result_Inr intro: set_token_inv)

lemma subj_step_inv: "subj_inv d \<Longrightarrow> subj_inv (subj_step a d)"
proof (cases a)
  case (SCreate e ci)
  assume "subj_inv d" then show ?thesis unfolding SCreate subj_step.simps by (rule store_write_inv) (rule Create_inv)
next
  case (SRotate e i k)
  assume "subj_inv d" then show ?thesis unfolding SRotate subj_step.simps by (rule store_write_inv) (rule Rotate_inv)
next
  case (SUpdate i u)
  assume "subj_inv d" then show ?thesis unfolding SUpdate subj_step.simps by (rule in_tx_inv) (rule Update_inv)
next
  case (SDelete i)
  assume "subj_inv d" then show ?thesis unfolding SDelete subj_step.simps
    by (rule in_tx_inv) (auto simp: Delete_def delete_subject_inv split: if_splits)
next
  case (SClear i)
  assume inv: "subj_inv d" then show ?thesis unfolding SClear subj_step.simps ClearToken_def
    by (rule store_write_inv) (auto simp: bind_result_Inr dest: clear_token_inv [OF _ inv])
next
  case (SFreeze now i reason)
  assume "subj_inv d" then show ?thesis unfolding SFreeze subj_step.simps Freeze_def
    by (rule in_tx_inv) (erule one_row_inv, assumption, simp_all)
next
  case (SUnfreeze i)
  assume "subj_inv d" then show ?thesis unfolding SUnfreeze subj_step.simps Unfreeze_def
    by (rule in_tx_inv) (erule one_row_inv, assumption, simp_all)
next
  case (SDisable i)
  assume "subj_inv d" then show ?thesis unfolding SDisable subj_step.simps Disable_def
    by (rule in_tx_inv) (erule one_row_inv, assumption, simp_all)
next
  case (SEnable i)
  assume "subj_inv d" then show ?thesis unfolding SEnable subj_step.simps Enable_def
    by (rule in_tx_inv) (erule one_row_inv, assumption, simp_all)
qed (simp_all add: ensure_token_inv revoke_token_inv expiry_Sweep_inv)

interpretation subj_machine: invariant_machine subj_step "\<lambda>_. True" subj_inv
  by unfold_locales (rule subj_step_inv)

text \<open>C23: whatever creations, changes, deletions, rotations, freezes, token requests and expiry sweeps run, and
  whichever of them fail, no two subjects share an id, a name up to case or a subscription token, every grant joins
  an existing subject to an existing service, and every credential belongs to an existing subject, one per kind.\<close>
theorem subjects_stay_well_formed:
  assumes "subj_inv d"
  shows "subj_inv (fold subj_step ops d)"
  using subj_machine.run_inv [OF _ assms, of ops] by (simp add: list_all_iff)

theorem subjects_stay_well_formed_witness:
  "let d = fold subj_step [SCreate demo_env demo_create, SCreate demo_env demo_create, SRotate demo_env 1 ''uuid'', SDisable 1,
       SRevoke (Some ''tok2'') 1] no_people
   in subj_inv d \<and> map (\<lambda>r. (s_id r, s_name r, s_enabled r, s_subscription_token r)) (t_subjects d) = [(1, ''ann'', False, ''tok2'')]
     \<and> t_subject_services d = [(1, 2), (1, 1)]"
  unfolding Let_def
  by (intro conjI subjects_stay_well_formed [OF no_people_inv]) code_simp+

section \<open>Subscription links\<close>

lemma peek_token_Inr: "subj_inv d \<Longrightarrow> PeekToken i d = Inr t \<longleftrightarrow> (\<exists>r \<in> set (t_subjects d). s_id r = i \<and> s_subscription_token r = t)"
proof -
  assume "subj_inv d"
  then have key: "sql_one (\<lambda>r. s_id r = i) (t_subjects d) = Some r \<longleftrightarrow> r \<in> set (t_subjects d) \<and> s_id r = i" for r
    using sql_one_key [of s_id "t_subjects d" i r] by (simp add: subj_inv_def subjects_wf_distinct)
  have "PeekToken i d = Inr t \<longleftrightarrow> (\<exists>r. sql_one (\<lambda>r. s_id r = i) (t_subjects d) = Some r \<and> s_subscription_token r = t)"
    by (simp add: PeekToken_def split: option.splits)
  then show ?thesis unfolding key by blast
qed

lemma token_row:
  assumes "subj_inv d" "r \<in> set (t_subjects d)" "s_subscription_token r = t" "t \<noteq> ''''"
  shows "sql_one (\<lambda>r. s_subscription_token r = t) (t_subjects d) = Some r"
proof (cases "sql_one (\<lambda>r. s_subscription_token r = t) (t_subjects d)")
  case None
  then show ?thesis using assms by (auto simp: sql_one_None)
next
  case (Some x)
  then have x: "x \<in> set (t_subjects d)" "s_subscription_token x = t" by (auto dest: sql_one_Some)
  have wf: "subjects_wf (t_subjects d)" using assms(1) by (simp add: subj_inv_def)
  have "s_id x = s_id r" by (rule subjects_wfD(2) [OF wf x(1) assms(2)]) (use x assms in simp_all)
  then have "x = r" using subjects_wf_distinct [OF wf] x(1) assms(2) by (auto simp: distinct_map inj_on_def)
  then show ?thesis using Some by simp
qed

lemma lookup_token:
  assumes "subj_inv d" "r \<in> set (t_subjects d)" "s_subscription_token r = t" "t \<noteq> ''''"
  shows "LookupByToken t d = (if s_enabled r then Inr (s_id r) else Inl ErrTokenNotFound)"
  using token_row [OF assms] assms(4) by (simp add: LookupByToken_def)

lemma lookup_token_none: "(\<And>r. r \<in> set (t_subjects d) \<Longrightarrow> s_subscription_token r \<noteq> t) \<Longrightarrow> LookupByToken t d = Inl ErrTokenNotFound"
  by (auto simp: LookupByToken_def split: option.splits dest: sql_one_Some)

lemma set_token_rows:
  assumes "set_token i t d = Inr d'"
  shows "t_subjects d' = map (\<lambda>r. if s_id r = i then r\<lparr>s_subscription_token := t\<rparr> else r) (t_subjects d)"
  using assms by (auto simp: set_token_def sql_update_def split: if_splits)

lemma set_token_free:
  "set_token i t d = Inr d' \<Longrightarrow> i \<in> s_id ` set (t_subjects d) \<Longrightarrow> t \<noteq> '''' \<Longrightarrow> r \<in> set (t_subjects d) \<Longrightarrow> s_id r \<noteq> i
     \<Longrightarrow> s_subscription_token r \<noteq> t"
  by (auto simp: set_token_def split: if_splits)

text \<open>\<open>EnsureToken\<close> hands out one link per subject. When its first read found none, the token it returns is stored,
  resolves to the subject exactly while the subject is enabled, and every later or concurrent call, whether its own
  first read was before or after the write, returns the same token and writes nothing.\<close>
theorem ensure_token_one_link:
  assumes "subj_inv d" and "PeekToken i d0 = Inr ''''" and "fresh \<noteq> Some ''''"
    and "EnsureToken fresh i d0 d = (Inr token, d')"
  shows "PeekToken i d' = Inr token \<and> token \<noteq> ''''
    \<and> (\<forall>r \<in> set (t_subjects d'). s_id r = i \<longrightarrow> LookupByToken token d' = (if s_enabled r then Inr i else Inl ErrTokenNotFound))
    \<and> (\<forall>fresh' d1. fresh' \<noteq> None \<and> PeekToken i d1 \<in> {Inr '''', Inr token} \<longrightarrow> EnsureToken fresh' i d1 d' = (Inr token, d'))"
proof -
  obtain nt where nt: "fresh = Some nt" "nt \<noteq> ''''" using assms(2-4) by (cases fresh) (auto simp: EnsureToken_def)
  have inv': "subj_inv d'" using ensure_token_inv [OF assms(1), of fresh i d0] assms(4) by simp
  have tx: "bind_result (PeekToken i d) (\<lambda>current. if current \<noteq> '''' then Inr (current, d)
      else bind_result (set_token i nt d) (\<lambda>d'. Inr (nt, d'))) = Inr (token, d')"
    using assms(2,4) nt by (simp add: EnsureToken_def store_write_commit)
  then obtain cur where cur: "PeekToken i d = Inr cur" by (auto simp: bind_result_Inr)
  obtain r where r: "r \<in> set (t_subjects d)" "s_id r = i" "s_subscription_token r = cur"
    using cur peek_token_Inr [OF assms(1)] by blast
  have res: "token \<noteq> '''' \<and> (\<exists>r \<in> set (t_subjects d'). s_id r = i \<and> s_subscription_token r = token)"
  proof (cases "cur = ''''")
    case True
    then have st: "set_token i nt d = Inr d'" and "token = nt" using tx cur by (auto simp: bind_result_Inr)
    moreover have "r\<lparr>s_subscription_token := nt\<rparr> \<in> set (t_subjects d')" using r unfolding set_token_rows [OF st] by force
    ultimately show ?thesis using r(2) nt(2) by (intro conjI bexI) simp_all
  next
    case False
    then show ?thesis using tx cur r by auto
  qed
  then have peek: "PeekToken i d' = Inr token" using peek_token_Inr [OF inv'] by blast
  have "LookupByToken token d' = (if s_enabled r then Inr i else Inl ErrTokenNotFound)" if "r \<in> set (t_subjects d')" "s_id r = i" for r
  proof -
    have "distinct (map s_id (t_subjects d'))" using inv' by (simp add: subj_inv_def subjects_wf_distinct)
    then have "s_subscription_token r = token" using res that by (auto simp: distinct_map inj_on_def)
    from lookup_token [OF inv' that(1) this] show ?thesis using res that(2) by simp
  qed
  moreover have "EnsureToken fresh' i d1 d' = (Inr token, d')" if "fresh' \<noteq> None" "PeekToken i d1 \<in> {Inr '''', Inr token}" for fresh' d1
    using that peek res by (auto simp: EnsureToken_def store_write_def)
  ultimately show ?thesis using peek res by blast
qed

text \<open>revoking a subject's link makes the old one resolve to nobody and the new one to the subject while it is
  enabled, and leaves every link of every other subject as it was.\<close>
theorem revoke_token_invalidates:
  assumes "subj_inv d" and "r \<in> set (t_subjects d)" and "new \<noteq> ''''"
    and "RevokeToken (Some new) (s_id r) d = (Inr token, d')"
  shows "token = new
    \<and> LookupByToken new d' = (if s_enabled r then Inr (s_id r) else Inl ErrTokenNotFound)
    \<and> (s_subscription_token r \<noteq> new \<longrightarrow> LookupByToken (s_subscription_token r) d' = Inl ErrTokenNotFound)
    \<and> (\<forall>r' \<in> set (t_subjects d). s_id r' \<noteq> s_id r \<longrightarrow>
         LookupByToken (s_subscription_token r') d' = LookupByToken (s_subscription_token r') d)"
proof -
  have st: "set_token (s_id r) new d = Inr d'" and tok: "token = new"
    using assms(4) by (auto simp: RevokeToken_def store_write_commit bind_result_Inr)
  have inv': "subj_inv d'" by (rule set_token_inv [OF st assms(1)])
  have wf: "subjects_wf (t_subjects d)" using assms(1) by (simp add: subj_inv_def)
  have rows: "t_subjects d' = map (\<lambda>x. if s_id x = s_id r then x\<lparr>s_subscription_token := new\<rparr> else x) (t_subjects d)"
    by (rule set_token_rows [OF st])
  have "r\<lparr>s_subscription_token := new\<rparr> \<in> set (t_subjects d')" using assms(2) unfolding rows by force
  from lookup_token [OF inv' this _ assms(3)]
  have new: "LookupByToken new d' = (if s_enabled r then Inr (s_id r) else Inl ErrTokenNotFound)" by simp
  have old: "LookupByToken (s_subscription_token r) d' = Inl ErrTokenNotFound" if ne: "s_subscription_token r \<noteq> new"
  proof (cases "s_subscription_token r = ''''")
    case False
    have "s_subscription_token x = s_subscription_token r \<Longrightarrow> s_id x = s_id r" if "x \<in> set (t_subjects d)" for x
      by (rule subjects_wfD(2) [OF wf that assms(2)]) (use False in simp_all)
    then show ?thesis by (intro lookup_token_none) (use ne in \<open>auto simp: rows split: if_splits\<close>)
  qed (simp add: LookupByToken_def)
  have others: "LookupByToken (s_subscription_token r') d' = LookupByToken (s_subscription_token r') d"
    if r': "r' \<in> set (t_subjects d)" "s_id r' \<noteq> s_id r" for r'
  proof (cases "s_subscription_token r' = ''''")
    case False
    have "r' \<in> set (t_subjects d')" using r' unfolding rows by force
    then show ?thesis using lookup_token [OF assms(1) r'(1) refl False] lookup_token [OF inv' _ refl False] by simp
  qed (simp add: LookupByToken_def)
  show ?thesis using tok new old others by blast
qed

definition unlinked :: panel_db where
  "unlinked = snd (ClearToken 1 people)"

definition linked :: panel_db where
  "linked = snd (EnsureToken (Some ''t-1'') 1 unlinked unlinked)"

lemma unlinked_inv: "subj_inv unlinked" by code_simp

theorem ensure_token_one_link_witness:
  "PeekToken 1 linked = Inr ''t-1'' \<and> EnsureToken (Some ''t-2'') 1 unlinked linked = (Inr ''t-1'', linked)"
proof -
  have peek: "PeekToken 1 unlinked = Inr ''''" by code_simp
  have "fst (EnsureToken (Some ''t-1'') 1 unlinked unlinked) = Inr ''t-1''" by code_simp
  then have ens: "EnsureToken (Some ''t-1'') 1 unlinked unlinked = (Inr ''t-1'', linked)" by (simp add: linked_def prod_eq_iff)
  show ?thesis using ensure_token_one_link [OF unlinked_inv peek _ ens] peek by simp
qed

theorem revoke_token_invalidates_witness:
  "LookupByToken ''tok'' people = Inr 1
   \<and> LookupByToken ''tok'' (snd (RevokeToken (Some ''new'') 1 people)) = Inl ErrTokenNotFound
   \<and> LookupByToken ''new'' (snd (RevokeToken (Some ''new'') 1 people)) = Inr 1"
proof -
  define r where "r = hd (t_subjects people)"
  have r: "s_id r = 1" "s_subscription_token r = ''tok''" "s_enabled r" unfolding r_def by code_simp+
  have "t_subjects people \<noteq> []" by code_simp
  then have mem: "r \<in> set (t_subjects people)" by (simp add: r_def)
  have "fst (RevokeToken (Some ''new'') 1 people) = Inr ''new''" by code_simp
  then have "RevokeToken (Some ''new'') (s_id r) people = (Inr ''new'', snd (RevokeToken (Some ''new'') 1 people))"
    by (simp add: prod_eq_iff r)
  from revoke_token_invalidates [OF people_inv(1) mem _ this] show ?thesis
    using lookup_token [OF people_inv(1) mem r(2)] r by simp
qed

section \<open>Credentials\<close>

lemma upsert_credential_reads:
  assumes "upsert_credential i kind sealed d = Inr d'"
  shows "map_option cr_value_enc (sql_one (\<lambda>c. cr_subject_id c = j \<and> cr_kind c = k) (t_subject_credentials d'))
    = (if j = i \<and> k = kind then Some sealed
       else map_option cr_value_enc (sql_one (\<lambda>c. cr_subject_id c = j \<and> cr_kind c = k) (t_subject_credentials d)))"
proof (cases "sql_one (\<lambda>c. cr_subject_id c = i \<and> cr_kind c = kind) (t_subject_credentials d) = None")
  case True
  then have d': "t_subject_credentials d' = t_subject_credentials d @
      [\<lparr>cr_subject_id = i, cr_kind = kind, cr_value_enc = sealed, cr_rotation = 0\<rparr>]"
    using assms by (auto simp: upsert_credential_def split: if_splits)
  show ?thesis unfolding d' sql_one_append using True by (auto split: option.splits)
next
  case False
  then have d': "t_subject_credentials d' = sql_update (\<lambda>c. cr_subject_id c = i \<and> cr_kind c = kind)
        (\<lambda>c. c\<lparr>cr_value_enc := sealed, cr_rotation := cr_rotation c + 1\<rparr>) (t_subject_credentials d)"
    using assms by (auto simp: upsert_credential_def split: if_splits)
  have "map_option cr_value_enc (sql_one (\<lambda>c. cr_subject_id c = j \<and> cr_kind c = k) (sql_update (\<lambda>c. cr_subject_id c = i \<and> cr_kind c = kind)
        (\<lambda>c. c\<lparr>cr_value_enc := sealed, cr_rotation := cr_rotation c + 1\<rparr>) rows))
     = (if j = i \<and> k = kind \<and> sql_one (\<lambda>c. cr_subject_id c = j \<and> cr_kind c = k) rows \<noteq> None then Some sealed
        else map_option cr_value_enc (sql_one (\<lambda>c. cr_subject_id c = j \<and> cr_kind c = k) rows))" for rows :: "credential_row list"
    by (induction rows) auto
  then show ?thesis unfolding d' using False by simp
qed

lemma CredentialOf_stored:
  "CredentialOf (Some op) i kind d = (case map_option cr_value_enc (sql_one (\<lambda>c. cr_subject_id c = i \<and> cr_kind c = kind) (t_subject_credentials d)) of
     None \<Rightarrow> Inl (ErrNoRows ''subject_credentials'')
   | Some s \<Rightarrow> (case op s of None \<Rightarrow> Inl (ErrUnseal kind i) | Some v \<Rightarrow> Inr v))"
  by (simp add: CredentialOf_def split: option.splits)

lemma put_credential_reads:
  assumes box: "\<And>v s. seal v = Some s \<Longrightarrow> op s = Some v" and put: "putCredential seal i kind v d = Inr d'"
  shows "CredentialOf (Some op) j k d' = (if j = i \<and> k = kind then Inr v else CredentialOf (Some op) j k d)"
proof -
  obtain s where s: "seal v = Some s" "upsert_credential i kind s d = Inr d'"
    using put by (auto simp: putCredential_def split: option.splits)
  show ?thesis unfolding CredentialOf_stored upsert_credential_reads [OF s(2)] using box [OF s(1)] by simp
qed

lemma grant_services_credentials: "grant_services i vs d = Inr d' \<Longrightarrow> t_subject_credentials d' = t_subject_credentials d"
  by (drule grant_services_spec) simp

lemma CredentialOf_frame: "t_subject_credentials d' = t_subject_credentials d \<Longrightarrow> CredentialOf b i k d' = CredentialOf b i k d"
  by (simp add: CredentialOf_def split: option.splits)

text \<open>C38: credentials survive sealing. With a secret box that opens what it sealed, a created subject's two
  credentials read back as the imported values, validated, or as the generated ones, no other subject's credential
  changes, and rotating one of them replaces that one alone.\<close>
theorem credentials_round_trip:
  assumes "env_box e = Some seal" and "\<And>v s. seal v = Some s \<Longrightarrow> op s = Some v"
    and "Create e ci d = Inr (i, d')"
  shows "(\<forall>k \<in> {''uuid'', ''password''}. CredentialOf (Some op) i k d' = credential_value e ci k)
    \<and> (\<forall>j k. j \<noteq> i \<longrightarrow> CredentialOf (Some op) j k d' = CredentialOf (Some op) j k d)
    \<and> (\<forall>k v d''. Rotate e i k d' = Inr (v, d'') \<longrightarrow> CredentialOf (Some op) i k d'' = Inr v
         \<and> (\<forall>j k'. (j, k') \<noteq> (i, k) \<longrightarrow> CredentialOf (Some op) j k' d'' = CredentialOf (Some op) j k' d'))"
proof -
  note box = assms(2)
  obtain token d1 d2 where ins: "insert_subject e ci (trim_space (ci_Name ci)) token d = Inr (i, d1)"
    and put: "put_credentials e seal ci i [''uuid'', ''password''] d1 = Inr d2" and gr: "grant_services i (ci_ServiceIDs ci) d2 = Inr d'"
    using Create_Inr [OF assms(3)] assms(1) by (metis option.inject)
  have d1: "CredentialOf b j k d1 = CredentialOf b j k d" for b j k
    using ins by (intro CredentialOf_frame) (auto simp: insert_subject_def Let_def split: if_splits)
  have d': "CredentialOf b j k d' = CredentialOf b j k d2" for b j k
    by (rule CredentialOf_frame [OF grant_services_credentials [OF gr]])
  obtain u p m where v: "credential_value e ci ''uuid'' = Inr u" "credential_value e ci ''password'' = Inr p"
    and m: "putCredential seal i ''uuid'' u d1 = Inr m" "putCredential seal i ''password'' p m = Inr d2"
    using put by (auto simp: bind_result_Inr)
  have reads: "CredentialOf (Some op) j k y = (if j = i \<and> k = kind then Inr v else CredentialOf (Some op) j k x)"
    if "putCredential seal i kind v x = Inr y" for kind v x y j k
    by (rule put_credential_reads [of seal op, OF _ that]) (rule box)
  have all: "CredentialOf (Some op) j k d' = (if j = i \<and> k = ''password'' then Inr p else if j = i \<and> k = ''uuid'' then Inr u
      else CredentialOf (Some op) j k d)" for j k
    unfolding d' reads [OF m(2)] reads [OF m(1)] d1 by simp
  have "CredentialOf (Some op) j k' d'' = (if j = i \<and> k' = k then Inr v else CredentialOf (Some op) j k' d')"
    if "Rotate e i k d' = Inr (v, d'')" for k v d'' j k'
    using that reads [of k v d' d''] assms(1) by (auto simp: Rotate_def bind_result_Inr)
  then show ?thesis using v by (auto simp: all)
qed

theorem credentials_round_trip_witness:
  "CredentialOf (Some (\<lambda>s. Some (rev s))) 1 ''password'' people = Inr ''abcdefghijklmnop''"
proof -
  define seal :: "string \<Rightarrow> string option" where "seal = (\<lambda>v. Some (rev v))"
  have e: "env_box demo_env = Some seal" by (simp add: demo_env_def seal_def)
  have box: "\<And>v s. seal v = Some s \<Longrightarrow> Some (rev s) = Some v" by (auto simp: seal_def)
  have "is_ok (Create demo_env demo_create no_people)" by code_simp
  then obtain i d where c: "Create demo_env demo_create no_people = Inr (i, d)"
    by (cases "Create demo_env demo_create no_people") (auto simp: is_ok_def)
  then have "people = d" by (simp add: people_def)
  moreover have "i = 1"
  proof -
    have "(case Create demo_env demo_create no_people of Inr (i, d) \<Rightarrow> i | Inl e \<Rightarrow> 0) = 1" by code_simp
    then show ?thesis using c by simp
  qed
  moreover have "credential_value demo_env demo_create ''password'' = Inr ''abcdefghijklmnop''" by code_simp
  ultimately show ?thesis using credentials_round_trip [OF e box c] by simp
qed

text \<open>the predicate documented as the single one that the document builder and the sweeper consult does not look at
  the freeze: a subject frozen for its quota and enabled again is active, yet the builder omits it.\<close>
theorem active_ignores_freeze:
  "\<exists>d i now. subj_inv d \<and> map (\<lambda>r. Active (scanSubject r) now) (t_subjects d) = [True]
     \<and> (\<exists>snap. BuildDesiredSnapshot demo_codec (Some (\<lambda>v. Some (rev v))) now 1 d = Inr snap
          \<and> i \<in> s_id ` set (t_subjects d) \<and> i \<notin> set (map subj_ID (Subjects (snap_Document snap))))"
proof -
  let ?d = "subj_step (SFreeze 200 1 ''abuse'') people"
  let ?b = "BuildDesiredSnapshot demo_codec (Some (\<lambda>v. Some (rev v))) 300 1 ?d"
  have 1: "subj_inv ?d" by (rule subj_step_inv [OF people_inv(1)])
  have 2: "map (\<lambda>r. Active (scanSubject r) 300) (t_subjects ?d) = [True]" by code_simp
  have "(case ?b of Inl e \<Rightarrow> False | Inr snap \<Rightarrow> 1 \<in> s_id ` set (t_subjects ?d) \<and> 1 \<notin> set (map subj_ID (Subjects (snap_Document snap))))"
    by code_simp
  then have "\<exists>snap. ?b = Inr snap \<and> 1 \<in> s_id ` set (t_subjects ?d) \<and> 1 \<notin> set (map subj_ID (Subjects (snap_Document snap)))"
    by (cases ?b) auto
  then show ?thesis by (intro exI [of _ ?d] exI [of _ 1] exI [of _ 300] conjI 1 2)
qed

end
