(* ===== verification/Resellers.thy ===== *)
theory Resellers
  imports Subjects
begin

text \<open>
  The commercial layer, \<open>src/internal/panel/resellers/resellers.go\<close>: tenants, their append-only credit ledger and
  the paid creation of customers.

  Every method takes the caller's transaction: it is a function on the database that returns an error or its
  result and the changed database. The interface \<open>subjectCreator\<close> through which customers are created is a record
  of its two methods; the laws it must satisfy are the locale \<open>subject_creator_laws\<close>, and the subject store is
  shown to satisfy them. Amounts are Go's \<open>int64\<close>: the one subtraction that can wrap is written as such, and the
  sum SQLite computes fails when it leaves the range.
\<close>

section \<open>Balance and ledger\<close>

record Reseller =
  r_ID :: int
  r_AdminID :: int
  r_DisplayName :: string
  r_Enabled :: bool
  r_MaxSubjects :: "int option"
  r_MaxQuotaBytes :: "int option"
  r_CreditFloor :: int
  r_CreatedAt :: int
  r_UpdatedAt :: int

text \<open>SQLite's \<open>sum\<close> over integers: an overflow of a partial sum is an error, no row is NULL.\<close>

fun sql_sum :: "int \<Rightarrow> int list \<Rightarrow> panel_err + int" where
  "sql_sum acc [] = Inr acc"
| "sql_sum acc (x # xs) = (if int64_range (acc + x) then sql_sum (acc + x) xs else Inl (ErrInvalid ''integer overflow''))"

definition ledger_of :: "int \<Rightarrow> panel_db \<Rightarrow> ledger_row list" where
  "ledger_of resellerID d = sql_where (\<lambda>l. lg_reseller_id l = resellerID) (t_credit_ledger d)"

definition Balance :: "int \<Rightarrow> panel_db \<Rightarrow> panel_err + int" where
  "Balance resellerID d = sql_sum 0 (map lg_delta (ledger_of resellerID d))"

definition reseller_Get :: "int \<Rightarrow> panel_db \<Rightarrow> panel_err + Reseller" where
  "reseller_Get i d = (case sql_one (\<lambda>r. rs_id r = i) (t_resellers d) of
     None \<Rightarrow> Inl ErrNotFound
   | Some r \<Rightarrow> Inr \<lparr>r_ID = rs_id r, r_AdminID = rs_admin_id r, r_DisplayName = rs_display_name r, r_Enabled = rs_enabled r,
       r_MaxSubjects = rs_max_subjects r, r_MaxQuotaBytes = rs_max_quota_bytes r, r_CreditFloor = rs_credit_floor r,
       r_CreatedAt = rs_created_at r, r_UpdatedAt = rs_updated_at r\<rparr>)"

record credit_input =
  cin_ResellerID :: int
  cin_Delta :: int
  cin_Reason :: string
  cin_Note :: string
  cin_SubjectID :: "int option"
  cin_ActorAdminID :: "int option"
  cin_IdempotencyKey :: string

definition ledger_reasons :: "string list" where
  "ledger_reasons = [''topup'', ''provision'', ''renew'', ''refund'', ''adjustment'']"

definition prior_movement :: "int \<Rightarrow> string \<Rightarrow> panel_db \<Rightarrow> ledger_row option" where
  "prior_movement resellerID key d =
     sql_one (\<lambda>l. lg_reseller_id l = resellerID \<and> lg_idempotency_key l = key) (t_credit_ledger d)"

definition new_movement :: "int \<Rightarrow> credit_input \<Rightarrow> int \<Rightarrow> ledger_row" where
  "new_movement now cin rowid = \<lparr>lg_id = rowid, lg_reseller_id = cin_ResellerID cin, lg_delta = cin_Delta cin,
     lg_reason = cin_Reason cin, lg_subject_id = cin_SubjectID cin, lg_actor_admin_id = cin_ActorAdminID cin,
     lg_note = cin_Note cin, lg_idempotency_key = cin_IdempotencyKey cin, lg_at = now\<rparr>"

text \<open>The foreign keys of the ledger; its CHECKs and its unique key are tested before the insert.\<close>

definition ledger_fks :: "credit_input \<Rightarrow> panel_db \<Rightarrow> bool" where
  "ledger_fks cin d \<longleftrightarrow> cin_ResellerID cin \<in> rs_id ` set (t_resellers d)
     \<and> (case cin_SubjectID cin of None \<Rightarrow> True | Some i \<Rightarrow> i \<in> s_id ` set (t_subjects d))
     \<and> (case cin_ActorAdminID cin of None \<Rightarrow> True | Some a \<Rightarrow> a \<in> am_id ` set (t_admins d))"

definition Credit :: "int \<Rightarrow> credit_input \<Rightarrow> panel_db \<Rightarrow> panel_err + (int \<times> panel_db)" where
  "Credit now cin d =
     (if cin_Delta cin = 0 then Inl (ErrInvalid ''a credit movement of zero is meaningless'')
      else if trim_space (cin_IdempotencyKey cin) = '''' then Inl (ErrInvalid ''idempotency key is required'')
      else if cin_Reason cin \<notin> set ledger_reasons then Inl (ErrInvalid ''unknown ledger reason'')
      else (case prior_movement (cin_ResellerID cin) (cin_IdempotencyKey cin) d of
          Some l \<Rightarrow> Inr (lg_id l, d)
        | None \<Rightarrow>
            if ledger_fks cin d then
              (let rowid = next_rowid lg_id (t_credit_ledger d)
               in Inr (rowid, d\<lparr>t_credit_ledger := t_credit_ledger d @ [new_movement now cin rowid]\<rparr>))
            else Inl (ErrConstraint ''reseller_credit_ledger'')))"

section \<open>Provisioning\<close>

record subject_creator =
  sc_Create :: "create_input \<Rightarrow> panel_db \<Rightarrow> panel_err + (int \<times> panel_db)"
  sc_NodeIDsFor :: "int \<Rightarrow> panel_db \<Rightarrow> panel_err + int list"

record provision_input =
  pv_ResellerID :: int
  pv_Cost :: int
  pv_Subject :: create_input
  pv_QuotaBytes :: int
  pv_ActorAdminID :: "int option"
  pv_IdempotencyKey :: string
  pv_RequestID :: string
  pv_Actor :: actor

record provision_result =
  pr_SubjectID :: int
  pr_LedgerID :: int
  pr_Balance :: int
  pr_NodeIDs :: "int list"

definition owned_count :: "int \<Rightarrow> panel_db \<Rightarrow> int" where
  "owned_count resellerID d = int (sql_count (\<lambda>w. ow_reseller_id w = resellerID) (t_reseller_subjects d))"

definition allocated_quota :: "int \<Rightarrow> panel_db \<Rightarrow> int list" where
  "allocated_quota resellerID d = concat (map (\<lambda>w.
     concat (map (\<lambda>s. case s_quota_bytes s of None \<Rightarrow> [] | Some q \<Rightarrow> [q]) (sql_where (\<lambda>s. s_id s = ow_subject_id w) (t_subjects d))))
     (sql_where (\<lambda>w. ow_reseller_id w = resellerID) (t_reseller_subjects d)))"

definition check_subjects :: "Reseller \<Rightarrow> panel_db \<Rightarrow> panel_err + unit" where
  "check_subjects r d = (case r_MaxSubjects r of None \<Rightarrow> Inr ()
     | Some m \<Rightarrow> let n = owned_count (r_ID r) d in if n + 1 > m then Inl (ErrLimitExceeded n m) else Inr ())"

definition check_quota :: "Reseller \<Rightarrow> int \<Rightarrow> panel_db \<Rightarrow> panel_err + unit" where
  "check_quota r added d = (case r_MaxQuotaBytes r of None \<Rightarrow> Inr ()
     | Some m \<Rightarrow> if added > 0 then bind_result (sql_sum 0 (allocated_quota (r_ID r) d)) (\<lambda>a.
         if int64_add a added > m then Inl (ErrLimitExceeded a m) else Inr ()) else Inr ())"

definition checkLimits :: "Reseller \<Rightarrow> int \<Rightarrow> panel_db \<Rightarrow> panel_err + unit" where
  "checkLimits r added d = bind_result (check_subjects r d) (\<lambda>_. check_quota r added d)"

definition insert_ownership :: "int \<Rightarrow> int \<Rightarrow> int \<Rightarrow> int \<Rightarrow> panel_db \<Rightarrow> panel_err + panel_db" where
  "insert_ownership now sid resellerID cost d =
     (if 0 \<le> cost \<and> sid \<in> s_id ` set (t_subjects d) \<and> resellerID \<in> rs_id ` set (t_resellers d)
         \<and> sid \<notin> ow_subject_id ` set (t_reseller_subjects d)
      then Inr (d\<lparr>t_reseller_subjects := t_reseller_subjects d @
        [\<lparr>ow_subject_id = sid, ow_reseller_id = resellerID, ow_cost = cost, ow_created_at = now\<rparr>]\<rparr>)
      else Inl (ErrConstraint ''reseller_subjects''))"

definition record_quota :: "int \<Rightarrow> int \<Rightarrow> panel_db \<Rightarrow> panel_db" where
  "record_quota q sid d = (if q > 0 then set_subject sid (\<lambda>r. r\<lparr>s_quota_bytes := Some q\<rparr>) d else d)"

definition debit :: "int \<Rightarrow> provision_input \<Rightarrow> int \<Rightarrow> panel_db \<Rightarrow> panel_err + (int \<times> panel_db)" where
  "debit now pv sid d =
     (if pv_Cost pv > 0 then Credit now \<lparr>cin_ResellerID = pv_ResellerID pv, cin_Delta = - pv_Cost pv, cin_Reason = ''provision'',
        cin_Note = '''', cin_SubjectID = Some sid, cin_ActorAdminID = pv_ActorAdminID pv,
        cin_IdempotencyKey = pv_IdempotencyKey pv\<rparr> d
      else Inr (0, d))"

definition provision_audit :: "int \<Rightarrow> provision_input \<Rightarrow> int \<Rightarrow> panel_db \<Rightarrow> panel_err + panel_db" where
  "provision_audit now pv sid = audit_InTx now (pv_RequestID pv) (pv_Actor pv) ''reseller.provision'' ''subject'' (Some sid)
     [(''reseller_id'', JInt (pv_ResellerID pv)), (''cost'', JInt (pv_Cost pv)), (''quota_bytes'', JInt (pv_QuotaBytes pv))] ''ok''"

text \<open>The first provision under a key, after the limits: the balance test, the customer, the owner, the quota, the debit.\<close>

definition provision_new ::
  "subject_creator \<Rightarrow> int \<Rightarrow> provision_input \<Rightarrow> Reseller \<Rightarrow> panel_db \<Rightarrow> panel_err + (provision_result \<times> panel_db)" where
  "provision_new sc now pv r d =
     bind_result (Balance (pv_ResellerID pv) d) (\<lambda>balance.
     if int64_add balance (- pv_Cost pv) < r_CreditFloor r
     then Inl (ErrInsufficientCredit balance (pv_Cost pv) (r_CreditFloor r))
     else
       bind_result (sc_Create sc (pv_Subject pv) d) (\<lambda>(sid, d1).
       bind_result (insert_ownership now sid (pv_ResellerID pv) (pv_Cost pv) d1) (\<lambda>d2.
       bind_result (debit now pv sid (record_quota (pv_QuotaBytes pv) sid d2)) (\<lambda>(ledgerID, d3).
       bind_result (provision_audit now pv sid d3) (\<lambda>d4.
       bind_result (sc_NodeIDsFor sc sid d4) (\<lambda>ns.
         Inr (\<lparr>pr_SubjectID = sid, pr_LedgerID = ledgerID, pr_Balance = int64_add balance (- pv_Cost pv), pr_NodeIDs = ns\<rparr>, d4)))))))"

text \<open>The repeat of an applied one: its outcome again; an error of the node query leaves the list nil.\<close>

definition provision_again :: "subject_creator \<Rightarrow> provision_input \<Rightarrow> ledger_row \<Rightarrow> panel_db \<Rightarrow> panel_err + provision_result" where
  "provision_again sc pv l d =
     bind_result (Balance (pv_ResellerID pv) d) (\<lambda>balance.
       Inr (case lg_subject_id l of
           None \<Rightarrow> \<lparr>pr_SubjectID = 0, pr_LedgerID = lg_id l, pr_Balance = balance, pr_NodeIDs = []\<rparr>
         | Some sid \<Rightarrow> \<lparr>pr_SubjectID = sid, pr_LedgerID = lg_id l, pr_Balance = balance,
             pr_NodeIDs = (case sc_NodeIDsFor sc sid d of Inl e \<Rightarrow> [] | Inr ns \<Rightarrow> ns)\<rparr>))"

definition ProvisionSubject ::
  "subject_creator option \<Rightarrow> int \<Rightarrow> provision_input \<Rightarrow> panel_db \<Rightarrow> panel_err + (provision_result \<times> panel_db)" where
  "ProvisionSubject subj now pv d =
     (case subj of
        None \<Rightarrow> Inl (ErrInvalid ''no subject store configured'')
      | Some sc \<Rightarrow>
          if pv_Cost pv < 0 then Inl (ErrInvalid ''cost must not be negative'')
          else if trim_space (pv_IdempotencyKey pv) = '''' then Inl (ErrInvalid ''idempotency key is required'')
          else bind_result (reseller_Get (pv_ResellerID pv) d) (\<lambda>r.
            if \<not> r_Enabled r then Inl ErrDisabled
            else (case prior_movement (pv_ResellerID pv) (pv_IdempotencyKey pv) d of
                Some l \<Rightarrow> bind_result (provision_again sc pv l d) (\<lambda>res. Inr (res, d))
              | None \<Rightarrow> bind_result (checkLimits r (pv_QuotaBytes pv) d) (\<lambda>_. provision_new sc now pv r d))))"

definition OwnerOf :: "int \<Rightarrow> panel_db \<Rightarrow> panel_err + int" where
  "OwnerOf sid d = (case sql_one (\<lambda>w. ow_subject_id w = sid) (t_reseller_subjects d) of
     None \<Rightarrow> Inl ErrNotFound | Some w \<Rightarrow> Inr (ow_reseller_id w))"

section \<open>Tenants\<close>

record reseller_input =
  ri_AdminID :: int
  ri_DisplayName :: string
  ri_MaxSubjects :: "int option"
  ri_MaxQuotaBytes :: "int option"
  ri_CreditFloor :: int

text \<open>The CHECKs on the two ceilings, the unique admin, the unique name without case and the foreign key.\<close>

definition ceiling_ok :: "int option \<Rightarrow> bool" where
  "ceiling_ok x = (case x of None \<Rightarrow> True | Some m \<Rightarrow> 0 \<le> m)"

definition reseller_Create :: "int \<Rightarrow> reseller_input \<Rightarrow> panel_db \<Rightarrow> panel_err + (int \<times> panel_db)" where
  "reseller_Create now ri d =
     (let name = trim_space (ri_DisplayName ri) in
      if name = '''' then Inl (ErrInvalid ''display name is required'')
      else if ri_AdminID ri \<le> 0 then Inl (ErrInvalid ''admin id is required'')
      else if ri_AdminID ri \<in> am_id ` set (t_admins d) \<and> ceiling_ok (ri_MaxSubjects ri) \<and> ceiling_ok (ri_MaxQuotaBytes ri)
          \<and> ri_AdminID ri \<notin> rs_admin_id ` set (t_resellers d)
          \<and> nocase name \<notin> (nocase \<circ> rs_display_name) ` set (t_resellers d) then
        (let rowid = next_rowid rs_id (t_resellers d)
         in Inr (rowid, d\<lparr>t_resellers := t_resellers d @
           [\<lparr>rs_id = rowid, rs_admin_id = ri_AdminID ri, rs_display_name = name, rs_enabled = True,
             rs_max_subjects = ri_MaxSubjects ri, rs_max_quota_bytes = ri_MaxQuotaBytes ri, rs_credit_floor = ri_CreditFloor ri,
             rs_created_at = now, rs_updated_at = now, rs_usage_coefficient = 10000\<rparr>]\<rparr>))
      else Inl (ErrConstraint ''resellers''))"

record reseller_change =
  rc_DisplayName :: "string option"
  rc_Enabled :: "bool option"
  rc_MaxSubjects :: "int option option"
  rc_MaxQuotaBytes :: "int option option"
  rc_CreditFloor :: "int option"

abbreviation set_reseller :: "int \<Rightarrow> (reseller_row \<Rightarrow> reseller_row) \<Rightarrow> panel_db \<Rightarrow> panel_db" where
  "set_reseller i f d \<equiv> d\<lparr>t_resellers := sql_update (\<lambda>r. rs_id r = i) f (t_resellers d)\<rparr>"

definition rename_reseller :: "int \<Rightarrow> string option \<Rightarrow> panel_db \<Rightarrow> panel_err + panel_db" where
  "rename_reseller i x d = (case x of None \<Rightarrow> Inr d | Some raw \<Rightarrow>
     (let name = trim_space raw in
      if name = '''' then Inl (ErrInvalid ''display name must not be empty'')
      else if \<exists>r \<in> set (t_resellers d). rs_id r \<noteq> i \<and> nocase (rs_display_name r) = nocase name
        then Inl (ErrConstraint ''resellers'')
      else Inr (set_reseller i (\<lambda>r. r\<lparr>rs_display_name := name\<rparr>) d)))"

definition set_ceilings :: "int \<Rightarrow> reseller_change \<Rightarrow> panel_db \<Rightarrow> panel_err + panel_db" where
  "set_ceilings i c d =
     (if (case rc_MaxSubjects c of None \<Rightarrow> True | Some m \<Rightarrow> ceiling_ok m) \<and> (case rc_MaxQuotaBytes c of None \<Rightarrow> True | Some m \<Rightarrow> ceiling_ok m)
      then Inr (set_reseller i (\<lambda>r. r\<lparr>
        rs_max_subjects := (case rc_MaxSubjects c of None \<Rightarrow> rs_max_subjects r | Some m \<Rightarrow> m),
        rs_max_quota_bytes := (case rc_MaxQuotaBytes c of None \<Rightarrow> rs_max_quota_bytes r | Some m \<Rightarrow> m)\<rparr>) d)
      else Inl (ErrConstraint ''resellers''))"

definition reseller_Update :: "int \<Rightarrow> int \<Rightarrow> reseller_change \<Rightarrow> panel_db \<Rightarrow> panel_err + panel_db" where
  "reseller_Update now i c d =
     (if i \<notin> rs_id ` set (t_resellers d) then Inl (ErrNoRows ''resellers'')
      else bind_result (rename_reseller i (rc_DisplayName c) d) (\<lambda>d1.
        bind_result (set_ceilings i c
            (case rc_Enabled c of None \<Rightarrow> d1 | Some b \<Rightarrow> set_reseller i (\<lambda>r. r\<lparr>rs_enabled := b\<rparr>) d1)) (\<lambda>d2.
          Inr (set_reseller i (\<lambda>r. r\<lparr>rs_credit_floor := (case rc_CreditFloor c of None \<Rightarrow> rs_credit_floor r | Some f \<Rightarrow> f),
            rs_updated_at := now\<rparr>) d2))))"

text \<open>The ledger of a deleted tenant goes with it.\<close>

definition reseller_Delete :: "int \<Rightarrow> panel_db \<Rightarrow> panel_err + panel_db" where
  "reseller_Delete i d =
     (if owned_count i d > 0 then Inl (ErrHasCustomers (owned_count i d))
      else if i \<notin> rs_id ` set (t_resellers d) then Inl (ErrNoRows ''resellers'')
      else Inr (d\<lparr>t_resellers := sql_delete (\<lambda>r. rs_id r = i) (t_resellers d),
        t_credit_ledger := sql_delete (\<lambda>l. lg_reseller_id l = i) (t_credit_ledger d)\<rparr>))"

section \<open>What a subject store owes the commercial layer\<close>

locale subject_creator_laws =
  fixes sc :: subject_creator and good :: "panel_db \<Rightarrow> bool"
  assumes create_adds: "good d \<Longrightarrow> sc_Create sc ci d = Inr (i, d') \<Longrightarrow>
      \<exists>row. t_subjects d' = t_subjects d @ [row] \<and> s_id row = i \<and> i \<notin> s_id ` set (t_subjects d)"
    and create_frame: "sc_Create sc ci d = Inr (i, d') \<Longrightarrow> t_credit_ledger d' = t_credit_ledger d
      \<and> t_reseller_subjects d' = t_reseller_subjects d \<and> t_resellers d' = t_resellers d \<and> t_admins d' = t_admins d
      \<and> t_audit_log d' = t_audit_log d"
    and create_good: "good d \<Longrightarrow> sc_Create sc ci d = Inr (i, d') \<Longrightarrow> good d'"
    and nodes_total: "is_ok (sc_NodeIDsFor sc i d)"

lemma sql_sum_append: "sql_sum acc (xs @ [x]) = bind_result (sql_sum acc xs) (\<lambda>b. sql_sum b [x])"
  by (induction xs arbitrary: acc) auto

lemma sql_sum_sum: "sql_sum acc xs = Inr b \<Longrightarrow> b = acc + sum_list xs"
proof (induction xs arbitrary: acc)
  case (Cons x xs)
  then have "sql_sum (acc + x) xs = Inr b" by (simp split: if_splits)
  from Cons.IH [OF this] show ?case by simp
qed simp

lemma sql_sum_range: "sql_sum acc xs = Inr b \<Longrightarrow> int64_range acc \<Longrightarrow> int64_range b"
  by (induction xs arbitrary: acc) (auto split: if_splits)

lemma Balance_range: "Balance i d = Inr b \<Longrightarrow> int64_range b"
  unfolding Balance_def by (erule sql_sum_range) (simp add: int64_range_def)

lemma Balance_ledger: "t_credit_ledger d' = t_credit_ledger d \<Longrightarrow> Balance i d' = Balance i d"
  by (simp add: Balance_def ledger_of_def)

lemma Balance_append:
  "t_credit_ledger d' = t_credit_ledger d @ [l] \<Longrightarrow> Balance i d' =
     (if lg_reseller_id l = i then bind_result (Balance i d) (\<lambda>b. sql_sum b [lg_delta l]) else Balance i d)"
  by (simp add: Balance_def ledger_of_def sql_where_def sql_sum_append)

lemma int64_add_id: "int64_range (a + b) \<Longrightarrow> int64_add a b = a + b"
  unfolding int64_add_def by (rule sint_word_of_int)

lemma debit_Inr:
  assumes "debit now pv sid d = Inr (lid, d')" "prior_movement (pv_ResellerID pv) (pv_IdempotencyKey pv) d = None"
  obtains "pv_Cost pv \<le> 0" "d' = d" "lid = 0"
  | l where "0 < pv_Cost pv" "d' = d\<lparr>t_credit_ledger := t_credit_ledger d @ [l]\<rparr>" "lg_id l = lid" "lg_reseller_id l = pv_ResellerID pv"
      "lg_delta l = - pv_Cost pv" "lg_subject_id l = Some sid" "lg_idempotency_key l = pv_IdempotencyKey pv"
proof (cases "0 < pv_Cost pv")
  case False
  then show thesis using assms(1) that(1) by (simp add: debit_def)
next
  case True
  define cin where "cin = \<lparr>cin_ResellerID = pv_ResellerID pv, cin_Delta = - pv_Cost pv, cin_Reason = ''provision'',
        cin_Note = '''', cin_SubjectID = Some sid, cin_ActorAdminID = pv_ActorAdminID pv,
        cin_IdempotencyKey = pv_IdempotencyKey pv\<rparr>"
  have "Credit now cin d = Inr (lid, d')" using True assms(1) by (simp add: debit_def cin_def)
  then have "lid = next_rowid lg_id (t_credit_ledger d)" "d' = d\<lparr>t_credit_ledger := t_credit_ledger d @ [new_movement now cin lid]\<rparr>"
    using assms(2) by (auto simp: Credit_def Let_def cin_def split: if_splits)
  then show thesis using True by (intro that(2) [of "new_movement now cin lid"]) (simp_all add: new_movement_def cin_def)
qed

lemma record_quota_frame:
  "t_credit_ledger (record_quota q sid d) = t_credit_ledger d" "t_reseller_subjects (record_quota q sid d) = t_reseller_subjects d"
  "t_resellers (record_quota q sid d) = t_resellers d" "t_audit_log (record_quota q sid d) = t_audit_log d"
  "t_admins (record_quota q sid d) = t_admins d"
  by (simp_all add: record_quota_def)

lemma record_quota_rows:
  assumes "t_subjects d = rows @ [row]" "s_id row = sid" "sid \<notin> s_id ` set rows"
  shows "t_subjects (record_quota q sid d) = rows @ [if q > 0 then row\<lparr>s_quota_bytes := Some q\<rparr> else row]"
proof -
  have "sql_update (\<lambda>r. s_id r = sid) f rows = rows" for f
    using assms(3) by (simp add: sql_update_def) (force intro: map_idI)
  then show ?thesis using assms by (simp add: record_quota_def sql_update_def)
qed

context subject_creator_laws
begin

lemma provision_new_spec:
  assumes "good d" "prior_movement (pv_ResellerID pv) (pv_IdempotencyKey pv) d = None"
    and "provision_new sc now pv r d = Inr (res, d')"
  obtains b row ow au mv where "Balance (pv_ResellerID pv) d = Inr b" "r_CreditFloor r \<le> int64_add b (- pv_Cost pv)"
    "pr_Balance res = int64_add b (- pv_Cost pv)"
    "t_subjects d' = t_subjects d @ [row]" "s_id row = pr_SubjectID res" "s_id row \<notin> s_id ` set (t_subjects d)"
    "t_reseller_subjects d' = t_reseller_subjects d @ [ow]" "ow_subject_id ow = s_id row" "ow_reseller_id ow = pv_ResellerID pv"
    "ow_subject_id ow \<notin> ow_subject_id ` set (t_reseller_subjects d)"
    "t_credit_ledger d' = t_credit_ledger d @ mv" "t_resellers d' = t_resellers d"
    "mv = [] \<and> pv_Cost pv \<le> 0 \<or> (\<exists>l. mv = [l] \<and> 0 < pv_Cost pv \<and> lg_id l = pr_LedgerID res \<and> lg_reseller_id l = pv_ResellerID pv
        \<and> lg_delta l = - pv_Cost pv \<and> lg_subject_id l = Some (s_id row) \<and> lg_idempotency_key l = pv_IdempotencyKey pv)"
    "t_audit_log d' = t_audit_log d @ [au]" "au_action au = ''reseller.provision''" "au_target_id au = Some (s_id row)"
proof -
  obtain b sid d1 d2 lid d3 ns where bal: "Balance (pv_ResellerID pv) d = Inr b"
    and floor: "\<not> int64_add b (- pv_Cost pv) < r_CreditFloor r"
    and d1: "sc_Create sc (pv_Subject pv) d = Inr (sid, d1)"
    and d2: "insert_ownership now sid (pv_ResellerID pv) (pv_Cost pv) d1 = Inr d2"
    and d3: "debit now pv sid (record_quota (pv_QuotaBytes pv) sid d2) = Inr (lid, d3)"
    and d4: "provision_audit now pv sid d3 = Inr d'"
    and res: "res = \<lparr>pr_SubjectID = sid, pr_LedgerID = lid, pr_Balance = int64_add b (- pv_Cost pv), pr_NodeIDs = ns\<rparr>"
    using assms(3) by (auto simp: provision_new_def bind_result_Inr split: if_splits)
  obtain row where row: "t_subjects d1 = t_subjects d @ [row]" "s_id row = sid" "sid \<notin> s_id ` set (t_subjects d)"
    using create_adds [OF assms(1) d1] by blast
  note fr = create_frame [OF d1]
  define ow where "ow = \<lparr>ow_subject_id = sid, ow_reseller_id = pv_ResellerID pv, ow_cost = pv_Cost pv, ow_created_at = now\<rparr>"
  have d2': "d2 = d1\<lparr>t_reseller_subjects := t_reseller_subjects d1 @ [ow]\<rparr>" and fresh: "sid \<notin> ow_subject_id ` set (t_reseller_subjects d1)"
    using d2 by (auto simp: insert_ownership_def ow_def split: if_splits)
  let ?q = "record_quota (pv_QuotaBytes pv) sid d2"
  define row' where "row' = (if pv_QuotaBytes pv > 0 then row\<lparr>s_quota_bytes := Some (pv_QuotaBytes pv)\<rparr> else row)"
  have q: "t_subjects ?q = t_subjects d @ [row']"
    unfolding row'_def by (rule record_quota_rows) (use row d2' in simp_all)
  have "prior_movement (pv_ResellerID pv) (pv_IdempotencyKey pv) ?q = None"
    using assms(2) fr by (simp add: prior_movement_def record_quota_frame d2')
  from d3 this obtain mv where d3': "d3 = ?q\<lparr>t_credit_ledger := t_credit_ledger ?q @ mv\<rparr>"
    and mv: "mv = [] \<and> pv_Cost pv \<le> 0 \<or> (\<exists>l. mv = [l] \<and> 0 < pv_Cost pv \<and> lg_id l = lid \<and> lg_reseller_id l = pv_ResellerID pv
        \<and> lg_delta l = - pv_Cost pv \<and> lg_subject_id l = Some sid \<and> lg_idempotency_key l = pv_IdempotencyKey pv)"
    by (cases rule: debit_Inr) auto
  obtain au where d4': "d' = d3\<lparr>t_audit_log := t_audit_log d3 @ [au]\<rparr>" and au: "au_action au = ''reseller.provision''" "au_target_id au = Some sid"
    using d4 by (auto simp: provision_audit_def audit_InTx_Inr mk_audit_def)
  have id: "s_id row' = sid" using row(2) by (simp add: row'_def)
  show thesis
    by (rule that [of b row' ow mv au])
      (use bal floor q id row(3) mv fr fresh au in \<open>simp_all add: res d4' d3' d2' record_quota_frame ow_def\<close>)
qed

end

section \<open>The subject store satisfies them\<close>

definition store_creator :: "subject_env \<Rightarrow> subject_creator" where
  "store_creator e = \<lparr>sc_Create = Create e, sc_NodeIDsFor = (\<lambda>i d. Inr (NodeIDsFor i d))\<rparr>"

lemma put_credentials_shape: "put_credentials e seal ci i kinds d = Inr d' \<Longrightarrow> \<exists>cs. d' = d\<lparr>t_subject_credentials := cs\<rparr>"
proof (induction kinds arbitrary: d)
  case Nil
  then show ?case by (auto intro: exI [of _ "t_subject_credentials d"])
next
  case (Cons k ks)
  then obtain v d1 where put: "putCredential seal i k v d = Inr d1" and rest: "put_credentials e seal ci i ks d1 = Inr d'"
    by (auto simp: bind_result_Inr)
  obtain cs where "d1 = d\<lparr>t_subject_credentials := cs\<rparr>"
    using put by (auto simp: putCredential_def upsert_credential_def split: option.splits if_splits)
  then show ?case using Cons.IH [OF rest] by auto
qed

lemma Create_shape:
  assumes "Create e ci d = Inr (i, d')"
  obtains row cs gs where "d' = d\<lparr>t_subjects := t_subjects d @ [row], t_subject_credentials := cs, t_subject_services := gs\<rparr>"
    "s_id row = i" "i \<notin> s_id ` set (t_subjects d)"
  using assms
proof (cases rule: Create_Inr)
  case (1 seal token d1 d2)
  let ?row = "new_subject e ci (trim_space (ci_Name ci)) token i"
  have d1: "d1 = d\<lparr>t_subjects := t_subjects d @ [?row]\<rparr>" and i: "i = next_rowid s_id (t_subjects d)"
    using 1(4) by (auto simp: insert_subject_def Let_def split: if_splits)
  obtain cs where d2: "d2 = d1\<lparr>t_subject_credentials := cs\<rparr>" using put_credentials_shape [OF 1(5)] by blast
  have d': "d' = d2\<lparr>t_subject_services := t_subject_services d2 @ map (Pair i) (ci_ServiceIDs ci)\<rparr>"
    using grant_services_spec [OF 1(6)] by blast
  show thesis
    by (rule that [where row = ?row and cs = cs and gs = "t_subject_services d @ map (Pair i) (ci_ServiceIDs ci)"])
      (use next_rowid_fresh [of s_id "t_subjects d"] in \<open>simp_all add: d' d2 d1 new_subject_def i\<close>)
qed

interpretation panel_subjects: subject_creator_laws "store_creator e" subj_inv for e
proof unfold_locales
  fix d ci i d'
  assume "sc_Create (store_creator e) ci d = Inr (i, d')"
  then have c: "Create e ci d = Inr (i, d')" by (simp add: store_creator_def)
  show "\<exists>row. t_subjects d' = t_subjects d @ [row] \<and> s_id row = i \<and> i \<notin> s_id ` set (t_subjects d)"
    by (rule Create_shape [OF c]) auto
  show "t_credit_ledger d' = t_credit_ledger d \<and> t_reseller_subjects d' = t_reseller_subjects d \<and> t_resellers d' = t_resellers d
      \<and> t_admins d' = t_admins d \<and> t_audit_log d' = t_audit_log d"
    by (rule Create_shape [OF c]) simp
  show "subj_inv d \<Longrightarrow> subj_inv d'" by (rule Create_inv [OF c])
next
  fix i d show "is_ok (sc_NodeIDsFor (store_creator e) i d)" by (simp add: store_creator_def)
qed

section \<open>Paid customers\<close>

definition ledger_wf :: "panel_db \<Rightarrow> bool" where
  "ledger_wf d \<longleftrightarrow> distinct (map (\<lambda>l. (lg_reseller_id l, lg_idempotency_key l)) (t_credit_ledger d))"

lemma provision_first:
  assumes "ProvisionSubject (Some sc) now pv d = Inr (res, d')" "prior_movement (pv_ResellerID pv) (pv_IdempotencyKey pv) d = None"
  obtains r where "reseller_Get (pv_ResellerID pv) d = Inr r" "r_Enabled r" "checkLimits r (pv_QuotaBytes pv) d = Inr ()"
    "provision_new sc now pv r d = Inr (res, d')" "0 \<le> pv_Cost pv" "trim_space (pv_IdempotencyKey pv) \<noteq> ''''"
  using assms by (auto simp: ProvisionSubject_def bind_result_Inr split: if_splits)

lemma reseller_Get_Inr: "reseller_Get i d = Inr r \<Longrightarrow> \<exists>row \<in> set (t_resellers d). rs_id row = i \<and> r_ID r = i
    \<and> r_CreditFloor r = rs_credit_floor row \<and> r_MaxSubjects r = rs_max_subjects row \<and> r_Enabled r = rs_enabled row"
  by (auto simp: reseller_Get_def split: option.splits dest!: sql_one_Some)

lemma owned_count_append:
  "t_reseller_subjects d' = t_reseller_subjects d @ [w] \<Longrightarrow> owned_count i d' = owned_count i d + (if ow_reseller_id w = i then 1 else 0)"
  by (simp add: owned_count_def sql_count_def sql_where_def)

lemma int64_debit:
  assumes "int64_range b" "0 \<le> c" "- (2 ^ 63) \<le> b - c"
  shows "int64_range (b - c)" "int64_add b (- c) = b - c"
proof -
  show "int64_range (b - c)" using assms by (simp add: int64_range_def)
  then show "int64_add b (- c) = b - c" using int64_add_id [of b "- c"] by simp
qed

text \<open>C6: a customer is created exactly when it is paid for. A first provision that succeeds creates one subject
  with a fresh id, owned by the tenant, appends exactly the debit of its cost to the ledger, reports the new balance,
  which is not below the credit floor, stays within the ceiling on customers and writes one audit record; a failed one
  is rolled back whole.\<close>
theorem provision_exact:
  assumes "subj_inv d" and "prior_movement (pv_ResellerID pv) (pv_IdempotencyKey pv) d = None"
    and "\<forall>b. Balance (pv_ResellerID pv) d = Inr b \<longrightarrow> - (2 ^ 63) \<le> b - pv_Cost pv"
  shows "case store_write (ProvisionSubject (Some (store_creator e)) now pv) d of
      (Inl err, d') \<Rightarrow> d' = d
    | (Inr res, d') \<Rightarrow> \<exists>b r. Balance (pv_ResellerID pv) d = Inr b \<and> Balance (pv_ResellerID pv) d' = Inr (b - pv_Cost pv)
        \<and> reseller_Get (pv_ResellerID pv) d = Inr r \<and> r_Enabled r \<and> r_CreditFloor r \<le> b - pv_Cost pv
        \<and> pr_Balance res = b - pv_Cost pv
        \<and> map s_id (t_subjects d') = map s_id (t_subjects d) @ [pr_SubjectID res]
        \<and> OwnerOf (pr_SubjectID res) d' = Inr (pv_ResellerID pv)
        \<and> owned_count (pv_ResellerID pv) d' = owned_count (pv_ResellerID pv) d + 1
        \<and> (\<forall>m. r_MaxSubjects r = Some m \<longrightarrow> owned_count (pv_ResellerID pv) d' \<le> m)
        \<and> map lg_delta (t_credit_ledger d') = map lg_delta (t_credit_ledger d) @ (if 0 < pv_Cost pv then [- pv_Cost pv] else [])
        \<and> length (t_audit_log d') = length (t_audit_log d) + 1"
proof (cases "ProvisionSubject (Some (store_creator e)) now pv d")
  case (Inl err)
  then show ?thesis by (simp add: store_write_def)
next
  case (Inr p)
  obtain res d' where p: "p = (res, d')" by (cases p)
  let ?R = "pv_ResellerID pv"
  obtain r where r: "reseller_Get ?R d = Inr r" "r_Enabled r" "checkLimits r (pv_QuotaBytes pv) d = Inr ()"
    "provision_new (store_creator e) now pv r d = Inr (res, d')" "0 \<le> pv_Cost pv"
    using provision_first [OF Inr [unfolded p] assms(2)] by blast
  from panel_subjects.provision_new_spec [OF assms(1,2) r(4)]
  obtain b row ow au mv where b: "Balance ?R d = Inr b" "r_CreditFloor r \<le> int64_add b (- pv_Cost pv)" "pr_Balance res = int64_add b (- pv_Cost pv)"
    and subj: "t_subjects d' = t_subjects d @ [row]" "s_id row = pr_SubjectID res"
    and own: "t_reseller_subjects d' = t_reseller_subjects d @ [ow]" "ow_subject_id ow = s_id row" "ow_reseller_id ow = ?R"
      "ow_subject_id ow \<notin> ow_subject_id ` set (t_reseller_subjects d)"
    and mv: "t_credit_ledger d' = t_credit_ledger d @ mv"
      "mv = [] \<and> pv_Cost pv \<le> 0 \<or> (\<exists>l. mv = [l] \<and> 0 < pv_Cost pv \<and> lg_reseller_id l = ?R \<and> lg_delta l = - pv_Cost pv)"
    and au: "t_audit_log d' = t_audit_log d @ [au]"
    by metis
  have rid: "r_ID r = ?R" using reseller_Get_Inr [OF r(1)] by blast
  note nowrap = int64_debit [OF Balance_range [OF b(1)] r(5) assms(3) [rule_format, OF b(1)]]
  have bal: "Balance ?R d' = Inr (b - pv_Cost pv)"
  proof (cases "mv = []")
    case True
    then have "pv_Cost pv = 0" using mv(2) r(5) by auto
    then show ?thesis using b(1) Balance_ledger [of d' d] mv(1) True by simp
  next
    case False
    then obtain l where "mv = [l]" "lg_reseller_id l = ?R" "lg_delta l = - pv_Cost pv" using mv(2) by blast
    then show ?thesis using Balance_append [OF mv(1) [unfolded \<open>mv = [l]\<close>], of ?R] b(1) nowrap(1) by simp
  qed
  have "sql_one (\<lambda>w. ow_subject_id w = s_id row) (t_reseller_subjects d) = None"
    using own(2,4) by (auto simp: sql_one_None image_iff)
  then have "OwnerOf (pr_SubjectID res) d' = Inr ?R"
    unfolding OwnerOf_def own(1) subj(2) [symmetric] by (simp add: sql_one_append own(2,3))
  moreover have cnt: "owned_count ?R d' = owned_count ?R d + 1" using owned_count_append [OF own(1), of ?R] own(3) by simp
  moreover have "owned_count ?R d' \<le> m" if "r_MaxSubjects r = Some m" for m
    using r(3) that by (auto simp: checkLimits_def check_subjects_def bind_result_Inr Let_def rid cnt split: if_splits)
  moreover have "map lg_delta (t_credit_ledger d') = map lg_delta (t_credit_ledger d) @ (if 0 < pv_Cost pv then [- pv_Cost pv] else [])"
    using mv by auto
  ultimately show ?thesis
    using b(1) bal r(1,2) b(2,3) subj au unfolding nowrap(2)
    by (simp add: store_write_def Inr p)
qed

lemma case_sum_isr: "(case r of Inl _ \<Rightarrow> False | Inr _ \<Rightarrow> True) \<Longrightarrow> (\<And>x. r = Inr x \<Longrightarrow> thesis) \<Longrightarrow> thesis"
  by (cases r) simp_all

lemma prior_movement_key:
  assumes "ledger_wf d" "l \<in> set (t_credit_ledger d)"
  shows "prior_movement (lg_reseller_id l) (lg_idempotency_key l) d = Some l"
proof -
  have eq: "(\<lambda>x. lg_reseller_id x = lg_reseller_id l \<and> lg_idempotency_key x = lg_idempotency_key l)
      = (\<lambda>x. (lg_reseller_id x, lg_idempotency_key x) = (lg_reseller_id l, lg_idempotency_key l))" by auto
  show ?thesis
    unfolding prior_movement_def eq
    by (rule sql_one_key [OF assms(1) [unfolded ledger_wf_def], THEN iffD2]) (use assms(2) in simp)
qed


section \<open>A concrete market\<close>

definition market :: panel_db where
  "market = no_people\<lparr>t_admins := [\<lparr>am_id = 7, am_role_id = 3, am_status = ''active'', am_delete_cap_bytes = None\<rparr>,
        \<lparr>am_id = 8, am_role_id = 1, am_status = ''active'', am_delete_cap_bytes = None\<rparr>],
     t_resellers := [\<lparr>rs_id = 1, rs_admin_id = 7, rs_display_name = ''shop'', rs_enabled = True, rs_max_subjects = Some 2,
        rs_max_quota_bytes = Some 5000, rs_credit_floor = 0, rs_created_at = 0, rs_updated_at = 0, rs_usage_coefficient = 10000\<rparr>],
     t_credit_ledger := [\<lparr>lg_id = 1, lg_reseller_id = 1, lg_delta = 100, lg_reason = ''topup'', lg_subject_id = None,
        lg_actor_admin_id = Some 8, lg_note = '''', lg_idempotency_key = ''k0'', lg_at = 0\<rparr>]\<rparr>"

definition buy :: "int \<Rightarrow> string \<Rightarrow> provision_input" where
  "buy cost key = \<lparr>pv_ResellerID = 1, pv_Cost = cost, pv_Subject = demo_create, pv_QuotaBytes = 2000, pv_ActorAdminID = Some 7,
     pv_IdempotencyKey = key, pv_RequestID = ''r'', pv_Actor = AdminActor 7\<rparr>"

definition sold :: "panel_err + (provision_result \<times> panel_db)" where
  "sold = ProvisionSubject (Some (store_creator demo_env)) 100 (buy 60 ''k1'') market"

definition sold_db :: panel_db where
  "sold_db = (case sold of Inl e \<Rightarrow> market | Inr (res, d) \<Rightarrow> d)"

definition sold_result :: provision_result where
  "sold_result = (case sold of Inl e \<Rightarrow> \<lparr>pr_SubjectID = 0, pr_LedgerID = 0, pr_Balance = 0, pr_NodeIDs = []\<rparr> | Inr (res, d) \<Rightarrow> res)"

lemma sold_ok: "ProvisionSubject (Some (store_creator demo_env)) 100 (buy 60 ''k1'') market = Inr (sold_result, sold_db)"
proof -
  have "is_ok sold" by code_simp
  then obtain x where x: "sold = Inr x" unfolding is_ok_def by (rule case_sum_isr)
  have p: "sold_result = fst x" "sold_db = snd x" unfolding sold_result_def sold_db_def x by (simp_all add: case_prod_beta)
  show ?thesis unfolding p prod.collapse by (rule x [unfolded sold_def])
qed

lemma market_inv: "subj_inv market" "prior_movement (pv_ResellerID (buy 60 ''k1'')) (pv_IdempotencyKey (buy 60 ''k1'')) market = None"
  "Balance 1 market = Inr 100"
  by code_simp+

theorem provision_exact_witness:
  "Balance 1 market = Inr 100 \<and> Balance 1 sold_db = Inr 40 \<and> OwnerOf (pr_SubjectID sold_result) sold_db = Inr 1"
proof -
  have b: "\<forall>b. Balance (pv_ResellerID (buy 60 ''k1'')) market = Inr b \<longrightarrow> - (2 ^ 63) \<le> b - pv_Cost (buy 60 ''k1'')"
    using market_inv(3) by (simp add: buy_def)
  have "store_write (ProvisionSubject (Some (store_creator demo_env)) 100 (buy 60 ''k1'')) market = (Inr sold_result, sold_db)"
    using sold_ok by (simp add: store_write_def)
  from provision_exact [OF market_inv(1,2) b, of demo_env 100, unfolded this] show ?thesis
    using market_inv(3) by (auto simp: buy_def)
qed


text \<open>three gaps around the idempotency key and the ceiling. A free provision leaves no ledger entry, so its retry does
  not return the first outcome but fails on the taken name; a key already used for a top-up makes a provision report
  success with no customer and no charge; and a customer without quota escapes the ceiling on allocated bytes.\<close>
theorem provision_gaps:
  "\<exists>d1 d2 d3 res.
     (case ProvisionSubject (Some (store_creator demo_env)) 100 (buy 0 ''k1'') market of Inl e \<Rightarrow> False | Inr (r, d) \<Rightarrow> d = d1)
     \<and> ProvisionSubject (Some (store_creator demo_env)) 200 (buy 0 ''k1'') d1 = Inl (ErrNameTaken ''ann'')
     \<and> ProvisionSubject (Some (store_creator demo_env)) 100 (buy 60 ''k0'') market = Inr (res, market) \<and> pr_SubjectID res = 0
     \<and> d2 = set_reseller 1 (\<lambda>r. r\<lparr>rs_max_quota_bytes := Some 0\<rparr>) market
     \<and> (case ProvisionSubject (Some (store_creator demo_env)) 100 ((buy 60 ''k1'')\<lparr>pv_QuotaBytes := 0, pv_Subject := demo_create\<lparr>ci_QuotaBytes := None\<rparr>\<rparr>) d2
          of Inl e \<Rightarrow> False | Inr (r, d) \<Rightarrow> d = d3)
     \<and> map s_quota_bytes (t_subjects d3) = [None]"
proof -
  let ?db = "\<lambda>r. case r of Inl e \<Rightarrow> market | Inr (x, d) \<Rightarrow> d"
  let ?d1 = "?db (ProvisionSubject (Some (store_creator demo_env)) 100 (buy 0 ''k1'') market)"
  let ?d2 = "set_reseller 1 (\<lambda>r. r\<lparr>rs_max_quota_bytes := Some 0\<rparr>) market"
  let ?free = "(buy 60 ''k1'')\<lparr>pv_QuotaBytes := 0, pv_Subject := demo_create\<lparr>ci_QuotaBytes := None\<rparr>\<rparr>"
  let ?d3 = "?db (ProvisionSubject (Some (store_creator demo_env)) 100 ?free ?d2)"
  let ?res = "\<lparr>pr_SubjectID = 0, pr_LedgerID = 1, pr_Balance = 100, pr_NodeIDs = []\<rparr>"
  have ok: "is_ok r \<Longrightarrow> (case r of Inl e \<Rightarrow> False | Inr (x, d) \<Rightarrow> d = ?db r)" for r :: "panel_err + (provision_result \<times> panel_db)"
    by (auto simp: is_ok_def split: sum.splits)
  have 1: "is_ok (ProvisionSubject (Some (store_creator demo_env)) 100 (buy 0 ''k1'') market)" by code_simp
  have 2: "ProvisionSubject (Some (store_creator demo_env)) 200 (buy 0 ''k1'') ?d1 = Inl (ErrNameTaken ''ann'')" by code_simp
  have 3: "ProvisionSubject (Some (store_creator demo_env)) 100 (buy 60 ''k0'') market = Inr (?res, market)"
  proof -
    have "prior_movement 1 ''k0'' market = Some (hd (t_credit_ledger market))" by code_simp
    moreover have "lg_subject_id (hd (t_credit_ledger market)) = None" "lg_id (hd (t_credit_ledger market)) = 1" by code_simp+
    moreover have "(case reseller_Get 1 market of Inl e \<Rightarrow> False | Inr r \<Rightarrow> r_Enabled r)" by code_simp
    then obtain r where "reseller_Get 1 market = Inr r" "r_Enabled r" by (cases "reseller_Get 1 market") auto
    moreover have "trim_space ''k0'' \<noteq> ''''" by code_simp
    ultimately show ?thesis using market_inv(3) by (simp add: ProvisionSubject_def buy_def provision_again_def)
  qed
  have 4: "is_ok (ProvisionSubject (Some (store_creator demo_env)) 100 ?free ?d2)" by code_simp
  have 5: "map s_quota_bytes (t_subjects ?d3) = [None]" by code_simp
  show ?thesis
    by (rule exI [of _ ?d1], rule exI [of _ ?d2], rule exI [of _ ?d3], rule exI [of _ ?res])
      (intro conjI ok [OF 1] 2 3 ok [OF 4] 5, simp_all)
qed

end
