(* ===== verification/Trade.thy ===== *)
theory Trade
  imports Resellers
begin

text \<open>
  Runs of the commercial layer: the credit of every tenant stays above its floor and its customers below their ceiling,
  whatever provisions, top-ups and changes of tenants and subjects run.
\<close>

section \<open>Tenants stay solvent\<close>

definition credit_sum :: "int \<Rightarrow> panel_db \<Rightarrow> int" where
  "credit_sum i d = sum_list (map lg_delta (ledger_of i d))"

definition comm_wf :: "panel_db \<Rightarrow> bool" where
  "comm_wf d \<longleftrightarrow> distinct (map rs_id (t_resellers d)) \<and> ledger_wf d
     \<and> (\<forall>l \<in> set (t_credit_ledger d). lg_reseller_id l \<in> rs_id ` set (t_resellers d))
     \<and> distinct (map ow_subject_id (t_reseller_subjects d))
     \<and> (\<forall>w \<in> set (t_reseller_subjects d). ow_reseller_id w \<in> rs_id ` set (t_resellers d))"

definition sound_tenant :: "panel_db \<Rightarrow> reseller_row \<Rightarrow> bool" where
  "sound_tenant d r \<longleftrightarrow> - (2 ^ 62) \<le> rs_credit_floor r \<and> rs_credit_floor r \<le> 0 \<and> rs_credit_floor r \<le> credit_sum (rs_id r) d
     \<and> (case rs_max_subjects r of None \<Rightarrow> True | Some m \<Rightarrow> owned_count (rs_id r) d \<le> m)"

definition trade_inv :: "panel_db \<Rightarrow> bool" where
  "trade_inv d \<longleftrightarrow> subj_inv d \<and> comm_wf d \<and> (\<forall>r \<in> set (t_resellers d). sound_tenant d r)"

text \<open>What the subject operations leave of the commercial tables: a deletion may drop ownerships.\<close>

definition keeps_trade :: "panel_db \<Rightarrow> panel_db \<Rightarrow> bool" where
  "keeps_trade d d' \<longleftrightarrow> t_resellers d' = t_resellers d
     \<and> map (\<lambda>l. (lg_reseller_id l, lg_idempotency_key l, lg_delta l)) (t_credit_ledger d')
         = map (\<lambda>l. (lg_reseller_id l, lg_idempotency_key l, lg_delta l)) (t_credit_ledger d)
     \<and> (\<exists>P. t_reseller_subjects d' = filter P (t_reseller_subjects d))"

lemma keeps_tradeI:
  "t_resellers d' = t_resellers d \<Longrightarrow> t_credit_ledger d' = t_credit_ledger d \<Longrightarrow> t_reseller_subjects d' = t_reseller_subjects d
     \<Longrightarrow> keeps_trade d d'"
  unfolding keeps_trade_def by (auto intro: exI [of _ "\<lambda>_. True"])

lemma keeps_trade_refl: "keeps_trade d d"
  by (rule keeps_tradeI) simp_all

lemma keeps_trade_in_tx: "(\<And>d'. f d = Inr d' \<Longrightarrow> keeps_trade d d') \<Longrightarrow> keeps_trade d (in_tx f d)"
  by (rule in_tx_inv [of "keeps_trade d"]) (simp_all add: keeps_trade_refl)

lemma keeps_trade_write: "(\<And>r d'. fn d = Inr (r, d') \<Longrightarrow> keeps_trade d d') \<Longrightarrow> keeps_trade d (snd (store_write fn d))"
  by (rule store_write_inv [of "keeps_trade d"]) (simp_all add: keeps_trade_refl)

lemma one_row_trade: "one_row i f d = Inr d' \<Longrightarrow> keeps_trade d d'"
  by (rule keeps_tradeI) (auto simp: one_row_def split: if_splits)

lemma set_token_trade: "set_token i t d = Inr d' \<Longrightarrow> keeps_trade d d'"
  by (rule keeps_tradeI) (auto simp: set_token_def split: if_splits)

lemma grant_trade: "grant_services i vs d = Inr d' \<Longrightarrow> keeps_trade d d'"
  by (drule grant_services_spec) (simp add: keeps_tradeI)

lemma Update_trade:
  assumes "Update i u d = Inr d'"
  shows "keeps_trade d d'"
proof (rule keeps_tradeI)
  obtain d1 where d1: "update_name i (up_Name u) d = Inr d1"
    and rest: "update_grants i (up_ServiceIDs u) (update_expiry i (up_ClearExpiry u) (up_ExpiresAt u)
      (update_enabled i (up_Enabled u) (update_note i (up_Note u) d1))) = Inr d'"
    using assms by (auto simp: Update_def bind_result_Inr split: if_splits)
  have n: "\<exists>rows. d1 = d\<lparr>t_subjects := rows\<rparr>"
    using d1 by (auto simp: update_name_def Let_def split: option.splits if_splits intro: exI [of _ "t_subjects d"])
  have g: "\<exists>gs. d' = x\<lparr>t_subject_services := gs\<rparr>" if "update_grants i y x = Inr d'" for x y
    using that by (auto simp: update_grants_def split: option.splits dest!: grant_services_spec intro: exI [of _ "t_subject_services x"])
  have ex: "\<exists>rows. update_expiry i c y x = x\<lparr>t_subjects := rows\<rparr>" for c x y
    by (auto simp: update_expiry_def split: option.splits intro: exI [of _ "t_subjects x"])
  have en: "\<exists>rows. update_enabled i y x = x\<lparr>t_subjects := rows\<rparr>" for x y
    by (auto simp: update_enabled_def split: option.splits intro: exI [of _ "t_subjects x"])
  have no: "\<exists>rows. update_note i y x = x\<lparr>t_subjects := rows\<rparr>" for x y
    by (auto simp: update_note_def split: option.splits intro: exI [of _ "t_subjects x"])
  obtain gs r1 r2 r3 r4 where "d' = d\<lparr>t_subjects := r1\<rparr>\<lparr>t_subjects := r2\<rparr>\<lparr>t_subjects := r3\<rparr>\<lparr>t_subjects := r4\<rparr>\<lparr>t_subject_services := gs\<rparr>"
    using n no [of "up_Note u" d1] en ex g [OF rest] by metis
  then show "t_resellers d' = t_resellers d" "t_credit_ledger d' = t_credit_ledger d" "t_reseller_subjects d' = t_reseller_subjects d"
    by simp_all
qed

lemma Delete_trade: "Delete i d = Inr d' \<Longrightarrow> keeps_trade d d'"
  unfolding keeps_trade_def Delete_def delete_subject_def
  by (auto simp: sql_update_def sql_delete_def comp_def split: if_splits)

lemma put_credential_trade: "putCredential seal i k v d = Inr d' \<Longrightarrow> keeps_trade d d'"
  by (auto simp: putCredential_def upsert_credential_def split: option.splits if_splits intro!: keeps_tradeI)

lemma Rotate_trade: "Rotate e i k d = Inr (v, d') \<Longrightarrow> keeps_trade d d'"
  by (cases "env_box e") (auto simp: Rotate_def bind_result_Inr intro: put_credential_trade)

lemma Create_trade: "Create e ci d = Inr (i, d') \<Longrightarrow> keeps_trade d d'"
  by (erule Create_shape) (simp add: keeps_tradeI)

lemma sweep_trade:
  assumes "subj_inv d"
  shows "keeps_trade d (snd (snd (expiry_Sweep c u now d)))"
proof -
  have "distinct (map s_id (t_subjects d))" using assms by (simp add: subj_inv_def subjects_wf_distinct)
  then obtain au where sw: "expiry_Sweep c u now d
     = (let d1 = d\<lparr>t_subjects := sql_update (due now) (expire_row now) (t_subjects d), t_audit_log := t_audit_log d @ au\<rparr>
       in (Inr (sql_count (due now) (t_subjects d)), republish c u now (affected_nodes (dueSubjects now d) d) d1))"
    using expiry_Sweep_eq by blast
  have one: "keeps_trade x y \<Longrightarrow> keeps_trade x (snd (commit_func c u now n a r y))" for x y n a r
    by (rule commit_func_cases [of c u now n a r y]) (simp_all add: keeps_trade_def committed_def)
  have all: "keeps_trade x y \<Longrightarrow> keeps_trade x (fold (\<lambda>n d. snd (commit_func c u now n a r d)) ns y)" for x y a r ns
    by (induction ns arbitrary: y) (simp_all add: one)
  show ?thesis unfolding sw Let_def snd_conv republish_state by (rule all) (simp add: keeps_tradeI)
qed

lemma ensure_trade: "keeps_trade d (snd (EnsureToken fresh i d0 d))"
  unfolding EnsureToken_def
  by (auto split: sum.splits option.splits intro!: keeps_trade_write simp: keeps_trade_refl bind_result_Inr
      split: if_splits intro: set_token_trade)

lemma revoke_trade: "keeps_trade d (snd (RevokeToken fresh i d))"
  unfolding RevokeToken_def
  by (auto split: option.splits intro!: keeps_trade_write simp: keeps_trade_refl bind_result_Inr intro: set_token_trade)

lemma subj_step_trade: "subj_inv d \<Longrightarrow> keeps_trade d (subj_step a d)"
  by (cases a)
    (auto intro!: keeps_trade_in_tx keeps_trade_write sweep_trade ensure_trade revoke_trade
      intro: Create_trade Rotate_trade Update_trade Delete_trade one_row_trade
      simp: Freeze_def Unfreeze_def Disable_def Enable_def ClearToken_def bind_result_Inr)

lemma keeps_trade_sums:
  assumes "keeps_trade d d'"
  shows "credit_sum i d' = credit_sum i d" "owned_count i d' \<le> owned_count i d"
    "ledger_wf d' = ledger_wf d" "lg_reseller_id ` set (t_credit_ledger d') = lg_reseller_id ` set (t_credit_ledger d)"
proof -
  let ?k = "\<lambda>l. (lg_reseller_id l, lg_idempotency_key l, lg_delta l)"
  have eq: "map ?k (t_credit_ledger d') = map ?k (t_credit_ledger d)" using assms by (simp add: keeps_trade_def)
  have sum: "map lg_delta (filter (\<lambda>l. lg_reseller_id l = i) ls) = map (snd \<circ> snd) (filter (\<lambda>p. fst p = i) (map ?k ls))"
    for ls :: "ledger_row list"
    by (simp add: filter_map comp_def)
  show "credit_sum i d' = credit_sum i d"
    by (simp add: credit_sum_def ledger_of_def sql_where_def sum eq)
  have keys: "map (\<lambda>l. (lg_reseller_id l, lg_idempotency_key l)) ls = map (\<lambda>p. (fst p, fst (snd p))) (map ?k ls)"
    for ls :: "ledger_row list"
    by (simp add: comp_def)
  show "ledger_wf d' = ledger_wf d" unfolding ledger_wf_def keys eq ..
  have ids: "lg_reseller_id ` set ls = set (map fst (map ?k ls))" for ls :: "ledger_row list" by (simp add: image_image)
  show "lg_reseller_id ` set (t_credit_ledger d') = lg_reseller_id ` set (t_credit_ledger d)" unfolding ids eq ..
  obtain P where P: "t_reseller_subjects d' = filter P (t_reseller_subjects d)" using assms by (auto simp: keeps_trade_def)
  have "length (filter Q (filter P xs)) \<le> length (filter Q xs)" for Q :: "ownership_row \<Rightarrow> bool" and xs
    by (induction xs) auto
  then show "owned_count i d' \<le> owned_count i d" by (simp add: owned_count_def sql_count_def sql_where_def P)
qed

lemma keeps_trade_inv:
  assumes "trade_inv d" "keeps_trade d d'" "subj_inv d'"
  shows "trade_inv d'"
proof -
  have rs: "t_resellers d' = t_resellers d" and own: "\<exists>P. t_reseller_subjects d' = filter P (t_reseller_subjects d)"
    using assms(2) by (auto simp: keeps_trade_def)
  note sums = keeps_trade_sums [OF assms(2)]
  have c: "comm_wf d" using assms(1) by (simp add: trade_inv_def)
  have "\<forall>l \<in> set (t_credit_ledger d'). lg_reseller_id l \<in> rs_id ` set (t_resellers d)"
  proof
    fix l assume "l \<in> set (t_credit_ledger d')"
    then have "lg_reseller_id l \<in> lg_reseller_id ` set (t_credit_ledger d)" using sums(4) by blast
    then show "lg_reseller_id l \<in> rs_id ` set (t_resellers d)" using c by (auto simp: comm_wf_def)
  qed
  moreover have "distinct (map ow_subject_id (t_reseller_subjects d'))"
    "\<forall>w \<in> set (t_reseller_subjects d'). ow_reseller_id w \<in> rs_id ` set (t_resellers d)"
    using own c by (auto simp: comm_wf_def distinct_map_filter)
  ultimately have "comm_wf d'" using c sums(3) by (simp add: comm_wf_def rs)
  moreover have "sound_tenant d' r" if "sound_tenant d r" for r
    using that sums(1,2) [of "rs_id r"] by (auto simp: sound_tenant_def split: option.splits)
  ultimately show ?thesis using assms(1,3) by (auto simp: trade_inv_def rs)
qed

text \<open>Changes of the commercial tables themselves.\<close>

lemma credit_sum_append:
  "t_credit_ledger d' = t_credit_ledger d @ ls \<Longrightarrow> credit_sum i d' = credit_sum i d + sum_list (map lg_delta (filter (\<lambda>l. lg_reseller_id l = i) ls))"
  by (simp add: credit_sum_def ledger_of_def sql_where_def)

lemma Balance_sum: "Balance i d = Inr b \<Longrightarrow> b = credit_sum i d"
  unfolding Balance_def credit_sum_def by (drule sql_sum_sum) simp

lemma prior_movement_None: "prior_movement i k d = None \<Longrightarrow> l \<in> set (t_credit_ledger d) \<Longrightarrow> (lg_reseller_id l, lg_idempotency_key l) \<noteq> (i, k)"
  by (auto simp: prior_movement_def sql_one_None)

lemma ledger_wf_append:
  assumes "ledger_wf d" "prior_movement (lg_reseller_id l) (lg_idempotency_key l) d = None" "t_credit_ledger d' = t_credit_ledger d @ [l]"
  shows "ledger_wf d'"
proof -
  have "(lg_reseller_id l, lg_idempotency_key l) \<notin> (\<lambda>l. (lg_reseller_id l, lg_idempotency_key l)) ` set (t_credit_ledger d)"
    using prior_movement_None [OF assms(2)] by (auto simp del: prod.inject simp: image_iff) metis
  then show ?thesis using assms(1) by (simp add: ledger_wf_def assms(3))
qed

lemma credit_inv:
  assumes "trade_inv d" "Credit now cin d = Inr (i, d')" "0 < cin_Delta cin"
  shows "trade_inv d'"
proof (cases "prior_movement (cin_ResellerID cin) (cin_IdempotencyKey cin) d")
  case (Some l)
  then show ?thesis using assms by (simp add: Credit_def split: if_splits)
next
  case None
  let ?l = "new_movement now cin i"
  have d': "d' = d\<lparr>t_credit_ledger := t_credit_ledger d @ [?l]\<rparr>" and fk: "ledger_fks cin d"
    using assms(2) None by (auto simp: Credit_def Let_def split: if_splits)
  have l: "lg_reseller_id ?l = cin_ResellerID cin" "lg_idempotency_key ?l = cin_IdempotencyKey cin" "lg_delta ?l = cin_Delta cin"
    by (simp_all add: new_movement_def)
  have c: "comm_wf d" using assms(1) by (simp add: trade_inv_def)
  have "ledger_wf d'" by (rule ledger_wf_append [of d ?l]) (use c None in \<open>simp_all add: comm_wf_def l d'\<close>)
  then have "comm_wf d'" using c fk by (auto simp: comm_wf_def d' l ledger_fks_def)
  moreover have "sound_tenant d' r" if "sound_tenant d r" for r
    using that credit_sum_append [of d' d "[?l]" "rs_id r"] assms(3)
    by (auto simp: sound_tenant_def d' l owned_count_def split: option.splits)
  moreover have "subj_inv d'" using assms(1) by (simp add: trade_inv_def d' subj_inv_def grants_wf_def credentials_wf_def)
  ultimately show ?thesis using assms(1) by (auto simp: trade_inv_def d')
qed

lemma provision_subj_inv:
  assumes "subj_inv d" "provision_new (store_creator e) now pv r d = Inr (res, d')"
  shows "subj_inv d'"
proof -
  obtain sid d1 d2 lid d3 where d1: "Create e (pv_Subject pv) d = Inr (sid, d1)"
    and d2: "insert_ownership now sid (pv_ResellerID pv) (pv_Cost pv) d1 = Inr d2"
    and d3: "debit now pv sid (record_quota (pv_QuotaBytes pv) sid d2) = Inr (lid, d3)" and d4: "provision_audit now pv sid d3 = Inr d'"
    using assms(2) by (auto simp: provision_new_def store_creator_def bind_result_Inr split: if_splits)
  have frame: "subj_inv x \<Longrightarrow> t_subjects y = t_subjects x \<Longrightarrow> t_services y = t_services x \<Longrightarrow> t_subject_services y = t_subject_services x
      \<Longrightarrow> t_subject_credentials y = t_subject_credentials x \<Longrightarrow> subj_inv y" for x y
    by (simp add: subj_inv_def grants_wf_def credentials_wf_def)
  have "subj_inv d2" by (rule frame [OF Create_inv [OF d1 assms(1)]]) (use d2 in \<open>auto simp: insert_ownership_def split: if_splits\<close>)
  then have "subj_inv (record_quota (pv_QuotaBytes pv) sid d2)" using set_subject_same by (simp add: record_quota_def)
  then have "subj_inv d3" by (rule frame) (use d3 in \<open>auto simp: debit_def Credit_def Let_def split: if_splits option.splits\<close>)
  then show ?thesis by (rule frame) (use d4 in \<open>auto simp: provision_audit_def audit_InTx_Inr\<close>)
qed

lemma tenant_row:
  assumes "comm_wf d" "reseller_Get i d = Inr r" "row \<in> set (t_resellers d)" "rs_id row = i"
  shows "r_ID r = i" "r_CreditFloor r = rs_credit_floor row" "r_MaxSubjects r = rs_max_subjects row"
proof -
  obtain row' where row': "row' \<in> set (t_resellers d)" "rs_id row' = i" "r_ID r = i" "r_CreditFloor r = rs_credit_floor row'"
    "r_MaxSubjects r = rs_max_subjects row'"
    using reseller_Get_Inr [OF assms(2)] by blast
  have "row' = row" using assms(1,3,4) row'(1,2) by (auto simp: comm_wf_def distinct_map inj_on_def)
  then show "r_ID r = i" "r_CreditFloor r = rs_credit_floor row" "r_MaxSubjects r = rs_max_subjects row" using row' by simp_all
qed

lemma sound_tenant_cong:
  assumes "rs_id r' = rs_id r" "rs_credit_floor r' = rs_credit_floor r" "rs_max_subjects r' = rs_max_subjects r"
    "credit_sum (rs_id r) d' = credit_sum (rs_id r) d" "owned_count (rs_id r) d' = owned_count (rs_id r) d"
  shows "sound_tenant d' r' = sound_tenant d r"
  unfolding sound_tenant_def assms ..

lemma sound_frame:
  "t_credit_ledger d' = t_credit_ledger d \<Longrightarrow> credit_sum i d' = credit_sum i d"
  "t_reseller_subjects d' = t_reseller_subjects d \<Longrightarrow> owned_count i d' = owned_count i d"
  by (simp_all add: credit_sum_def ledger_of_def owned_count_def)

lemma subj_inv_frame:
  "subj_inv d \<Longrightarrow> t_subjects d' = t_subjects d \<Longrightarrow> t_services d' = t_services d \<Longrightarrow> t_subject_services d' = t_subject_services d
     \<Longrightarrow> t_subject_credentials d' = t_subject_credentials d \<Longrightarrow> subj_inv d'"
  by (simp add: subj_inv_def grants_wf_def credentials_wf_def)

lemma provision_inv:
  assumes "trade_inv d" "ProvisionSubject (Some (store_creator e)) now pv d = Inr (res, d')" "pv_Cost pv \<le> 2 ^ 62"
  shows "trade_inv d'"
proof (cases "prior_movement (pv_ResellerID pv) (pv_IdempotencyKey pv) d")
  case (Some l)
  then have "d' = d" using assms(2) by (auto simp: ProvisionSubject_def bind_result_Inr split: if_splits)
  then show ?thesis using assms(1) by simp
next
  case None
  let ?R = "pv_ResellerID pv"
  have inv: "subj_inv d" and c: "comm_wf d" and sound: "\<And>r. r \<in> set (t_resellers d) \<Longrightarrow> sound_tenant d r"
    using assms(1) by (simp_all add: trade_inv_def)
  obtain r where r: "reseller_Get ?R d = Inr r" "checkLimits r (pv_QuotaBytes pv) d = Inr ()"
    "provision_new (store_creator e) now pv r d = Inr (res, d')" "0 \<le> pv_Cost pv"
    using provision_first [OF assms(2) None] by blast
  from panel_subjects.provision_new_spec [OF inv None r(3)]
  obtain b ow mv where b: "Balance ?R d = Inr b" "r_CreditFloor r \<le> int64_add b (- pv_Cost pv)"
    and own: "t_reseller_subjects d' = t_reseller_subjects d @ [ow]" "ow_reseller_id ow = ?R"
      "ow_subject_id ow \<notin> ow_subject_id ` set (t_reseller_subjects d)"
    and mv: "t_credit_ledger d' = t_credit_ledger d @ mv" and rs: "t_resellers d' = t_resellers d"
    and mv': "mv = [] \<and> pv_Cost pv \<le> 0 \<or> (\<exists>l. mv = [l] \<and> 0 < pv_Cost pv \<and> lg_reseller_id l = ?R \<and> lg_delta l = - pv_Cost pv
        \<and> lg_idempotency_key l = pv_IdempotencyKey pv)"
    by metis
  obtain row where row: "row \<in> set (t_resellers d)" "rs_id row = ?R" using reseller_Get_Inr [OF r(1)] by blast
  note tenant = tenant_row [OF c r(1) row]
  have bsum: "b = credit_sum ?R d" by (rule Balance_sum [OF b(1)])
  have low: "- (2 ^ 63) \<le> b - pv_Cost pv" using sound [OF row(1)] assms(3) bsum row(2) by (simp add: sound_tenant_def)
  have floor: "rs_credit_floor row \<le> b - pv_Cost pv"
    using b(2) unfolding tenant(2) int64_debit(2) [OF Balance_range [OF b(1)] r(4) low] .
  have sum: "credit_sum i d' = credit_sum i d - (if i = ?R then pv_Cost pv else 0)" for i
    using credit_sum_append [OF mv, of i] mv' r(4) by auto
  have cnt: "owned_count i d' = owned_count i d + (if i = ?R then 1 else 0)" for i
    using owned_count_append [OF own(1), of i] own(2) by simp
  have "ledger_wf d'"
  proof (cases "mv = []")
    case True then show ?thesis using c mv by (simp add: comm_wf_def ledger_wf_def)
  next
    case False
    then obtain l where l: "mv = [l]" "lg_reseller_id l = ?R" "lg_idempotency_key l = pv_IdempotencyKey pv" using mv' by blast
    show ?thesis by (rule ledger_wf_append [of d l]) (use c None l mv in \<open>simp_all add: comm_wf_def\<close>)
  qed
  moreover have "?R \<in> rs_id ` set (t_resellers d)" using row by (metis imageI)
  ultimately have comm: "comm_wf d'" using c own mv mv' by (auto simp: comm_wf_def rs)
  have "sound_tenant d' x" if x: "x \<in> set (t_resellers d)" for x
  proof (cases "rs_id x = ?R")
    case True
    then have "x = row" using c x row by (auto simp: comm_wf_def distinct_map inj_on_def)
    then show ?thesis using sound [OF row(1)] floor r(2) row(2)
      by (auto simp: sound_tenant_def sum cnt bsum checkLimits_def check_subjects_def bind_result_Inr Let_def tenant split: option.splits if_splits)
  next
    case False
    then have "sound_tenant d' x = sound_tenant d x" by (intro sound_tenant_cong) (simp_all add: sum cnt)
    then show ?thesis using sound [OF x] by simp
  qed
  then show ?thesis using comm provision_subj_inv [OF inv r(3)] by (simp add: trade_inv_def rs)
qed

lemma create_tenant_inv:
  assumes "trade_inv d" "reseller_Create now ri d = Inr (i, d')" "- (2 ^ 62) \<le> ri_CreditFloor ri" "ri_CreditFloor ri \<le> 0"
  shows "trade_inv d'"
proof -
  define row where "row = \<lparr>rs_id = i, rs_admin_id = ri_AdminID ri, rs_display_name = trim_space (ri_DisplayName ri), rs_enabled = True,
     rs_max_subjects = ri_MaxSubjects ri, rs_max_quota_bytes = ri_MaxQuotaBytes ri, rs_credit_floor = ri_CreditFloor ri,
     rs_created_at = now, rs_updated_at = now, rs_usage_coefficient = 10000\<rparr>"
  have row: "rs_id row = i" "rs_credit_floor row = ri_CreditFloor ri" "rs_max_subjects row = ri_MaxSubjects ri"
    by (simp_all add: row_def)
  have d': "d' = d\<lparr>t_resellers := t_resellers d @ [row]\<rparr>" and i: "i = next_rowid rs_id (t_resellers d)"
    and ceil: "ceiling_ok (ri_MaxSubjects ri)"
    using assms(2) unfolding reseller_Create_def Let_def row_def by (auto split: if_splits)
  have fresh: "i \<notin> rs_id ` set (t_resellers d)" using next_rowid_fresh [of rs_id "t_resellers d"] i by simp
  have c: "comm_wf d" using assms(1) by (simp add: trade_inv_def)
  have "\<forall>l \<in> set (t_credit_ledger d). lg_reseller_id l \<noteq> i" "\<forall>w \<in> set (t_reseller_subjects d). ow_reseller_id w \<noteq> i"
    using c fresh unfolding comm_wf_def by metis+
  then have "credit_sum i d = 0" "owned_count i d = 0"
    by (simp_all add: credit_sum_def ledger_of_def owned_count_def sql_where_def sql_count_def filter_empty_conv)
  then have "credit_sum i d' = 0" "owned_count i d' = 0" using sound_frame [of d' d i] by (simp_all add: d')
  then have new: "sound_tenant d' row"
    unfolding sound_tenant_def row using assms(3,4) ceil by (simp add: ceiling_ok_def split: option.splits)
  have old: "sound_tenant d' r = sound_tenant d r" for r
    by (rule sound_tenant_cong [OF refl refl refl]) (rule sound_frame, simp add: d')+
  have "comm_wf d'" using c fresh row(1) unfolding comm_wf_def ledger_wf_def d' by simp
  moreover have "subj_inv d'" by (rule subj_inv_frame [of d]) (use assms(1) in \<open>simp_all add: trade_inv_def d'\<close>)
  moreover have "\<forall>r \<in> set (t_resellers d'). sound_tenant d' r" using assms(1) new old by (simp add: trade_inv_def d')
  ultimately show ?thesis by (simp add: trade_inv_def)
qed

lemma set_reseller_inv:
  assumes "trade_inv d" "\<And>r. rs_id (f r) = rs_id r" "\<And>r. rs_credit_floor (f r) = rs_credit_floor r" "\<And>r. rs_max_subjects (f r) = rs_max_subjects r"
  shows "trade_inv (set_reseller i f d)"
proof -
  let ?d = "set_reseller i f d"
  have ids: "map rs_id (t_resellers ?d) = map rs_id (t_resellers d)" using assms(2) by simp
  then have ids': "rs_id ` set (t_resellers ?d) = rs_id ` set (t_resellers d)" by (metis set_map)
  have "comm_wf ?d" using assms(1) unfolding trade_inv_def comm_wf_def ids ids' by (simp add: ledger_wf_def)
  moreover have same: "sound_tenant ?d (if b then f r else r) = sound_tenant d r" for b r
    using assms(2-4) by (intro sound_tenant_cong sound_frame) simp_all
  then have "\<forall>r \<in> set (t_resellers ?d). sound_tenant ?d r"
    using assms(1) unfolding trade_inv_def by (simp add: ball_sql_update same split del: if_split)
  moreover have "subj_inv ?d" using assms(1) by (simp add: trade_inv_def subj_inv_def grants_wf_def credentials_wf_def)
  ultimately show ?thesis by (simp add: trade_inv_def)
qed

lemma update_tenant_inv:
  assumes "trade_inv d" "reseller_Update now i c d = Inr d'" "rc_CreditFloor c = None" "rc_MaxSubjects c = None"
  shows "trade_inv d'"
proof -
  obtain d1 d2 where d1: "rename_reseller i (rc_DisplayName c) d = Inr d1"
    and d2: "set_ceilings i c (case rc_Enabled c of None \<Rightarrow> d1 | Some b \<Rightarrow> set_reseller i (\<lambda>r. r\<lparr>rs_enabled := b\<rparr>) d1) = Inr d2"
    and d': "d' = set_reseller i (\<lambda>r. r\<lparr>rs_credit_floor := rs_credit_floor r, rs_updated_at := now\<rparr>) d2"
    using assms(2,3) by (auto simp: reseller_Update_def bind_result_Inr split: if_splits)
  have "trade_inv d1" using d1 assms(1) by (auto simp: rename_reseller_def Let_def split: option.splits if_splits intro!: set_reseller_inv)
  then have "trade_inv (case rc_Enabled c of None \<Rightarrow> d1 | Some b \<Rightarrow> set_reseller i (\<lambda>r. r\<lparr>rs_enabled := b\<rparr>) d1)"
    by (simp split: option.splits) (auto intro!: set_reseller_inv)
  then have "trade_inv d2" using d2 assms(4) by (auto simp: set_ceilings_def split: if_splits intro!: set_reseller_inv)
  then show ?thesis unfolding d' by (rule set_reseller_inv) simp_all
qed

lemma delete_tenant_inv:
  assumes "trade_inv d" "reseller_Delete i d = Inr d'"
  shows "trade_inv d'"
proof -
  have d': "d' = d\<lparr>t_resellers := sql_delete (\<lambda>r. rs_id r = i) (t_resellers d),
        t_credit_ledger := sql_delete (\<lambda>l. lg_reseller_id l = i) (t_credit_ledger d)\<rparr>" and cnt: "owned_count i d = 0"
    using assms(2) by (auto simp: reseller_Delete_def owned_count_def split: if_splits)
  have c: "comm_wf d" using assms(1) by (simp add: trade_inv_def)
  have none: "\<forall>w \<in> set (t_reseller_subjects d). ow_reseller_id w \<noteq> i"
    using cnt by (simp add: owned_count_def sql_count_def sql_where_def filter_empty_conv)
  have "ledger_wf d'" using c by (auto simp: comm_wf_def ledger_wf_def d' distinct_map_delete)
  moreover have "rs_id ` set (t_resellers d') = rs_id ` set (t_resellers d) - {i}" by (auto simp: d')
  ultimately have "comm_wf d'" using c none by (auto simp: comm_wf_def d' distinct_map_delete)
  moreover have "sound_tenant d' r = sound_tenant d r" if "rs_id r \<noteq> i" for r
  proof -
    have "ledger_of (rs_id r) d' = ledger_of (rs_id r) d"
      using that by (auto simp: ledger_of_def d' sql_where_def sql_delete_def intro: filter_cong)
    then show ?thesis by (intro sound_tenant_cong refl) (simp add: credit_sum_def, rule sound_frame, simp add: d')
  qed
  moreover have "subj_inv d'" using assms(1) by (simp add: trade_inv_def d' subj_inv_def grants_wf_def credentials_wf_def)
  ultimately show ?thesis using assms(1) by (auto simp: trade_inv_def d')
qed

datatype trade_op =
    TProvision subject_env int provision_input
  | TCredit int credit_input
  | TCreate int reseller_input
  | TUpdate int int reseller_change
  | TDelete int
  | TSubject subj_op

fun trade_step :: "trade_op \<Rightarrow> panel_db \<Rightarrow> panel_db" where
  "trade_step (TProvision e now pv) d = snd (store_write (ProvisionSubject (Some (store_creator e)) now pv) d)"
| "trade_step (TCredit now cin) d = snd (store_write (Credit now cin) d)"
| "trade_step (TCreate now ri) d = snd (store_write (reseller_Create now ri) d)"
| "trade_step (TUpdate now i c) d = in_tx (reseller_Update now i c) d"
| "trade_step (TDelete i) d = in_tx (reseller_Delete i) d"
| "trade_step (TSubject a) d = subj_step a d"

text \<open>What the operator keeps to: prices up to \<open>2 ^ 62\<close>, only positive credits, floors from \<open>- (2 ^ 62)\<close> to zero,
  and no later change of a floor or of a ceiling on customers.\<close>

fun trade_ok :: "trade_op \<Rightarrow> bool" where
  "trade_ok (TProvision e now pv) \<longleftrightarrow> pv_Cost pv \<le> 2 ^ 62"
| "trade_ok (TCredit now cin) \<longleftrightarrow> 0 < cin_Delta cin"
| "trade_ok (TCreate now ri) \<longleftrightarrow> - (2 ^ 62) \<le> ri_CreditFloor ri \<and> ri_CreditFloor ri \<le> 0"
| "trade_ok (TUpdate now i c) \<longleftrightarrow> rc_CreditFloor c = None \<and> rc_MaxSubjects c = None"
| "trade_ok (TDelete i) \<longleftrightarrow> True"
| "trade_ok (TSubject a) \<longleftrightarrow> True"

lemma trade_step_inv: "trade_ok a \<Longrightarrow> trade_inv d \<Longrightarrow> trade_inv (trade_step a d)"
proof (cases a)
  case (TSubject x)
  assume "trade_inv d"
  then have inv: "trade_inv d" "subj_inv d" by (simp_all add: trade_inv_def)
  show ?thesis unfolding TSubject trade_step.simps
    by (rule keeps_trade_inv [OF inv(1) subj_step_trade [OF inv(2)] subj_step_inv [OF inv(2)]])
next
  case (TProvision e now pv)
  assume "trade_ok a" "trade_inv d"
  then show ?thesis unfolding TProvision trade_step.simps by (intro store_write_inv [of trade_inv]) (auto elim: provision_inv)
next
  case (TCredit now cin)
  assume "trade_ok a" "trade_inv d"
  then show ?thesis unfolding TCredit trade_step.simps by (intro store_write_inv [of trade_inv]) (auto elim: credit_inv)
next
  case (TCreate now ri)
  assume "trade_ok a" "trade_inv d"
  then show ?thesis unfolding TCreate trade_step.simps by (intro store_write_inv [of trade_inv]) (auto elim: create_tenant_inv)
next
  case (TUpdate now i c)
  assume "trade_ok a" "trade_inv d"
  then show ?thesis unfolding TUpdate trade_step.simps by (intro in_tx_inv [of trade_inv]) (auto elim: update_tenant_inv)
next
  case (TDelete i)
  assume "trade_inv d"
  then show ?thesis unfolding TDelete trade_step.simps by (rule in_tx_inv) (rule delete_tenant_inv)
qed

interpretation trade_machine: invariant_machine trade_step trade_ok trade_inv
  by unfold_locales (rule trade_step_inv)


definition trades :: "trade_op list" where
  "trades = [TProvision demo_env 100 (buy 60 ''k1''), TProvision demo_env 200 (buy 60 ''k2''), TCredit 300
     \<lparr>cin_ResellerID = 1, cin_Delta = 5, cin_Reason = ''topup'', cin_Note = '''', cin_SubjectID = None, cin_ActorAdminID = Some 8,
      cin_IdempotencyKey = ''k3''\<rparr>]"


end
