(* ===== verification/Tenancy.thy ===== *)
theory Tenancy
  imports Trade "HOL-Library.List_Lexorder" "HOL-Library.Char_ord"
begin

text \<open>
  Who may do what to whose customers: the permissions and the authorization check of \<open>src/internal/panel/rbac\<close>, the
  scoped queries of \<open>store/reseller_query.go\<close> and \<open>subjects.go\<close>, and the service layer (\<open>service/subjects.go\<close>,
  \<open>reads.go\<close>, \<open>resellers.go\<close>, \<open>actor.go\<close>) through which every caller enters.

  A service operation returns its result or error, the notifications it sent to node agents, as pairs of node and
  revision, and the database. Its reads and its transactions run one after the other on the same database: what other
  callers do between them is not modelled.
\<close>

section \<open>Permissions\<close>

definition AllPermissions :: "string list" where
  "AllPermissions = [''node:read'', ''node:write'', ''node:enroll'', ''service:read'', ''service:write'', ''subject:read'',
     ''subject:write'', ''credential:reveal'', ''admin:manage'', ''role:manage'', ''audit:read'', ''settings:write'',
     ''alert:read'', ''reseller:read'', ''reseller:write'', ''credit:grant'', ''outbound:read'', ''outbound:write'']"

definition BuiltinRoles :: "(string \<times> string list) list" where
  "BuiltinRoles =
     [(''super_admin'', AllPermissions),
      (''admin'', [''node:read'', ''node:write'', ''node:enroll'', ''service:read'', ''service:write'', ''subject:read'',
         ''subject:write'', ''credential:reveal'', ''audit:read'', ''alert:read'', ''reseller:read'', ''reseller:write'',
         ''outbound:read'', ''outbound:write'']),
      (''reseller'', [''node:read'', ''service:read'', ''service:write'', ''subject:read'', ''subject:write'',
         ''credential:reveal'', ''alert:read'', ''outbound:read'']),
      (''readonly'', [''node:read'', ''service:read'', ''subject:read'', ''alert:read'', ''outbound:read''])]"

definition IsRead :: "string \<Rightarrow> bool" where
  "IsRead p \<longleftrightarrow> 5 \<le> length p \<and> drop (length p - 5) p = '':read''"

section \<open>Authorization\<close>

datatype TargetKind = TargetNone | TargetNode | TargetService

record Target =
  tg_Kind :: TargetKind
  tg_ID :: int

record rbac_actor =
  ac_AdminID :: int
  ac_RoleName :: string
  ac_IsSuper :: bool
  ac_Perms :: "string list"
  ac_NodeIDs :: "int list"
  ac_ServiceIDs :: "int list"

datatype svc_err =
    Forbidden
  | SubjectNotFound
  | ResellerNotFound
  | NoReseller
  | DeleteCapExceeded int int
  | BadUsage quota_err
  | BadPermissions
  | Db panel_err

definition Check :: "rbac_actor option \<Rightarrow> string \<Rightarrow> Target \<Rightarrow> svc_err + unit" where
  "Check a p t = (case a of None \<Rightarrow> Inl Forbidden
     | Some r \<Rightarrow>
         if p \<notin> set (ac_Perms r) then Inl Forbidden
         else if tg_Kind t = TargetNone \<or> ac_IsSuper r then Inr ()
         else (case tg_Kind t of
             TargetNode \<Rightarrow> if tg_ID t \<in> set (ac_NodeIDs r) then Inr () else Inl Forbidden
           | TargetService \<Rightarrow> if tg_ID t \<in> set (ac_ServiceIDs r) then Inr () else Inl Forbidden
           | TargetNone \<Rightarrow> Inl Forbidden))"

abbreviation no_target :: Target where
  "no_target \<equiv> \<lparr>tg_Kind = TargetNone, tg_ID = 0\<rparr>"

record Scope =
  scp_AdminID :: int
  scp_IsSuper :: bool

definition ScopeOf :: "rbac_actor option \<Rightarrow> Scope" where
  "ScopeOf a = (case a of None \<Rightarrow> \<lparr>scp_AdminID = 0, scp_IsSuper = False\<rparr>
     | Some r \<Rightarrow> \<lparr>scp_AdminID = ac_AdminID r, scp_IsSuper = ac_IsSuper r\<rparr>)"

text \<open>\<open>LoadActor\<close>: the role's permissions decoded, the scopes of the admin; a suspended admin has no row.\<close>

definition LoadActor :: "codec \<Rightarrow> int \<Rightarrow> panel_db \<Rightarrow> svc_err + rbac_actor" where
  "LoadActor c adminID d =
     (case sql_one (\<lambda>a. am_id a = adminID \<and> am_status a = ''active'') (t_admins d) of
        None \<Rightarrow> Inl (Db (ErrNoRows ''admins''))
      | Some a \<Rightarrow> (case sql_one (\<lambda>r. rl_id r = am_role_id a) (t_roles d) of
          None \<Rightarrow> Inl (Db (ErrNoRows ''admins''))
        | Some r \<Rightarrow> (case json_strings c (rl_permissions r) of
            None \<Rightarrow> Inl BadPermissions
          | Some perms \<Rightarrow>
              (let scopes = sql_where (\<lambda>s. fst s = adminID) (t_admin_scopes d)
               in Inr \<lparr>ac_AdminID = adminID, ac_RoleName = rl_name r, ac_IsSuper = (rl_name r = ''super_admin''), ac_Perms = perms,
                    ac_NodeIDs = map (snd \<circ> snd) (filter (\<lambda>s. fst (snd s) = ''node'') scopes),
                    ac_ServiceIDs = map (snd \<circ> snd) (filter (\<lambda>s. fst (snd s) = ''service'') scopes)\<rparr>))))"

section \<open>Scoped queries\<close>

definition subject_scope :: "Scope \<Rightarrow> panel_db \<Rightarrow> int \<Rightarrow> bool" where
  "subject_scope sc d i \<longleftrightarrow> scp_IsSuper sc \<or> (\<exists>w \<in> set (t_reseller_subjects d). ow_subject_id w = i
     \<and> (\<exists>r \<in> set (t_resellers d). rs_id r = ow_reseller_id w \<and> rs_admin_id r = scp_AdminID sc))"

definition reseller_scope :: "Scope \<Rightarrow> reseller_row \<Rightarrow> bool" where
  "reseller_scope sc r \<longleftrightarrow> scp_IsSuper sc \<or> rs_admin_id r = scp_AdminID sc"

record SubjectRow =
  sr_ID :: int
  sr_Name :: string
  sr_Enabled :: bool
  sr_ExpiresAt :: "int option"
  sr_QuotaBytes :: "int option"
  sr_QuotaUsedBytes :: int
  sr_FrozenAt :: "int option"
  sr_ResellerID :: "int option"

definition subject_row_of :: "panel_db \<Rightarrow> subject_row \<Rightarrow> SubjectRow" where
  "subject_row_of d s = \<lparr>sr_ID = s_id s, sr_Name = s_name s, sr_Enabled = s_enabled s, sr_ExpiresAt = s_expires_at s,
     sr_QuotaBytes = s_quota_bytes s, sr_QuotaUsedBytes = s_quota_used_bytes s, sr_FrozenAt = s_frozen_at s,
     sr_ResellerID = map_option ow_reseller_id (sql_one (\<lambda>w. ow_subject_id w = s_id s) (t_reseller_subjects d))\<rparr>"

definition ListSubjectsScoped :: "Scope \<Rightarrow> panel_db \<Rightarrow> SubjectRow list" where
  "ListSubjectsScoped sc d = map (subject_row_of d)
     (sort_key (nocase \<circ> s_name) (sql_where (\<lambda>s. subject_scope sc d (s_id s)) (t_subjects d)))"

definition GetSubjectScoped :: "Scope \<Rightarrow> int \<Rightarrow> panel_db \<Rightarrow> panel_err + SubjectRow" where
  "GetSubjectScoped sc i d = (case sql_one (\<lambda>s. s_id s = i \<and> subject_scope sc d (s_id s)) (t_subjects d) of
     None \<Rightarrow> Inl (ErrNoRows ''subjects'') | Some s \<Rightarrow> Inr (subject_row_of d s))"

definition SubjectInScope :: "Scope \<Rightarrow> int \<Rightarrow> panel_db \<Rightarrow> bool" where
  "SubjectInScope sc i d \<longleftrightarrow> sql_one (\<lambda>s. s_id s = i \<and> subject_scope sc d (s_id s)) (t_subjects d) \<noteq> None"

text \<open>\<open>ResellerRow\<close> has the fields of \<open>Reseller\<close>.\<close>

definition reseller_row_of :: "reseller_row \<Rightarrow> Reseller" where
  "reseller_row_of r = \<lparr>r_ID = rs_id r, r_AdminID = rs_admin_id r, r_DisplayName = rs_display_name r, r_Enabled = rs_enabled r,
     r_MaxSubjects = rs_max_subjects r, r_MaxQuotaBytes = rs_max_quota_bytes r, r_CreditFloor = rs_credit_floor r,
     r_CreatedAt = rs_created_at r, r_UpdatedAt = rs_updated_at r\<rparr>"

definition ListResellersScoped :: "Scope \<Rightarrow> panel_db \<Rightarrow> Reseller list" where
  "ListResellersScoped sc d = map reseller_row_of (sort_key (nocase \<circ> rs_display_name) (sql_where (reseller_scope sc) (t_resellers d)))"

definition GetResellerScoped :: "Scope \<Rightarrow> int \<Rightarrow> panel_db \<Rightarrow> panel_err + Reseller" where
  "GetResellerScoped sc i d = (case sql_one (\<lambda>r. rs_id r = i \<and> reseller_scope sc r) (t_resellers d) of
     None \<Rightarrow> Inl (ErrNoRows ''resellers'') | Some r \<Rightarrow> Inr (reseller_row_of r))"

record LedgerRow =
  lr_ID :: int
  lr_Delta :: int
  lr_Reason :: string
  lr_SubjectID :: "int option"
  lr_Note :: string
  lr_At :: int

definition ledger_row_of :: "ledger_row \<Rightarrow> LedgerRow" where
  "ledger_row_of l = \<lparr>lr_ID = lg_id l, lr_Delta = lg_delta l, lr_Reason = lg_reason l, lr_SubjectID = lg_subject_id l,
     lr_Note = lg_note l, lr_At = lg_at l\<rparr>"

definition clamp_limit :: "int \<Rightarrow> nat" where
  "clamp_limit n = (if n \<le> 0 \<or> n > 500 then 100 else nat n)"

definition ListLedgerScoped :: "Scope \<Rightarrow> int \<Rightarrow> int \<Rightarrow> panel_db \<Rightarrow> LedgerRow list" where
  "ListLedgerScoped sc resellerID limit d = map ledger_row_of (take (clamp_limit limit) (rev (sort_key lg_id
     (sql_where (\<lambda>l. lg_reseller_id l = resellerID \<and> (\<exists>r \<in> set (t_resellers d). rs_id r = lg_reseller_id l \<and> reseller_scope sc r))
       (t_credit_ledger d)))))"

definition BalanceScoped :: "Scope \<Rightarrow> int \<Rightarrow> panel_db \<Rightarrow> panel_err + int" where
  "BalanceScoped sc resellerID d =
     bind_result (GetResellerScoped sc resellerID d) (\<lambda>_. sql_sum 0 (map lg_delta (ledger_of resellerID d)))"

text \<open>The two reads of the subject store.\<close>

definition subjects_Get :: "Scope \<Rightarrow> int \<Rightarrow> panel_db \<Rightarrow> panel_err + Subject" where
  "subjects_Get sc i d = (case sql_one (\<lambda>s. s_id s = i \<and> subject_scope sc d (s_id s)) (t_subjects d) of
     None \<Rightarrow> Inl (ErrNoRows ''subjects'') | Some s \<Rightarrow> Inr (scanSubject s))"

definition subjects_List :: "Scope \<Rightarrow> panel_db \<Rightarrow> Subject list" where
  "subjects_List sc d = map scanSubject (rev (sort_key s_id (sql_where (\<lambda>s. subject_scope sc d (s_id s)) (t_subjects d))))"

section \<open>The service layer: subjects\<close>

record svc_actor =
  sa_RBAC :: "rbac_actor option"
  sa_Audit :: actor
  sa_RequestID :: string
  sa_Via :: string

record svc_env =
  se_codec :: codec
  se_unsealer :: unsealer
  se_now :: int
  se_subjects :: subject_env
  se_open :: "(string \<Rightarrow> string option) option"

type_synonym 'a svc_result = "(svc_err + 'a) \<times> (int \<times> int) list \<times> panel_db"

abbreviation sa_scope :: "svc_actor \<Rightarrow> Scope" where
  "sa_scope a \<equiv> ScopeOf (sa_RBAC a)"

definition authorize :: "svc_actor \<Rightarrow> string \<Rightarrow> int \<Rightarrow> panel_db \<Rightarrow> svc_err + unit" where
  "authorize a perm subjectID d =
     bind_result (Check (sa_RBAC a) perm no_target) (\<lambda>_.
       if subjectID = 0 then Inr ()
       else if SubjectInScope (sa_scope a) subjectID d then Inr () else Inl SubjectNotFound)"

text \<open>\<open>republish\<close> stops at the first commit that fails.\<close>

fun svc_republish :: "svc_env \<Rightarrow> svc_actor \<Rightarrow> string \<Rightarrow> int list \<Rightarrow> panel_db \<Rightarrow> unit svc_result" where
  "svc_republish e a reason [] d = (Inr (), [], d)"
| "svc_republish e a reason (n # ns) d =
     (case CommitNodeChange (se_codec e) (se_unsealer e) (se_now e) n (sa_Audit a) (sa_RequestID a) reason Inr d of
        (Inl err, d') \<Rightarrow> (Inl (Db err), [], d')
      | (Inr r, d') \<Rightarrow> (case svc_republish e a reason ns d' of
          (res, notes, d'') \<Rightarrow> (res, (if Changed r then (n, cr_Revision r) # notes else notes), d'')))"

definition republishFor :: "svc_env \<Rightarrow> svc_actor \<Rightarrow> int \<Rightarrow> string \<Rightarrow> panel_db \<Rightarrow> unit svc_result" where
  "republishFor e a i reason d = svc_republish e a reason (NodeIDsFor i d) d"

definition with_audit :: "svc_env \<Rightarrow> svc_actor \<Rightarrow> string \<Rightarrow> string \<Rightarrow> int \<Rightarrow> (string \<times> jval) list
     \<Rightarrow> (panel_err + ('a \<times> panel_db)) \<Rightarrow> panel_err + ('a \<times> panel_db)" where
  "with_audit e a action target i after r =
     bind_result r (\<lambda>(x, d). bind_result
       (audit_InTx (se_now e) (sa_RequestID a) (sa_Audit a) action target (Some i) after ''ok'' d) (\<lambda>d'. Inr (x, d')))"

definition mutate :: "svc_env \<Rightarrow> svc_actor \<Rightarrow> int \<Rightarrow> string \<Rightarrow> (panel_db \<Rightarrow> panel_err + panel_db) \<Rightarrow> panel_db \<Rightarrow> unit svc_result" where
  "mutate e a i action fn d =
     (case store_write (\<lambda>d. with_audit e a action ''subject'' i [(''via'', JStr (sa_Via a))]
         (bind_result (fn d) (\<lambda>d'. Inr ((), d')))) d of
        (Inl err, d') \<Rightarrow> (Inl (Db err), [], d')
      | (Inr _, d') \<Rightarrow> republishFor e a i action d')"

definition guarded :: "svc_err + unit \<Rightarrow> (panel_db \<Rightarrow> 'a svc_result) \<Rightarrow> panel_db \<Rightarrow> 'a svc_result" where
  "guarded g f d = (case g of Inl err \<Rightarrow> (Inl err, [], d) | Inr _ \<Rightarrow> f d)"

definition svc_List :: "svc_actor \<Rightarrow> panel_db \<Rightarrow> svc_err + Subject list" where
  "svc_List a d = bind_result (Check (sa_RBAC a) ''subject:read'' no_target) (\<lambda>_. Inr (subjects_List (sa_scope a) d))"

definition svc_Get :: "svc_actor \<Rightarrow> int \<Rightarrow> panel_db \<Rightarrow> svc_err + Subject" where
  "svc_Get a i d = bind_result (Check (sa_RBAC a) ''subject:read'' no_target) (\<lambda>_.
     case subjects_Get (sa_scope a) i d of Inl err \<Rightarrow> Inl SubjectNotFound | Inr s \<Rightarrow> Inr s)"

text \<open>\<open>BestEffort\<close> audits in a transaction of its own and cannot fail the caller.\<close>

definition audit_BestEffort :: "svc_env \<Rightarrow> svc_actor \<Rightarrow> string \<Rightarrow> int \<Rightarrow> (string \<times> jval) list \<Rightarrow> panel_db \<Rightarrow> panel_db" where
  "audit_BestEffort e a action i after d = snd (store_write (\<lambda>d.
     bind_result (audit_InTx (se_now e) (sa_RequestID a) (sa_Audit a) action ''subject'' (Some i) after ''ok'' d) (\<lambda>d'. Inr ((), d'))) d)"

definition svc_Credential :: "svc_env \<Rightarrow> svc_actor \<Rightarrow> int \<Rightarrow> string \<Rightarrow> panel_db \<Rightarrow> string svc_result" where
  "svc_Credential e a i kind d = guarded (authorize a ''credential:reveal'' i d) (\<lambda>d.
     case CredentialOf (se_open e) i kind d of
       Inl err \<Rightarrow> (Inl SubjectNotFound, [], d)
     | Inr v \<Rightarrow> (Inr v, [], audit_BestEffort e a ''credential.reveal'' i [(''kind'', JStr kind), (''via'', JStr (sa_Via a))] d)) d"

definition svc_Create :: "svc_env \<Rightarrow> svc_actor \<Rightarrow> create_input \<Rightarrow> panel_db \<Rightarrow> int svc_result" where
  "svc_Create e a ci d = guarded (authorize a ''subject:write'' 0 d) (\<lambda>d.
     case store_write (\<lambda>d. bind_result (Create (se_subjects e) ci d) (\<lambda>(i, d').
         with_audit e a ''subject.create'' ''subject'' i
           [(''name'', JStr (ci_Name ci)), (''services'', JInt (int (length (ci_ServiceIDs ci)))), (''via'', JStr (sa_Via a))]
           (Inr (i, d')))) d of
       (Inl err, d') \<Rightarrow> (Inl (Db err), [], d')
     | (Inr i, d') \<Rightarrow> (case republishFor e a i ''subject created'' d' of
         (Inl err, notes, d'') \<Rightarrow> (Inl err, notes, d'') | (Inr _, notes, d'') \<Rightarrow> (Inr i, notes, d''))) d"

definition unionNodes :: "int list \<Rightarrow> int list \<Rightarrow> int list" where
  "unionNodes xs ys = rev (fold (\<lambda>i out. if i \<in> set out then out else i # out) (xs @ ys) [])"

definition svc_Update :: "svc_env \<Rightarrow> svc_actor \<Rightarrow> int \<Rightarrow> update_input \<Rightarrow> panel_db \<Rightarrow> unit svc_result" where
  "svc_Update e a i u d = guarded (authorize a ''subject:write'' i d) (\<lambda>d.
     let before = NodeIDsFor i d in
     case store_write (\<lambda>d. with_audit e a ''subject.update'' ''subject'' i
         [(''enabled'', case up_Enabled u of None \<Rightarrow> JNull | Some b \<Rightarrow> JBool b), (''clear_expiry'', JBool (up_ClearExpiry u)),
          (''via'', JStr (sa_Via a))]
         (bind_result (Update i u d) (\<lambda>d'. Inr ((), d')))) d of
       (Inl err, d') \<Rightarrow> (Inl (Db err), [], d')
     | (Inr _, d') \<Rightarrow> svc_republish e a ''subject updated'' (unionNodes before (NodeIDsFor i d')) d') d"

definition SetEnabled :: "svc_env \<Rightarrow> svc_actor \<Rightarrow> int \<Rightarrow> bool \<Rightarrow> panel_db \<Rightarrow> unit svc_result" where
  "SetEnabled e a i on d = guarded (authorize a ''subject:write'' i d)
     (mutate e a i (if on then ''subject.enable'' else ''subject.disable'') (if on then Enable i else Disable i)) d"

definition SetFrozen :: "svc_env \<Rightarrow> svc_actor \<Rightarrow> int \<Rightarrow> bool \<Rightarrow> string \<Rightarrow> panel_db \<Rightarrow> unit svc_result" where
  "SetFrozen e a i frozen reason d = guarded (authorize a ''subject:write'' i d)
     (mutate e a i (if frozen then ''subject.freeze'' else ''subject.unfreeze'')
       (if frozen then Freeze (se_now e) i reason else Unfreeze i)) d"

text \<open>The nil actor never reaches the cap: \<open>authorize\<close> has refused it.\<close>

definition checkDeleteCap :: "svc_env \<Rightarrow> svc_actor \<Rightarrow> int \<Rightarrow> panel_db \<Rightarrow> svc_err + unit" where
  "checkDeleteCap e a i d = (case sa_RBAC a of None \<Rightarrow> Inl Forbidden
     | Some r \<Rightarrow>
         if ac_IsSuper r then Inr ()
         else (case sql_one (\<lambda>x. am_id x = ac_AdminID r) (t_admins d) of
             None \<Rightarrow> Inr ()
           | Some x \<Rightarrow> (case am_delete_cap_bytes x of None \<Rightarrow> Inr ()
               | Some limit \<Rightarrow> (case BillableForSubject i 0 (se_now e) d of
                   Inl q \<Rightarrow> Inl (BadUsage q)
                 | Inr report \<Rightarrow> if sint (br_Billable report) > limit then Inl (DeleteCapExceeded (sint (br_Billable report)) limit)
                     else Inr ()))))"

definition svc_Delete :: "svc_env \<Rightarrow> svc_actor \<Rightarrow> int \<Rightarrow> panel_db \<Rightarrow> unit svc_result" where
  "svc_Delete e a i d = guarded (authorize a ''subject:write'' i d) (guarded (checkDeleteCap e a i d) (\<lambda>d.
     let ns = NodeIDsFor i d in
     case store_write (\<lambda>d. with_audit e a ''subject.delete'' ''subject'' i [(''via'', JStr (sa_Via a))]
         (bind_result (Delete i d) (\<lambda>d'. Inr ((), d')))) d of
       (Inl err, d') \<Rightarrow> (Inl (Db err), [], d')
     | (Inr _, d') \<Rightarrow> svc_republish e a ''subject deleted'' ns d')) d"

definition RotateCredential :: "svc_env \<Rightarrow> svc_actor \<Rightarrow> int \<Rightarrow> string \<Rightarrow> panel_db \<Rightarrow> string svc_result" where
  "RotateCredential e a i kind d = guarded (authorize a ''subject:write'' i d) (\<lambda>d.
     case store_write (\<lambda>d. with_audit e a ''credential.rotate'' ''subject'' i [(''kind'', JStr kind), (''via'', JStr (sa_Via a))]
         (Rotate (se_subjects e) i kind d)) d of
       (Inl err, d') \<Rightarrow> (Inl (Db err), [], d')
     | (Inr v, d') \<Rightarrow> (case republishFor e a i ''credential rotated'' d' of
         (Inl err, notes, d'') \<Rightarrow> (Inl err, notes, d'') | (Inr _, notes, d'') \<Rightarrow> (Inr v, notes, d''))) d"

definition svc_Provision :: "svc_env \<Rightarrow> svc_actor \<Rightarrow> provision_input \<Rightarrow> panel_db \<Rightarrow> provision_result svc_result" where
  "svc_Provision e a pv d = guarded (Check (sa_RBAC a) ''subject:write'' no_target) (\<lambda>d.
     let pv' = pv\<lparr>pv_RequestID := sa_RequestID a, pv_Actor := sa_Audit a,
         pv_ActorAdminID := (case sa_RBAC a of None \<Rightarrow> pv_ActorAdminID pv | Some r \<Rightarrow> Some (ac_AdminID r))\<rparr> in
     case store_write (ProvisionSubject (Some (store_creator (se_subjects e))) (se_now e) pv') d of
       (Inl err, d') \<Rightarrow> (Inl (Db err), [], d')
     | (Inr out, d') \<Rightarrow> (case svc_republish e a ''subject provisioned'' (pr_NodeIDs out) d' of
         (Inl err, notes, d'') \<Rightarrow> (Inl err, notes, d'') | (Inr _, notes, d'') \<Rightarrow> (Inr out, notes, d''))) d"

section \<open>The service layer: a tenant's own reads\<close>

record svc_balance =
  sb_ResellerID :: int
  sb_DisplayName :: string
  sb_Enabled :: bool
  sb_Balance :: int
  sb_CreditFloor :: int

definition own_tenant :: "svc_actor \<Rightarrow> panel_db \<Rightarrow> svc_err + Reseller" where
  "own_tenant a d = (case sa_RBAC a of None \<Rightarrow> Inl Forbidden
     | Some r \<Rightarrow> if ac_IsSuper r then Inl NoReseller
         else (case ListResellersScoped (sa_scope a) d of [x] \<Rightarrow> Inr x | _ \<Rightarrow> Inl NoReseller))"

definition svc_Balance :: "svc_actor \<Rightarrow> panel_db \<Rightarrow> svc_err + svc_balance" where
  "svc_Balance a d = bind_result (own_tenant a d) (\<lambda>r.
     case BalanceScoped (sa_scope a) (r_ID r) d of
       Inl err \<Rightarrow> Inl (Db err)
     | Inr b \<Rightarrow> Inr \<lparr>sb_ResellerID = r_ID r, sb_DisplayName = r_DisplayName r, sb_Enabled = r_Enabled r, sb_Balance = b,
         sb_CreditFloor = r_CreditFloor r\<rparr>)"

definition svc_Ledger :: "svc_actor \<Rightarrow> int \<Rightarrow> panel_db \<Rightarrow> svc_err + LedgerRow list" where
  "svc_Ledger a limit d = bind_result (own_tenant a d) (\<lambda>r. Inr (ListLedgerScoped (sa_scope a) (r_ID r) limit d))"

text \<open>\<open>strings.EqualFold\<close> on ASCII names.\<close>

definition FindByName :: "svc_actor \<Rightarrow> string \<Rightarrow> panel_db \<Rightarrow> svc_err + Subject" where
  "FindByName a name d = bind_result (svc_List a d) (\<lambda>xs.
     case List.find (\<lambda>s. nocase (sub_Name s) = nocase name) xs of None \<Rightarrow> Inl SubjectNotFound | Some s \<Rightarrow> Inr s)"

definition SubscriptionToken :: "svc_env \<Rightarrow> svc_actor \<Rightarrow> int \<Rightarrow> panel_db \<Rightarrow> string svc_result" where
  "SubscriptionToken e a i d = guarded (authorize a ''credential:reveal'' i d) (\<lambda>d.
     case EnsureToken (env_token (se_subjects e)) i d d of
       (Inl err, d') \<Rightarrow> (Inl (Db err), [], d')
     | (Inr token, d') \<Rightarrow> (Inr token, [], audit_BestEffort e a ''subscription.reveal'' i [(''via'', JStr (sa_Via a))] d')) d"

section \<open>The service layer: tenants\<close>

definition platformScope :: Scope where
  "platformScope = \<lparr>scp_AdminID = 0, scp_IsSuper = True\<rparr>"

definition sellers_List :: "svc_actor \<Rightarrow> panel_db \<Rightarrow> svc_err + Reseller list" where
  "sellers_List a d = bind_result (Check (sa_RBAC a) ''reseller:read'' no_target) (\<lambda>_. Inr (ListResellersScoped platformScope d))"

definition sellers_Get :: "svc_actor \<Rightarrow> int \<Rightarrow> panel_db \<Rightarrow> svc_err + Reseller" where
  "sellers_Get a i d = bind_result (Check (sa_RBAC a) ''reseller:read'' no_target) (\<lambda>_.
     case GetResellerScoped platformScope i d of Inl err \<Rightarrow> Inl ResellerNotFound | Inr r \<Rightarrow> Inr r)"

definition sellers_Balance :: "svc_actor \<Rightarrow> int \<Rightarrow> panel_db \<Rightarrow> svc_err + int" where
  "sellers_Balance a i d = bind_result (Check (sa_RBAC a) ''reseller:read'' no_target) (\<lambda>_.
     case BalanceScoped platformScope i d of
       Inl (ErrNoRows t) \<Rightarrow> Inl ResellerNotFound | Inl err \<Rightarrow> Inl (Db err) | Inr b \<Rightarrow> Inr b)"

definition sellers_Ledger :: "svc_actor \<Rightarrow> int \<Rightarrow> int \<Rightarrow> panel_db \<Rightarrow> svc_err + LedgerRow list" where
  "sellers_Ledger a i limit d = bind_result (Check (sa_RBAC a) ''reseller:read'' no_target) (\<lambda>_.
     Inr (ListLedgerScoped platformScope i limit d))"

definition svc_write :: "(panel_db \<Rightarrow> panel_err + ('a \<times> panel_db)) \<Rightarrow> panel_db \<Rightarrow> 'a svc_result" where
  "svc_write fn d = (case store_write fn d of (Inl err, d') \<Rightarrow> (Inl (Db err), [], d') | (Inr x, d') \<Rightarrow> (Inr x, [], d'))"

definition sellers_Create :: "svc_env \<Rightarrow> svc_actor \<Rightarrow> reseller_input \<Rightarrow> panel_db \<Rightarrow> int svc_result" where
  "sellers_Create e a ri d = guarded (Check (sa_RBAC a) ''reseller:write'' no_target) (svc_write (\<lambda>d.
     bind_result (reseller_Create (se_now e) ri d) (\<lambda>(i, d').
       with_audit e a ''reseller.create'' ''reseller'' i
         [(''display_name'', JStr (ri_DisplayName ri)), (''admin_id'', JInt (ri_AdminID ri)), (''credit_floor'', JInt (ri_CreditFloor ri)),
          (''via'', JStr (sa_Via a))] (Inr (i, d'))))) d"

text \<open>\<open>sql.ErrNoRows\<close> of the store becomes the service's own error inside the transaction.\<close>

definition tenant_missing :: "unit svc_result \<Rightarrow> unit svc_result" where
  "tenant_missing r = (case r of (Inl (Db (ErrNoRows t)), rest) \<Rightarrow> (Inl ResellerNotFound, rest) | x \<Rightarrow> x)"

definition sellers_Update :: "svc_env \<Rightarrow> svc_actor \<Rightarrow> int \<Rightarrow> reseller_change \<Rightarrow> panel_db \<Rightarrow> unit svc_result" where
  "sellers_Update e a i c d = guarded (Check (sa_RBAC a) ''reseller:write'' no_target)
     (guarded (bind_result (sellers_Get a i d) (\<lambda>_. Inr ())) (\<lambda>d. tenant_missing (svc_write (\<lambda>d.
       with_audit e a ''reseller.update'' ''reseller'' i [(''via'', JStr (sa_Via a))]
         (bind_result (reseller_Update (se_now e) i c d) (\<lambda>d'. Inr ((), d')))) d))) d"

definition GrantCredit :: "svc_env \<Rightarrow> svc_actor \<Rightarrow> credit_input \<Rightarrow> panel_db \<Rightarrow> (int \<times> int) svc_result" where
  "GrantCredit e a cin d = guarded (Check (sa_RBAC a) ''credit:grant'' no_target) (svc_write (\<lambda>d.
     let cin' = cin\<lparr>cin_ActorAdminID := (case sa_RBAC a of None \<Rightarrow> cin_ActorAdminID cin | Some r \<Rightarrow> Some (ac_AdminID r))\<rparr> in
     bind_result (Credit (se_now e) cin' d) (\<lambda>(lid, d').
     bind_result (Balance (cin_ResellerID cin') d') (\<lambda>balance.
       with_audit e a ''reseller.credit'' ''reseller'' (cin_ResellerID cin')
         [(''delta'', JInt (cin_Delta cin')), (''reason'', JStr (cin_Reason cin')), (''balance'', JInt balance), (''via'', JStr (sa_Via a))]
         (Inr ((lid, balance), d')))))) d"

definition sellers_Delete :: "svc_env \<Rightarrow> svc_actor \<Rightarrow> int \<Rightarrow> panel_db \<Rightarrow> unit svc_result" where
  "sellers_Delete e a i d = guarded (Check (sa_RBAC a) ''reseller:write'' no_target)
     (guarded (bind_result (sellers_Get a i d) (\<lambda>_. Inr ())) (\<lambda>d. tenant_missing (svc_write (\<lambda>d.
       with_audit e a ''reseller.delete'' ''reseller'' i [(''via'', JStr (sa_Via a))]
         (bind_result (reseller_Delete i d) (\<lambda>d'. Inr ((), d')))) d))) d"

section \<open>A foreign subject looks like a missing one\<close>

lemma Check_cases: "Check a p t = Inr () \<or> Check a p t = Inl Forbidden"
  by (simp add: Check_def split: option.splits TargetKind.splits)

lemma SubjectInScope_iff: "SubjectInScope sc i d \<longleftrightarrow> i \<in> s_id ` set (t_subjects d) \<and> subject_scope sc d i"
  by (auto simp: SubjectInScope_def sql_one_None)

lemma authorize_outside:
  assumes "i \<noteq> 0" "\<not> SubjectInScope (sa_scope a) i d"
  shows "authorize a perm i d = Inl (if is_ok (Check (sa_RBAC a) perm no_target) then SubjectNotFound else Forbidden)"
  using Check_cases [of "sa_RBAC a" perm no_target] assms by (auto simp: authorize_def)

lemma guarded_outside:
  assumes "i \<noteq> 0" "\<not> SubjectInScope (sa_scope a) i d"
  shows "guarded (authorize a perm i d) f d
    = (Inl (if is_ok (Check (sa_RBAC a) perm no_target) then SubjectNotFound else Forbidden), [], d)"
  unfolding guarded_def authorize_outside [OF assms] by simp

lemma subjects_Get_outside: "\<not> SubjectInScope sc i d \<Longrightarrow> subjects_Get sc i d = Inl (ErrNoRows ''subjects'')"
  by (simp add: subjects_Get_def SubjectInScope_def)

text \<open>C14: to a caller, a customer of another tenant does not exist. Every operation on an existing subject outside the
  caller's scope, reads, reveals and changes alike, returns exactly what it returns for an id that no subject has, which is
  an error, sends nothing to any node and leaves the database as it was.\<close>
theorem foreign_like_missing:
  assumes "i \<noteq> 0" and "\<not> subject_scope (sa_scope a) d i" and "j \<noteq> 0" and "j \<notin> s_id ` set (t_subjects d)"
  shows "svc_Get a i d = svc_Get a j d \<and> \<not> is_ok (svc_Get a i d)
    \<and> svc_Credential e a i k d = svc_Credential e a j k d \<and> SubscriptionToken e a i d = SubscriptionToken e a j d
    \<and> RotateCredential e a i k d = RotateCredential e a j k d \<and> svc_Update e a i u d = svc_Update e a j u d
    \<and> SetEnabled e a i on d = SetEnabled e a j on d \<and> SetFrozen e a i fr reason d = SetFrozen e a j fr reason d
    \<and> svc_Delete e a i d = svc_Delete e a j d
    \<and> (\<forall>r \<in> {svc_Update e a i u d, SetEnabled e a i on d, SetFrozen e a i fr reason d, svc_Delete e a i d}. \<not> is_ok (fst r) \<and> snd r = ([], d))
    \<and> (\<forall>r \<in> {svc_Credential e a i k d, SubscriptionToken e a i d, RotateCredential e a i k d}. \<not> is_ok (fst r) \<and> snd r = ([], d))"
proof -
  have out: "\<not> SubjectInScope (sa_scope a) i d" "\<not> SubjectInScope (sa_scope a) j d"
    using assms(2,4) by (simp_all add: SubjectInScope_iff)
  note au = guarded_outside [OF assms(1) out(1)] guarded_outside [OF assms(3) out(2)]
  note get = subjects_Get_outside [OF out(1)] subjects_Get_outside [OF out(2)]
  have "svc_Get a i d = svc_Get a j d \<and> \<not> is_ok (svc_Get a i d)"
    using Check_cases [of "sa_RBAC a" "''subject:read''" no_target] by (auto simp: svc_Get_def get)
  then show ?thesis
    unfolding svc_Credential_def SubscriptionToken_def RotateCredential_def svc_Update_def SetEnabled_def SetFrozen_def svc_Delete_def au
    by auto
qed

section \<open>What a tenant sees\<close>

definition own_resellers :: "Scope \<Rightarrow> panel_db \<Rightarrow> reseller_row list" where
  "own_resellers sc d = sql_where (reseller_scope sc) (t_resellers d)"

definition tenant_view :: "Scope \<Rightarrow> panel_db \<Rightarrow> reseller_row list \<times> subject_row list \<times> credential_row list \<times> ledger_row list" where
  "tenant_view sc d = (own_resellers sc d, sql_where (\<lambda>s. subject_scope sc d (s_id s)) (t_subjects d),
     sql_where (\<lambda>c. subject_scope sc d (cr_subject_id c)) (t_subject_credentials d),
     sql_where (\<lambda>l. lg_reseller_id l \<in> rs_id ` set (own_resellers sc d)) (t_credit_ledger d))"

lemma find_filter: "(\<And>x. P x \<Longrightarrow> Q x) \<Longrightarrow> sql_one P (sql_where Q xs) = sql_one P xs"
  by (induction xs) (auto simp: sql_where_def)

lemma SubjectInScope_view: "SubjectInScope sc i d \<longleftrightarrow> i \<in> s_id ` set (sql_where (\<lambda>s. subject_scope sc d (s_id s)) (t_subjects d))"
  by (auto simp: SubjectInScope_iff)

lemma filter_filter_eq: "(\<And>x. P x \<Longrightarrow> Q x) \<Longrightarrow> filter P (filter Q xs) = filter P xs"
  by (induction xs) auto

lemma view_reads:
  assumes view: "tenant_view sc d1 = tenant_view sc d2"
  shows "subjects_List sc d1 = subjects_List sc d2" "subjects_Get sc i d1 = subjects_Get sc i d2"
    "SubjectInScope sc i d1 = SubjectInScope sc i d2" "ListResellersScoped sc d1 = ListResellersScoped sc d2"
    "GetResellerScoped sc i d1 = GetResellerScoped sc i d2"
    "i \<in> rs_id ` set (own_resellers sc d1) \<Longrightarrow> ledger_of i d1 = ledger_of i d2"
    "ListLedgerScoped sc i n d1 = ListLedgerScoped sc i n d2"
    "SubjectInScope sc i d1 \<Longrightarrow> CredentialOf op i k d1 = CredentialOf op i k d2"
proof -
  have r: "own_resellers sc d1 = own_resellers sc d2"
    and s: "sql_where (\<lambda>s. subject_scope sc d1 (s_id s)) (t_subjects d1) = sql_where (\<lambda>s. subject_scope sc d2 (s_id s)) (t_subjects d2)"
    and c: "sql_where (\<lambda>c. subject_scope sc d1 (cr_subject_id c)) (t_subject_credentials d1)
      = sql_where (\<lambda>c. subject_scope sc d2 (cr_subject_id c)) (t_subject_credentials d2)"
    and l1: "sql_where (\<lambda>l. lg_reseller_id l \<in> rs_id ` set (own_resellers sc d1)) (t_credit_ledger d1)
      = sql_where (\<lambda>l. lg_reseller_id l \<in> rs_id ` set (own_resellers sc d2)) (t_credit_ledger d2)"
    using view unfolding tenant_view_def prod.inject by blast+
  note l = l1 [unfolded r]
  show "subjects_List sc d1 = subjects_List sc d2" unfolding subjects_List_def s ..
  have one: "sql_one (\<lambda>x. s_id x = i \<and> subject_scope sc d (s_id x)) (t_subjects d)
      = sql_one (\<lambda>x. s_id x = i) (sql_where (\<lambda>s. subject_scope sc d (s_id s)) (t_subjects d))" for d
  proof -
    have "sql_one (\<lambda>x. s_id x = i) (sql_where Q xs) = sql_one (\<lambda>x. s_id x = i \<and> Q x) xs" for Q and xs :: "subject_row list"
      by (induction xs) (auto simp: sql_where_def)
    then show ?thesis by simp
  qed
  show "subjects_Get sc i d1 = subjects_Get sc i d2" unfolding subjects_Get_def one s ..
  show insc: "SubjectInScope sc i d1 = SubjectInScope sc i d2" unfolding SubjectInScope_view s ..
  show "ListResellersScoped sc d1 = ListResellersScoped sc d2" using r by (simp add: ListResellersScoped_def own_resellers_def)
  have oner: "sql_one (\<lambda>x. rs_id x = i \<and> reseller_scope sc x) (t_resellers d) = sql_one (\<lambda>x. rs_id x = i) (own_resellers sc d)" for d
  proof -
    have "sql_one (\<lambda>x. rs_id x = i) (sql_where Q xs) = sql_one (\<lambda>x. rs_id x = i \<and> Q x) xs" for Q and xs :: "reseller_row list"
      by (induction xs) (auto simp: sql_where_def)
    then show ?thesis by (simp add: own_resellers_def)
  qed
  show "GetResellerScoped sc i d1 = GetResellerScoped sc i d2" unfolding GetResellerScoped_def oner r ..
  show led: "ledger_of i d1 = ledger_of i d2" if "i \<in> rs_id ` set (own_resellers sc d1)"
  proof -
    have "ledger_of i d = sql_where (\<lambda>x. lg_reseller_id x = i) (sql_where (\<lambda>l. lg_reseller_id l \<in> rs_id ` set (own_resellers sc d2)) (t_credit_ledger d))" for d
      using that r unfolding ledger_of_def sql_where_def by (subst filter_filter_eq) auto
    then show ?thesis using l by simp
  qed
  have mv: "sql_where (\<lambda>x. lg_reseller_id x = i \<and> (\<exists>r \<in> set (t_resellers d). rs_id r = lg_reseller_id x \<and> reseller_scope sc r)) (t_credit_ledger d)
      = (if i \<in> rs_id ` set (own_resellers sc d) then ledger_of i d else [])" for d
    unfolding ledger_of_def sql_where_def own_resellers_def by (auto intro!: filter_cong simp: filter_empty_conv image_iff)
  show "ListLedgerScoped sc i n d1 = ListLedgerScoped sc i n d2"
    unfolding ListLedgerScoped_def mv using led r by simp
  show "CredentialOf op i k d1 = CredentialOf op i k d2" if "SubjectInScope sc i d1"
  proof -
    have sc: "subject_scope sc d1 i" "subject_scope sc d2 i" using that insc by (simp_all add: SubjectInScope_iff)
    have fil: "sql_one (\<lambda>x. cr_subject_id x = i \<and> cr_kind x = k) (t_subject_credentials d)
        = sql_one (\<lambda>x. cr_subject_id x = i \<and> cr_kind x = k) (sql_where (\<lambda>c. subject_scope sc d (cr_subject_id c)) (t_subject_credentials d))"
      if "subject_scope sc d i" for d
      by (rule find_filter [symmetric]) (use that in auto)
    have same: "sql_one (\<lambda>x. cr_subject_id x = i \<and> cr_kind x = k) (t_subject_credentials d1)
        = sql_one (\<lambda>x. cr_subject_id x = i \<and> cr_kind x = k) (t_subject_credentials d2)"
      unfolding fil [OF sc(1)] fil [OF sc(2)] c ..
    show ?thesis unfolding CredentialOf_def same ..
  qed
qed

text \<open>C13: non-interference between tenants. What a caller that is not a super admin can learn, the list of subjects, each
  subject, each name, each credential, its balance and its ledger, is determined by its own part of the database: its
  tenant record, the subjects it owns with their credentials, and its own ledger. Two databases that agree on that part
  answer alike, however they differ in other tenants, their customers and their credit.\<close>
theorem tenant_reads_own_part:
  assumes "tenant_view (sa_scope a) d1 = tenant_view (sa_scope a) d2"
  shows "svc_List a d1 = svc_List a d2 \<and> svc_Get a i d1 = svc_Get a i d2 \<and> FindByName a name d1 = FindByName a name d2
    \<and> svc_Balance a d1 = svc_Balance a d2 \<and> svc_Ledger a n d1 = svc_Ledger a n d2
    \<and> (i \<noteq> 0 \<longrightarrow> fst (svc_Credential e a i k d1) = fst (svc_Credential e a i k d2))"
proof -
  note v = view_reads [OF assms]
  have list: "svc_List a d1 = svc_List a d2" by (simp add: svc_List_def v(1))
  have bal: "BalanceScoped (sa_scope a) j d1 = BalanceScoped (sa_scope a) j d2" for j
  proof (cases "GetResellerScoped (sa_scope a) j d1")
    case (Inl err)
    then show ?thesis using v(5) [of j] by (simp add: BalanceScoped_def)
  next
    case (Inr r)
    then have "j \<in> rs_id ` set (own_resellers (sa_scope a) d1)"
      by (auto simp: GetResellerScoped_def own_resellers_def split: option.splits dest!: sql_one_Some)
    then show ?thesis using v(5) [of j] v(6) [of j] by (simp add: BalanceScoped_def)
  qed
  have own: "own_tenant a d1 = own_tenant a d2" unfolding own_tenant_def v(4) ..
  have "svc_Balance a d1 = svc_Balance a d2" unfolding svc_Balance_def own bal ..
  moreover have "svc_Ledger a n d1 = svc_Ledger a n d2" unfolding svc_Ledger_def own v(7) ..
  moreover have "fst (svc_Credential e a i k d1) = fst (svc_Credential e a i k d2)" if "i \<noteq> 0"
  proof (cases "SubjectInScope (sa_scope a) i d1")
    case True
    then show ?thesis
      using that v(3) [of i] v(8) [OF True, of "se_open e" k]
      by (auto simp: svc_Credential_def authorize_def guarded_def split: sum.splits)
  next
    case False
    then show ?thesis
      using v(3) [of i] authorize_outside [OF that] by (simp add: svc_Credential_def guarded_def)
  qed
  ultimately show ?thesis using list v(2) by (simp add: svc_Get_def FindByName_def)
qed

section \<open>A tenant's changes stay its own\<close>

definition forget_subject :: "int \<Rightarrow> ledger_row \<Rightarrow> ledger_row" where
  "forget_subject i l = (if lg_subject_id l = Some i then l\<lparr>lg_subject_id := None\<rparr> else l)"

text \<open>Everything but subject \<open>i\<close> is as before.\<close>

definition confined :: "int \<Rightarrow> panel_db \<Rightarrow> panel_db \<Rightarrow> bool" where
  "confined i d d' \<longleftrightarrow> t_resellers d' = t_resellers d
     \<and> filter (\<lambda>s. s_id s \<noteq> i) (t_subjects d') = filter (\<lambda>s. s_id s \<noteq> i) (t_subjects d)
     \<and> filter (\<lambda>c. cr_subject_id c \<noteq> i) (t_subject_credentials d') = filter (\<lambda>c. cr_subject_id c \<noteq> i) (t_subject_credentials d)
     \<and> t_credit_ledger d' \<in> {t_credit_ledger d, map (forget_subject i) (t_credit_ledger d)}
     \<and> filter (\<lambda>w. ow_subject_id w \<noteq> i) (t_reseller_subjects d') = filter (\<lambda>w. ow_subject_id w \<noteq> i) (t_reseller_subjects d)
     \<and> set (t_reseller_subjects d') \<subseteq> set (t_reseller_subjects d)"

lemma confined_refl: "confined i d d"
  by (simp add: confined_def)

lemma forget_twice: "map (forget_subject i) (map (forget_subject i) ls) = map (forget_subject i) ls"
  by (induction ls) (auto simp: forget_subject_def)

lemma confined_trans: "confined i d d1 \<Longrightarrow> confined i d1 d2 \<Longrightarrow> confined i d d2"
proof -
  assume 1: "confined i d d1" and 2: "confined i d1 d2"
  have "t_credit_ledger d2 \<in> {t_credit_ledger d, map (forget_subject i) (t_credit_ledger d)}"
    using 1 2 forget_twice unfolding confined_def by (elim conjE insertE emptyE) auto
  moreover have "set (t_reseller_subjects d2) \<subseteq> set (t_reseller_subjects d)" using 1 2 unfolding confined_def by blast
  ultimately show ?thesis using 1 2 unfolding confined_def by simp
qed

lemma confined_frame:
  assumes "t_resellers d' = t_resellers d" "t_subjects d' = t_subjects d" "t_subject_credentials d' = t_subject_credentials d"
    "t_credit_ledger d' = t_credit_ledger d" "t_reseller_subjects d' = t_reseller_subjects d"
  shows "confined i d d'"
  using assms by (simp add: confined_def)

lemma confined_set_subject:
  assumes "\<And>r. s_id (f r) = s_id r"
  shows "confined i d (set_subject i f d)"
proof -
  have "filter (\<lambda>s. s_id s \<noteq> i) (sql_update (\<lambda>r. s_id r = i) f rows) = filter (\<lambda>s. s_id s \<noteq> i) rows" for rows
    using assms by (induction rows) auto
  then show ?thesis by (simp add: confined_def)
qed

lemma confined_store_write: "(\<And>r d'. fn d = Inr (r, d') \<Longrightarrow> confined i d d') \<Longrightarrow> confined i d (snd (store_write fn d))"
  by (rule store_write_inv [of "confined i d"]) (simp_all add: confined_refl)

lemma one_row_confined: "one_row i f d = Inr d' \<Longrightarrow> (\<And>r. s_id (f r) = s_id r) \<Longrightarrow> confined i d d'"
  by (auto simp: one_row_def confined_set_subject split: if_splits)

lemma put_credential_confined: "putCredential seal i k v d = Inr d' \<Longrightarrow> confined i d d'"
proof -
  assume put: "putCredential seal i k v d = Inr d'"
  then obtain s where up: "upsert_credential i k s d = Inr d'" by (auto simp: putCredential_def split: option.splits)
  have "filter (\<lambda>c. cr_subject_id c \<noteq> i) (sql_update (\<lambda>c. cr_subject_id c = i \<and> cr_kind c = k)
      (\<lambda>c. c\<lparr>cr_value_enc := s, cr_rotation := cr_rotation c + 1\<rparr>) rows) = filter (\<lambda>c. cr_subject_id c \<noteq> i) rows" for rows :: "credential_row list"
    by (induction rows) auto
  then show ?thesis using up by (auto simp: confined_def upsert_credential_def split: if_splits)
qed

lemma Delete_confined: "Delete i d = Inr d' \<Longrightarrow> confined i d d'"
proof -
  assume "Delete i d = Inr d'"
  then have d': "d' = delete_subject i d" by (simp add: Delete_def split: if_splits)
  have "sql_update (\<lambda>l. lg_subject_id l = Some i) (\<lambda>l. l\<lparr>lg_subject_id := None\<rparr>) ls = map (forget_subject i) ls" for ls
    by (induction ls) (auto simp: forget_subject_def)
  then show ?thesis by (auto simp: d' confined_def delete_subject_def sql_delete_def)
qed

lemma Update_confined:
  assumes "Update i u d = Inr d'"
  shows "confined i d d'"
proof -
  obtain d1 where d1: "update_name i (up_Name u) d = Inr d1"
    and rest: "update_grants i (up_ServiceIDs u) (update_expiry i (up_ClearExpiry u) (up_ExpiresAt u)
      (update_enabled i (up_Enabled u) (update_note i (up_Note u) d1))) = Inr d'"
    using assms by (auto simp: Update_def bind_result_Inr split: if_splits)
  have n: "confined i d d1" using d1
    by (auto simp: update_name_def Let_def confined_refl confined_set_subject split: option.splits if_splits)
  have no: "confined i x (update_note i y x)" for x y
    by (auto simp: update_note_def confined_refl confined_set_subject split: option.splits)
  have en: "confined i x (update_enabled i y x)" for x y
    by (auto simp: update_enabled_def confined_refl confined_set_subject split: option.splits)
  have ex: "confined i x (update_expiry i c y x)" for c x y
    by (auto simp: update_expiry_def confined_refl confined_set_subject split: option.splits)
  have g: "confined i x d'" if "update_grants i y x = Inr d'" for x y
    using that by (auto simp: update_grants_def confined_refl split: option.splits dest!: grant_services_spec intro: confined_frame)
  from g [OF rest] n no en ex confined_trans show ?thesis by metis
qed

lemma with_audit_confined: "with_audit e a act t j aft r = Inr (x, d') \<Longrightarrow> (\<And>y dy. r = Inr (y, dy) \<Longrightarrow> confined i d dy) \<Longrightarrow> confined i d d'"
proof -
  assume w: "with_audit e a act t j aft r = Inr (x, d')" and c: "\<And>y dy. r = Inr (y, dy) \<Longrightarrow> confined i d dy"
  obtain dy where r: "r = Inr (x, dy)"
    and au: "audit_InTx (se_now e) (sa_RequestID a) (sa_Audit a) act t (Some j) aft ''ok'' dy = Inr d'"
    using w by (auto simp: with_audit_def bind_result_Inr)
  have "confined i dy d'" using au by (auto simp: audit_InTx_Inr intro!: confined_frame)
  then show ?thesis using confined_trans [OF c [OF r]] by blast
qed

lemma commit_confined: "confined i d (snd (CommitNodeChange c u now n ac rid reason Inr d))"
proof (cases "commit_tx c u now n ac rid reason Inr d")
  case (Inl e)
  then show ?thesis by (simp add: CommitNodeChange_def store_write_def confined_refl)
next
  case (Inr p)
  obtain r d' where p: "p = (r, d')" by (cases p)
  have "confined i d d'" using commit_tx_Inr_cases [OF Inr [unfolded p]] confined_refl
    by (auto simp: committed_def intro!: confined_frame)
  then show ?thesis using Inr p by (simp add: CommitNodeChange_def store_write_def)
qed

lemma svc_republish_confined: "confined i d (snd (snd (svc_republish e a reason ns d)))"
proof (induction ns arbitrary: d)
  case (Cons n ns)
  let ?c = "CommitNodeChange (se_codec e) (se_unsealer e) (se_now e) n (sa_Audit a) (sa_RequestID a) reason Inr d"
  have c: "confined i d (snd ?c)" by (rule commit_confined)
  have "snd (snd (svc_republish e a reason (n # ns) d)) = snd ?c \<or>
      snd (snd (svc_republish e a reason (n # ns) d)) = snd (snd (svc_republish e a reason ns (snd ?c)))"
    by (auto split: prod.splits sum.splits)
  then show ?case using c confined_trans [OF c Cons.IH] by (elim disjE) simp_all
qed (simp add: confined_refl)

lemma republishFor_confined: "confined i d (snd (snd (republishFor e a j reason d)))"
  unfolding republishFor_def by (rule svc_republish_confined)

lemma written_confined:
  assumes "\<And>x d'. fn d = Inr (x, d') \<Longrightarrow> confined i d d'" "\<And>x d'. confined i d' (snd (snd (k x d')))"
  shows "confined i d (snd (snd (case store_write fn d of (Inl err, d') \<Rightarrow> (Inl (Db err), [], d') | (Inr x, d') \<Rightarrow> k x d')))"
proof (cases "fn d")
  case (Inl err)
  then show ?thesis by (simp add: store_write_def confined_refl)
next
  case (Inr p)
  obtain x d' where p: "p = (x, d')" by (cases p)
  have "confined i d d'" by (rule assms(1)) (use Inr p in simp)
  then show ?thesis using confined_trans [OF _ assms(2)] Inr p by (simp add: store_write_def)
qed

lemma guarded_confined: "(confined i d (snd (snd (f d)))) \<Longrightarrow> confined i d (snd (snd (guarded g f d)))"
  by (auto simp: guarded_def confined_refl split: sum.splits)

datatype svc_op =
    VUpdate int update_input
  | VEnable int bool
  | VFreeze int bool string
  | VDelete int
  | VRotate int string
  | VReveal int string
  | VToken int

fun svc_target :: "svc_op \<Rightarrow> int" where
  "svc_target (VUpdate i u) = i"
| "svc_target (VEnable i b) = i"
| "svc_target (VFreeze i b r) = i"
| "svc_target (VDelete i) = i"
| "svc_target (VRotate i k) = i"
| "svc_target (VReveal i k) = i"
| "svc_target (VToken i) = i"

fun svc_step :: "svc_env \<Rightarrow> svc_actor \<Rightarrow> svc_op \<Rightarrow> panel_db \<Rightarrow> panel_db" where
  "svc_step e a (VUpdate i u) d = snd (snd (svc_Update e a i u d))"
| "svc_step e a (VEnable i b) d = snd (snd (SetEnabled e a i b d))"
| "svc_step e a (VFreeze i b r) d = snd (snd (SetFrozen e a i b r d))"
| "svc_step e a (VDelete i) d = snd (snd (svc_Delete e a i d))"
| "svc_step e a (VRotate i k) d = snd (snd (RotateCredential e a i k d))"
| "svc_step e a (VReveal i k) d = snd (snd (svc_Credential e a i k d))"
| "svc_step e a (VToken i) d = snd (snd (SubscriptionToken e a i d))"

lemma mutate_confined:
  "(\<And>x d'. fn x = Inr d' \<Longrightarrow> confined i x d') \<Longrightarrow> confined i d (snd (snd (mutate e a i act fn d)))"
  unfolding mutate_def
  by (rule written_confined) (auto elim!: with_audit_confined simp: bind_result_Inr republishFor_confined)

lemma best_effort_confined: "confined i d (audit_BestEffort e a act j aft d)"
  unfolding audit_BestEffort_def
  by (rule confined_store_write) (auto simp: bind_result_Inr audit_InTx_Inr intro!: confined_frame)

lemma tail_confined:
  "confined i d (snd (snd (case republishFor e a j reason d of
     (Inl err, notes, d'') \<Rightarrow> (Inl err, notes, d'') | (Inr _, notes, d'') \<Rightarrow> (Inr v, notes, d''))))"
  using republishFor_confined [of i d e a j reason] by (auto split: prod.splits sum.splits)

lemma EnsureToken_confined: "confined i d (snd (EnsureToken fresh i d0 d))"
  unfolding EnsureToken_def
  by (auto split: sum.splits option.splits intro!: confined_store_write simp: confined_refl bind_result_Inr set_token_def
      split: if_splits intro!: confined_set_subject)

lemma Rotate_confined: "Rotate se i k x = Inr (v, d') \<Longrightarrow> confined i x d'"
  by (cases "env_box se") (auto simp: Rotate_def bind_result_Inr intro: put_credential_confined)

lemma svc_step_confined: "confined (svc_target op) d (svc_step e a op d)"
proof (cases op)
  case (VUpdate i u)
  show ?thesis unfolding VUpdate svc_step.simps svc_target.simps svc_Update_def
    by (rule guarded_confined, unfold Let_def, rule written_confined)
      (auto elim!: with_audit_confined simp: bind_result_Inr Update_confined svc_republish_confined)
next
  case (VEnable i b)
  show ?thesis unfolding VEnable svc_step.simps svc_target.simps SetEnabled_def
    by (rule guarded_confined, rule mutate_confined) (auto simp: Enable_def Disable_def split: if_splits elim!: one_row_confined)
next
  case (VFreeze i b r)
  show ?thesis unfolding VFreeze svc_step.simps svc_target.simps SetFrozen_def
    by (rule guarded_confined, rule mutate_confined) (auto simp: Freeze_def Unfreeze_def split: if_splits elim!: one_row_confined)
next
  case (VDelete i)
  show ?thesis unfolding VDelete svc_step.simps svc_target.simps svc_Delete_def
    by (rule guarded_confined, rule guarded_confined, unfold Let_def, rule written_confined)
      (auto elim!: with_audit_confined simp: bind_result_Inr Delete_confined svc_republish_confined)
next
  case (VRotate i k)
  show ?thesis unfolding VRotate svc_step.simps svc_target.simps RotateCredential_def
    by (rule guarded_confined, rule written_confined) (auto elim!: with_audit_confined simp: Rotate_confined intro: tail_confined)
next
  case (VReveal i k)
  show ?thesis unfolding VReveal svc_step.simps svc_target.simps svc_Credential_def
    by (rule guarded_confined) (auto simp: confined_refl best_effort_confined split: sum.splits)
next
  case (VToken i)
  have "confined i d (snd (snd (case EnsureToken fresh i d d of (Inl err, d') \<Rightarrow> (Inl (Db err), [], d')
      | (Inr token, d') \<Rightarrow> (Inr token, [], audit_BestEffort e a act i aft d'))))" for fresh act aft
    using EnsureToken_confined [of i d fresh d] confined_trans [OF _ best_effort_confined] by (auto split: prod.splits sum.splits)
  then show ?thesis unfolding VToken svc_step.simps svc_target.simps SubscriptionToken_def by (rule guarded_confined)
qed

text \<open>Ownership refers to subjects, which have positive ids, and a movement that names a subject is its owner's.\<close>

definition owners_wf :: "panel_db \<Rightarrow> bool" where
  "owners_wf d \<longleftrightarrow> (\<forall>s \<in> set (t_subjects d). 0 < s_id s)
     \<and> (\<forall>w \<in> set (t_reseller_subjects d). ow_subject_id w \<in> s_id ` set (t_subjects d))
     \<and> (\<forall>l \<in> set (t_credit_ledger d). case lg_subject_id l of None \<Rightarrow> True
          | Some i \<Rightarrow> (\<exists>w \<in> set (t_reseller_subjects d). ow_subject_id w = i \<and> ow_reseller_id w = lg_reseller_id l))"

lemma one_owner:
  assumes "comm_wf d" "subject_scope sc d i" "subject_scope sc' d i" "\<not> scp_IsSuper sc" "\<not> scp_IsSuper sc'"
  shows "scp_AdminID sc = scp_AdminID sc'"
proof -
  obtain w r where w: "w \<in> set (t_reseller_subjects d)" "ow_subject_id w = i"
    and r: "r \<in> set (t_resellers d)" "rs_id r = ow_reseller_id w" "rs_admin_id r = scp_AdminID sc"
    using assms(2,4) by (auto simp: subject_scope_def)
  obtain w' r' where w': "w' \<in> set (t_reseller_subjects d)" "ow_subject_id w' = i"
    and r': "r' \<in> set (t_resellers d)" "rs_id r' = ow_reseller_id w'" "rs_admin_id r' = scp_AdminID sc'"
    using assms(3,5) by (auto simp: subject_scope_def)
  have "w' = w" using assms(1) w w' by (auto simp: comm_wf_def distinct_map inj_on_def)
  then have "r' = r" using assms(1) r r' by (auto simp: comm_wf_def distinct_map inj_on_def)
  then show ?thesis using r r' by simp
qed

lemma filter_restrict: "filter P xs = filter P ys \<Longrightarrow> (\<And>x. Q x \<Longrightarrow> P x) \<Longrightarrow> filter Q xs = filter Q ys"
  using filter_filter_eq [of Q P xs] filter_filter_eq [of Q P ys] by simp

lemma confined_view:
  assumes conf: "confined i d d'" and out: "\<not> subject_scope sc d i" and own: "owners_wf d" and sup: "\<not> scp_IsSuper sc"
  shows "tenant_view sc d' = tenant_view sc d"
proof -
  have rs: "t_resellers d' = t_resellers d" using conf by (simp add: confined_def)
  then have rs': "own_resellers sc d' = own_resellers sc d" by (simp add: own_resellers_def)
  have mem: "w \<in> set (t_reseller_subjects d') \<longleftrightarrow> w \<in> set (t_reseller_subjects d)" if "ow_subject_id w \<noteq> i" for w
  proof -
    have "set (filter (\<lambda>w. ow_subject_id w \<noteq> i) (t_reseller_subjects d')) = set (filter (\<lambda>w. ow_subject_id w \<noteq> i) (t_reseller_subjects d))"
      using conf unfolding confined_def by metis
    then show ?thesis using that by auto
  qed
  have sub: "set (t_reseller_subjects d') \<subseteq> set (t_reseller_subjects d)" using conf by (simp add: confined_def)
  have out': "\<not> subject_scope sc d' i" using out sub sup by (auto simp: subject_scope_def rs)
  have scope: "subject_scope sc d' j = subject_scope sc d j" for j
  proof (cases "j = i")
    case False
    then show ?thesis using mem sup by (auto simp: subject_scope_def rs)
  qed (simp add: out out')
  have ne: "subject_scope sc d j \<Longrightarrow> j \<noteq> i" for j using out by blast
  have "sql_where (\<lambda>s. subject_scope sc d (s_id s)) (t_subjects d') = sql_where (\<lambda>s. subject_scope sc d (s_id s)) (t_subjects d)"
    unfolding sql_where_def by (rule filter_restrict [where P = "\<lambda>s. s_id s \<noteq> i"]) (use conf ne in \<open>auto simp: confined_def\<close>)
  moreover have "sql_where (\<lambda>c. subject_scope sc d (cr_subject_id c)) (t_subject_credentials d')
      = sql_where (\<lambda>c. subject_scope sc d (cr_subject_id c)) (t_subject_credentials d)"
    unfolding sql_where_def by (rule filter_restrict [where P = "\<lambda>c. cr_subject_id c \<noteq> i"]) (use conf ne in \<open>auto simp: confined_def\<close>)
  moreover have "sql_where (\<lambda>l. lg_reseller_id l \<in> rs_id ` set (own_resellers sc d)) (t_credit_ledger d')
      = sql_where (\<lambda>l. lg_reseller_id l \<in> rs_id ` set (own_resellers sc d)) (t_credit_ledger d)"
  proof -
    let ?Q = "\<lambda>l. lg_reseller_id l \<in> rs_id ` set (own_resellers sc d)"
    have mine: "forget_subject i l = l" if m: "l \<in> set (t_credit_ledger d)" and q: "?Q l" for l
    proof (rule ccontr)
      assume "forget_subject i l \<noteq> l"
      then have names: "lg_subject_id l = Some i" by (auto simp: forget_subject_def split: if_splits)
      have "case lg_subject_id l of None \<Rightarrow> True
          | Some i \<Rightarrow> (\<exists>w \<in> set (t_reseller_subjects d). ow_subject_id w = i \<and> ow_reseller_id w = lg_reseller_id l)"
        using own m unfolding owners_wf_def by (elim conjE bspec)
      then obtain w where "w \<in> set (t_reseller_subjects d)" "ow_subject_id w = i" "ow_reseller_id w = lg_reseller_id l"
        unfolding names option.case by blast
      moreover obtain r where "r \<in> set (t_resellers d)" "rs_id r = lg_reseller_id l" "rs_admin_id r = scp_AdminID sc"
        using q sup by (auto simp: own_resellers_def reseller_scope_def)
      ultimately have "subject_scope sc d i" unfolding subject_scope_def by metis
      then show False using out by blast
    qed
    have "lg_reseller_id (forget_subject i l) = lg_reseller_id l" for l by (simp add: forget_subject_def)
    then have "filter ?Q (map (forget_subject i) ls) = map (forget_subject i) (filter ?Q ls)" for ls
      by (simp add: filter_map comp_def)
    moreover have "map (forget_subject i) (filter ?Q (t_credit_ledger d)) = filter ?Q (t_credit_ledger d)"
      using mine by (intro map_idI) auto
    ultimately show ?thesis using conf by (auto simp: confined_def sql_where_def)
  qed
  ultimately show ?thesis by (simp add: tenant_view_def rs' scope)
qed

lemma svc_step_outside:
  assumes "svc_target op \<noteq> 0" "\<not> SubjectInScope (sa_scope a) (svc_target op) d"
  shows "svc_step e a op d = d"
  using assms
  by (cases op) (simp_all add: svc_Update_def SetEnabled_def SetFrozen_def svc_Delete_def RotateCredential_def svc_Credential_def
      SubscriptionToken_def guarded_outside)


section \<open>Roles\<close>

text \<open>the built-in roles grant what they are named for. Every role is a duplicate-free subset of the known permissions
  that includes the five read permissions of \<open>readonly\<close>, which can only read; minting credit, managing admins and roles and
  writing settings belong to \<open>super_admin\<close> alone; and a reseller can neither read nor change other tenants, write
  nodes or outbounds, or read the audit log.\<close>
theorem builtin_roles_least_privilege:
  "(\<forall>(name, perms) \<in> set BuiltinRoles. distinct perms \<and> set perms \<subseteq> set AllPermissions
      \<and> (\<forall>p \<in> {''credit:grant'', ''admin:manage'', ''role:manage'', ''settings:write''}. p \<in> set perms \<longleftrightarrow> name = ''super_admin'')
      \<and> (name = ''readonly'' \<longrightarrow> (\<forall>p \<in> set perms. IsRead p \<and> (\<forall>(n', ps) \<in> set BuiltinRoles. p \<in> set ps)))
      \<and> (name = ''reseller'' \<longrightarrow> (\<forall>p \<in> {''reseller:read'', ''reseller:write'', ''node:write'', ''node:enroll'', ''outbound:write'',
            ''audit:read''}. p \<notin> set perms)))"
  by code_simp

theorem builtin_roles_least_privilege_witness:
  "(''readonly'', snd (BuiltinRoles ! 3)) \<in> set BuiltinRoles \<and> ''credit:grant'' \<notin> set (snd (BuiltinRoles ! 3))"
proof -
  have "(''readonly'', snd (BuiltinRoles ! 3)) \<in> set BuiltinRoles" by code_simp
  moreover from bspec [OF builtin_roles_least_privilege this]
  have "''credit:grant'' \<notin> set (snd (BuiltinRoles ! 3))" by simp
  ultimately show ?thesis by blast
qed

section \<open>Loading an actor\<close>

lemma Check_super: "Check (Some r) p t = Inr () \<longleftrightarrow> p \<in> set (ac_Perms r) \<and> (tg_Kind t = TargetNone \<or> ac_IsSuper r
    \<or> tg_Kind t = TargetNode \<and> tg_ID t \<in> set (ac_NodeIDs r) \<or> tg_Kind t = TargetService \<and> tg_ID t \<in> set (ac_ServiceIDs r))"
  by (cases "tg_Kind t") (simp_all add: Check_def)

text \<open>what an admin may do is exactly what its row, role and scopes say. A check for an admin passes iff the admin is
  active, its role's stored list names the permission, and the target is unscoped, the role is \<open>super_admin\<close>, or the
  target node or service is in the admin's scope table; a suspended or deleted admin passes no check at all.\<close>
theorem authorization_exact:
  assumes "distinct (map am_id (t_admins d))" and "distinct (map rl_id (t_roles d))"
  shows "(\<exists>actor. LoadActor c i d = Inr actor \<and> Check (Some actor) p t = Inr ())
    \<longleftrightarrow> (\<exists>a \<in> set (t_admins d). am_id a = i \<and> am_status a = ''active''
        \<and> (\<exists>r \<in> set (t_roles d). rl_id r = am_role_id a
            \<and> (\<exists>ps. json_strings c (rl_permissions r) = Some ps \<and> p \<in> set ps)
            \<and> (tg_Kind t = TargetNone \<or> rl_name r = ''super_admin''
                \<or> tg_Kind t = TargetNode \<and> (i, ''node'', tg_ID t) \<in> set (t_admin_scopes d)
                \<or> tg_Kind t = TargetService \<and> (i, ''service'', tg_ID t) \<in> set (t_admin_scopes d))))"
    (is "?L \<longleftrightarrow> ?R")
proof -
  let ?admin = "sql_one (\<lambda>a. am_id a = i \<and> am_status a = ''active'') (t_admins d)"
  have sc: "(j \<in> set (map (snd \<circ> snd) (filter (\<lambda>s. fst (snd s) = k) (sql_where (\<lambda>s. fst s = i) xs)))) \<longleftrightarrow> (i, k, j) \<in> set xs"
    for j :: int and k :: string and xs by force
  show ?thesis
  proof (cases ?admin)
    case None
    then have "\<not> ?R" by (auto simp: sql_one_None)
    then show ?thesis using None by (simp add: LoadActor_def)
  next
    case (Some a)
    then have a: "a \<in> set (t_admins d)" "am_id a = i" "am_status a = ''active''" by (auto dest: sql_one_Some)
    then have only_a: "b \<in> set (t_admins d) \<Longrightarrow> am_id b = i \<Longrightarrow> b = a" for b
      using assms(1) by (auto simp: distinct_map inj_on_def)
    show ?thesis
    proof (cases "sql_one (\<lambda>r. rl_id r = am_role_id a) (t_roles d)")
      case None
      then have "\<not> ?R" using only_a by (auto simp: sql_one_None)
      then show ?thesis using Some None by (simp add: LoadActor_def)
    next
      case (Some r)
      then have r: "r \<in> set (t_roles d)" "rl_id r = am_role_id a" by (auto dest: sql_one_Some)
      then have only_r: "q \<in> set (t_roles d) \<Longrightarrow> rl_id q = am_role_id a \<Longrightarrow> q = r" for q
        using assms(2) by (auto simp: distinct_map inj_on_def)
      have R: "?R \<longleftrightarrow> (\<exists>ps. json_strings c (rl_permissions r) = Some ps \<and> p \<in> set ps)
            \<and> (tg_Kind t = TargetNone \<or> rl_name r = ''super_admin''
                \<or> tg_Kind t = TargetNode \<and> (i, ''node'', tg_ID t) \<in> set (t_admin_scopes d)
                \<or> tg_Kind t = TargetService \<and> (i, ''service'', tg_ID t) \<in> set (t_admin_scopes d))"
        using a r only_a only_r by blast
      show ?thesis unfolding R
        using \<open>?admin = Some a\<close> Some
        by (cases "json_strings c (rl_permissions r)") (simp_all add: LoadActor_def Let_def Check_super sc del: set_map set_filter)
    qed
  qed
qed

section \<open>The delete cap\<close>

text \<open>the delete cap. An admin that is not a super admin and has a cap deletes a subject of its own exactly when the
  subject's lifetime bill is within the cap; above it the deletion is refused with both numbers, and nothing changes.\<close>
theorem delete_cap_exact:
  assumes "sa_RBAC a = Some r" and "\<not> ac_IsSuper r" and "authorize a ''subject:write'' i d = Inr ()"
    and "sql_one (\<lambda>x. am_id x = ac_AdminID r) (t_admins d) = Some x" and "am_delete_cap_bytes x = Some limit"
    and "BillableForSubject i 0 (se_now e) d = Inr report"
  shows "limit < sint (br_Billable report) \<and> svc_Delete e a i d = (Inl (DeleteCapExceeded (sint (br_Billable report)) limit), [], d)
    \<or> sint (br_Billable report) \<le> limit \<and> svc_Delete e a i d
        = svc_Delete e (a\<lparr>sa_RBAC := Some (r\<lparr>ac_IsSuper := True\<rparr>)\<rparr>) i d"
proof -
  let ?a = "a\<lparr>sa_RBAC := Some (r\<lparr>ac_IsSuper := True\<rparr>)\<rparr>"
  have au: "authorize ?a ''subject:write'' i d = Inr ()"
    using assms(1,3) by (auto simp: authorize_def Check_def SubjectInScope_iff subject_scope_def ScopeOf_def bind_result_Inr
        split: if_splits)
  have rep: "svc_republish e ?a m ns d' = svc_republish e a m ns d'" for m ns d'
    by (induction ns arbitrary: d') (simp_all split: prod.splits sum.splits)
  have wa: "with_audit e ?a act t j aft q = with_audit e a act t j aft q" for act t j aft and q :: "panel_err + (unit \<times> panel_db)"
    by (simp add: with_audit_def)
  show ?thesis using assms au
    by (auto simp: svc_Delete_def guarded_def checkDeleteCap_def rep wa split: prod.splits sum.splits)
qed

section \<open>Two tenants on a concrete panel\<close>

definition two_shops :: panel_db where
  "two_shops = sold_db\<lparr>t_resellers := t_resellers sold_db @ [\<lparr>rs_id = 2, rs_admin_id = 9, rs_display_name = ''kiosk'', rs_enabled = True,
       rs_max_subjects = None, rs_max_quota_bytes = None, rs_credit_floor = 0, rs_created_at = 0, rs_updated_at = 0,
       rs_usage_coefficient = 10000\<rparr>],
     t_admins := t_admins sold_db @ [\<lparr>am_id = 9, am_role_id = 3, am_status = ''active'', am_delete_cap_bytes = Some 500\<rparr>],
     t_roles := [\<lparr>rl_id = 3, rl_name = ''reseller'', rl_permissions = ''r''\<rparr>]\<rparr>"

definition shop_actor :: "int \<Rightarrow> svc_actor" where
  "shop_actor i = \<lparr>sa_RBAC = Some \<lparr>ac_AdminID = i, ac_RoleName = ''reseller'', ac_IsSuper = False,
       ac_Perms = [''subject:read'', ''subject:write'', ''credential:reveal''], ac_NodeIDs = [], ac_ServiceIDs = []\<rparr>,
     sa_Audit = AdminActor i, sa_RequestID = ''r'', sa_Via = ''api''\<rparr>"

definition demo_svc :: svc_env where
  "demo_svc = \<lparr>se_codec = demo_codec, se_unsealer = Some Some, se_now = 200, se_subjects = demo_env, se_open = Some (\<lambda>v. Some (rev v))\<rparr>"

lemma shops_apart:
  "comm_wf two_shops" "owners_wf two_shops" "map s_id (t_subjects two_shops) = [1]"
  "subject_scope (sa_scope (shop_actor 7)) two_shops 1" "\<not> subject_scope (sa_scope (shop_actor 9)) two_shops 1"
  "\<not> scp_IsSuper (sa_scope (shop_actor 9))" "\<not> scp_IsSuper (sa_scope (shop_actor 7))"
  "scp_AdminID (sa_scope (shop_actor 7)) \<noteq> scp_AdminID (sa_scope (shop_actor 9))"
  by code_simp+

theorem foreign_like_missing_witness:
  "svc_Get (shop_actor 9) 1 two_shops = svc_Get (shop_actor 9) 5 two_shops
    \<and> svc_Delete demo_svc (shop_actor 9) 1 two_shops = svc_Delete demo_svc (shop_actor 9) 5 two_shops"
proof -
  have "(5::int) \<notin> s_id ` set (t_subjects two_shops)" using arg_cong [OF shops_apart(3), of set] by auto
  from foreign_like_missing [OF _ shops_apart(5) _ this] show ?thesis by simp
qed

theorem tenant_reads_own_part_witness:
  "svc_List (shop_actor 9) two_shops = svc_List (shop_actor 9) (two_shops\<lparr>t_subjects := []\<rparr>)
    \<and> svc_Balance (shop_actor 9) two_shops = svc_Balance (shop_actor 9) (two_shops\<lparr>t_subjects := []\<rparr>)"
proof -
  have "tenant_view (sa_scope (shop_actor 9)) two_shops = tenant_view (sa_scope (shop_actor 9)) (two_shops\<lparr>t_subjects := []\<rparr>)"
    by code_simp
  from tenant_reads_own_part [OF this] show ?thesis by simp
qed


theorem delete_cap_exact_witness:
  "let d = two_shops\<lparr>t_admins := [\<lparr>am_id = 7, am_role_id = 3, am_status = ''active'', am_delete_cap_bytes = Some (- 1)\<rparr>]\<rparr>
   in svc_Delete demo_svc (shop_actor 7) 1 d = (Inl (DeleteCapExceeded 0 (- 1)), [], d)"
proof -
  let ?d = "two_shops\<lparr>t_admins := [\<lparr>am_id = 7, am_role_id = 3, am_status = ''active'', am_delete_cap_bytes = Some (- 1)\<rparr>]\<rparr>"
  have au: "authorize (shop_actor 7) ''subject:write'' 1 ?d = Inr ()" by code_simp
  have b: "map_sum (\<lambda>_. ()) br_Billable (BillableForSubject 1 0 (se_now demo_svc) ?d) = Inr 0" by code_simp
  then obtain report where rep: "BillableForSubject 1 0 (se_now demo_svc) ?d = Inr report" "br_Billable report = 0"
    by (cases "BillableForSubject 1 0 (se_now demo_svc) ?d") auto
  have "sql_one (\<lambda>x. am_id x = 7) (t_admins ?d)
      = Some \<lparr>am_id = 7, am_role_id = 3, am_status = ''active'', am_delete_cap_bytes = Some (- 1)\<rparr>" by simp
  with delete_cap_exact [OF _ _ au _ _ rep(1), of "the (sa_RBAC (shop_actor 7))" _ "- 1"] rep(2)
  show ?thesis by (simp add: shop_actor_def)
qed

theorem authorization_exact_witness:
  "\<exists>c actor. LoadActor c 9 two_shops = Inr actor \<and> Check (Some actor) ''subject:write'' no_target = Inr ()"
proof -
  let ?c = "demo_codec\<lparr>json_strings := (\<lambda>_. Some [''subject:write''])\<rparr>"
  have "distinct (map am_id (t_admins two_shops))" "distinct (map rl_id (t_roles two_shops))" by code_simp+
  note exact = authorization_exact [OF this, of ?c 9 "''subject:write''" no_target]
  have "\<exists>a \<in> set (t_admins two_shops). am_id a = 9 \<and> am_status a = ''active'' \<and> (\<exists>r \<in> set (t_roles two_shops). rl_id r = am_role_id a)"
    by code_simp
  then have "\<exists>actor. LoadActor ?c 9 two_shops = Inr actor \<and> Check (Some actor) ''subject:write'' no_target = Inr ()"
    unfolding exact by simp
  then show ?thesis by blast
qed

text \<open>selling on another tenant's account. \<open>Provision\<close> checks the permission to write subjects but not whose tenant is
  named: an admin of one shop creates a customer that another shop pays for, a tenant the same admin cannot even read.
  The layer promises a tenant-scope check for each of its operations; here the protection is left to the caller.\<close>
theorem provision_other_tenant_pays:
  "\<exists>res notes d'. svc_Provision (demo_svc\<lparr>se_subjects := demo_env\<lparr>env_token := Some ''tok9''\<rparr>\<rparr>) (shop_actor 9)
         ((buy 30 ''k9'')\<lparr>pv_Subject := demo_create\<lparr>ci_Name := ''bob''\<rparr>\<rparr>) two_shops = (Inr res, notes, d')
     \<and> \<not> is_ok (GetResellerScoped (sa_scope (shop_actor 9)) 1 two_shops)
     \<and> Balance 1 two_shops = Inr 40 \<and> Balance 1 d' = Inr 10 \<and> OwnerOf (pr_SubjectID res) d' = Inr 1"
proof -
  let ?r = "svc_Provision (demo_svc\<lparr>se_subjects := demo_env\<lparr>env_token := Some ''tok9''\<rparr>\<rparr>) (shop_actor 9)
    ((buy 30 ''k9'')\<lparr>pv_Subject := demo_create\<lparr>ci_Name := ''bob''\<rparr>\<rparr>) two_shops"
  have "case ?r of (Inl e, _) \<Rightarrow> False | (Inr res, notes, d') \<Rightarrow> Balance 1 d' = Inr 10 \<and> OwnerOf (pr_SubjectID res) d' = Inr 1"
    by code_simp
  moreover have "\<not> is_ok (GetResellerScoped (sa_scope (shop_actor 9)) 1 two_shops)" "Balance 1 two_shops = Inr 40" by code_simp+
  ultimately show ?thesis by (cases ?r) (auto split: sum.splits)
qed

end
