(* ===== verification/Auth.thy ===== *)
theory Auth
  imports Tenancy
begin

text \<open>
  Authentication: sessions and the login limiter (\<open>src/internal/panel/auth/session.go\<close>, \<open>ratelimit.go\<close>) and the handlers that use them
  (\<open>src/internal/panel/httpapi/auth_handlers.go\<close>, \<open>totp.go\<close>, \<open>sessions.go\<close>, the password handlers of \<open>admins_extended.go\<close> and
  \<open>authMiddleware\<close>).

  Password hashing, one-time passwords, sealing, SHA-256, the random source and the two ways to fold the case of a name
  (\<open>strings.ToLower\<close> and SQLite's \<open>NOCASE\<close>) and the test for a blank string are an argument, \<open>auth_env\<close>; an answer of the random source is part of it. Times are unix
  seconds, which decide every comparison of the code as the stored times are whole seconds. The columns of \<open>admins\<close> used here only
  are a table of their own with the same key. A response is the status with its code; a request that fails to decode is not a
  request here.
\<close>

section \<open>State\<close>

record account_row =
  cx_id :: int
  cx_username :: string
  cx_password_hash :: string
  cx_totp_secret :: "string option"
  cx_totp_pending :: "string option"

record session_row =
  ss_id :: int
  ss_admin_id :: int
  ss_token_hash :: string
  ss_ip :: string
  ss_user_agent :: string
  ss_created_at :: int
  ss_expires_at :: int
  ss_last_used_at :: int
  ss_revoked_at :: "int option"

record attempt_row =
  at_kind :: string
  at_subject :: string
  at_failed_at :: int

record code_row =
  rc_id :: int
  rc_admin_id :: int
  rc_code_hash :: string
  rc_created_at :: int
  rc_consumed_at :: "int option"

record auth_db =
  xd_panel :: panel_db
  xd_creds :: "account_row list"
  xd_sessions :: "session_row list"
  xd_attempts :: "attempt_row list"
  xd_codes :: "code_row list"

record auth_env =
  ae_lower :: "string \<Rightarrow> string"
  ae_nocase :: "string \<Rightarrow> string"
  ae_hash :: "string \<Rightarrow> string"
  ae_verify :: "string \<Rightarrow> string \<Rightarrow> bool option"
  ae_totp :: "string \<Rightarrow> string \<Rightarrow> int \<Rightarrow> bool"
  ae_box :: "((string \<Rightarrow> string option) \<times> (string \<Rightarrow> string option)) option"
  ae_blank :: "string \<Rightarrow> bool"
  ae_request :: string

section \<open>The limiter\<close>

definition Window :: int where "Window = 900"
definition AccountFailureLimit :: nat where "AccountFailureLimit = 5"
definition IPFailureLimit :: nat where "IPFailureLimit = 20"
definition BaseBackoff :: int where "BaseBackoff = 1"
definition MaxBackoff :: int where "MaxBackoff = 300"

definition countSince :: "auth_env \<Rightarrow> string \<Rightarrow> string \<Rightarrow> int \<Rightarrow> auth_db \<Rightarrow> nat" where
  "countSince e kind subject since d = sql_count (\<lambda>r. at_kind r = kind \<and> at_subject r = ae_lower e subject \<and> since \<le> at_failed_at r) (xd_attempts d)"

fun backoff_from :: "nat \<Rightarrow> int \<Rightarrow> int" where
  "backoff_from 0 d = d"
| "backoff_from (Suc n) d = (if 2 * d \<ge> MaxBackoff then MaxBackoff else backoff_from n (2 * d))"

definition backoff :: "nat \<Rightarrow> nat \<Rightarrow> int" where
  "backoff failures limit = (if failures < limit then 0 else backoff_from (failures - limit) BaseBackoff)"

definition limiter_Check :: "auth_env \<Rightarrow> int \<Rightarrow> string \<Rightarrow> string \<Rightarrow> auth_db \<Rightarrow> int" where
  "limiter_Check e now username ip d =
     (let wait = backoff (countSince e ''account'' username (now - Window) d) AccountFailureLimit;
          w = backoff (countSince e ''ip'' ip (now - Window) d) IPFailureLimit
      in if w > wait then w else wait)"

definition RecordFailure :: "auth_env \<Rightarrow> int \<Rightarrow> string \<Rightarrow> string \<Rightarrow> auth_db \<Rightarrow> auth_db" where
  "RecordFailure e now username ip d = d\<lparr>xd_attempts := xd_attempts d
     @ [\<lparr>at_kind = ''account'', at_subject = ae_lower e username, at_failed_at = now\<rparr>,
        \<lparr>at_kind = ''ip'', at_subject = ae_lower e ip, at_failed_at = now\<rparr>]\<rparr>"

definition limiter_Reset :: "auth_env \<Rightarrow> int \<Rightarrow> string \<Rightarrow> auth_db \<Rightarrow> auth_db" where
  "limiter_Reset e now username d = d\<lparr>xd_attempts := sql_delete (\<lambda>r. at_failed_at r < now - Window)
     (sql_delete (\<lambda>r. at_kind r = ''account'' \<and> at_subject r = ae_lower e username) (xd_attempts d))\<rparr>"

section \<open>Sessions\<close>

definition IdleTimeout :: int where "IdleTimeout = 14400"
definition AbsoluteLifetime :: int where "AbsoluteLifetime = 604800"

text \<open>\<open>token\<close> is what the random source yields; the unique index refuses a hash that is taken.\<close>

definition session_Create :: "auth_env \<Rightarrow> int \<Rightarrow> string \<Rightarrow> int \<Rightarrow> string \<Rightarrow> string \<Rightarrow> auth_db \<Rightarrow> (panel_err + string) \<times> auth_db" where
  "session_Create e now token adminID ip ua =
     store_write (\<lambda>d. if (\<exists>s \<in> set (xd_sessions d). ss_token_hash s = ae_hash e token) then Inl (ErrConstraint ''sessions'')
       else Inr (token, d\<lparr>xd_sessions := xd_sessions d @ [\<lparr>ss_id = next_rowid ss_id (xd_sessions d), ss_admin_id = adminID,
         ss_token_hash = ae_hash e token, ss_ip = ip, ss_user_agent = ua, ss_created_at = now, ss_expires_at = now + AbsoluteLifetime, ss_last_used_at = now,
         ss_revoked_at = None\<rparr>]\<rparr>))"

definition session_ok :: "int \<Rightarrow> session_row \<Rightarrow> bool" where
  "session_ok now s \<longleftrightarrow> ss_revoked_at s = None \<and> now < ss_expires_at s \<and> now - ss_last_used_at s < IdleTimeout"

definition session_lookup :: "auth_env \<Rightarrow> int \<Rightarrow> string \<Rightarrow> bool \<Rightarrow> auth_db \<Rightarrow> session_row option \<times> auth_db" where
  "session_lookup e now token refresh d =
     (if token = '''' then (None, d)
      else (case sql_one (\<lambda>s. ss_token_hash s = ae_hash e token) (xd_sessions d) of
          None \<Rightarrow> (None, d)
        | Some s \<Rightarrow>
            if \<not> session_ok now s then (None, d)
            else if refresh then (Some (s\<lparr>ss_last_used_at := now\<rparr>),
              d\<lparr>xd_sessions := sql_update (\<lambda>x. ss_id x = ss_id s) (\<lambda>x. x\<lparr>ss_last_used_at := now\<rparr>) (xd_sessions d)\<rparr>)
            else (Some s, d)))"

definition session_Lookup :: "auth_env \<Rightarrow> int \<Rightarrow> string \<Rightarrow> auth_db \<Rightarrow> session_row option \<times> auth_db" where
  "session_Lookup e now token = session_lookup e now token True"

definition session_Validate :: "auth_env \<Rightarrow> int \<Rightarrow> string \<Rightarrow> auth_db \<Rightarrow> session_row option \<times> auth_db" where
  "session_Validate e now token = session_lookup e now token False"

definition session_Revoke :: "int \<Rightarrow> int \<Rightarrow> auth_db \<Rightarrow> auth_db" where
  "session_Revoke now i d = d\<lparr>xd_sessions := sql_update (\<lambda>s. ss_id s = i \<and> ss_revoked_at s = None) (\<lambda>s. s\<lparr>ss_revoked_at := Some now\<rparr>) (xd_sessions d)\<rparr>"

definition RevokeAllForAdmin :: "int \<Rightarrow> int \<Rightarrow> auth_db \<Rightarrow> auth_db" where
  "RevokeAllForAdmin now i d = d\<lparr>xd_sessions := sql_update (\<lambda>s. ss_admin_id s = i \<and> ss_revoked_at s = None) (\<lambda>s. s\<lparr>ss_revoked_at := Some now\<rparr>) (xd_sessions d)\<rparr>"

definition authMiddleware :: "codec \<Rightarrow> auth_env \<Rightarrow> int \<Rightarrow> string option \<Rightarrow> auth_db \<Rightarrow> (rbac_actor \<times> int) option \<times> auth_db" where
  "authMiddleware c e now cookie d = (case cookie of None \<Rightarrow> (None, d)
     | Some token \<Rightarrow> (case session_Lookup e now token d of
         (None, d1) \<Rightarrow> (None, d1)
       | (Some s, d1) \<Rightarrow> (case LoadActor c (ss_admin_id s) (xd_panel d1) of Inl err \<Rightarrow> (None, d1) | Inr a \<Rightarrow> (Some (a, ss_id s), d1))))"

section \<open>Responses and the audit log\<close>

datatype response =
    Fail int string
  | TooMany int
  | Token string
  | Secret string
  | Codes "string list"
  | NoContent

definition best_effort :: "auth_env \<Rightarrow> int \<Rightarrow> actor \<Rightarrow> string \<Rightarrow> string \<Rightarrow> int option \<Rightarrow> (string \<times> jval) list \<Rightarrow> string \<Rightarrow> auth_db \<Rightarrow> auth_db" where
  "best_effort e now a action target_type target after res d = d\<lparr>xd_panel := snd (store_write (\<lambda>p.
     bind_result (audit_InTx now (ae_request e) a action target_type target after res p) (\<lambda>p'. Inr ((), p'))) (xd_panel d))\<rparr>"

definition audit_tx :: "auth_env \<Rightarrow> int \<Rightarrow> actor \<Rightarrow> string \<Rightarrow> int option \<Rightarrow> (string \<times> jval) list \<Rightarrow> auth_db \<Rightarrow> panel_err + (unit \<times> auth_db)" where
  "audit_tx e now a action target after d =
     bind_result (audit_InTx now (ae_request e) a action ''admin'' target after ''ok'' (xd_panel d)) (\<lambda>p. Inr ((), d\<lparr>xd_panel := p\<rparr>))"

text \<open>\<open>route\<close> is the method and path of the request.\<close>

definition http_authorize :: "auth_env \<Rightarrow> int \<Rightarrow> string \<times> string \<Rightarrow> rbac_actor \<Rightarrow> string \<Rightarrow> auth_db \<Rightarrow> bool \<times> auth_db" where
  "http_authorize e now route a p d = (case Check (Some a) p no_target of
     Inr _ \<Rightarrow> (True, d)
   | Inl _ \<Rightarrow> (False, best_effort e now (AdminActor (ac_AdminID a)) ''authz.deny'' '''' None
       [(''permission'', JStr p), (''method'', JStr (fst route)), (''path'', JStr (snd route))] ''denied'' d))"

section \<open>Recovery codes\<close>

definition spendable :: "int \<Rightarrow> auth_db \<Rightarrow> code_row list" where
  "spendable adminID d = sort_key rc_id (sql_where (\<lambda>c. rc_admin_id c = adminID \<and> rc_consumed_at c = None) (xd_codes d))"

text \<open>The search reads the codes before the transaction that spends the one found; 0 is no match.\<close>

definition match_code :: "auth_env \<Rightarrow> int \<Rightarrow> string \<Rightarrow> auth_db \<Rightarrow> int" where
  "match_code e adminID code d =
     (case List.find (\<lambda>c. ae_verify e (rc_code_hash c) code = Some True) (spendable adminID d) of None \<Rightarrow> 0 | Some c \<Rightarrow> rc_id c)"

definition spend_code :: "int \<Rightarrow> int \<Rightarrow> int \<Rightarrow> auth_db \<Rightarrow> (bool \<times> nat) \<times> auth_db" where
  "spend_code now adminID matchID d =
     (let hit = (\<lambda>x. rc_id x = matchID \<and> rc_consumed_at x = None);
          affected = sql_count hit (xd_codes d);
          d1 = d\<lparr>xd_codes := sql_update hit (\<lambda>x. x\<lparr>rc_consumed_at := Some now\<rparr>) (xd_codes d)\<rparr>
      in if affected = 0 then ((False, 0), d1)
         else ((True, sql_count (\<lambda>x. rc_admin_id x = adminID \<and> rc_consumed_at x = None) (xd_codes d1)), d1))"

definition consumeRecoveryCode :: "auth_env \<Rightarrow> int \<Rightarrow> int \<Rightarrow> string \<Rightarrow> auth_db \<Rightarrow> (bool \<times> nat) \<times> auth_db" where
  "consumeRecoveryCode e now adminID code d =
     (if ae_blank e code then ((False, 0), d)
      else if match_code e adminID code d = 0 then ((False, 0), d)
      else spend_code now adminID (match_code e adminID code d) d)"

section \<open>Login\<close>

text \<open>The body of the request, with its \<open>User-Agent\<close>.\<close>

record login_request =
  lr_UserAgent :: string
  lr_Username :: string
  lr_Password :: string
  lr_TOTP :: string

definition login_deny :: "auth_env \<Rightarrow> int \<Rightarrow> login_request \<Rightarrow> string \<Rightarrow> auth_db \<Rightarrow> response \<times> auth_db" where
  "login_deny e now req ip d = (Fail 401 ''invalid_credentials'',
     best_effort e now (SystemActor ''login'') ''auth.login'' ''admin'' None [] ''denied'' (RecordFailure e now (lr_Username req) ip d))"

text \<open>The second factor of an admin with this sealed secret: whether it passed.\<close>

definition second_factor :: "auth_env \<Rightarrow> int \<Rightarrow> int \<Rightarrow> string \<Rightarrow> string \<Rightarrow> auth_db \<Rightarrow> bool \<times> auth_db" where
  "second_factor e now adminID sealed code d = (case ae_box e of
     None \<Rightarrow> (False, d)
   | Some (open_box, seal) \<Rightarrow> (case open_box sealed of
       None \<Rightarrow> (False, d)
     | Some secret \<Rightarrow>
         if ae_totp e secret code now then (True, d)
         else (case consumeRecoveryCode e now adminID code d of ((used, remaining), d1) \<Rightarrow>
           if used then (True, best_effort e now (AdminActor adminID) ''auth.recovery_used'' ''admin'' (Some adminID)
               [(''remaining'', JInt (int remaining))] ''ok'' d1)
           else (False, d1))))"

text \<open>\<open>admins\<close> joined over its two halves.\<close>

definition admin_status :: "int \<Rightarrow> auth_db \<Rightarrow> string" where
  "admin_status i d = (case sql_one (\<lambda>a. am_id a = i) (t_admins (xd_panel d)) of None \<Rightarrow> '''' | Some a \<Rightarrow> am_status a)"

definition sealed_secret :: "string option \<Rightarrow> string option" where
  "sealed_secret column = (case column of None \<Rightarrow> None | Some s \<Rightarrow> if s = '''' then None else Some s)"

definition login_finish :: "auth_env \<Rightarrow> int \<Rightarrow> string \<Rightarrow> login_request \<Rightarrow> string \<Rightarrow> int \<Rightarrow> auth_db \<Rightarrow> response \<times> auth_db" where
  "login_finish e now token req ip adminID d = (case session_Create e now token adminID ip (lr_UserAgent req) (limiter_Reset e now (lr_Username req) d) of
     (Inl err, d1) \<Rightarrow> (Fail 500 ''internal'', d1)
   | (Inr t, d1) \<Rightarrow> (Token t, best_effort e now (AdminActor adminID) ''auth.login'' ''admin'' (Some adminID) [] ''ok'' d1))"

text \<open>What follows the limiter. A name nobody has costs one hash too, whose result is not used.\<close>

definition login_rest :: "auth_env \<Rightarrow> int \<Rightarrow> string \<Rightarrow> login_request \<Rightarrow> string \<Rightarrow> auth_db \<Rightarrow> response \<times> auth_db" where
  "login_rest e now token req ip d =
     (case sql_one (\<lambda>c. ae_nocase e (cx_username c) = ae_nocase e (lr_Username req)) (xd_creds d) of
        None \<Rightarrow> login_deny e now req ip d
      | Some c \<Rightarrow>
          if ae_verify e (cx_password_hash c) (lr_Password req) \<noteq> Some True \<or> admin_status (cx_id c) d \<noteq> ''active'' then login_deny e now req ip d
          else (case sealed_secret (cx_totp_secret c) of
              None \<Rightarrow> login_finish e now token req ip (cx_id c) d
            | Some sealed \<Rightarrow> (case second_factor e now (cx_id c) sealed (lr_TOTP req) d of
                (passed, d1) \<Rightarrow> if passed then login_finish e now token req ip (cx_id c) d1 else login_deny e now req ip d1)))"

definition handleLogin :: "auth_env \<Rightarrow> int \<Rightarrow> string \<Rightarrow> login_request \<Rightarrow> string \<Rightarrow> auth_db \<Rightarrow> response \<times> auth_db" where
  "handleLogin e now token req ip d =
     (let wait = limiter_Check e now (lr_Username req) ip d in
      if wait > 0 then (TooMany wait, best_effort e now (SystemActor ''login'') ''auth.lockout'' ''admin'' None [] ''denied'' d)
      else login_rest e now token req ip d)"

text \<open>\<open>handleLogout\<close> with the session of the request, and the revocation of a session by its id.\<close>

definition handleLogout :: "int \<Rightarrow> int \<Rightarrow> auth_db \<Rightarrow> response \<times> auth_db" where
  "handleLogout now sessionID d = (NoContent, if sessionID \<noteq> 0 then session_Revoke now sessionID d else d)"

text \<open>The sessions of the caller that are not revoked, each with whether it is the caller's own.\<close>

definition handleListSessions :: "rbac_actor \<Rightarrow> int \<Rightarrow> auth_db \<Rightarrow> (session_row \<times> bool) list" where
  "handleListSessions a sessionID d = map (\<lambda>s. (s, ss_id s = sessionID)) (sort_key (\<lambda>s. - ss_last_used_at s) (sort_key (\<lambda>s. - ss_id s)
     (sql_where (\<lambda>s. ss_admin_id s = ac_AdminID a \<and> ss_revoked_at s = None) (xd_sessions d))))"

definition handleRevokeSession :: "int \<Rightarrow> rbac_actor \<Rightarrow> int \<Rightarrow> auth_db \<Rightarrow> response \<times> auth_db" where
  "handleRevokeSession now a i d = (case sql_one (\<lambda>s. ss_id s = i) (xd_sessions d) of
     None \<Rightarrow> (Fail 404 ''not_found'', d)
   | Some s \<Rightarrow> if ss_admin_id s \<noteq> ac_AdminID a \<and> \<not> ac_IsSuper a then (Fail 404 ''not_found'', d) else (NoContent, session_Revoke now i d))"

section \<open>Passwords and status\<close>

definition set_cred :: "int \<Rightarrow> (account_row \<Rightarrow> account_row) \<Rightarrow> auth_db \<Rightarrow> auth_db" where
  "set_cred i f d = d\<lparr>xd_creds := sql_update (\<lambda>c. cx_id c = i) f (xd_creds d)\<rparr>"

definition drop_sessions :: "int \<Rightarrow> auth_db \<Rightarrow> auth_db" where
  "drop_sessions i d = d\<lparr>xd_sessions := sql_delete (\<lambda>s. ss_admin_id s = i) (xd_sessions d)\<rparr>"

text \<open>\<open>newHash\<close> is what \<open>HashPassword\<close> yields for the new password, \<open>None\<close> where it fails.\<close>

definition handleChangeMyPassword ::
  "auth_env \<Rightarrow> int \<Rightarrow> int \<Rightarrow> string \<Rightarrow> string \<Rightarrow> string \<Rightarrow> string option \<Rightarrow> auth_db \<Rightarrow> response \<times> auth_db" where
  "handleChangeMyPassword e now adminID ip current new newHash d =
     (if length new < 8 then (Fail 422 ''weak_password'', d)
      else if current = '''' then (Fail 400 ''bad_request'', d)
      else (case sql_one (\<lambda>c. cx_id c = adminID) (xd_creds d) of
          None \<Rightarrow> (Fail 500 ''internal'', d)
        | Some c \<Rightarrow>
            if ae_verify e (cx_password_hash c) current \<noteq> Some True then
              (Fail 401 ''invalid_password'', best_effort e now (AdminActor adminID) ''admin.password.change'' ''admin'' (Some adminID) [] ''denied''
                (RecordFailure e now (cx_username c) ip d))
            else (case newHash of
                None \<Rightarrow> (Fail 500 ''internal'', d)
              | Some h \<Rightarrow> (case store_write (\<lambda>d. audit_tx e now (AdminActor adminID) ''admin.password.change'' (Some adminID) []
                    (drop_sessions adminID (set_cred adminID (\<lambda>c. c\<lparr>cx_password_hash := h\<rparr>) d))) d of
                  (Inl err, d1) \<Rightarrow> (Fail 500 ''internal'', d1)
                | (Inr _, d1) \<Rightarrow> (NoContent, d1)))))"

definition handleResetAdminPassword ::
  "auth_env \<Rightarrow> int \<Rightarrow> string \<times> string \<Rightarrow> rbac_actor \<Rightarrow> int \<Rightarrow> string \<Rightarrow> string option \<Rightarrow> auth_db \<Rightarrow> response \<times> auth_db" where
  "handleResetAdminPassword e now route a i new newHash d = (case http_authorize e now route a ''admin:manage'' d of
     (False, d1) \<Rightarrow> (Fail 403 ''forbidden'', d1)
   | (True, d1) \<Rightarrow>
       if length new < 8 then (Fail 422 ''weak_password'', d1)
       else (case newHash of
           None \<Rightarrow> (Fail 500 ''internal'', d1)
         | Some h \<Rightarrow> (case store_write (\<lambda>d.
               if \<not> (\<exists>c \<in> set (xd_creds d). cx_id c = i) then Inl (ErrNoRows ''admins'')
               else audit_tx e now (AdminActor (ac_AdminID a)) ''admin.password.reset'' (Some i) []
                 (drop_sessions i (set_cred i (\<lambda>c. c\<lparr>cx_password_hash := h\<rparr>) d))) d1 of
             (Inl (ErrNoRows _), d2) \<Rightarrow> (Fail 404 ''not_found'', d2)
           | (Inl _, d2) \<Rightarrow> (Fail 500 ''internal'', d2)
           | (Inr _, d2) \<Rightarrow> (NoContent, d2))))"

definition update_admin_tx :: "auth_env \<Rightarrow> int \<Rightarrow> rbac_actor \<Rightarrow> int \<Rightarrow> int option \<Rightarrow> string option \<Rightarrow> auth_db \<Rightarrow> panel_err + (unit \<times> auth_db)" where
  "update_admin_tx e now a i role status d =
     (let set_admin = (\<lambda>f d. d\<lparr>xd_panel := (xd_panel d)\<lparr>t_admins := sql_update (\<lambda>x. am_id x = i) f (t_admins (xd_panel d))\<rparr>\<rparr>);
          d1 = (case role of None \<Rightarrow> d | Some r \<Rightarrow> set_admin (\<lambda>x. x\<lparr>am_role_id := r\<rparr>) d);
          d2 = (case status of None \<Rightarrow> d1 | Some s \<Rightarrow> set_admin (\<lambda>x. x\<lparr>am_status := s\<rparr>) d1);
          d3 = (if status = Some ''suspended'' then drop_sessions i d2 else d2)
      in if \<not> (\<exists>x \<in> set (t_admins (xd_panel d)). am_id x = i) then Inl (ErrNoRows ''admins'')
         else if (case role of None \<Rightarrow> False | Some r \<Rightarrow> \<not> (\<exists>x \<in> set (t_roles (xd_panel d)). rl_id x = r)) then Inl (ErrInvalid ''unknown_role'')
         else audit_tx e now (AdminActor (ac_AdminID a)) ''admin.update'' (Some i)
           [(''role_changed'', JBool (role \<noteq> None)), (''status_changed'', JBool (status \<noteq> None))] d3)"

definition handleUpdateAdmin ::
  "auth_env \<Rightarrow> int \<Rightarrow> string \<times> string \<Rightarrow> rbac_actor \<Rightarrow> int \<Rightarrow> int option \<Rightarrow> string option \<Rightarrow> auth_db \<Rightarrow> response \<times> auth_db" where
  "handleUpdateAdmin e now route a i role status d = (case http_authorize e now route a ''admin:manage'' d of
     (False, d1) \<Rightarrow> (Fail 403 ''forbidden'', d1)
   | (True, d1) \<Rightarrow>
       if i = ac_AdminID a \<and> status \<noteq> None \<and> status \<noteq> Some ''active'' then (Fail 422 ''self_lockout'', d1)
       else if i = ac_AdminID a \<and> role \<noteq> None then (Fail 422 ''self_lockout'', d1)
       else if status \<noteq> None \<and> status \<noteq> Some ''active'' \<and> status \<noteq> Some ''suspended'' then (Fail 400 ''bad_request'', d1)
       else (case store_write (update_admin_tx e now a i role status) d1 of
           (Inl (ErrNoRows _), d2) \<Rightarrow> (Fail 404 ''not_found'', d2)
         | (Inl (ErrInvalid _), d2) \<Rightarrow> (Fail 422 ''unknown_role'', d2)
         | (Inl _, d2) \<Rightarrow> (Fail 500 ''internal'', d2)
         | (Inr _, d2) \<Rightarrow> (NoContent, d2)))"

section \<open>The second factor\<close>

text \<open>\<open>handleTOTPEnrol\<close> up to the sealed secret, and its transaction. \<open>secret\<close> is what the random source yields.\<close>

definition enrol_check :: "auth_env \<Rightarrow> int \<Rightarrow> int \<Rightarrow> string \<Rightarrow> auth_db \<Rightarrow> (response + string) \<times> auth_db" where
  "enrol_check e now adminID secret d = (case ae_box e of
     None \<Rightarrow> (Inl (Fail 503 ''unavailable''), d)
   | Some (open_box, seal) \<Rightarrow> (case sql_one (\<lambda>c. cx_id c = adminID) (xd_creds d) of
       None \<Rightarrow> (Inl (Fail 500 ''internal''), d)
     | Some c \<Rightarrow>
         if sealed_secret (cx_totp_secret c) \<noteq> None then
           (Inl (Fail 409 ''conflict''), best_effort e now (AdminActor adminID) ''totp.enrol'' ''admin'' (Some adminID)
              [(''reason'', JStr ''TOTP is already enabled'')] ''denied'' d)
         else (case seal secret of None \<Rightarrow> (Inl (Fail 500 ''internal''), d) | Some sealed \<Rightarrow> (Inr sealed, d))))"

definition enrol_write :: "auth_env \<Rightarrow> int \<Rightarrow> int \<Rightarrow> string \<Rightarrow> string \<Rightarrow> auth_db \<Rightarrow> response \<times> auth_db" where
  "enrol_write e now adminID secret sealed d = (case store_write (\<lambda>d. audit_tx e now (AdminActor adminID) ''totp.enrol'' (Some adminID) []
       (set_cred adminID (\<lambda>c. c\<lparr>cx_totp_pending := Some sealed\<rparr>) d)) d of
     (Inl err, d1) \<Rightarrow> (Fail 500 ''internal'', d1)
   | (Inr _, d1) \<Rightarrow> (Secret secret, d1))"

definition handleTOTPEnrol :: "auth_env \<Rightarrow> int \<Rightarrow> int \<Rightarrow> string \<Rightarrow> auth_db \<Rightarrow> response \<times> auth_db" where
  "handleTOTPEnrol e now adminID secret d = (case enrol_check e now adminID secret d of
     (Inl r, d1) \<Rightarrow> (r, d1) | (Inr sealed, d1) \<Rightarrow> enrol_write e now adminID secret sealed d1)"

definition denyTOTPCode :: "auth_env \<Rightarrow> int \<Rightarrow> int \<Rightarrow> string \<Rightarrow> string \<Rightarrow> string \<Rightarrow> auth_db \<Rightarrow> response \<times> auth_db" where
  "denyTOTPCode e now adminID username ip action d = (Fail 401 ''invalid_code'',
     best_effort e now (AdminActor adminID) action ''admin'' (Some adminID) [] ''denied'' (RecordFailure e now username ip d))"

text \<open>\<open>handleTOTPConfirm\<close> up to the proof of the pending secret: the response that ends it, if any.\<close>

definition confirm_check :: "auth_env \<Rightarrow> int \<Rightarrow> int \<Rightarrow> string \<Rightarrow> string \<Rightarrow> auth_db \<Rightarrow> response option \<times> auth_db" where
  "confirm_check e now adminID ip code d = (case ae_box e of
     None \<Rightarrow> (Some (Fail 503 ''unavailable''), d)
   | Some (open_box, seal) \<Rightarrow> (case sql_one (\<lambda>c. cx_id c = adminID) (xd_creds d) of
       None \<Rightarrow> (Some (Fail 500 ''internal''), d)
     | Some c \<Rightarrow> (case sealed_secret (cx_totp_pending c) of
         None \<Rightarrow> (Some (Fail 400 ''no_pending_enrolment''), d)
       | Some pending \<Rightarrow>
           (let wait = limiter_Check e now (cx_username c) ip d in
            if wait > 0 then (Some (TooMany wait), d)
            else (case open_box pending of
                None \<Rightarrow> (Some (Fail 500 ''internal''), d)
              | Some secret \<Rightarrow>
                  if \<not> ae_totp e secret code now then map_prod Some id (denyTOTPCode e now adminID (cx_username c) ip ''totp.confirm'' d)
                  else (None, d))))))"

definition mint_codes :: "int \<Rightarrow> int \<Rightarrow> string list \<Rightarrow> code_row list \<Rightarrow> code_row list" where
  "mint_codes now adminID hashes rows = fold (\<lambda>h rs. rs @ [\<lparr>rc_id = next_rowid rc_id rs, rc_admin_id = adminID, rc_code_hash = h,
     rc_created_at = now, rc_consumed_at = None\<rparr>]) hashes rows"

text \<open>Its transaction, and the reset of the limiter. \<open>codes\<close> are the codes of the random source with their hashes.\<close>

definition confirm_write :: "auth_env \<Rightarrow> int \<Rightarrow> int \<Rightarrow> (string \<times> string) list \<Rightarrow> auth_db \<Rightarrow> response \<times> auth_db" where
  "confirm_write e now adminID codes d = (case store_write (\<lambda>d. audit_tx e now (AdminActor adminID) ''totp.confirm'' (Some adminID)
         [(''recovery_codes_issued'', JInt (int (length codes)))]
         ((set_cred adminID (\<lambda>c. c\<lparr>cx_totp_secret := cx_totp_pending c, cx_totp_pending := None\<rparr>) d)
           \<lparr>xd_codes := mint_codes now adminID (map snd codes) (sql_delete (\<lambda>c. rc_admin_id c = adminID) (xd_codes d))\<rparr>)) d of
     (Inl err, d1) \<Rightarrow> (Fail 500 ''internal'', d1)
   | (Inr _, d1) \<Rightarrow> (Codes (map fst codes), limiter_Reset e now
       (case sql_one (\<lambda>c. cx_id c = adminID) (xd_creds d) of None \<Rightarrow> '''' | Some c \<Rightarrow> cx_username c) d1))"

definition handleTOTPConfirm :: "auth_env \<Rightarrow> int \<Rightarrow> int \<Rightarrow> string \<Rightarrow> string \<Rightarrow> (string \<times> string) list \<Rightarrow> auth_db \<Rightarrow> response \<times> auth_db" where
  "handleTOTPConfirm e now adminID ip code codes d = (case confirm_check e now adminID ip code d of
     (Some r, d1) \<Rightarrow> (r, d1) | (None, d1) \<Rightarrow> confirm_write e now adminID codes d1)"

definition disable_verified :: "auth_env \<Rightarrow> int \<Rightarrow> int \<Rightarrow> string \<Rightarrow> string \<Rightarrow> auth_db \<Rightarrow> bool \<times> auth_db" where
  "disable_verified e now adminID sealed code d =
     (if (case ae_box e of None \<Rightarrow> False | Some (open_box, seal) \<Rightarrow>
            (case open_box sealed of None \<Rightarrow> False | Some secret \<Rightarrow> ae_totp e secret code now)) then (True, d)
      else (case consumeRecoveryCode e now adminID code d of ((used, remaining), d1) \<Rightarrow> (used, d1)))"

definition handleTOTPDisable :: "auth_env \<Rightarrow> int \<Rightarrow> int \<Rightarrow> string \<Rightarrow> string \<Rightarrow> auth_db \<Rightarrow> response \<times> auth_db" where
  "handleTOTPDisable e now adminID ip code d = (case sql_one (\<lambda>c. cx_id c = adminID) (xd_creds d) of
     None \<Rightarrow> (Fail 500 ''internal'', d)
   | Some c \<Rightarrow> (case sealed_secret (cx_totp_secret c) of
       None \<Rightarrow> (Fail 400 ''not_enrolled'', d)
     | Some sealed \<Rightarrow>
         (let wait = limiter_Check e now (cx_username c) ip d in
          if wait > 0 then (TooMany wait, d)
          else (case disable_verified e now adminID sealed code d of
              (False, d1) \<Rightarrow> denyTOTPCode e now adminID (cx_username c) ip ''totp.disable'' d1
            | (True, d1) \<Rightarrow> (case store_write (\<lambda>d. audit_tx e now (AdminActor adminID) ''totp.disable'' (Some adminID) []
                  ((set_cred adminID (\<lambda>c. c\<lparr>cx_totp_secret := None, cx_totp_pending := None\<rparr>) d)
                    \<lparr>xd_codes := sql_delete (\<lambda>c. rc_admin_id c = adminID) (xd_codes d)\<rparr>)) d1 of
                (Inl err, d2) \<Rightarrow> (Fail 500 ''internal'', d2)
              | (Inr _, d2) \<Rightarrow> (NoContent, d2))))))"

section \<open>Guesses\<close>

datatype guess =
    GLogin string login_request string
  | GConfirm int string string "(string \<times> string) list"
  | GDisable int string string

fun guess_step :: "auth_env \<Rightarrow> int \<Rightarrow> guess \<Rightarrow> auth_db \<Rightarrow> response \<times> auth_db" where
  "guess_step e now (GLogin token req ip) d = handleLogin e now token req ip d"
| "guess_step e now (GConfirm i ip code codes) d = handleTOTPConfirm e now i ip code codes d"
| "guess_step e now (GDisable i ip code) d = handleTOTPDisable e now i ip code d"

definition username_of :: "int \<Rightarrow> auth_db \<Rightarrow> string" where
  "username_of i d = (case sql_one (\<lambda>c. cx_id c = i) (xd_creds d) of None \<Rightarrow> '''' | Some c \<Rightarrow> cx_username c)"

fun guess_keys :: "auth_env \<Rightarrow> guess \<Rightarrow> auth_db \<Rightarrow> string \<times> string" where
  "guess_keys e (GLogin token req ip) d = (ae_lower e (lr_Username req), ae_lower e ip)"
| "guess_keys e (GConfirm i ip code codes) d = (ae_lower e (username_of i d), ae_lower e ip)"
| "guess_keys e (GDisable i ip code) d = (ae_lower e (username_of i d), ae_lower e ip)"

text \<open>A guess that was tested and wrong, and one that was not tested.\<close>

definition wrong :: "response \<Rightarrow> bool" where
  "wrong r \<longleftrightarrow> r = Fail 401 ''invalid_credentials'' \<or> r = Fail 401 ''invalid_code''"

fun refused :: "response \<Rightarrow> bool" where
  "refused (TooMany wait) = True"
| "refused (Fail status code) = (status \<noteq> 401)"
| "refused r = False"

text \<open>The log of a run: when, which account and address, and the answer.\<close>

type_synonym guess_log = "(int \<times> (string \<times> string) \<times> response) list"

fun logged_run :: "(int \<Rightarrow> 'g \<Rightarrow> auth_db \<Rightarrow> response \<times> auth_db) \<Rightarrow> ('g \<Rightarrow> auth_db \<Rightarrow> string \<times> string) \<Rightarrow> (int \<times> 'g) list \<Rightarrow> auth_db \<Rightarrow> guess_log" where
  "logged_run step keys [] d = []"
| "logged_run step keys ((now, g) # gs) d = (case step now g d of (r, d') \<Rightarrow> (now, keys g d, r) # logged_run step keys gs d')"

definition guess_run :: "auth_env \<Rightarrow> (int \<times> guess) list \<Rightarrow> auth_db \<Rightarrow> guess_log" where
  "guess_run e = logged_run (guess_step e) (guess_keys e)"

section \<open>What a guess does to the record of failures\<close>

lemma backoff_pos: "limit \<le> failures \<Longrightarrow> 0 < backoff failures limit"
proof -
  have "0 < d \<Longrightarrow> 0 < backoff_from n d" for n d by (induction n arbitrary: d) (auto simp: MaxBackoff_def)
  then show "limit \<le> failures \<Longrightarrow> 0 < backoff failures limit" by (simp add: backoff_def BaseBackoff_def)
qed

lemma limiter_admits:
  assumes "\<not> 0 < limiter_Check e now username ip d"
  shows "countSince e ''account'' username (now - Window) d < AccountFailureLimit \<and> countSince e ''ip'' ip (now - Window) d < IPFailureLimit"
proof -
  let ?a = "countSince e ''account'' username (now - Window) d" and ?i = "countSince e ''ip'' ip (now - Window) d"
  have "max (backoff ?a AccountFailureLimit) (backoff ?i IPFailureLimit) \<le> 0"
    using assms by (simp add: limiter_Check_def Let_def max_def split: if_splits)
  then have "\<not> AccountFailureLimit \<le> ?a" "\<not> IPFailureLimit \<le> ?i"
    using backoff_pos [of AccountFailureLimit ?a] backoff_pos [of IPFailureLimit ?i] by linarith+
  then show ?thesis by simp
qed

lemma best_effort_frame [simp]:
  "xd_attempts (best_effort e now a act tt t aft res d) = xd_attempts d" "xd_creds (best_effort e now a act tt t aft res d) = xd_creds d"
  "xd_sessions (best_effort e now a act tt t aft res d) = xd_sessions d" "xd_codes (best_effort e now a act tt t aft res d) = xd_codes d"
  by (simp_all add: best_effort_def)

lemma consume_frame [simp]:
  "xd_attempts (snd (consumeRecoveryCode e now i code d)) = xd_attempts d" "xd_creds (snd (consumeRecoveryCode e now i code d)) = xd_creds d"
  "xd_sessions (snd (consumeRecoveryCode e now i code d)) = xd_sessions d" "xd_panel (snd (consumeRecoveryCode e now i code d)) = xd_panel d"
  by (simp_all add: consumeRecoveryCode_def spend_code_def Let_def)

lemma consume_cases:
  obtains used remaining d1 where "consumeRecoveryCode e now i code d = ((used, remaining), d1)"
    "xd_attempts d1 = xd_attempts d" "xd_creds d1 = xd_creds d" "xd_sessions d1 = xd_sessions d" "xd_panel d1 = xd_panel d"
  using consume_frame [of e now i code d] by (metis surj_pair snd_conv)

lemma second_factor_frame [simp]:
  "xd_attempts (snd (second_factor e now i sealed code d)) = xd_attempts d" "xd_creds (snd (second_factor e now i sealed code d)) = xd_creds d"
  "xd_sessions (snd (second_factor e now i sealed code d)) = xd_sessions d"
  by (rule consume_cases [of e now i code d], simp add: second_factor_def split: option.splits prod.splits)+

lemma disable_verified_frame [simp]:
  "xd_attempts (snd (disable_verified e now i sealed code d)) = xd_attempts d" "xd_creds (snd (disable_verified e now i sealed code d)) = xd_creds d"
  "xd_sessions (snd (disable_verified e now i sealed code d)) = xd_sessions d"
  by (rule consume_cases [of e now i code d], simp add: disable_verified_def split: option.splits prod.splits)+

lemma reset_attempts: "xd_attempts d1 = xd_attempts d \<Longrightarrow> xd_attempts (limiter_Reset e now u d1) = xd_attempts (limiter_Reset e now u d)"
  by (simp add: limiter_Reset_def)

lemma record_attempts: "xd_attempts d1 = xd_attempts d \<Longrightarrow> xd_attempts (RecordFailure e now u ip d1) = xd_attempts (RecordFailure e now u ip d)"
  by (simp add: RecordFailure_def)

text \<open>Three kinds of answers: not tested, tested and wrong, and right (or an error after the test).\<close>

definition answered :: "auth_env \<Rightarrow> int \<Rightarrow> string \<Rightarrow> string \<Rightarrow> auth_db \<Rightarrow> response \<Rightarrow> auth_db \<Rightarrow> bool" where
  "answered e now u ip d r d' \<longleftrightarrow>
     (\<not> wrong r \<and> xd_attempts d' = xd_attempts d)
   \<or> (wrong r \<and> \<not> 0 < limiter_Check e now u ip d \<and> xd_attempts d' = xd_attempts (RecordFailure e now u ip d))
   \<or> (\<not> wrong r \<and> xd_attempts d' = xd_attempts (limiter_Reset e now u d) \<and> (\<not> (refused r) \<or> r = Fail 500 ''internal''))"

lemma login_answered:
  assumes "handleLogin e now token req ip d = (r, d')"
  shows "answered e now (lr_Username req) ip d r d'"
proof -
  have fin: "answered e now (lr_Username req) ip d r' d2" if "login_finish e now token req ip i d1 = (r', d2)" "xd_attempts d1 = xd_attempts d" for i d1 r' d2
    using that reset_attempts [OF that(2), of e now "lr_Username req"]
    by (auto simp: login_finish_def session_Create_def store_write_def answered_def wrong_def split: if_splits)
  have den: "answered e now (lr_Username req) ip d r' d2" if "login_deny e now req ip d1 = (r', d2)" "xd_attempts d1 = xd_attempts d"
    "\<not> 0 < limiter_Check e now (lr_Username req) ip d" for d1 r' d2
    using that record_attempts [OF that(2)] by (auto simp: login_deny_def answered_def wrong_def)
  show ?thesis
  proof (cases "0 < limiter_Check e now (lr_Username req) ip d")
    case True
    then show ?thesis using assms by (auto simp: handleLogin_def Let_def answered_def wrong_def)
  next
    case False
    then have rest: "login_rest e now token req ip d = (r, d')" using assms by (simp add: handleLogin_def Let_def)
    show ?thesis
    proof (cases "sql_one (\<lambda>c. ae_nocase e (cx_username c) = ae_nocase e (lr_Username req)) (xd_creds d)")
      case None
      then show ?thesis using rest den [OF _ refl False] by (simp add: login_rest_def)
    next
      case (Some c)
      show ?thesis
      proof (cases "ae_verify e (cx_password_hash c) (lr_Password req) \<noteq> Some True \<or> admin_status (cx_id c) d \<noteq> ''active''")
        case True
        then show ?thesis using rest Some den [OF _ refl False] by (simp add: login_rest_def)
      next
        case pw: False
        show ?thesis
        proof (cases "sealed_secret (cx_totp_secret c)")
          case None
          then show ?thesis using rest Some pw fin [OF _ refl] by (simp add: login_rest_def)
        next
          case sealed: (Some s)
          obtain passed d1 where sf: "second_factor e now (cx_id c) s (lr_TOTP req) d = (passed, d1)" by fastforce
          then have at: "xd_attempts d1 = xd_attempts d" using second_factor_frame(1) snd_conv by metis
          show ?thesis using rest Some pw sealed sf fin [OF _ at] den [OF _ at False] by (simp add: login_rest_def split: if_splits)
        qed
      qed
    qed
  qed
qed

lemma audit_tx_frame:
  assumes "audit_tx e now a act t aft d = Inr (u, d')"
  shows "xd_attempts d' = xd_attempts d" "xd_creds d' = xd_creds d" "xd_sessions d' = xd_sessions d" "xd_codes d' = xd_codes d"
  using assms by (auto simp: audit_tx_def bind_result_def split: sum.splits)

lemma set_cred_frame [simp]:
  "xd_attempts (set_cred i f d) = xd_attempts d" "xd_sessions (set_cred i f d) = xd_sessions d" "xd_codes (set_cred i f d) = xd_codes d"
  "xd_panel (set_cred i f d) = xd_panel d"
  by (simp_all add: set_cred_def)

lemma confirm_answered:
  assumes "handleTOTPConfirm e now i ip code codes d = (r, d')"
  shows "answered e now (username_of i d) ip d r d'"
proof (cases "confirm_check e now i ip code d")
  case (Pair o1 d1)
  show ?thesis
  proof (cases o1)
    case (Some r1)
    then show ?thesis using assms Pair
      by (auto simp: handleTOTPConfirm_def confirm_check_def denyTOTPCode_def username_of_def answered_def wrong_def Let_def RecordFailure_def
          split: option.splits if_splits prod.splits)
  next
    case None
    then have d1: "d1 = d" using Pair by (auto simp: confirm_check_def Let_def denyTOTPCode_def split: option.splits if_splits prod.splits)
    have w: "confirm_write e now i codes d = (r, d')" using assms Pair None d1 by (simp add: handleTOTPConfirm_def)
    show ?thesis using w
      by (auto simp: confirm_write_def store_write_def answered_def wrong_def username_of_def limiter_Reset_def
          dest!: audit_tx_frame(1) split: sum.splits prod.splits)
  qed
qed

lemma disable_answered:
  assumes "handleTOTPDisable e now i ip code d = (r, d')"
  shows "answered e now (username_of i d) ip d r d'"
proof (cases "sql_one (\<lambda>c. cx_id c = i) (xd_creds d)")
  case None
  then show ?thesis using assms by (auto simp: handleTOTPDisable_def answered_def wrong_def)
next
  case (Some c)
  show ?thesis
  proof (cases "sealed_secret (cx_totp_secret c)")
    case None
    then show ?thesis using assms Some by (auto simp: handleTOTPDisable_def answered_def wrong_def)
  next
    case sealed: (Some s)
    obtain ok d1 where v: "disable_verified e now i s code d = (ok, d1)" by fastforce
    then have at: "xd_attempts d1 = xd_attempts d" using disable_verified_frame(1) snd_conv by metis
    have u: "username_of i d = cx_username c" using Some by (simp add: username_of_def)
    show ?thesis
    proof (cases "0 < limiter_Check e now (cx_username c) ip d \<or> \<not> ok")
      case True
      then show ?thesis using assms Some sealed v at u record_attempts [OF at]
        by (auto simp: handleTOTPDisable_def denyTOTPCode_def Let_def answered_def wrong_def split: if_splits)
    next
      case False
      then show ?thesis using assms Some sealed v at
        by (auto simp: handleTOTPDisable_def Let_def answered_def wrong_def store_write_def
            dest!: audit_tx_frame(1) split: sum.splits prod.splits)
    qed
  qed
qed

section \<open>The limiter limits\<close>

definition rows_since :: "string \<Rightarrow> string \<Rightarrow> int \<Rightarrow> auth_db \<Rightarrow> nat" where
  "rows_since kind key s d = sql_count (\<lambda>r. at_kind r = kind \<and> at_subject r = key \<and> s \<le> at_failed_at r) (xd_attempts d)"

definition key_of :: "string \<Rightarrow> string \<times> string \<Rightarrow> string" where
  "key_of kind keys = (if kind = ''account'' then fst keys else snd keys)"

definition limit_of :: "string \<Rightarrow> nat" where
  "limit_of kind = (if kind = ''account'' then AccountFailureLimit else IPFailureLimit)"

text \<open>An answer that goes with a reset of the account's failures: the guess was right, whether or not the work after it succeeded.\<close>

definition clears :: "response \<Rightarrow> bool" where
  "clears r \<longleftrightarrow> \<not> refused r \<and> \<not> wrong r \<or> r = Fail 500 ''internal''"

definition guess_in_window :: "int \<Rightarrow> string \<Rightarrow> string \<Rightarrow> int \<times> (string \<times> string) \<times> response \<Rightarrow> bool" where
  "guess_in_window s kind key = (\<lambda>(t, keys, r). s \<le> t \<and> t \<le> s + Window \<and> key_of kind keys = key)"

text \<open>The wrong guesses against a key in the window that starts at \<open>s\<close>, and whether a right one falls in it.\<close>

definition wrong_guesses :: "int \<Rightarrow> string \<Rightarrow> string \<Rightarrow> guess_log \<Rightarrow> nat" where
  "wrong_guesses s kind key l = length (filter (\<lambda>x. guess_in_window s kind key x \<and> wrong (snd (snd x))) l)"

definition cleared :: "int \<Rightarrow> string \<Rightarrow> guess_log \<Rightarrow> bool" where
  "cleared s account l \<longleftrightarrow> list_ex (\<lambda>x. guess_in_window s ''account'' account x \<and> clears (snd (snd x))) l"

lemma rows_since_mono: "s' \<le> s \<Longrightarrow> rows_since kind key s d \<le> rows_since kind key s' d"
proof -
  assume "s' \<le> s"
  then have "length (filter (\<lambda>r. at_kind r = kind \<and> at_subject r = key \<and> s \<le> at_failed_at r) rs)
      \<le> length (filter (\<lambda>r. at_kind r = kind \<and> at_subject r = key \<and> s' \<le> at_failed_at r) rs)" for rs :: "attempt_row list"
    by (induction rs) auto
  then show "rows_since kind key s d \<le> rows_since kind key s' d" by (simp add: rows_since_def sql_count_def sql_where_def)
qed

lemma rows_since_record:
  "rows_since kind key s (RecordFailure e now u ip d) = rows_since kind key s d
     + (if s \<le> now \<and> (kind = ''account'' \<and> key = ae_lower e u \<or> kind = ''ip'' \<and> key = ae_lower e ip) then 1 else 0)"
  by (auto simp: rows_since_def sql_count_def sql_where_def RecordFailure_def)

lemma rows_since_reset:
  assumes "now - Window \<le> s" "kind \<noteq> ''account'' \<or> key \<noteq> ae_lower e u"
  shows "rows_since kind key s (limiter_Reset e now u d) = rows_since kind key s d"
proof -
  have f: "filter (\<lambda>r. at_kind r = kind \<and> at_subject r = key \<and> s \<le> at_failed_at r) (sql_delete (\<lambda>r. at_failed_at r < now - Window)
      (sql_delete (\<lambda>r. at_kind r = ''account'' \<and> at_subject r = ae_lower e u) rs))
    = filter (\<lambda>r. at_kind r = kind \<and> at_subject r = key \<and> s \<le> at_failed_at r) rs" for rs :: "attempt_row list"
    unfolding sql_delete_def filter_filter using assms by (intro filter_cong) auto
  have "xd_attempts (limiter_Reset e now u d) = sql_delete (\<lambda>r. at_failed_at r < now - Window)
      (sql_delete (\<lambda>r. at_kind r = ''account'' \<and> at_subject r = ae_lower e u) (xd_attempts d))" by (simp add: limiter_Reset_def)
  then show ?thesis by (simp only: rows_since_def sql_count_def sql_where_def f)
qed

lemma wrong_guesses_Cons:
  "wrong_guesses s kind key (x # l) = (if guess_in_window s kind key x \<and> wrong (snd (snd x)) then 1 else 0) + wrong_guesses s kind key l"
  by (simp add: wrong_guesses_def)

lemma cleared_Cons: "cleared s u (x # l) \<longleftrightarrow> guess_in_window s ''account'' u x \<and> clears (snd (snd x)) \<or> cleared s u l"
  by (simp add: cleared_def)

text \<open>
  The contract of a service behind the limiter: each call names an account and an address and answers by not testing, by testing
  and recording a failure, or by clearing the account.
\<close>

locale throttled =
  fixes e :: auth_env
    and step :: "int \<Rightarrow> 'g \<Rightarrow> auth_db \<Rightarrow> response \<times> auth_db"
    and keys :: "'g \<Rightarrow> auth_db \<Rightarrow> string \<times> string"
  assumes step_answered: "step now g d = (r, d') \<Longrightarrow> \<exists>u ip. keys g d = (ae_lower e u, ae_lower e ip) \<and> answered e now u ip d r d'"
begin

text \<open>One guess in the window: a wrong one finds the limit not reached and adds a row, any other leaves the rows.\<close>

lemma guess_rows:
  assumes step: "step now g d = (r, d')" and w: "s \<le> now" "now \<le> s + Window" and kind: "kind \<in> {''account'', ''ip''}"
    and nc: "kind = ''account'' \<longrightarrow> \<not> (key_of kind (keys g d) = key \<and> clears r)"
  shows "if wrong r \<and> key_of kind (keys g d) = key
         then rows_since kind key s d' = rows_since kind key s d + 1 \<and> rows_since kind key s d < limit_of kind
         else rows_since kind key s d' = rows_since kind key s d"
proof -
  obtain u ip where k: "keys g d = (ae_lower e u, ae_lower e ip)" and a: "answered e now u ip d r d'"
    using step_answered [OF step] by blast
  have rows: "rows_since kind key s x = rows_since kind key s y" if "xd_attempts x = xd_attempts y" for x y
    using that by (simp add: rows_since_def)
  consider (same) "\<not> wrong r" "xd_attempts d' = xd_attempts d"
    | (bad) "wrong r" "\<not> 0 < limiter_Check e now u ip d" "xd_attempts d' = xd_attempts (RecordFailure e now u ip d)"
    | (good) "\<not> wrong r" "xd_attempts d' = xd_attempts (limiter_Reset e now u d)" "clears r"
    using a by (auto simp: answered_def clears_def)
  then show ?thesis
  proof cases
    case same
    then show ?thesis using rows [OF same(2)] by simp
  next
    case bad
    have lim: "rows_since kind key s d < limit_of kind" if "key_of kind (keys g d) = key"
      using limiter_admits [OF bad(2)] rows_since_mono [of "now - Window" s kind key d] w kind that k
      by (auto simp: countSince_def rows_since_def [symmetric] key_of_def limit_of_def)
    show ?thesis using lim rows [OF bad(3)] bad(1) w kind k by (auto simp: rows_since_record key_of_def)
  next
    case good
    have "kind \<noteq> ''account'' \<or> key \<noteq> ae_lower e u" using nc good(3) k by (auto simp: key_of_def)
    then show ?thesis using rows_since_reset [of now s kind key e u d] rows [OF good(2)] good(1) w by simp
  qed
qed

lemma run_times: "map fst (logged_run step keys gs d) = map fst gs"
  by (induction gs arbitrary: d) (auto split: prod.splits)

lemma late_run_free:
  assumes "\<forall>x \<in> set gs. s + Window < fst x"
  shows "wrong_guesses s kind key (logged_run step keys gs d) = 0"
proof -
  have "\<forall>x \<in> set (logged_run step keys gs d). s + Window < fst x"
    using assms run_times [of gs d] by (metis (mono_tags, lifting) imageE image_eqI list.set_map)
  then show ?thesis by (fastforce simp: wrong_guesses_def guess_in_window_def filter_empty_conv)
qed

text \<open>From the start of the window on, the wrong guesses to come and the rows of the window stay within the limit together.\<close>

lemma window_budget:
  assumes "sorted (map fst gs)" "\<forall>x \<in> set gs. s \<le> fst x" "kind \<in> {''account'', ''ip''}"
    "kind = ''account'' \<longrightarrow> \<not> cleared s key (logged_run step keys gs d)"
  shows "wrong_guesses s kind key (logged_run step keys gs d) = 0
       \<or> wrong_guesses s kind key (logged_run step keys gs d) + rows_since kind key s d \<le> limit_of kind"
  using assms
proof (induction gs arbitrary: d)
  case Nil
  then show ?case by (simp add: wrong_guesses_def)
next
  case (Cons x gs)
  obtain now g where x: "x = (now, g)" by fastforce
  note prems = Cons.prems [unfolded x]
  obtain r d' where st: "step now g d = (r, d')" by fastforce
  let ?keys = "keys g d"
  have log: "logged_run step keys ((now, g) # gs) d = (now, ?keys, r) # logged_run step keys gs d'" using st by simp
  show ?case
  proof (cases "now \<le> s + Window")
    case False
    then have "\<forall>x \<in> set ((now, g) # gs). s + Window < fst x" using prems(1) by force
    from late_run_free [OF this] show ?thesis unfolding x by blast
  next
    case True
    have s: "s \<le> now" using prems(2) by simp
    have win: "guess_in_window s k x (now, ?keys, r) \<longleftrightarrow> key_of k ?keys = x" for k x using True s by (simp add: guess_in_window_def)
    have ih: "wrong_guesses s kind key (logged_run step keys gs d') = 0
        \<or> wrong_guesses s kind key (logged_run step keys gs d') + rows_since kind key s d' \<le> limit_of kind"
      using Cons.IH [of d'] prems log by (simp add: cleared_Cons)
    have nc: "kind = ''account'' \<longrightarrow> \<not> (key_of kind ?keys = key \<and> clears r)"
      using prems(4) win st by (auto simp: cleared_Cons)
    from guess_rows [OF st s True prems(3) nc] ih show ?thesis
      unfolding x log wrong_guesses_Cons win by (auto split: if_splits)
  qed
qed

lemma window_limit:
  assumes "sorted (map fst gs)" "kind \<in> {''account'', ''ip''}" "kind = ''account'' \<longrightarrow> \<not> cleared s key (logged_run step keys gs d)"
  shows "wrong_guesses s kind key (logged_run step keys gs d) \<le> limit_of kind"
  using assms
proof (induction gs arbitrary: d)
  case Nil
  then show ?case by (simp add: wrong_guesses_def)
next
  case (Cons x gs)
  obtain now g where x: "x = (now, g)" by fastforce
  note prems = Cons.prems [unfolded x]
  obtain r d' where st: "step now g d = (r, d')" by fastforce
  show ?case
  proof (cases "s \<le> now")
    case True
    then have "\<forall>x \<in> set ((now, g) # gs). s \<le> fst x" using prems(1) by force
    from window_budget [OF prems(1) this prems(2,3)] show ?thesis unfolding x by linarith
  next
    case False
    then have "\<not> guess_in_window s k x (now, y)" for k x y by (cases y) (simp add: guess_in_window_def)
    then show ?thesis using Cons.IH [of d'] prems st x by (simp add: cleared_Cons wrong_guesses_Cons)
  qed
qed

end

interpretation guesses: throttled e "guess_step e" "guess_keys e" for e
proof
  fix now g d r d'
  assume "guess_step e now g d = (r, d')"
  then show "\<exists>u ip. guess_keys e g d = (ae_lower e u, ae_lower e ip) \<and> answered e now u ip d r d'"
    using login_answered confirm_answered disable_answered by (cases g) fastforce+
qed


section \<open>Every operation on sessions\<close>

datatype auth_op =
    OGuess guess
  | ORequest "string option"
  | OLogout int
  | ORevokeSession rbac_actor int
  | OChangePassword int string string string "string option"
  | OResetPassword "string \<times> string" rbac_actor int string "string option"
  | OUpdateAdmin "string \<times> string" rbac_actor int "int option" "string option"
  | OEnrol int string

fun auth_step :: "codec \<Rightarrow> auth_env \<Rightarrow> int \<Rightarrow> auth_op \<Rightarrow> auth_db \<Rightarrow> auth_db" where
  "auth_step c e now (OGuess g) d = snd (guess_step e now g d)"
| "auth_step c e now (ORequest cookie) d = snd (authMiddleware c e now cookie d)"
| "auth_step c e now (OLogout i) d = snd (handleLogout now i d)"
| "auth_step c e now (ORevokeSession a i) d = snd (handleRevokeSession now a i d)"
| "auth_step c e now (OChangePassword i ip cur new h) d = snd (handleChangeMyPassword e now i ip cur new h d)"
| "auth_step c e now (OResetPassword route a i new h) d = snd (handleResetAdminPassword e now route a i new h d)"
| "auth_step c e now (OUpdateAdmin route a i role status) d = snd (handleUpdateAdmin e now route a i role status d)"
| "auth_step c e now (OEnrol i secret) d = snd (handleTOTPEnrol e now i secret d)"

fun auth_run :: "codec \<Rightarrow> auth_env \<Rightarrow> (int \<times> auth_op) list \<Rightarrow> auth_db \<Rightarrow> auth_db" where
  "auth_run c e [] d = d"
| "auth_run c e ((now, x) # xs) d = auth_run c e xs (auth_step c e now x d)"

text \<open>The token an operation may hand out.\<close>

fun mints :: "auth_op \<Rightarrow> string option" where
  "mints (OGuess (GLogin token req ip)) = Some token"
| "mints _ = None"

text \<open>What an operation may do to the table: leave it, add the session of a token, mark rows, refresh one that is valid, or drop rows.\<close>

inductive sessions_step :: "auth_env \<Rightarrow> int \<Rightarrow> string option \<Rightarrow> session_row list \<Rightarrow> session_row list \<Rightarrow> bool"
  for e now t where
  same: "sessions_step e now t rows rows"
| opened: "t = Some token \<Longrightarrow> ss_token_hash new = ae_hash e token \<Longrightarrow> ss_id new = next_rowid ss_id rows \<Longrightarrow>
    ss_token_hash new \<notin> ss_token_hash ` set rows \<Longrightarrow> ss_created_at new = now \<Longrightarrow> ss_expires_at new = now + AbsoluteLifetime \<Longrightarrow>
    sessions_step e now t rows (rows @ [new])"
| revoked: "sessions_step e now t rows (sql_update P (\<lambda>s. s\<lparr>ss_revoked_at := Some now\<rparr>) rows)"
| refreshed: "s \<in> set rows \<Longrightarrow> session_ok now s \<Longrightarrow>
    sessions_step e now t rows (sql_update (\<lambda>x. ss_id x = ss_id s) (\<lambda>x. x\<lparr>ss_last_used_at := now\<rparr>) rows)"
| dropped: "sessions_step e now t rows (sql_delete P rows)"

lemma login_sessions: "sessions_step e now (Some token) (xd_sessions d) (xd_sessions (snd (handleLogin e now token req ip d)))"
proof -
  have den: "xd_sessions (snd (login_deny e now req ip d1)) = xd_sessions d1" for d1
    by (simp add: login_deny_def RecordFailure_def)
  have fin: "sessions_step e now (Some token) (xd_sessions d1) (xd_sessions (snd (login_finish e now token req ip i d1)))" for i d1
    by (auto simp: login_finish_def session_Create_def store_write_def limiter_Reset_def intro!: sessions_step.intros split: if_splits)
  have rest: "sessions_step e now (Some token) (xd_sessions d) (xd_sessions (snd (login_rest e now token req ip d)))"
  proof (cases "sql_one (\<lambda>c. ae_nocase e (cx_username c) = ae_nocase e (lr_Username req)) (xd_creds d)")
    case None
    then show ?thesis by (simp add: login_rest_def den sessions_step.same)
  next
    case (Some c)
    have sf: "xd_sessions d1 = xd_sessions d" if "second_factor e now (cx_id c) s (lr_TOTP req) d = (passed, d1)" for s passed d1
      using that second_factor_frame(3) snd_conv by metis
    show ?thesis using Some
      by (auto simp: login_rest_def den fin sessions_step.same split: option.split prod.split dest!: sf) (metis fin)
  qed
  show ?thesis using rest by (simp add: handleLogin_def Let_def sessions_step.same)
qed

lemma confirm_sessions: "xd_sessions (snd (handleTOTPConfirm e now i ip code codes d)) = xd_sessions d"
proof -
  have "xd_sessions (snd (confirm_check e now i ip code d)) = xd_sessions d"
    by (auto simp: confirm_check_def Let_def denyTOTPCode_def RecordFailure_def split: option.split prod.split)
  moreover have "xd_sessions (snd (confirm_write e now i codes d1)) = xd_sessions d1" for d1
    by (auto simp: confirm_write_def store_write_def limiter_Reset_def dest!: audit_tx_frame(3) split: sum.split prod.split)
  ultimately show ?thesis by (auto simp: handleTOTPConfirm_def split: prod.split option.split)
qed

lemma disable_sessions: "xd_sessions (snd (handleTOTPDisable e now i ip code d)) = xd_sessions d"
proof -
  have v: "xd_sessions d1 = xd_sessions d" if "disable_verified e now i s code d = (ok, d1)" for s ok d1
    using that disable_verified_frame(3) snd_conv by metis
  show ?thesis
    by (auto simp: handleTOTPDisable_def Let_def denyTOTPCode_def RecordFailure_def store_write_def
        dest!: v audit_tx_frame(3) split: option.split prod.split bool.split sum.split)
qed

lemma enrol_sessions: "xd_sessions (snd (handleTOTPEnrol e now i secret d)) = xd_sessions d"
  by (auto simp: handleTOTPEnrol_def enrol_check_def enrol_write_def store_write_def
      dest!: audit_tx_frame(3) split: option.split prod.split sum.split)

lemma authorize_sessions [simp]: "xd_sessions (snd (http_authorize e now route a p d)) = xd_sessions d"
  by (auto simp: http_authorize_def split: sum.split)

lemma authorize_cases:
  obtains ok d1 where "http_authorize e now route a p d = (ok, d1)" "xd_sessions d1 = xd_sessions d"
  using authorize_sessions [of e now route a p d] by (metis surj_pair snd_conv)

lemma audit_drop_sessions:
  "audit_tx e now a act t aft (drop_sessions i (set_cred j f d)) = Inr (u, d') \<Longrightarrow> xd_sessions d' = sql_delete (\<lambda>s. ss_admin_id s = i) (xd_sessions d)"
  by (drule audit_tx_frame(3)) (simp add: drop_sessions_def)

lemma password_sessions:
  "sessions_step e now t (xd_sessions d) (xd_sessions (snd (handleChangeMyPassword e now i ip cur new h d)))"
  by (auto simp: handleChangeMyPassword_def RecordFailure_def store_write_def intro: sessions_step.intros
      dest!: audit_drop_sessions split: option.split prod.split sum.split)

lemma reset_sessions:
  "sessions_step e now t (xd_sessions d) (xd_sessions (snd (handleResetAdminPassword e now route a i new h d)))"
  by (rule authorize_cases [of e now route a "''admin:manage''" d])
     (auto simp: handleResetAdminPassword_def store_write_def intro: sessions_step.intros
      dest!: audit_drop_sessions split: option.split prod.split sum.split bool.split panel_err.split)

lemma update_admin_tx_sessions:
  assumes "update_admin_tx e now a i role status d = Inr (u, d')"
  shows "xd_sessions d' = (if status = Some ''suspended'' then sql_delete (\<lambda>s. ss_admin_id s = i) (xd_sessions d) else xd_sessions d)"
  using assms by (auto simp: update_admin_tx_def Let_def drop_sessions_def dest!: audit_tx_frame(3) split: if_splits option.splits)

lemma update_admin_sessions:
  "sessions_step e now t (xd_sessions d) (xd_sessions (snd (handleUpdateAdmin e now route a i role status d)))"
  by (rule authorize_cases [of e now route a "''admin:manage''" d])
     (auto simp: handleUpdateAdmin_def store_write_def intro: sessions_step.intros
      dest!: update_admin_tx_sessions split: prod.split sum.split bool.split panel_err.split if_splits)

lemma request_sessions:
  "sessions_step e now t (xd_sessions d) (xd_sessions (snd (authMiddleware c e now cookie d)))"
proof (cases cookie)
  case None
  then show ?thesis by (simp add: authMiddleware_def sessions_step.same)
next
  case (Some token)
  have "xd_sessions (snd (authMiddleware c e now cookie d)) = xd_sessions (snd (session_Lookup e now token d))"
    using Some by (auto simp: authMiddleware_def split: prod.split option.split sum.split)
  then show ?thesis
    by (auto simp: session_Lookup_def session_lookup_def intro: sessions_step.same dest!: sql_one_Some intro!: sessions_step.refreshed split: option.split)
qed

lemma revoke_sessions: "sessions_step e now t (xd_sessions d) (xd_sessions (session_Revoke now i d))"
  by (simp add: session_Revoke_def sessions_step.revoked)

lemma auth_step_sessions: "sessions_step e now (mints x) (xd_sessions d) (xd_sessions (auth_step c e now x d))"
proof (cases x)
  case (OGuess g)
  then show ?thesis by (cases g) (simp_all add: login_sessions confirm_sessions disable_sessions sessions_step.same)
qed (simp_all add: password_sessions reset_sessions update_admin_sessions request_sessions enrol_sessions sessions_step.same
      handleLogout_def handleRevokeSession_def revoke_sessions split: option.split)

section \<open>A session ends for good\<close>

definition wf_sessions :: "auth_db \<Rightarrow> bool" where
  "wf_sessions d \<longleftrightarrow> distinct (map ss_id (xd_sessions d)) \<and> distinct (map ss_token_hash (xd_sessions d))
     \<and> (\<forall>s \<in> set (xd_sessions d). ss_expires_at s = ss_created_at s + AbsoluteLifetime)"

definition token_dead :: "auth_env \<Rightarrow> int \<Rightarrow> string \<Rightarrow> auth_db \<Rightarrow> bool" where
  "token_dead e now token d \<longleftrightarrow> (\<forall>s \<in> set (xd_sessions d). ss_token_hash s = ae_hash e token \<longrightarrow> \<not> session_ok now s)"

lemma sessions_step_wf:
  assumes "sessions_step e now t (xd_sessions d) (xd_sessions d')" "wf_sessions d"
  shows "wf_sessions d'"
  using assms
proof (cases rule: sessions_step.cases)
  case (opened token new)
  then show ?thesis using assms(2) next_rowid_fresh [of ss_id "xd_sessions d"] by (auto simp: wf_sessions_def)
qed (auto simp: wf_sessions_def set_sql_update intro: distinct_map_delete)

lemma session_ok_earlier: "session_ok now s \<Longrightarrow> t \<le> now \<Longrightarrow> session_ok t s"
  by (auto simp: session_ok_def)

lemma sessions_step_dead:
  assumes "sessions_step e now t (xd_sessions d) (xd_sessions d')" "wf_sessions d" "token_dead e t0 token d" "t0 \<le> now"
    "\<And>m. t = Some m \<Longrightarrow> ae_hash e m \<noteq> ae_hash e token"
  shows "token_dead e now token d'"
proof -
  have dead: "token_dead e now token d" using assms(3,4) session_ok_earlier by (auto simp: token_dead_def)
  from assms(1) show ?thesis
  proof (cases rule: sessions_step.cases)
    case (refreshed s)
    have "x = s" if "x \<in> set (xd_sessions d)" "ss_id x = ss_id s" for x
      using that refreshed(2) assms(2) by (auto simp: wf_sessions_def distinct_map dest: inj_onD)
    then show ?thesis using dead refreshed by (fastforce simp: token_dead_def set_sql_update)
  qed (use dead assms(5) in \<open>auto simp: token_dead_def set_sql_update session_ok_def\<close>)
qed

lemma dead_refused:
  assumes "token_dead e now token d"
  shows "session_lookup e now token refresh d = (None, d)"
  using assms by (auto simp: session_lookup_def token_dead_def dest!: sql_one_Some split: option.split)

lemma refused_dead:
  assumes "wf_sessions d" "fst (session_lookup e now token refresh d) = None" "token \<noteq> ''''"
  shows "token_dead e now token d"
proof (cases "sql_one (\<lambda>s. ss_token_hash s = ae_hash e token) (xd_sessions d)")
  case None
  then show ?thesis by (simp add: token_dead_def sql_one_None)
next
  case (Some s)
  then have "s \<in> set (xd_sessions d)" "ss_token_hash s = ae_hash e token" by (auto dest: sql_one_Some)
  then have "x = s" if "x \<in> set (xd_sessions d)" "ss_token_hash x = ae_hash e token" for x
    using that assms(1) by (metis wf_sessions_def distinct_map inj_onD)
  then show ?thesis using assms(2,3) Some by (auto simp: session_lookup_def token_dead_def split: if_splits)
qed

lemma auth_run_wf: "wf_sessions d \<Longrightarrow> wf_sessions (auth_run c e xs d)"
  by (induction c e xs d rule: auth_run.induct) (auto intro: sessions_step_wf [OF auth_step_sessions])

lemma auth_run_dead:
  assumes "wf_sessions d" "token_dead e t0 token d" "sorted (t0 # map fst xs)"
    "\<forall>(now, x) \<in> set xs. \<forall>m. mints x = Some m \<longrightarrow> ae_hash e m \<noteq> ae_hash e token"
  shows "\<forall>now \<ge> (last (t0 # map fst xs)). token_dead e now token (auth_run c e xs d)"
  using assms
proof (induction xs arbitrary: d t0)
  case Nil
  then show ?case using session_ok_earlier by (auto simp: token_dead_def)
next
  case (Cons x xs)
  obtain now y where x: "x = (now, y)" by fastforce
  have w: "wf_sessions (auth_step c e now y d)" using sessions_step_wf [OF auth_step_sessions Cons.prems(1)] .
  have dd: "token_dead e now token (auth_step c e now y d)"
    using sessions_step_dead [OF auth_step_sessions Cons.prems(1,2)] Cons.prems(3,4) x by auto
  show ?case using Cons.IH [OF w dd] Cons.prems(3,4) x by auto
qed

text \<open>C18: 
  A cookie that is refused once is refused for ever, whatever requests, logins, logouts and changes of accounts follow, as long as
  no login draws a token with the same hash.
\<close>
theorem session_ends_for_good:
  assumes "wf_sessions d" "fst (session_lookup e t0 token refresh d) = None" "token \<noteq> ''''"
    and "sorted (t0 # map fst xs)" "last (t0 # map fst xs) \<le> now"
    and "\<forall>(t, x) \<in> set xs. \<forall>m. mints x = Some m \<longrightarrow> ae_hash e m \<noteq> ae_hash e token"
  shows "fst (authMiddleware c e now (Some token) (auth_run c e xs d)) = None
       \<and> session_Validate e now token (auth_run c e xs d) = (None, auth_run c e xs d)"
proof -
  have "token_dead e now token (auth_run c e xs d)"
    using auth_run_dead [OF assms(1) refused_dead [OF assms(1-3)] assms(4,6)] assms(5) by blast
  then show ?thesis by (simp add: authMiddleware_def session_Lookup_def session_Validate_def dead_refused)
qed

section \<open>What ends a session\<close>


lemma accepted_row:
  assumes "session_lookup e now token refresh d = (Some s, d')"
  obtains s0 where "s0 \<in> set (xd_sessions d)" "ss_token_hash s0 = ae_hash e token" "session_ok now s0" "ss_id s = ss_id s0" "ss_admin_id s = ss_admin_id s0"
proof -
  obtain s0 where q: "sql_one (\<lambda>x. ss_token_hash x = ae_hash e token) (xd_sessions d) = Some s0"
    using assms by (auto simp: session_lookup_def split: if_splits option.splits)
  show thesis
    by (rule that [of s0]) (use assms q sql_one_Some [OF q] in \<open>auto simp: session_lookup_def split: if_splits\<close>)
qed

definition admin_cut_off :: "int \<Rightarrow> auth_db \<Rightarrow> bool" where
  "admin_cut_off i d \<longleftrightarrow> (\<forall>s \<in> set (xd_sessions d). ss_admin_id s \<noteq> i)"

lemma audit_drop_cut_off: "audit_tx e now a act t aft (drop_sessions i (set_cred j f d)) = Inr (u, d') \<Longrightarrow> admin_cut_off i d'"
  by (drule audit_drop_sessions) (simp add: admin_cut_off_def)

lemma cut_off_refused:
  assumes "admin_cut_off i d" "fst (authMiddleware c e now cookie d) = Some (a, sid)"
  shows "ac_AdminID a \<noteq> i"
proof -
  obtain token s d1 where l: "session_lookup e now token True d = (Some s, d1)" "LoadActor c (ss_admin_id s) (xd_panel d1) = Inr a"
    using assms(2) by (auto simp: authMiddleware_def session_Lookup_def split: option.splits prod.splits sum.splits)
  obtain s0 where "s0 \<in> set (xd_sessions d)" "ss_admin_id s = ss_admin_id s0" using accepted_row [OF l(1)] by metis
  moreover have "ac_AdminID a = ss_admin_id s" using l(2) by (auto simp: LoadActor_def Let_def split: option.splits)
  ultimately show ?thesis using assms(1) by (auto simp: admin_cut_off_def)
qed

text \<open>C36: 
  A password change, a reset by another admin and a suspension that succeed take effect at once: after them no cookie acts as that admin.
\<close>
theorem change_cuts_off:
  assumes "handleChangeMyPassword e now i ip cur new h d = (NoContent, d')
         \<or> handleResetAdminPassword e now route b i new h d = (NoContent, d')
         \<or> handleUpdateAdmin e now route b i role (Some ''suspended'') d = (NoContent, d')"
  shows "\<forall>t cookie a sid. fst (authMiddleware c e t cookie d') = Some (a, sid) \<longrightarrow> ac_AdminID a \<noteq> i"
proof -
  have "admin_cut_off i d'" using assms
  proof (elim disjE)
    assume "handleChangeMyPassword e now i ip cur new h d = (NoContent, d')"
    then show ?thesis by (auto simp: handleChangeMyPassword_def store_write_def dest!: audit_drop_cut_off split: if_splits option.splits prod.splits sum.splits)
  next
    assume "handleResetAdminPassword e now route b i new h d = (NoContent, d')"
    then show ?thesis by (auto simp: handleResetAdminPassword_def store_write_def dest!: audit_drop_cut_off
        split: if_splits option.splits prod.splits sum.splits bool.splits panel_err.splits)
  next
    assume "handleUpdateAdmin e now route b i role (Some ''suspended'') d = (NoContent, d')"
    then show ?thesis by (auto simp: handleUpdateAdmin_def store_write_def admin_cut_off_def dest!: update_admin_tx_sessions
        split: if_splits prod.splits sum.splits bool.splits panel_err.splits)
  qed
  then show ?thesis using cut_off_refused by blast
qed

section \<open>What a login proves\<close>

definition unspent :: "int \<Rightarrow> auth_db \<Rightarrow> bool" where
  "unspent m d \<longleftrightarrow> (\<exists>k \<in> set (xd_codes d). rc_id k = m \<and> rc_consumed_at k = None)"

lemma spend_won: "fst (fst (spend_code now i m d)) = unspent m d"
proof -
  have "sql_count (\<lambda>x. rc_id x = m \<and> rc_consumed_at x = None) (xd_codes d) = 0 \<longleftrightarrow> \<not> unspent m d"
    by (auto simp: sql_count_def sql_where_def filter_empty_conv unspent_def)
  then show ?thesis by (simp add: spend_code_def Let_def)
qed

lemma spend_spends: "\<not> unspent m (snd (spend_code now i m d))"
  by (simp add: spend_code_def Let_def unspent_def ball_sql_update)

text \<open>An unspent code of this admin that the typed one matches, spent in the state after.\<close>

definition recovered :: "auth_env \<Rightarrow> int \<Rightarrow> string \<Rightarrow> auth_db \<Rightarrow> auth_db \<Rightarrow> bool" where
  "recovered e i code d d' \<longleftrightarrow> (\<exists>k \<in> set (xd_codes d). rc_admin_id k = i \<and> rc_consumed_at k = None
     \<and> ae_verify e (rc_code_hash k) code = Some True \<and> \<not> unspent (rc_id k) d')"

definition second_factor_proved :: "auth_env \<Rightarrow> int \<Rightarrow> int \<Rightarrow> string \<Rightarrow> string \<Rightarrow> auth_db \<Rightarrow> auth_db \<Rightarrow> bool" where
  "second_factor_proved e now i sealed code d d' \<longleftrightarrow> (case ae_box e of None \<Rightarrow> False | Some (open_box, seal) \<Rightarrow>
     (case open_box sealed of None \<Rightarrow> False | Some secret \<Rightarrow> ae_totp e secret code now \<or> recovered e i code d d'))"

lemma consume_recovered:
  assumes "consumeRecoveryCode e now i code d = ((True, n), d')"
  shows "recovered e i code d d'"
proof -
  obtain k where k: "List.find (\<lambda>c. ae_verify e (rc_code_hash c) code = Some True) (spendable i d) = Some k"
    "spend_code now i (rc_id k) d = ((True, n), d')"
    using assms by (auto simp: consumeRecoveryCode_def match_code_def split: if_splits option.splits)
  have "k \<in> set (spendable i d)" "ae_verify e (rc_code_hash k) code = Some True" using k(1) by (auto simp: find_Some_iff)
  moreover have "\<not> unspent (rc_id k) d'" using k(2) spend_spends [of "rc_id k" now i d] by simp
  ultimately show ?thesis by (auto simp: recovered_def spendable_def sql_where_def)
qed

lemma second_factor_sound:
  assumes "second_factor e now i sealed code d = (True, d1)" "xd_codes d' = xd_codes d1"
  shows "second_factor_proved e now i sealed code d d'"
proof -
  obtain used n d2 where c: "consumeRecoveryCode e now i code d = ((used, n), d2)" by (metis surj_pair)
  have "recovered e i code d d'" if "used" "xd_codes d' = xd_codes d2"
    using consume_recovered [of e now i code d n d2] c that by (simp add: recovered_def unspent_def)
  then show ?thesis using assms c by (auto simp: second_factor_def second_factor_proved_def split: option.splits if_splits)
qed

lemma finish_token:
  assumes "login_finish e now token req ip i d = (Token t, d')"
  shows "t = token \<and> xd_codes d' = xd_codes d \<and> (\<exists>s \<in> set (xd_sessions d'). ss_token_hash s = ae_hash e token \<and> ss_admin_id s = i)"
  using assms by (auto simp: login_finish_def session_Create_def store_write_def limiter_Reset_def split: if_splits)

text \<open>C16: 
  A login that answers with a token was let through by the limiter, named an active admin and gave the password of that admin; and
  where a second factor is enrolled, the panel could open its secret and the code given was current for it or an unspent
  recovery code, which is spent. The token is one of a session of that admin.
\<close>
theorem login_requires_both_factors:
  assumes "handleLogin e now token req ip d = (Token t, d')"
  shows "\<not> 0 < limiter_Check e now (lr_Username req) ip d
       \<and> (\<exists>c \<in> set (xd_creds d). ae_nocase e (cx_username c) = ae_nocase e (lr_Username req)
            \<and> ae_verify e (cx_password_hash c) (lr_Password req) = Some True \<and> admin_status (cx_id c) d = ''active''
            \<and> (case sealed_secret (cx_totp_secret c) of None \<Rightarrow> True
               | Some sealed \<Rightarrow> second_factor_proved e now (cx_id c) sealed (lr_TOTP req) d d')
            \<and> (\<exists>s \<in> set (xd_sessions d'). ss_token_hash s = ae_hash e t \<and> ss_admin_id s = cx_id c))"
proof -
  have lim: "\<not> 0 < limiter_Check e now (lr_Username req) ip d" and rest: "login_rest e now token req ip d = (Token t, d')"
    using assms by (auto simp: handleLogin_def Let_def split: if_splits)
  have nd: "login_deny e now req ip d1 \<noteq> (Token t, d')" for d1 by (simp add: login_deny_def)
  obtain c where c: "sql_one (\<lambda>c. ae_nocase e (cx_username c) = ae_nocase e (lr_Username req)) (xd_creds d) = Some c"
    using rest nd by (auto simp: login_rest_def split: option.splits)
  have pw: "ae_verify e (cx_password_hash c) (lr_Password req) = Some True" "admin_status (cx_id c) d = ''active''"
    using rest nd c by (auto simp: login_rest_def split: if_splits)
  have "(case sealed_secret (cx_totp_secret c) of None \<Rightarrow> True | Some sealed \<Rightarrow> second_factor_proved e now (cx_id c) sealed (lr_TOTP req) d d')
      \<and> (\<exists>s \<in> set (xd_sessions d'). ss_token_hash s = ae_hash e t \<and> ss_admin_id s = cx_id c)"
  proof (cases "sealed_secret (cx_totp_secret c)")
    case None
    then have "login_finish e now token req ip (cx_id c) d = (Token t, d')" using rest c pw by (simp add: login_rest_def)
    from finish_token [OF this] show ?thesis using None by auto
  next
    case (Some sealed)
    obtain passed d1 where sf: "second_factor e now (cx_id c) sealed (lr_TOTP req) d = (passed, d1)" by fastforce
    then have p: "passed" and f: "login_finish e now token req ip (cx_id c) d1 = (Token t, d')"
      using rest c pw Some nd by (auto simp: login_rest_def split: if_splits)
    show ?thesis using finish_token [OF f] second_factor_sound [of e now "cx_id c" sealed "lr_TOTP req" d d1 d'] sf p Some by auto
  qed
  then show ?thesis using lim pw sql_one_Some [OF c] by blast
qed

section \<open>Races for a recovery code\<close>

text \<open>Requests that all found the code with this id, in the order of their transactions: who is told it won.\<close>

fun code_race :: "int \<Rightarrow> (int \<times> int) list \<Rightarrow> auth_db \<Rightarrow> bool list" where
  "code_race m [] d = []"
| "code_race m ((now, i) # rs) d = (case spend_code now i m d of ((won, n), d') \<Rightarrow> won # code_race m rs d')"


lemma spent_race: "\<not> unspent m d \<Longrightarrow> code_race m rs d = replicate (length rs) False"
proof (induction m rs d rule: code_race.induct)
  case (2 m now i rs d)
  obtain won n d' where s: "spend_code now i m d = ((won, n), d')" by (metis surj_pair)
  then have "\<not> won" "\<not> unspent m d'" using spend_won [of now i m d] spend_spends [of m now i d] "2.prems" by auto
  then show ?case using "2.IH" s by simp
qed simp

text \<open>Of the requests that race for one unspent recovery code exactly the first to write is told it won.\<close>
theorem recovery_code_won_once:
  assumes "unspent m d"
  shows "code_race m (r # rs) d = True # replicate (length rs) False"
proof -
  obtain now i where r: "r = (now, i)" by fastforce
  obtain won n d' where s: "spend_code now i m d = ((won, n), d')" by (metis surj_pair)
  then have "won" "\<not> unspent m d'" using spend_won [of now i m d] spend_spends [of m now i d] assms by auto
  then show ?thesis using r s spent_race by simp
qed

section \<open>The password form and the limiter\<close>

text \<open>
  The check of the current password is not limited: the answer is the same whatever failures are on record, so a session can try
  passwords without end.
\<close>
theorem password_change_unthrottled:
  "fst (handleChangeMyPassword e now i ip cur new h (d\<lparr>xd_attempts := attempts\<rparr>)) = fst (handleChangeMyPassword e now i ip cur new h d)"
proof -
  have "audit_tx e now a act t aft (drop_sessions i (set_cred i f (d\<lparr>xd_attempts := attempts\<rparr>)))
      = map_sum id (map_prod id (\<lambda>x. x\<lparr>xd_attempts := attempts\<rparr>)) (audit_tx e now a act t aft (drop_sessions i (set_cred i f d)))" for a act t aft f
    by (simp add: audit_tx_def drop_sessions_def set_cred_def bind_result_def split: sum.split)
  then show ?thesis by (auto simp: handleChangeMyPassword_def store_write_def split: option.split sum.split prod.split)
qed

section \<open>One factor at a time\<close>

text \<open>Each admin has one row, and no enrolment is pending while a factor is live.\<close>

definition wf_creds :: "auth_db \<Rightarrow> bool" where
  "wf_creds d \<longleftrightarrow> distinct (map cx_id (xd_creds d)) \<and> (\<forall>c \<in> set (xd_creds d). sealed_secret (cx_totp_secret c) \<noteq> None \<longrightarrow> cx_totp_pending c = None)"

lemma wf_creds_cong: "xd_creds d' = xd_creds d \<Longrightarrow> wf_creds d' = wf_creds d"
  by (simp add: wf_creds_def)

lemma set_cred_wf:
  assumes "wf_creds d" "\<And>c. cx_id (f c) = cx_id c"
    "\<And>c. c \<in> set (xd_creds d) \<Longrightarrow> cx_id c = i \<Longrightarrow> sealed_secret (cx_totp_secret (f c)) \<noteq> None \<Longrightarrow> cx_totp_pending (f c) = None"
  shows "wf_creds (set_cred i f d)"
  using assms by (simp add: wf_creds_def set_cred_def ball_sql_update)

lemma audit_wf_creds: "audit_tx e now a act t aft d = Inr (u, d') \<Longrightarrow> wf_creds d' = wf_creds d"
  by (drule audit_tx_frame(2)) (rule wf_creds_cong)

lemma wf_creds_frames [simp]:
  "wf_creds (best_effort e now a act tt t aft res d) = wf_creds d" "wf_creds (RecordFailure e now u ip d) = wf_creds d"
  "wf_creds (limiter_Reset e now u d) = wf_creds d" "wf_creds (drop_sessions i d) = wf_creds d"
  "wf_creds (d\<lparr>xd_codes := ks\<rparr>) = wf_creds d" "wf_creds (d\<lparr>xd_sessions := ss\<rparr>) = wf_creds d"
  "wf_creds (d\<lparr>xd_panel := p\<rparr>) = wf_creds d"
  by (simp_all add: wf_creds_def RecordFailure_def limiter_Reset_def drop_sessions_def)

lemma login_creds: "xd_creds (snd (handleLogin e now token req ip d)) = xd_creds d"
proof -
  have fin: "xd_creds (snd (login_finish e now token req ip i d1)) = xd_creds d1" for i d1
    by (auto simp: login_finish_def session_Create_def store_write_def limiter_Reset_def)
  have den: "xd_creds (snd (login_deny e now req ip d1)) = xd_creds d1" for d1
    by (simp add: login_deny_def RecordFailure_def)
  have sf: "second_factor e now i s (lr_TOTP req) d = (passed, d1) \<Longrightarrow> xd_creds d1 = xd_creds d" for i s passed d1
    using second_factor_frame(2) snd_conv by metis
  show ?thesis by (auto simp: handleLogin_def Let_def login_rest_def fin den split: option.split prod.split dest!: sf)
qed

lemma confirm_wf_creds: "wf_creds d \<Longrightarrow> wf_creds (snd (handleTOTPConfirm e now i ip code codes d))"
proof -
  assume w: "wf_creds d"
  have 1: "wf_creds (snd (confirm_check e now i ip code d))"
    using w by (auto simp: confirm_check_def Let_def denyTOTPCode_def split: option.split prod.split)
  have 2: "wf_creds (snd (confirm_write e now i codes d1))" if "wf_creds d1" for d1
    using that set_cred_wf [OF that, of "\<lambda>c. c\<lparr>cx_totp_secret := cx_totp_pending c, cx_totp_pending := None\<rparr>" i]
    by (auto simp: confirm_write_def store_write_def dest!: audit_wf_creds split: sum.split)
  show ?thesis using 1 2 by (auto simp: handleTOTPConfirm_def split: prod.split option.split)
qed

lemma disable_wf_creds: "wf_creds d \<Longrightarrow> wf_creds (snd (handleTOTPDisable e now i ip code d))"
proof -
  assume w: "wf_creds d"
  have v: "disable_verified e now i s code d = (ok, d1) \<Longrightarrow> wf_creds d1" for s ok d1
    using w wf_creds_cong disable_verified_frame(2) snd_conv by metis
  have c: "wf_creds d1 \<Longrightarrow> wf_creds (set_cred i (\<lambda>c. c\<lparr>cx_totp_secret := None, cx_totp_pending := None\<rparr>) d1)" for d1
    by (rule set_cred_wf) simp_all
  show ?thesis using w
    by (auto simp: handleTOTPDisable_def Let_def denyTOTPCode_def store_write_def c
        dest!: v audit_wf_creds split: option.split prod.split bool.split sum.split)
qed

lemma enrol_wf_creds: "wf_creds d \<Longrightarrow> wf_creds (snd (handleTOTPEnrol e now i secret d))"
proof -
  assume w: "wf_creds d"
  have only: "sealed_secret (cx_totp_secret c') = None"
    if "sql_one (\<lambda>c. cx_id c = i) (xd_creds d) = Some c" "sealed_secret (cx_totp_secret c) = None" "c' \<in> set (xd_creds d)" "cx_id c' = i" for c c'
  proof -
    have "c' = c" using that(1,3,4) w sql_one_Some [OF that(1)] by (metis wf_creds_def distinct_map inj_onD)
    then show ?thesis using that(2) by simp
  qed
  have "wf_creds (set_cred i (\<lambda>c. c\<lparr>cx_totp_pending := Some s\<rparr>) d)"
    if "sql_one (\<lambda>c. cx_id c = i) (xd_creds d) = Some c" "sealed_secret (cx_totp_secret c) = None" for c s
    using only [OF that] by (intro set_cred_wf [OF w]) auto
  then show ?thesis using w
    by (auto simp: handleTOTPEnrol_def enrol_check_def enrol_write_def store_write_def
        dest!: audit_wf_creds split: option.split prod.split sum.split)
qed

lemma password_wf_creds: "wf_creds d \<Longrightarrow> wf_creds (set_cred i (\<lambda>c. c\<lparr>cx_password_hash := h\<rparr>) d)"
  by (rule set_cred_wf) (auto simp: wf_creds_def)

lemma authorize_wf_creds: "http_authorize e now route a p d = (ok, d1) \<Longrightarrow> wf_creds d1 = wf_creds d"
  by (auto simp: http_authorize_def split: sum.splits)

lemma change_wf_creds: "wf_creds d \<Longrightarrow> wf_creds (snd (handleChangeMyPassword e now i ip cur new h d))"
  by (auto simp: handleChangeMyPassword_def store_write_def password_wf_creds dest!: audit_wf_creds split: option.split sum.split prod.split)

lemma reset_wf_creds: "wf_creds d \<Longrightarrow> wf_creds (snd (handleResetAdminPassword e now route a i new h d))"
  by (auto simp: handleResetAdminPassword_def store_write_def password_wf_creds
      dest!: audit_wf_creds authorize_wf_creds split: option.split sum.split prod.split bool.split panel_err.split)

lemma update_admin_tx_creds: "update_admin_tx e now a i role status d = Inr (u, d') \<Longrightarrow> wf_creds d' = wf_creds d"
  by (auto simp: update_admin_tx_def Let_def dest!: audit_wf_creds split: if_splits option.splits)

lemma update_wf_creds: "wf_creds d \<Longrightarrow> wf_creds (snd (handleUpdateAdmin e now route a i role status d))"
  by (auto simp: handleUpdateAdmin_def store_write_def dest!: authorize_wf_creds update_admin_tx_creds
      split: sum.split prod.split bool.split panel_err.split)

lemma request_wf_creds: "wf_creds (snd (authMiddleware c e now cookie d)) = wf_creds d"
  by (auto simp: authMiddleware_def session_Lookup_def session_lookup_def split: option.split prod.split sum.split if_splits)

text \<open>C37: 
  When requests do not overlap, no operation leaves an account with a live factor and a pending enrolment: to replace a live
  factor it has to be removed first, which asks for a code.
\<close>
theorem live_factor_not_replaced: "wf_creds d \<Longrightarrow> wf_creds (auth_run c e xs d)"
proof (induction c e xs d rule: auth_run.induct)
  case (2 c e now x xs d)
  have "wf_creds (auth_step c e now x d)"
  proof (cases x)
    case (OGuess g)
    then show ?thesis using "2.prems" wf_creds_cong [OF login_creds]
      by (cases g) (simp_all add: confirm_wf_creds disable_wf_creds)
  qed (use "2.prems" in \<open>simp_all add: enrol_wf_creds change_wf_creds reset_wf_creds update_wf_creds request_wf_creds
      handleLogout_def handleRevokeSession_def session_Revoke_def split: option.split\<close>)
  then show ?case using "2.IH" by simp
qed simp

section \<open>Instances\<close>

text \<open>Names fold to themselves, a hash is the text, a code is the secret, and sealing puts a mark in front.\<close>

definition env0 :: auth_env where
  "env0 = \<lparr>ae_lower = id, ae_nocase = id, ae_hash = id, ae_verify = (\<lambda>h p. Some (h = p)), ae_totp = (\<lambda>secret code now. code = secret),
     ae_box = Some ((\<lambda>s. case s of [] \<Rightarrow> None | _ # t \<Rightarrow> Some t), (\<lambda>s. Some (CHR ''$'' # s))), ae_blank = (\<lambda>s. s = ''''), ae_request = ''r1''\<rparr>"

definition auth0 :: auth_db where
  "auth0 = \<lparr>xd_panel = empty_db\<lparr>t_admins := [\<lparr>am_id = 1, am_role_id = 1, am_status = ''active'', am_delete_cap_bytes = None\<rparr>]\<rparr>,
     xd_creds = [\<lparr>cx_id = 1, cx_username = ''root'', cx_password_hash = ''hunter22'', cx_totp_secret = None, cx_totp_pending = Some ''$A''\<rparr>],
     xd_sessions = [], xd_attempts = [], xd_codes = []\<rparr>"

definition login0 :: login_request where
  "login0 = \<lparr>lr_UserAgent = ''ua'', lr_Username = ''root'', lr_Password = ''hunter22'', lr_TOTP = ''''\<rparr>"

lemma login0_ok: "fst (handleLogin env0 100 ''tok'' login0 ''10.0.0.9'' auth0) = Token ''tok''"
  by code_simp

theorem login_requires_both_factors_witness:
  "admin_status 1 auth0 = ''active'' \<and> (\<exists>s \<in> set (xd_sessions (snd (handleLogin env0 100 ''tok'' login0 ''10.0.0.9'' auth0))). ss_admin_id s = 1)"
proof -
  have "handleLogin env0 100 ''tok'' login0 ''10.0.0.9'' auth0 = (Token ''tok'', snd (handleLogin env0 100 ''tok'' login0 ''10.0.0.9'' auth0))"
    using login0_ok by (metis prod.collapse)
  from login_requires_both_factors [OF this] show ?thesis by (auto simp: auth0_def)
qed

definition attempts0 :: "(int \<times> guess) list" where
  "attempts0 = map (\<lambda>n. (n, GLogin ''tok'' (login0\<lparr>lr_Password := ''guess''\<rparr>) ''10.0.0.9'')) [1, 2, 3, 4, 5, 6, 7]"


definition with_session :: auth_db where
  "with_session = snd (handleLogin env0 100 ''tok'' login0 ''10.0.0.9'' auth0)"

lemma with_session_wf: "wf_sessions (snd (handleLogout 200 1 with_session))"
  by code_simp

theorem session_ends_for_good_witness:
  "fst (session_lookup env0 150 ''tok'' False with_session) \<noteq> None
   \<and> (\<forall>c. fst (session_lookup env0 400 ''tok'' False (auth_run c env0 [(300, OGuess (GLogin ''kot'' login0 ''10.0.0.9''))] (snd (handleLogout 200 1 with_session)))) = None)"
proof -
  have r: "fst (session_lookup env0 200 ''tok'' False (snd (handleLogout 200 1 with_session))) = None" by code_simp
  have o: "fst (session_lookup env0 150 ''tok'' False with_session) \<noteq> None" by code_simp
  show ?thesis
    using session_ends_for_good [OF with_session_wf r, of "[(300, OGuess (GLogin ''kot'' login0 ''10.0.0.9''))]" 400] o
    by (simp add: env0_def session_Validate_def)
qed

theorem change_cuts_off_witness:
  "handleChangeMyPassword env0 300 1 ''10.0.0.9'' ''hunter22'' ''longer-one'' (Some ''longer-one'') with_session
     = (NoContent, snd (handleChangeMyPassword env0 300 1 ''10.0.0.9'' ''hunter22'' ''longer-one'' (Some ''longer-one'') with_session))
   \<and> (\<forall>c t a sid. \<not> (fst (authMiddleware c env0 t (Some ''tok'')
        (snd (handleChangeMyPassword env0 300 1 ''10.0.0.9'' ''hunter22'' ''longer-one'' (Some ''longer-one'') with_session))) = Some (a, sid)
      \<and> ac_AdminID a = 1))"
proof -
  have "fst (handleChangeMyPassword env0 300 1 ''10.0.0.9'' ''hunter22'' ''longer-one'' (Some ''longer-one'') with_session) = NoContent" by code_simp
  then have e: "handleChangeMyPassword env0 300 1 ''10.0.0.9'' ''hunter22'' ''longer-one'' (Some ''longer-one'') with_session
     = (NoContent, snd (handleChangeMyPassword env0 300 1 ''10.0.0.9'' ''hunter22'' ''longer-one'' (Some ''longer-one'') with_session))"
    by (metis prod.collapse)
  show ?thesis using e change_cuts_off [OF disjI1 [OF e]] by blast
qed

theorem live_factor_not_replaced_witness: "wf_creds auth0 \<and> (\<forall>c. wf_creds (auth_run c env0 [(5, OEnrol 1 ''B'')] auth0))"
proof -
  have w: "wf_creds auth0" by code_simp
  show ?thesis using w live_factor_not_replaced [OF w] by blast
qed

theorem recovery_code_won_once_witness:
  "code_race 1 [(7, 1), (8, 1)] (auth0\<lparr>xd_codes := mint_codes 5 1 [''K''] []\<rparr>) = [True, False]"
proof -
  have u: "unspent 1 (auth0\<lparr>xd_codes := mint_codes 5 1 [''K''] []\<rparr>)" by code_simp
  show ?thesis using recovery_code_won_once [OF u, of "(7, 1)" "[(8, 1)]"] by simp
qed

section \<open>Overlapping enrolments\<close>


section \<open>The roster\<close>

lemma audit_tx_admins: "audit_tx e now a act t aft d = Inr (u, d') \<Longrightarrow> t_admins (xd_panel d') = t_admins (xd_panel d)"
  by (auto simp: audit_tx_def bind_result_def audit_InTx_def split: sum.splits if_splits)

definition roster_after :: "int \<Rightarrow> int option \<Rightarrow> string option \<Rightarrow> admin_row list \<Rightarrow> admin_row list" where
  "roster_after i role status rows = sql_update (\<lambda>x. am_id x = i) (\<lambda>x. case status of None \<Rightarrow> x | Some s \<Rightarrow> x\<lparr>am_status := s\<rparr>)
     (sql_update (\<lambda>x. am_id x = i) (\<lambda>x. case role of None \<Rightarrow> x | Some r \<Rightarrow> x\<lparr>am_role_id := r\<rparr>) rows)"

lemma update_admin_tx_admins:
  assumes "update_admin_tx e now a i role status d = Inr (u, d')"
  shows "t_admins (xd_panel d') = roster_after i role status (t_admins (xd_panel d))"
proof -
  have n: "sql_update P (\<lambda>x. x) rows = rows" for P and rows :: "admin_row list" by (simp add: sql_update_def map_idI)
  show ?thesis using assms
    by (auto simp: update_admin_tx_def Let_def drop_sessions_def roster_after_def n dest!: audit_tx_admins split: if_splits option.splits)
qed

lemma best_effort_admins [simp]: "t_admins (xd_panel (best_effort e now a act tt t aft res d)) = t_admins (xd_panel d)"
  by (auto simp: best_effort_def store_write_def bind_result_def audit_InTx_def)

lemma authorize_admins: "http_authorize e now route a p d = (ok, d1) \<Longrightarrow> t_admins (xd_panel d1) = t_admins (xd_panel d)"
  by (auto simp: http_authorize_def split: sum.splits)

lemma handleUpdateAdmin_roster:
  "t_admins (xd_panel (snd (handleUpdateAdmin e now route a i role status d))) = t_admins (xd_panel d)
   \<or> (i = ac_AdminID a \<longrightarrow> role = None \<and> (status = None \<or> status = Some ''active''))
     \<and> t_admins (xd_panel (snd (handleUpdateAdmin e now route a i role status d))) = roster_after i role status (t_admins (xd_panel d))"
proof -
  obtain ok d1 where au: "http_authorize e now route a ''admin:manage'' d = (ok, d1)" by fastforce
  have rows: "t_admins (xd_panel d1) = t_admins (xd_panel d)" using authorize_admins [OF au] .
  show ?thesis
  proof (cases "update_admin_tx e now a i role status d1")
    case (Inl err)
    then have "t_admins (xd_panel (snd (handleUpdateAdmin e now route a i role status d))) = t_admins (xd_panel d)"
      using au rows by (cases ok; cases err) (simp_all add: handleUpdateAdmin_def store_write_def)
    then show ?thesis ..
  next
    case (Inr r)
    obtain d2 where d2: "r = ((), d2)" by (cases r) simp
    have up: "t_admins (xd_panel d2) = roster_after i role status (t_admins (xd_panel d))"
      using update_admin_tx_admins [of e now a i role status d1 "()" d2] Inr d2 rows by simp
    show ?thesis using au rows Inr d2 up by (cases ok) (auto simp: handleUpdateAdmin_def store_write_def)
  qed
qed

text \<open>
  No request changes the role of the admin who makes it or suspends that admin, so requests that follow one another leave one
  admin who may manage the roster.
\<close>
theorem no_self_lockout:
  "\<forall>x \<in> set (t_admins (xd_panel (snd (handleUpdateAdmin e now route a i role status d)))). am_id x = ac_AdminID a \<longrightarrow>
     (\<exists>y \<in> set (t_admins (xd_panel d)). am_id y = am_id x \<and> am_role_id x = am_role_id y \<and> (am_status x = am_status y \<or> am_status x = ''active''))"
  using handleUpdateAdmin_roster [of e now route a i role status d]
proof (elim disjE conjE)
  assume guard: "i = ac_AdminID a \<longrightarrow> role = None \<and> (status = None \<or> status = Some ''active'')"
    and rows: "t_admins (xd_panel (snd (handleUpdateAdmin e now route a i role status d))) = roster_after i role status (t_admins (xd_panel d))"
  show ?thesis unfolding rows roster_after_def using guard by (auto simp: ball_sql_update split: option.splits)
qed auto

theorem no_self_lockout_witness:
  "\<exists>y \<in> set (t_admins (xd_panel auth0)). am_id y = 1
     \<and> am_status (hd (t_admins (xd_panel (snd (handleUpdateAdmin env0 5 (''PATCH'', ''/a'') \<lparr>ac_AdminID = 1, ac_RoleName = ''super_admin'',
       ac_IsSuper = True, ac_Perms = [''admin:manage''], ac_NodeIDs = [], ac_ServiceIDs = []\<rparr> 1 None (Some ''suspended'') auth0))))) \<in> {am_status y, ''active''}"
proof -
  let ?a = "\<lparr>ac_AdminID = 1, ac_RoleName = ''super_admin'', ac_IsSuper = True, ac_Perms = [''admin:manage''], ac_NodeIDs = [], ac_ServiceIDs = []\<rparr>"
  let ?rows = "t_admins (xd_panel (snd (handleUpdateAdmin env0 5 (''PATCH'', ''/a'') ?a 1 None (Some ''suspended'') auth0)))"
  have h: "hd ?rows \<in> set ?rows" "am_id (hd ?rows) = 1" by code_simp+
  show ?thesis using no_self_lockout [of env0 5 "(''PATCH'', ''/a'')" ?a 1 None "Some ''suspended''" auth0] h by fastforce
qed

text \<open>
  The guard looks at one request. Two super admins who suspend each other at the same time both succeed, for a request carries the
  actor it was admitted with; no admin is left who may log in.
\<close>
theorem mutual_suspension:
  "let super = (\<lambda>i. \<lparr>ac_AdminID = i, ac_RoleName = ''super_admin'', ac_IsSuper = True, ac_Perms = [''admin:manage''], ac_NodeIDs = [], ac_ServiceIDs = []\<rparr>);
       admin = (\<lambda>i. \<lparr>am_id = i, am_role_id = 1, am_status = ''active'', am_delete_cap_bytes = None\<rparr>);
       d = auth0\<lparr>xd_panel := empty_db\<lparr>t_admins := [admin 1, admin 2]\<rparr>\<rparr>;
       first = handleUpdateAdmin env0 5 (''PATCH'', ''/a'') (super 1) 2 None (Some ''suspended'') d;
       second = handleUpdateAdmin env0 5 (''PATCH'', ''/a'') (super 2) 1 None (Some ''suspended'') (snd first)
   in fst first = NoContent \<and> fst second = NoContent \<and> map am_status (t_admins (xd_panel (snd second))) = [''suspended'', ''suspended'']"
  by code_simp

end
