(* ===== verification/Deployment.thy ===== *)
theory Deployment
  imports Document
begin

text \<open>
  Deployments, \<open>src/internal/panel/deployment\<close>: the orchestrator with its four strategies and rollback (\<open>orchestrator.go\<close>), the recovery
  after a restart (\<open>recovery.go\<close>), the timeouts (\<open>timeout.go\<close>) and the checks of the validator they use (\<open>validator.go\<close>).

  An operation of the orchestrator is not one transaction but a sequence of them, between which anything else may run. It is a
  value of type \<open>prog\<close>: done, or an atomic access to the database that yields the rest of the program. The
  database carries the clock, which a \<open>time.Sleep\<close> advances, and a script of faults: every access to the store takes its next
  entry and fails with it if there is one. Stages are computed as in \<open>executeStaged\<close> from the products of the node count
  with 0.1, 0.5 and 1.0, which truncate to \<open>n div 10\<close>, \<open>n div 2\<close> and \<open>n\<close> in double precision for every count below \<open>2 ^ 50\<close>.
\<close>

section \<open>The database of deployments\<close>

record deployment_row =
  dp_id :: int
  dp_node_id :: "int option"
  dp_revision_id :: int
  dp_strategy :: string
  dp_status :: string
  dp_created_by :: int
  dp_created_at :: int
  dp_started_at :: "int option"
  dp_completed_at :: "int option"
  dp_error :: string

record node_status_row =
  ns_deployment_id :: int
  ns_node_id :: int
  ns_status :: string
  ns_started_at :: "int option"
  ns_completed_at :: "int option"
  ns_error :: string

record deploy_db =
  dd_panel :: panel_db
  dd_deployments :: "deployment_row list"
  dd_nodes :: "node_status_row list"
  dd_now :: int
  dd_faults :: "string option list"

section \<open>Programs of atomic accesses\<close>

datatype 'a prog = Done 'a | Act "deploy_db \<Rightarrow> 'a prog \<times> deploy_db"

primrec bind_prog :: "'a prog \<Rightarrow> ('a \<Rightarrow> 'b prog) \<Rightarrow> 'b prog" where
  "bind_prog (Done x) k = k x"
| "bind_prog (Act f) k = Act (map_prod (\<lambda>p. p k) id \<circ> (map_prod bind_prog id \<circ> f))"

primrec run_prog :: "'a prog \<Rightarrow> deploy_db \<Rightarrow> 'a \<times> deploy_db" where
  "run_prog (Done x) d = (x, d)"
| "run_prog (Act f) d = (let (p, d') = (map_prod run_prog id \<circ> f) d in p d')"

text \<open>A fallible step followed by the rest, Go's \<open>if err != nil { return err }\<close>.\<close>

definition try_prog :: "(string + 'a) prog \<Rightarrow> ('a \<Rightarrow> (string + 'b) prog) \<Rightarrow> (string + 'b) prog" where
  "try_prog p k = bind_prog p (\<lambda>r. case r of Inl e \<Rightarrow> Done (Inl e) | Inr x \<Rightarrow> k x)"

text \<open>\<open>fmt.Errorf\<close> with a prefix and \<open>%w\<close>.\<close>

definition wrap_err :: "string \<Rightarrow> (string + 'a) prog \<Rightarrow> (string + 'a) prog" where
  "wrap_err msg p = bind_prog p (\<lambda>r. Done (case r of Inl e \<Rightarrow> Inl (msg @ e) | Inr x \<Rightarrow> Inr x))"

text \<open>An access to the store: the next fault, or \<open>f\<close>.\<close>

definition access :: "(deploy_db \<Rightarrow> (string + 'a) \<times> deploy_db) \<Rightarrow> (string + 'a) prog" where
  "access f = Act (\<lambda>d. case dd_faults d of
     Some e # fs \<Rightarrow> (Done (Inl e), d\<lparr>dd_faults := fs\<rparr>)
   | fs \<Rightarrow> (let (r, d') = f (d\<lparr>dd_faults := tl fs\<rparr>) in (Done r, d')))"

definition read_store :: "(deploy_db \<Rightarrow> string + 'a) \<Rightarrow> (string + 'a) prog" where
  "read_store f = access (\<lambda>d. (f d, d))"

definition write_store :: "(deploy_db \<Rightarrow> string + ('a \<times> deploy_db)) \<Rightarrow> (string + 'a) prog" where
  "write_store f = access (\<lambda>d. case f d of Inl e \<Rightarrow> (Inl e, d) | Inr (x, d') \<Rightarrow> (Inr x, d'))"

definition set_deployment :: "(deployment_row \<Rightarrow> bool) \<Rightarrow> (deployment_row \<Rightarrow> deployment_row) \<Rightarrow> deploy_db \<Rightarrow> deploy_db" where
  "set_deployment P f d = d\<lparr>dd_deployments := sql_update P f (dd_deployments d)\<rparr>"

definition set_nodes :: "(node_status_row \<Rightarrow> bool) \<Rightarrow> (node_status_row \<Rightarrow> node_status_row) \<Rightarrow> deploy_db \<Rightarrow> deploy_db" where
  "set_nodes P f d = d\<lparr>dd_nodes := sql_update P f (dd_nodes d)\<rparr>"

definition exec_store :: "(deploy_db \<Rightarrow> deploy_db) \<Rightarrow> (string + unit) prog" where
  "exec_store f = write_store (\<lambda>d. Inr ((), f d))"

definition sleep :: "int \<Rightarrow> unit prog" where
  "sleep s = Act (\<lambda>d. (Done (), d\<lparr>dd_now := dd_now d + s\<rparr>))"

section \<open>The validator\<close>

definition ValidateRevision :: "int \<Rightarrow> int \<Rightarrow> (string + bool) prog" where
  "ValidateRevision nodeID revision =
     try_prog (wrap_err ''get revision: '' (read_store (\<lambda>d.
         if \<exists>r \<in> set (t_node_revisions (dd_panel d)). rev_node_id r = nodeID \<and> rev_revision r = revision
         then Inr () else Inl ''sql: no rows in result set''))) (\<lambda>_.
     wrap_err ''list nodes: '' (read_store (\<lambda>d. Inr (\<exists>n \<in> set (t_nodes (dd_panel d)). n_id n = nodeID))))"

definition health_of :: "panel_db \<Rightarrow> int \<Rightarrow> string" where
  "health_of d nodeID = (case sql_one (\<lambda>n. n_id n = nodeID) (t_nodes d) of
     None \<Rightarrow> ''unknown''
   | Some n \<Rightarrow> if n_status n = ''online'' then ''healthy''
       else if n_status n = ''offline'' \<or> n_status n = ''disabled'' then ''unhealthy'' else ''degraded'')"

definition CheckNodeHealth :: "int list \<Rightarrow> (string + (int \<times> string) list) prog" where
  "CheckNodeHealth nodeIDs = wrap_err ''list nodes: '' (read_store (\<lambda>d. Inr (map (\<lambda>n. (n, health_of (dd_panel d) n)) nodeIDs)))"

section \<open>The orchestrator\<close>

definition getDeployment :: "int \<Rightarrow> (string + deployment_row) prog" where
  "getDeployment i = read_store (\<lambda>d. case sql_one (\<lambda>r. dp_id r = i) (dd_deployments d) of
     None \<Rightarrow> Inl ''sql: no rows in result set'' | Some r \<Rightarrow> Inr r)"

definition getPendingNodes :: "int \<Rightarrow> (string + int list) prog" where
  "getPendingNodes i = read_store (\<lambda>d. Inr (sort (map ns_node_id (sql_where (\<lambda>r. ns_deployment_id r = i \<and> ns_status r = ''pending'') (dd_nodes d)))))"

definition updateDeploymentStatus :: "int \<Rightarrow> string \<Rightarrow> (string + unit) prog" where
  "updateDeploymentStatus i status = exec_store (set_deployment (\<lambda>r. dp_id r = i) (\<lambda>r. r\<lparr>dp_status := status\<rparr>))"

definition updateNodeStatus :: "int \<Rightarrow> int \<Rightarrow> string \<Rightarrow> string \<Rightarrow> (string + unit) prog" where
  "updateNodeStatus i n status msg =
     exec_store (set_nodes (\<lambda>r. ns_deployment_id r = i \<and> ns_node_id r = n) (\<lambda>r. r\<lparr>ns_status := status, ns_error := msg\<rparr>))"

definition insert_deployment :: "int \<Rightarrow> int \<Rightarrow> string \<Rightarrow> int \<Rightarrow> deploy_db \<Rightarrow> string + (int \<times> deploy_db)" where
  "insert_deployment nodeID revision strategy adminID d =
     (if \<not> (\<exists>a \<in> set (t_admins (dd_panel d)). am_id a = adminID) \<or> \<not> (\<exists>n \<in> set (t_nodes (dd_panel d)). n_id n = nodeID) then Inl ''FOREIGN KEY constraint failed''
      else if strategy \<notin> {''all_at_once'', ''canary'', ''staged'', ''rolling''} then Inl ''CHECK constraint failed''
      else (let i = next_rowid dp_id (dd_deployments d)
            in Inr (i, d\<lparr>dd_deployments := dd_deployments d @ [\<lparr>dp_id = i, dp_node_id = Some nodeID, dp_revision_id = revision, dp_strategy = strategy,
                   dp_status = ''pending'', dp_created_by = adminID, dp_created_at = dd_now d, dp_started_at = None, dp_completed_at = None, dp_error = ''''\<rparr>],
                 dd_nodes := dd_nodes d @ [\<lparr>ns_deployment_id = i, ns_node_id = nodeID, ns_status = ''pending'', ns_started_at = None,
                   ns_completed_at = None, ns_error = ''''\<rparr>]\<rparr>)))"

definition CreateDeployment :: "int \<Rightarrow> string \<Rightarrow> int \<Rightarrow> (string + int) prog" where
  "CreateDeployment nodeID strategy adminID =
     try_prog (wrap_err ''get current revision: '' (read_store (\<lambda>d. Inr (case map rev_revision (sql_where (\<lambda>r. rev_node_id r = nodeID)
         (t_node_revisions (dd_panel d))) of [] \<Rightarrow> 0 | x # xs \<Rightarrow> fold max xs x)))) (\<lambda>current.
       if current = 0 then Done (Inl (''node '' @ fmt_d nodeID @ '' has no revisions''))
       else try_prog (wrap_err ''validate revision: '' (ValidateRevision nodeID current)) (\<lambda>valid.
         if \<not> valid then Done (Inl ''revision validation failed: 1 conflicts found'')
         else wrap_err ''create deployment: '' (write_store (insert_deployment nodeID current strategy adminID))))"

definition applyToNode :: "int \<Rightarrow> int \<Rightarrow> int \<Rightarrow> (string + unit) prog" where
  "applyToNode i n revision =
     try_prog (updateNodeStatus i n ''applying'' '''') (\<lambda>_.
     try_prog (wrap_err ''update started_at: '' (exec_store (\<lambda>d.
       set_nodes (\<lambda>r. ns_deployment_id r = i \<and> ns_node_id r = n) (\<lambda>r. r\<lparr>ns_started_at := Some (dd_now d)\<rparr>) d))) (\<lambda>_.
     wrap_err ''update node status: '' (exec_store (\<lambda>d. set_nodes (\<lambda>r. ns_deployment_id r = i \<and> ns_node_id r = n)
       (\<lambda>r. r\<lparr>ns_status := ''completed'', ns_completed_at := Some (dd_now d), ns_error := ''''\<rparr>) d))))"

fun apply_all :: "int \<Rightarrow> int \<Rightarrow> int list \<Rightarrow> nat \<Rightarrow> nat prog" where
  "apply_all i revision [] failures = Done failures"
| "apply_all i revision (n # ns) failures = bind_prog (applyToNode i n revision) (\<lambda>r.
     apply_all i revision ns (case r of Inl e \<Rightarrow> failures + 1 | Inr _ \<Rightarrow> failures))"

definition executeAllAtOnce :: "int \<Rightarrow> (string + unit) prog" where
  "executeAllAtOnce i =
     try_prog (getPendingNodes i) (\<lambda>ns. try_prog (getDeployment i) (\<lambda>dep.
       bind_prog (apply_all i (dp_revision_id dep) ns 0) (\<lambda>failures.
         Done (if failures > 0 then Inl (fmt_d (int failures) @ ''/'' @ fmt_d (int (length ns)) @ '' nodes failed deployment'') else Inr ()))))"


fun apply_each :: "int \<Rightarrow> int \<Rightarrow> (int \<Rightarrow> string) \<Rightarrow> int list \<Rightarrow> (string + unit) prog" where
  "apply_each i revision msg [] = Done (Inr ())"
| "apply_each i revision msg (n # ns) = try_prog (wrap_err (msg n) (applyToNode i n revision)) (\<lambda>_. apply_each i revision msg ns)"

definition executeCanary :: "int \<Rightarrow> (string + unit) prog" where
  "executeCanary i =
     try_prog (getPendingNodes i) (\<lambda>ns.
       case ns of [] \<Rightarrow> Done (Inl ''no nodes to deploy'')
       | canary # rest \<Rightarrow>
           try_prog (getDeployment i) (\<lambda>dep.
           try_prog (wrap_err ''canary deployment failed: '' (applyToNode i canary (dp_revision_id dep))) (\<lambda>_.
           bind_prog (sleep 30) (\<lambda>_.
           try_prog (wrap_err ''health check failed: '' (CheckNodeHealth [canary])) (\<lambda>health.
             if map_of health canary \<noteq> Some ''healthy'' then
               try_prog (updateNodeStatus i canary ''failed'' ''canary health check failed'') (\<lambda>_.
                 Done (Inl ''canary node unhealthy after deployment''))
             else apply_each i (dp_revision_id dep) (\<lambda>n. ''node '' @ fmt_d n @ '' deployment failed: '') rest)))))"

definition stage_count :: "nat \<Rightarrow> nat \<Rightarrow> nat \<Rightarrow> nat" where
  "stage_count nodes deployed want = (let c = (if want \<le> deployed then deployed + 1 else want) in if c > nodes then nodes else c)"

fun run_stages_from :: "int \<Rightarrow> int \<Rightarrow> int list \<Rightarrow> nat \<Rightarrow> (string \<times> nat) list \<Rightarrow> (string + unit) prog" where
  "run_stages_from i revision ns deployed [] = Done (Inr ())"
| "run_stages_from i revision ns deployed ((pct, want) # stages) =
     (let c = stage_count (length ns) deployed want in
      try_prog (apply_each i revision (\<lambda>n. ''stage '' @ pct @ ''% node '' @ fmt_d n @ '' failed: '') (drop deployed (take c ns))) (\<lambda>_.
        if c < length ns then bind_prog (sleep 30) (\<lambda>_. run_stages_from i revision ns c stages)
        else run_stages_from i revision ns c stages))"

definition executeStaged :: "int \<Rightarrow> (string + unit) prog" where
  "executeStaged i =
     try_prog (getPendingNodes i) (\<lambda>ns.
       if ns = [] then Done (Inl ''no nodes to deploy'')
       else try_prog (getDeployment i) (\<lambda>dep.
         run_stages_from i (dp_revision_id dep) ns 0
           [(''10'', length ns div 10), (''50'', length ns div 2), (''100'', length ns)]))"

fun roll_each :: "int \<Rightarrow> int \<Rightarrow> int list \<Rightarrow> (string + unit) prog" where
  "roll_each i revision [] = Done (Inr ())"
| "roll_each i revision (n # ns) =
     try_prog (wrap_err (''node '' @ fmt_d n @ '' deployment failed: '') (applyToNode i n revision)) (\<lambda>_.
     bind_prog (sleep 10) (\<lambda>_.
     try_prog (wrap_err (''health check for node '' @ fmt_d n @ '' failed: '') (CheckNodeHealth [n])) (\<lambda>health.
       if map_of health n \<noteq> Some ''healthy'' then Done (Inl (''node '' @ fmt_d n @ '' unhealthy after deployment''))
       else roll_each i revision ns)))"

definition executeRolling :: "int \<Rightarrow> (string + unit) prog" where
  "executeRolling i = try_prog (getPendingNodes i) (\<lambda>ns. try_prog (getDeployment i) (\<lambda>dep. roll_each i (dp_revision_id dep) ns))"

subsection \<open>Rollback\<close>

definition rollbackNode :: "int \<Rightarrow> int \<Rightarrow> int \<Rightarrow> (string + unit) prog" where
  "rollbackNode i n revision = wrap_err ''update status: '' (updateNodeStatus i n ''rolled_back'' '''')"

fun rollback_all :: "int \<Rightarrow> int \<Rightarrow> int list \<Rightarrow> nat \<Rightarrow> nat prog" where
  "rollback_all i revision [] failures = Done failures"
| "rollback_all i revision (n # ns) failures = bind_prog (rollbackNode i n revision) (\<lambda>r.
     rollback_all i revision ns (case r of Inl e \<Rightarrow> failures + 1 | Inr _ \<Rightarrow> failures))"

definition previous_revision :: "int \<Rightarrow> int \<Rightarrow> deploy_db \<Rightarrow> string + int" where
  "previous_revision i revision d =
     (case sql_one (\<lambda>r. ns_deployment_id r = i) (dd_nodes d) of
        None \<Rightarrow> Inl ''no previous revision found for rollback''
      | Some s \<Rightarrow> (case rev (sort (map rev_revision (sql_where (\<lambda>r. rev_node_id r = ns_node_id s \<and> rev_revision r < revision) (t_node_revisions (dd_panel d))))) of
          [] \<Rightarrow> Inl ''no previous revision found for rollback'' | p # _ \<Rightarrow> Inr p))"

definition initiateRollback :: "int \<Rightarrow> (string + unit) prog" where
  "initiateRollback i =
     try_prog (wrap_err ''query deployed nodes: '' (read_store (\<lambda>d. Inr (sort (map ns_node_id
         (sql_where (\<lambda>r. ns_deployment_id r = i \<and> (ns_status r = ''completed'' \<or> ns_status r = ''applying'')) (dd_nodes d))))))) (\<lambda>ns.
       if ns = [] then Done (Inr ())
       else try_prog (wrap_err ''get deployment: '' (getDeployment i)) (\<lambda>dep.
         try_prog (read_store (previous_revision i (dp_revision_id dep))) (\<lambda>previous.
           bind_prog (rollback_all i previous ns 0) (\<lambda>failures.
             Done (if failures > 0 then Inl (fmt_d (int failures) @ ''/'' @ fmt_d (int (length ns)) @ '' nodes failed to rollback'') else Inr ())))))"

definition finish_deployment :: "int \<Rightarrow> string \<Rightarrow> string \<Rightarrow> (string + unit) prog" where
  "finish_deployment i status msg = wrap_err ''update completion: '' (exec_store (\<lambda>d.
     set_deployment (\<lambda>r. dp_id r = i) (\<lambda>r. r\<lparr>dp_status := status, dp_completed_at := Some (dd_now d), dp_error := msg\<rparr>) d))"

subsection \<open>Execution\<close>

definition in_progress_elsewhere :: "int \<Rightarrow> deploy_db \<Rightarrow> nat" where
  "in_progress_elsewhere i d = length (filter (\<lambda>r. dp_status r = ''in_progress'' \<and> dp_id r \<noteq> i
     \<and> (\<exists>s \<in> set (dd_nodes d). ns_deployment_id s = dp_id r
          \<and> (\<exists>t \<in> set (dd_nodes d). ns_deployment_id t = i \<and> ns_node_id t = ns_node_id s))) (dd_deployments d))"

definition claim_deployment :: "int \<Rightarrow> (string + unit) prog" where
  "claim_deployment i = write_store (\<lambda>d.
     let n = in_progress_elsewhere i d in
     if n > 0 then Inl (''cannot deploy: '' @ fmt_d (int n) @ '' active deployments to overlapping nodes'')
     else Inr ((), set_deployment (\<lambda>r. dp_id r = i) (\<lambda>r. r\<lparr>dp_status := ''in_progress''\<rparr>) d))"

definition execute_strategy :: "string \<Rightarrow> int \<Rightarrow> (string + unit) prog" where
  "execute_strategy strategy i =
     (if strategy = ''all_at_once'' then executeAllAtOnce i
      else if strategy = ''canary'' then executeCanary i
      else if strategy = ''staged'' then executeStaged i
      else if strategy = ''rolling'' then executeRolling i
      else Done (Inl (''unknown strategy: '' @ strategy)))"

definition ExecuteDeployment :: "int \<Rightarrow> (string + unit) prog" where
  "ExecuteDeployment i =
     try_prog (wrap_err ''get deployment: '' (getDeployment i)) (\<lambda>dep.
       if dp_status dep \<noteq> ''pending'' then
         Done (Inl (''deployment '' @ fmt_d i @ '' is not pending (status: '' @ dp_status dep @ '')''))
       else try_prog (claim_deployment i) (\<lambda>_.
         try_prog (wrap_err ''update started_at: '' (exec_store (\<lambda>d.
             set_deployment (\<lambda>r. dp_id r = i) (\<lambda>r. r\<lparr>dp_started_at := Some (dd_now d)\<rparr>) d))) (\<lambda>_.
         bind_prog (execute_strategy (dp_strategy dep) i) (\<lambda>res.
           case res of
             Inr _ \<Rightarrow> finish_deployment i ''completed'' ''''
           | Inl err \<Rightarrow> bind_prog (initiateRollback i) (\<lambda>rb.
               try_prog (case rb of
                   Inl rerr \<Rightarrow> finish_deployment i ''failed'' (err @ ''; rollback failed: '' @ rerr)
                 | Inr _ \<Rightarrow> finish_deployment i ''rolled_back'' err) (\<lambda>_. Done (Inl err)))))))"

definition RollbackDeployment :: "int \<Rightarrow> (string + unit) prog" where
  "RollbackDeployment i =
     try_prog (wrap_err ''get deployment: '' (getDeployment i)) (\<lambda>dep.
       if dp_status dep \<noteq> ''completed'' \<and> dp_status dep \<noteq> ''failed'' then
         Done (Inl (''cannot rollback deployment with status '' @ dp_status dep))
       else try_prog (wrap_err ''update status: '' (updateDeploymentStatus i ''in_progress'')) (\<lambda>_.
         bind_prog (initiateRollback i) (\<lambda>rb.
           case rb of
             Inr _ \<Rightarrow> finish_deployment i ''rolled_back'' ''''
           | Inl err \<Rightarrow> try_prog (finish_deployment i ''failed'' (''rollback failed: '' @ err)) (\<lambda>_. Done (Inl err)))))"

section \<open>Recovery and timeouts\<close>

definition fail_open_nodes :: "int \<Rightarrow> deploy_db \<Rightarrow> deploy_db" where
  "fail_open_nodes i = set_nodes (\<lambda>r. ns_deployment_id r = i \<and> (ns_status r = ''pending'' \<or> ns_status r = ''applying''))
     (\<lambda>r. r\<lparr>ns_status := ''failed''\<rparr>)"

fun recover_each :: "int list \<Rightarrow> unit prog" where
  "recover_each [] = Done ()"
| "recover_each (i # is) = bind_prog (exec_store (\<lambda>d. fail_open_nodes i
     (set_deployment (\<lambda>r. dp_id r = i) (\<lambda>r. r\<lparr>dp_status := ''failed'', dp_completed_at := Some (dd_now d)\<rparr>) d))) (\<lambda>_. recover_each is)"

definition RecoverStaleDeployments :: "(string + unit) prog" where
  "RecoverStaleDeployments =
     try_prog (wrap_err ''query stale deployments: '' (read_store (\<lambda>d. Inr (map dp_id (sql_where (\<lambda>r. dp_status r = ''in_progress'') (dd_deployments d)))))) (\<lambda>stale.
       bind_prog (recover_each stale) (\<lambda>_. Done (Inr ())))"

text \<open>Durations are nanoseconds, stored times are seconds.\<close>

abbreviation second :: int where "second \<equiv> 1000000000"

record timeout_config =
  tc_AllAtOnce :: int
  tc_Canary :: int
  tc_Staged :: int
  tc_Rolling :: int

definition DefaultTimeoutConfig :: timeout_config where
  "DefaultTimeoutConfig = \<lparr>tc_AllAtOnce = 300 * second, tc_Canary = 900 * second, tc_Staged = 1800 * second, tc_Rolling = 2700 * second\<rparr>"

definition timeout_of :: "timeout_config \<Rightarrow> string \<Rightarrow> int" where
  "timeout_of c strategy =
     (if strategy = ''all_at_once'' then tc_AllAtOnce c
      else if strategy = ''canary'' then tc_Canary c
      else if strategy = ''staged'' then tc_Staged c
      else if strategy = ''rolling'' then tc_Rolling c
      else 300 * second)"

text \<open>\<open>now.Sub(time.Unix(t, 0))\<close> saturates at the ends of \<open>int64\<close>.\<close>

definition elapsed_since :: "int \<Rightarrow> int \<Rightarrow> int" where
  "elapsed_since now t = max (- (2 ^ 63)) (min (2 ^ 63 - 1) (now - t * second))"

definition timed_out :: "timeout_config \<Rightarrow> int \<Rightarrow> deployment_row \<Rightarrow> bool" where
  "timed_out c now r \<longleftrightarrow> dp_status r = ''in_progress''
     \<and> (case dp_started_at r of None \<Rightarrow> False | Some t \<Rightarrow> elapsed_since now t > timeout_of c (dp_strategy r))"

fun time_out_each :: "int \<Rightarrow> (int \<times> string) list \<Rightarrow> unit prog" where
  "time_out_each now [] = Done ()"
| "time_out_each now ((i, msg) # is) = bind_prog (exec_store (\<lambda>d. fail_open_nodes i
     (set_deployment (\<lambda>r. dp_id r = i) (\<lambda>r. r\<lparr>dp_status := ''failed'', dp_completed_at := Some (now div second), dp_error := msg\<rparr>) d))) (\<lambda>_. time_out_each now is)"

text \<open>\<open>fmt_dur\<close> rounds the elapsed duration to seconds and prints it; \<open>now\<close> is in nanoseconds.\<close>

definition EnforceTimeouts :: "(int \<Rightarrow> string) \<Rightarrow> timeout_config \<Rightarrow> int \<Rightarrow> (string + unit) prog" where
  "EnforceTimeouts fmt_dur c now =
     try_prog (wrap_err ''query in-progress deployments: '' (read_store (\<lambda>d. Inr (map (\<lambda>r. (dp_id r,
         ''deployment timed out after '' @ fmt_dur (elapsed_since now (the (dp_started_at r))) @ '' (strategy: '' @ dp_strategy r @ '')''))
         (sql_where (timed_out c now) (dd_deployments d)))))) (\<lambda>late.
       bind_prog (time_out_each now late) (\<lambda>_. Done (Inr ())))"

section \<open>Interleaving\<close>

text \<open>Several operations at once: a schedule picks, at every point, the one whose next atomic access happens. An operation that is
  never picked again is one whose process has died.\<close>

fun step_prog :: "'a prog \<Rightarrow> deploy_db \<Rightarrow> 'a prog \<times> deploy_db" where
  "step_prog (Done x) d = (Done x, d)"
| "step_prog (Act f) d = f d"

fun interleave :: "nat list \<Rightarrow> 'a prog list \<Rightarrow> deploy_db \<Rightarrow> 'a prog list \<times> deploy_db" where
  "interleave [] ps d = (ps, d)"
| "interleave (t # ts) ps d =
     (if t < length ps then let (p, d') = step_prog (ps ! t) d in interleave ts (ps[t := p]) d' else interleave ts ps d)"

text \<open>Every atomic access of the program keeps \<open>P\<close>, whatever the answers it gets.\<close>

primrec safe :: "(deploy_db \<Rightarrow> bool) \<Rightarrow> 'a prog \<Rightarrow> bool" where
  "safe P (Done x) = True"
| "safe P (Act f) = (\<forall>d. P d \<longrightarrow> P (snd (f d)) \<and> fst (map_prod (safe P) id (f d)))"

named_theorems safety

lemma prog_induct [case_names Done Act]:
  assumes "\<And>x. Q (Done x)" and "\<And>f. (\<And>d. Q (fst (f d))) \<Longrightarrow> Q (Act f)"
  shows "Q p"
proof (induction p)
  case (Act f)
  have "Q (fst (f d))" for d by (rule Act [OF rangeI [of f d]]) (cases "f d", simp)
  then show ?case by (rule assms(2))
qed (rule assms(1))

lemma safe_Done [safety]: "safe P (Done x)"
  by simp

lemma safe_bind [safety]: "safe P p \<Longrightarrow> (\<And>x. safe P (k x)) \<Longrightarrow> safe P (bind_prog p k)"
  by (induction p rule: prog_induct) (auto simp: map_prod_def split_def)

lemma safe_try [safety]: "safe P p \<Longrightarrow> (\<And>x. safe P (k x)) \<Longrightarrow> safe P (try_prog p k)"
  unfolding try_prog_def by (intro safe_bind) (auto split: sum.splits)

lemma safe_if [safety]: "safe P p \<Longrightarrow> safe P q \<Longrightarrow> safe P (if b then p else q)"
  by simp

lemma safe_sum [safety]: "(\<And>e. safe P (f e)) \<Longrightarrow> (\<And>x. safe P (g x)) \<Longrightarrow> safe P (case r of Inl e \<Rightarrow> f e | Inr x \<Rightarrow> g x)"
  by (cases r) auto

lemma safe_list [safety]: "safe P p \<Longrightarrow> (\<And>x xs. safe P (f x xs)) \<Longrightarrow> safe P (case l of [] \<Rightarrow> p | x # xs \<Rightarrow> f x xs)"
  by (cases l) auto

lemma safe_wrap [safety]: "safe P p \<Longrightarrow> safe P (wrap_err msg p)"
  unfolding wrap_err_def by (intro safe_bind) auto

lemma safe_step: "safe P p \<Longrightarrow> P d \<Longrightarrow> P (snd (step_prog p d)) \<and> safe P (fst (step_prog p d))"
  by (cases p) auto

lemma safe_interleave:
  "(\<And>p. p \<in> set ps \<Longrightarrow> safe P p) \<Longrightarrow> P d \<Longrightarrow> P (snd (interleave ts ps d))"
proof (induction ts arbitrary: ps d)
  case (Cons t ts)
  show ?case
  proof (cases "t < length ps")
    case True
    obtain p d' where s: "step_prog (ps ! t) d = (p, d')" by fastforce
    have "safe P p" "P d'" using safe_step [of P "ps ! t" d] Cons.prems True s by auto
    then have "safe P q" if "q \<in> set (ps[t := p])" for q
      using that Cons.prems(1) set_update_subset_insert [of ps t p] by auto
    then show ?thesis using Cons.IH [of "ps[t := p]" d'] \<open>P d'\<close> s True by simp
  qed (use Cons in simp)
qed simp

lemma safe_run: "safe P p \<Longrightarrow> P d \<Longrightarrow> P (snd (run_prog p d))"
  by (induction p arbitrary: d rule: prog_induct) (auto simp: map_prod_def split_def Let_def)

text \<open>What an access has to keep.\<close>

definition ignores_faults :: "(deploy_db \<Rightarrow> bool) \<Rightarrow> bool" where
  "ignores_faults P \<longleftrightarrow> (\<forall>d. P d \<longrightarrow> P (d\<lparr>dd_faults := tl (dd_faults d)\<rparr>))"

lemma safe_access: "ignores_faults P \<Longrightarrow> (\<And>d. P d \<Longrightarrow> P (snd (f d))) \<Longrightarrow> safe P (access f)"
  unfolding access_def ignores_faults_def
  by (auto simp: Let_def split_def split: list.splits option.splits)

lemma safe_read [safety]: "ignores_faults P \<Longrightarrow> safe P (read_store f)"
  unfolding read_store_def by (rule safe_access) auto

lemma safe_write: "ignores_faults P \<Longrightarrow> (\<And>d x d'. P d \<Longrightarrow> f d = Inr (x, d') \<Longrightarrow> P d') \<Longrightarrow> safe P (write_store f)"
  unfolding write_store_def by (rule safe_access) (auto split: sum.splits)

lemma safe_exec: "ignores_faults P \<Longrightarrow> (\<And>d. P d \<Longrightarrow> P (f d)) \<Longrightarrow> safe P (exec_store f)"
  unfolding exec_store_def by (rule safe_write) auto

section \<open>At most one deployment per node\<close>

definition deploys_to :: "deploy_db \<Rightarrow> int \<Rightarrow> int set" where
  "deploys_to d i = ns_node_id ` {r \<in> set (dd_nodes d). ns_deployment_id r = i}"

definition active :: "deploy_db \<Rightarrow> int set" where
  "active d = dp_id ` {r \<in> set (dd_deployments d). dp_status r = ''in_progress''}"

definition exclusive :: "deploy_db \<Rightarrow> bool" where
  "exclusive d \<longleftrightarrow> (\<forall>i \<in> active d. \<forall>j \<in> active d. i \<noteq> j \<longrightarrow> deploys_to d i \<inter> deploys_to d j = {})"

lemma exclusive_faults: "ignores_faults exclusive"
  by (simp add: ignores_faults_def exclusive_def active_def deploys_to_def)

lemma exclusive_shrinks:
  assumes "exclusive d" and "active d' \<subseteq> active d" and "\<And>i. i \<in> active d \<Longrightarrow> deploys_to d' i \<subseteq> deploys_to d i"
  shows "exclusive d'"
  using assms unfolding exclusive_def by blast

lemma deploys_to_keys: "n \<in> deploys_to d i \<longleftrightarrow> (i, n) \<in> set (map (\<lambda>r. (ns_deployment_id r, ns_node_id r)) (dd_nodes d))"
  by (auto simp: deploys_to_def)

lemma deploys_to_set_nodes [simp]:
  assumes "\<And>r. ns_deployment_id (f r) = ns_deployment_id r" and "\<And>r. ns_node_id (f r) = ns_node_id r"
  shows "deploys_to (set_nodes P f d) i = deploys_to d i"
  using assms by (simp add: set_eq_iff deploys_to_keys set_nodes_def del: set_map)

lemma deploys_to_set_deployment [simp]: "deploys_to (set_deployment P f d) i = deploys_to d i"
  by (simp add: deploys_to_def set_deployment_def)

lemma active_set_nodes [simp]: "active (set_nodes P f d) = active d"
  by (simp add: active_def set_nodes_def)

lemma active_set_deployment:
  assumes "\<And>r. dp_id (f r) = dp_id r" and "\<And>r. dp_status (f r) = ''in_progress'' \<Longrightarrow> dp_status r = ''in_progress''"
  shows "active (set_deployment P f d) \<subseteq> active d"
proof
  fix i assume "i \<in> active (set_deployment P f d)"
  then obtain r where "r \<in> set (dd_deployments d)" "i = dp_id (if P r then f r else r)" "dp_status (if P r then f r else r) = ''in_progress''"
    by (auto simp: active_def set_deployment_def set_sql_update)
  then show "i \<in> active d" using assms by (auto simp: active_def split: if_splits)
qed

text \<open>Updates that cannot make a second deployment active on a node.\<close>

lemma exclusive_set_nodes:
  assumes "\<And>r. ns_deployment_id (f r) = ns_deployment_id r" and "\<And>r. ns_node_id (f r) = ns_node_id r" and "exclusive d"
  shows "exclusive (set_nodes P f d)"
  using assms by (simp add: exclusive_def)

lemma exclusive_set_deployment:
  assumes "\<And>r. dp_id (f r) = dp_id r" and "\<And>r. dp_status (f r) = ''in_progress'' \<Longrightarrow> dp_status r = ''in_progress''" and "exclusive d"
  shows "exclusive (set_deployment P f d)"
  using assms(3) active_set_deployment [of f P d, OF assms(1,2)] by (rule exclusive_shrinks) (simp_all only: deploys_to_set_deployment order_refl)

lemma exclusive_insert:
  assumes "insert_deployment nodeID revision strategy adminID d = Inr (i, d')" and "exclusive d"
  shows "exclusive d'"
proof (rule exclusive_shrinks [OF assms(2)])
  have i: "i = next_rowid dp_id (dd_deployments d)" using assms(1) by (auto simp: insert_deployment_def Let_def split: if_splits)
  show "active d' \<subseteq> active d" using assms(1) by (auto simp: insert_deployment_def Let_def active_def split: if_splits)
  fix j assume "j \<in> active d"
  then have "j \<noteq> i" using i next_rowid_greater [of _ "dd_deployments d" dp_id] by (force simp: active_def)
  then show "deploys_to d' j \<subseteq> deploys_to d j"
    using assms(1) i by (auto simp: insert_deployment_def Let_def deploys_to_def split: if_splits)
qed

lemma claim_disjoint:
  assumes "in_progress_elsewhere i d = 0" and "j \<in> active d" and "j \<noteq> i"
  shows "deploys_to d i \<inter> deploys_to d j = {}"
  using assms unfolding in_progress_elsewhere_def active_def deploys_to_def by (fastforce simp: filter_empty_conv)

lemma exclusive_claim:
  assumes "in_progress_elsewhere i d = 0" and "exclusive d"
  shows "exclusive (set_deployment (\<lambda>r. dp_id r = i) (\<lambda>r. r\<lparr>dp_status := ''in_progress''\<rparr>) d)" (is "exclusive ?d")
proof -
  have sub: "active ?d \<subseteq> insert i (active d)" by (auto simp: active_def set_deployment_def set_sql_update)
  show ?thesis unfolding exclusive_def
  proof (intro ballI impI)
    fix j k assume jk: "j \<in> active ?d" "k \<in> active ?d" "j \<noteq> k"
    show "deploys_to ?d j \<inter> deploys_to ?d k = {}"
      using claim_disjoint [OF assms(1), of j] claim_disjoint [OF assms(1), of k] assms(2) jk subsetD [OF sub jk(1)] subsetD [OF sub jk(2)]
      unfolding exclusive_def deploys_to_set_deployment by (metis inf_commute insertE)
  qed
qed

section \<open>Which operations keep the exclusion\<close>

lemmas excl = exclusive_faults safe_exec [OF exclusive_faults] safe_write [OF exclusive_faults] safe_read [OF exclusive_faults]

lemma safe_sleep [safety]: "safe exclusive (sleep s)"
  by (simp add: sleep_def exclusive_def active_def deploys_to_def)

lemma safe_update_node [safety]: "safe exclusive (updateNodeStatus i n status msg)"
  unfolding updateNodeStatus_def by (intro excl exclusive_set_nodes) auto

lemma safe_reads [safety]:
  "safe exclusive (getDeployment i)" "safe exclusive (getPendingNodes i)" "safe exclusive (CheckNodeHealth ns)" "safe exclusive (ValidateRevision n r)"
  unfolding getDeployment_def getPendingNodes_def CheckNodeHealth_def ValidateRevision_def by (intro safety excl)+

lemma safe_apply [safety]: "safe exclusive (applyToNode i n revision)"
  unfolding applyToNode_def by (intro safety excl exclusive_set_nodes) auto

lemma safe_apply_all [safety]: "safe exclusive (apply_all i revision ns k)"
  by (induction ns arbitrary: k) (auto intro!: safety split: sum.splits)

lemma safe_apply_each [safety]: "safe exclusive (apply_each i revision msg ns)"
  by (induction ns) (auto intro!: safety)

lemma safe_stages [safety]: "safe exclusive (run_stages_from i revision ns k stages)"
  by (induction i revision ns k stages rule: run_stages_from.induct) (auto simp: Let_def intro!: safety)

lemma safe_roll [safety]: "safe exclusive (roll_each i revision ns)"
  by (induction ns) (auto intro!: safety)

lemma safe_rollback_all [safety]: "safe exclusive (rollback_all i revision ns k)"
  by (induction ns arbitrary: k) (auto simp: rollbackNode_def intro!: safety split: sum.splits)

lemma safe_initiate [safety]: "safe exclusive (initiateRollback i)"
  unfolding initiateRollback_def by (auto intro!: safety excl)

lemma safe_finish: "status \<noteq> ''in_progress'' \<Longrightarrow> safe exclusive (finish_deployment i status msg)"
  unfolding finish_deployment_def by (intro safety excl exclusive_set_deployment) auto

lemma safe_claim [safety]: "safe exclusive (claim_deployment i)"
  unfolding claim_deployment_def by (rule excl) (auto simp: Let_def intro!: exclusive_claim split: if_splits)

lemma safe_strategy [safety]: "safe exclusive (execute_strategy strategy i)"
  unfolding execute_strategy_def executeAllAtOnce_def executeCanary_def executeStaged_def executeRolling_def
  by (intro safety)

lemma safe_execute [safety]: "safe exclusive (ExecuteDeployment i)"
  unfolding ExecuteDeployment_def
  by (intro safety safe_finish excl(2) exclusive_set_deployment) auto

lemma safe_create [safety]: "safe exclusive (CreateDeployment nodeID strategy adminID)"
  unfolding CreateDeployment_def by (intro safety excl) (rule exclusive_insert)

lemma exclusive_fail_open: "exclusive d \<Longrightarrow> exclusive (fail_open_nodes i d)"
  unfolding fail_open_nodes_def by (rule exclusive_set_nodes) auto

lemma safe_recover [safety]: "safe exclusive RecoverStaleDeployments"
proof -
  have "safe exclusive (recover_each is)" for "is"
    by (induction "is") (auto intro!: safety excl(2) exclusive_fail_open exclusive_set_deployment)
  then show ?thesis unfolding RecoverStaleDeployments_def by (auto intro!: safety excl)
qed

lemma safe_timeouts [safety]: "safe exclusive (EnforceTimeouts fmt_dur c now)"
proof -
  have "safe exclusive (time_out_each now is)" for "is"
    by (induction now "is" rule: time_out_each.induct) (auto intro!: safety excl(2) exclusive_fail_open exclusive_set_deployment)
  then show ?thesis unfolding EnforceTimeouts_def by (auto intro!: safety excl)
qed

section \<open>Operations that run at the same time\<close>

datatype deploy_op =
    OpCreate int string int
  | OpExecute int
  | OpRollback int
  | OpTimeouts int
  | OpRecover

fun op_prog :: "(int \<Rightarrow> string) \<Rightarrow> timeout_config \<Rightarrow> deploy_op \<Rightarrow> (string + unit) prog" where
  "op_prog fmt_dur c (OpCreate n strategy admin) = try_prog (CreateDeployment n strategy admin) (\<lambda>_. Done (Inr ()))"
| "op_prog fmt_dur c (OpExecute i) = ExecuteDeployment i"
| "op_prog fmt_dur c (OpRollback i) = RollbackDeployment i"
| "op_prog fmt_dur c (OpTimeouts now) = EnforceTimeouts fmt_dur c now"
| "op_prog fmt_dur c OpRecover = RecoverStaleDeployments"

text \<open>C5: no node is deployed to twice at once. However creations, executions, timeout sweeps and recoveries interleave, whatever
  store accesses fail and wherever a process dies, two different deployments in progress never share a node.\<close>
theorem deployment_exclusion:
  assumes "exclusive d" and "\<And>i. OpRollback i \<notin> set ops"
  shows "exclusive (snd (interleave schedule (map (op_prog fmt_dur c) ops) d))"
proof (rule safe_interleave [where P = exclusive])
  fix p assume "p \<in> set (map (op_prog fmt_dur c) ops)"
  then obtain x where x: "x \<in> set ops" "p = op_prog fmt_dur c x" by auto
  show "safe exclusive p"
  proof (cases x)
    case (OpRollback i)
    then show ?thesis using x assms(2) by blast
  qed (use x in \<open>auto intro!: safety\<close>)
qed (rule assms(1))

text \<open>Two deployments of the same node.\<close>

definition dep_row :: "int \<Rightarrow> string \<Rightarrow> string \<Rightarrow> deployment_row" where
  "dep_row i strategy status = \<lparr>dp_id = i, dp_node_id = Some 1, dp_revision_id = 2, dp_strategy = strategy, dp_status = status,
     dp_created_by = 1, dp_created_at = 50, dp_started_at = None, dp_completed_at = None, dp_error = ''''\<rparr>"

definition dep_node :: "int \<Rightarrow> int \<Rightarrow> string \<Rightarrow> node_status_row" where
  "dep_node i n status = \<lparr>ns_deployment_id = i, ns_node_id = n, ns_status = status, ns_started_at = None, ns_completed_at = None, ns_error = ''''\<rparr>"

definition demo_deploy :: "string \<Rightarrow> deploy_db" where
  "demo_deploy first = \<lparr>dd_panel = empty_db, dd_deployments = [dep_row 1 ''rolling'' first, dep_row 2 ''all_at_once'' ''pending''],
     dd_nodes = [dep_node 1 1 first, dep_node 2 1 ''pending''], dd_now = 100, dd_faults = []\<rparr>"

theorem deployment_exclusion_witness:
  "exclusive (snd (interleave [0, 1, 0, 1, 1] (map (op_prog (\<lambda>_. ''5m0s'') DefaultTimeoutConfig) [OpExecute 1, OpExecute 2]) (demo_deploy ''pending'')))"
  by (rule deployment_exclusion) (code_simp, simp)

text \<open>a rollback does not take part in the exclusion. It marks its deployment as in progress without looking at the others, so
  an operator who rolls back a finished deployment while a later one is running makes two active deployments of one node.\<close>
theorem rollback_breaks_exclusion:
  "exclusive (demo_deploy ''completed'')
   \<and> \<not> exclusive (snd (interleave [0, 0, 1, 1] (map (op_prog (\<lambda>_. ''5m0s'') DefaultTimeoutConfig) [OpExecute 2, OpRollback 1]) (demo_deploy ''completed'')))"
  by code_simp

fun outcome :: "'a prog \<Rightarrow> 'a option" where
  "outcome (Done x) = Some x"
| "outcome (Act f) = None"

abbreviation demo_run :: "nat list \<Rightarrow> deploy_op list \<Rightarrow> (string + unit) prog list \<times> deploy_db" where
  "demo_run schedule ops \<equiv> interleave schedule (map (op_prog (\<lambda>_. ''5m0s'') DefaultTimeoutConfig) ops) (demo_deploy ''completed'')"

text \<open>the check that a deployment is pending is made before the transaction that claims it, and that transaction looks at the
  other deployments only. Two requests to execute one deployment both pass the check, both carry it out, and both report success.\<close>
theorem double_execution:
  "map outcome (fst (demo_run [0, 1] [OpExecute 2, OpExecute 2])) = [None, None]
   \<and> map outcome (fst (demo_run ([0, 1, 0, 0, 1, 1, 0, 1] @ replicate 5 0 @ replicate 5 1) [OpExecute 2, OpExecute 2])) = [Some (Inr ()), Some (Inr ())]"
  by (rule conjI; code_simp)

text \<open>a timeout is not final. The sweep marks a deployment that runs too long as failed, and its executor, which does not look
  again, overwrites that with success.\<close>
theorem timeout_overwritten:
  "map dp_status (dd_deployments (snd (demo_run ([0, 0, 0] @ [1, 1]) [OpExecute 2, OpTimeouts (500 * second)]))) = [''completed'', ''failed'']
   \<and> map dp_status (dd_deployments (snd (demo_run ([0, 0, 0] @ [1, 1] @ replicate 6 0) [OpExecute 2, OpTimeouts (500 * second)]))) = [''completed'', ''completed'']
   \<and> outcome (hd (fst (demo_run ([0, 0, 0] @ [1, 1] @ replicate 6 0) [OpExecute 2, OpTimeouts (500 * second)]))) = Some (Inr ())"
  by (intro conjI; code_simp)

section \<open>An execution on its own\<close>

named_theorems runs

lemma run_bind: "run_prog (bind_prog p k) d = (case run_prog p d of (x, d') \<Rightarrow> run_prog (k x) d')"
  by (induction p arbitrary: d rule: prog_induct) (auto simp: map_prod_def split_def Let_def)

lemma run_try [runs]: "run_prog (try_prog p k) d = (case run_prog p d of (Inl e, d') \<Rightarrow> (Inl e, d') | (Inr x, d') \<Rightarrow> run_prog (k x) d')"
  by (auto simp: try_prog_def run_bind split: prod.splits sum.splits)

lemma run_wrap [runs]: "run_prog (wrap_err msg p) d = (case run_prog p d of (Inl e, d') \<Rightarrow> (Inl (msg @ e), d') | r \<Rightarrow> r)"
  by (auto simp: wrap_err_def run_bind split: prod.splits sum.splits)

lemma run_access: "dd_faults d = [] \<Longrightarrow> run_prog (access f) d = f d"
  by (cases d) (simp add: access_def Let_def split_def)

lemma run_read [runs]: "dd_faults d = [] \<Longrightarrow> run_prog (read_store f) d = (f d, d)"
  by (simp add: read_store_def run_access)

lemma run_write [runs]: "dd_faults d = [] \<Longrightarrow>
    run_prog (write_store f) d = (case f d of Inl e \<Rightarrow> (Inl e, d) | Inr (x, d') \<Rightarrow> (Inr x, d'))"
  by (simp add: write_store_def run_access)

lemma run_exec [runs]: "dd_faults d = [] \<Longrightarrow> run_prog (exec_store f) d = (Inr (), f d)"
  by (simp add: exec_store_def run_write)

lemma run_sleep [runs]: "run_prog (sleep s) d = ((), d\<lparr>dd_now := dd_now d + s\<rparr>)"
  by (simp add: sleep_def)

lemma set_nodes_frame [simp]:
  "dd_faults (set_nodes P f d) = dd_faults d" "dd_deployments (set_nodes P f d) = dd_deployments d" "dd_panel (set_nodes P f d) = dd_panel d"
  "dd_now (set_nodes P f d) = dd_now d" "dd_nodes (set_nodes P f d) = sql_update P f (dd_nodes d)"
  by (simp_all add: set_nodes_def)

lemma set_deployment_frame [simp]:
  "dd_faults (set_deployment P f d) = dd_faults d" "dd_nodes (set_deployment P f d) = dd_nodes d" "dd_panel (set_deployment P f d) = dd_panel d"
  "dd_now (set_deployment P f d) = dd_now d" "dd_deployments (set_deployment P f d) = sql_update P f (dd_deployments d)"
  by (simp_all add: set_deployment_def)

text \<open>Until its last write, an execution does not touch the table of deployments.\<close>

definition settled :: "deployment_row list \<Rightarrow> deploy_db \<Rightarrow> bool" where
  "settled D d \<longleftrightarrow> dd_faults d = [] \<and> dd_deployments d = D"

lemma settled_faults: "ignores_faults (settled D)"
  by (simp add: ignores_faults_def settled_def)

lemmas stl = settled_faults safe_exec [OF settled_faults] safe_read [OF settled_faults]

named_theorems settling

lemma settled_sleep [settling]: "safe (settled D) (sleep s)"
  by (simp add: sleep_def settled_def)

lemma settled_nodes [settling]: "safe (settled D) (updateNodeStatus i n status msg)" "safe (settled D) (applyToNode i n revision)"
  unfolding updateNodeStatus_def applyToNode_def by (intro safety stl; simp add: settled_def)+

lemma settled_reads [settling]:
  "safe (settled D) (getDeployment i)" "safe (settled D) (getPendingNodes i)" "safe (settled D) (CheckNodeHealth ns)"
  unfolding getDeployment_def getPendingNodes_def CheckNodeHealth_def by (intro safety stl)+

lemma settled_loops [settling]:
  "safe (settled D) (apply_all i revision ns k)" "safe (settled D) (apply_each i revision msg ns)"
  "safe (settled D) (roll_each i revision ns)" "safe (settled D) (rollback_all i revision ns k)"
  by (induction ns arbitrary: k) (auto simp: rollbackNode_def intro!: safety settling split: sum.splits)

lemma settled_stages [settling]: "safe (settled D) (run_stages_from i revision ns k stages)"
  by (induction i revision ns k stages rule: run_stages_from.induct) (auto simp: Let_def intro!: safety settling)

lemma settled_strategy [settling]: "safe (settled D) (execute_strategy strategy i)"
  unfolding execute_strategy_def executeAllAtOnce_def executeCanary_def executeStaged_def executeRolling_def by (intro safety settling)

lemma settled_initiate [settling]: "safe (settled D) (initiateRollback i)"
  unfolding initiateRollback_def by (intro safety settling stl)

lemma settled_run:
  assumes "safe (settled D) p" and "dd_faults d = []" and "dd_deployments d = D"
  obtains x d' where "run_prog p d = (x, d')" and "dd_faults d' = []" and "dd_deployments d' = D"
  using safe_run [OF assms(1), of d] assms(2,3) by (cases "run_prog p d") (auto simp: settled_def)

lemma sql_one_update_same:
  "(\<And>r. dp_id (f r) = dp_id r) \<Longrightarrow> sql_one (\<lambda>r. dp_id r = i) (sql_update (\<lambda>r. dp_id r = i) f rows) = map_option f (sql_one (\<lambda>r. dp_id r = i) rows)"
  by (induction rows) auto

lemma run_getDeployment:
  "dd_faults d = [] \<Longrightarrow> sql_one (\<lambda>r. dp_id r = i) (dd_deployments d) = Some r \<Longrightarrow> run_prog (getDeployment i) d = (Inr r, d)"
  by (simp add: getDeployment_def runs)

text \<open>The row an execution leaves behind.\<close>

definition ended :: "int \<Rightarrow> string \<Rightarrow> string \<Rightarrow> deploy_db \<Rightarrow> deploy_db \<Rightarrow> bool" where
  "ended i status msg d d' \<longleftrightarrow> (\<exists>r t u. sql_one (\<lambda>r. dp_id r = i) (dd_deployments d) = Some r
     \<and> sql_one (\<lambda>r. dp_id r = i) (dd_deployments d')
         = Some (r\<lparr>dp_status := status, dp_started_at := Some t, dp_completed_at := Some u, dp_error := msg\<rparr>)
     \<and> sql_delete (\<lambda>r. dp_id r = i) (dd_deployments d') = sql_delete (\<lambda>r. dp_id r = i) (dd_deployments d))"

lemma sql_delete_update: "(\<And>r. P r \<Longrightarrow> P (f r)) \<Longrightarrow> sql_delete P (sql_update P f rows) = sql_delete P rows"
  by (induction rows) (auto simp: sql_delete_def)

lemma run_finish:
  assumes "dd_faults d' = []" and "dd_deployments d' = sql_update (\<lambda>r. dp_id r = i) (\<lambda>r. r\<lparr>dp_started_at := Some t\<rparr>)
      (sql_update (\<lambda>r. dp_id r = i) (\<lambda>r. r\<lparr>dp_status := ''in_progress''\<rparr>) (dd_deployments d))"
    and "sql_one (\<lambda>r. dp_id r = i) (dd_deployments d) = Some r"
  shows "\<exists>d''. run_prog (finish_deployment i status msg) d' = (Inr (), d'') \<and> ended i status msg d d''"
  using assms unfolding finish_deployment_def ended_def
  by (simp add: runs sql_one_update_same sql_delete_update) (rule exI [of _ t], rule exI [of _ "dd_now d'"], cases r, simp)

lemma execute_end:
  assumes "dd_faults d = []" and "sql_one (\<lambda>r. dp_id r = i) (dd_deployments d) = Some r" and "dp_status r = ''pending''"
    and "in_progress_elsewhere i d = 0"
  defines "d1 \<equiv> set_deployment (\<lambda>r. dp_id r = i) (\<lambda>r. r\<lparr>dp_started_at := Some (dd_now d)\<rparr>)
      (set_deployment (\<lambda>r. dp_id r = i) (\<lambda>r. r\<lparr>dp_status := ''in_progress''\<rparr>) d)"
  obtains d2 d' where "run_prog (execute_strategy (dp_strategy r) i) d1 = (Inr (), d2)" "run_prog (ExecuteDeployment i) d = (Inr (), d')"
      "ended i ''completed'' '''' d d'" "dd_nodes d' = dd_nodes d2"
  | e d2 d' rest where "run_prog (execute_strategy (dp_strategy r) i) d1 = (Inl e, d2)" "run_prog (ExecuteDeployment i) d = (Inl e, d')" "ended i ''rolled_back'' e d d' \<or> ended i ''failed'' (e @ ''; rollback failed: '' @ rest) d d'"
proof -
  have start: "run_prog (ExecuteDeployment i) d = run_prog (bind_prog (execute_strategy (dp_strategy r) i) (\<lambda>res. case res of
             Inr _ \<Rightarrow> finish_deployment i ''completed'' ''''
           | Inl err \<Rightarrow> bind_prog (initiateRollback i) (\<lambda>rb.
               try_prog (case rb of
                   Inl rerr \<Rightarrow> finish_deployment i ''failed'' (err @ ''; rollback failed: '' @ rerr)
                 | Inr _ \<Rightarrow> finish_deployment i ''rolled_back'' err) (\<lambda>_. Done (Inl err))))) d1"
    using assms(1-4) by (simp add: ExecuteDeployment_def runs run_getDeployment claim_deployment_def d1_def)
  have d1: "dd_faults d1 = []" using assms(1) by (simp add: d1_def)
  have D1: "dd_deployments d1 = sql_update (\<lambda>r. dp_id r = i) (\<lambda>r. r\<lparr>dp_started_at := Some (dd_now d)\<rparr>)
      (sql_update (\<lambda>r. dp_id r = i) (\<lambda>r. r\<lparr>dp_status := ''in_progress''\<rparr>) (dd_deployments d))" by (simp add: d1_def)
  note fin = run_finish [OF _ _ assms(2)]
  obtain x d2 where s: "run_prog (execute_strategy (dp_strategy r) i) d1 = (x, d2)" "dd_faults d2 = []" "dd_deployments d2 = dd_deployments d1"
    using settled_run [OF settled_strategy d1 refl] by metis
  show thesis
  proof (cases x)
    case (Inr u)
    obtain d' where f: "run_prog (finish_deployment i ''completed'' '''') d2 = (Inr (), d')" "ended i ''completed'' '''' d d'"
      using fin [OF s(2)] s(3) D1 by metis
    have "dd_nodes d' = dd_nodes d2" using f(1) s(2) by (auto simp: finish_deployment_def runs)
    then show ?thesis using that(1) [of d2 d'] Inr s(1) f start by (simp add: run_bind)
  next
    case (Inl e)
    obtain y d3 where q: "run_prog (initiateRollback i) d2 = (y, d3)" "dd_faults d3 = []" "dd_deployments d3 = dd_deployments d2"
      using settled_run [OF settled_initiate s(2) refl] by metis
    define status where "status = (case y of Inl rerr \<Rightarrow> ''failed'' | Inr _ \<Rightarrow> ''rolled_back'')"
    define msg where "msg = (case y of Inl rerr \<Rightarrow> e @ ''; rollback failed: '' @ rerr | Inr _ \<Rightarrow> e)"
    obtain d' where f: "run_prog (finish_deployment i status msg) d3 = (Inr (), d')" "ended i status msg d d'"
      using fin [OF q(2)] q(3) s(3) D1 by metis
    have "run_prog (ExecuteDeployment i) d = (Inl e, d')"
      using start Inl s(1) q(1) f(1) by (cases y) (simp_all add: run_bind run_try status_def msg_def)
    then show ?thesis using that(2) [of e d2 d' "case y of Inl rerr \<Rightarrow> rerr | Inr _ \<Rightarrow> []"] s(1) Inl f(2)
      by (cases y) (simp_all add: status_def msg_def)
  qed
qed



section \<open>What a deployment that succeeds has done\<close>

text \<open>The states of the nodes, and a strategy that has deployed exactly to \<open>ns\<close>.\<close>

definition node_view :: "deploy_db \<Rightarrow> (int \<times> int \<times> string) list" where
  "node_view d = map (\<lambda>r. (ns_deployment_id r, ns_node_id r, ns_status r)) (dd_nodes d)"

definition mark :: "int \<Rightarrow> int set \<Rightarrow> (int \<times> int \<times> string) list \<Rightarrow> (int \<times> int \<times> string) list" where
  "mark i ns = map (\<lambda>(a, n, s). (a, n, if a = i \<and> n \<in> ns then ''completed'' else s))"

definition deploys :: "int \<Rightarrow> int set \<Rightarrow> (string + unit) prog \<Rightarrow> panel_db \<Rightarrow> deployment_row list \<Rightarrow> bool" where
  "deploys i ns p db D \<longleftrightarrow> (\<forall>d. dd_faults d = [] \<longrightarrow> dd_panel d = db \<longrightarrow> dd_deployments d = D \<longrightarrow>
     (\<exists>d'. run_prog p d = (Inr (), d') \<and> node_view d' = mark i ns (node_view d)
        \<and> dd_faults d' = [] \<and> dd_panel d' = db \<and> dd_deployments d' = D))"

lemma mark_mark: "mark i ns (mark i ms v) = mark i (ms \<union> ns) v"
  by (induction v) (auto simp: mark_def)

lemma mark_empty [simp]: "mark i {} v = v"
  by (induction v) (auto simp: mark_def)

lemma deploys_nil: "deploys i {} (Done (Inr ())) db D"
  by (simp add: deploys_def)

lemma deploys_try: "deploys i ns p db D \<Longrightarrow> deploys i ms q db D \<Longrightarrow> deploys i (ns \<union> ms) (try_prog p (\<lambda>_. q)) db D"
  unfolding deploys_def by (fastforce simp: run_try mark_mark)

lemma deploys_wrap: "deploys i ns p db D \<Longrightarrow> deploys i ns (wrap_err msg p) db D"
  unfolding deploys_def by (fastforce simp: run_wrap)

lemma deploys_sleep:
  assumes "deploys i ns p db D"
  shows "deploys i ns (bind_prog (sleep s) (\<lambda>_. p)) db D"
  unfolding deploys_def
proof (intro allI impI)
  fix d :: deploy_db assume "dd_faults d = []" "dd_panel d = db" "dd_deployments d = D"
  then show "\<exists>d'. run_prog (bind_prog (sleep s) (\<lambda>_. p)) d = (Inr (), d') \<and> node_view d' = mark i ns (node_view d)
      \<and> dd_faults d' = [] \<and> dd_panel d' = db \<and> dd_deployments d' = D"
    using assms [unfolded deploys_def, rule_format, of "d\<lparr>dd_now := dd_now d + s\<rparr>"]
    by (simp add: run_bind run_sleep node_view_def)
qed

lemma deploys_apply: "deploys i {n} (applyToNode i n revision) db D"
  unfolding deploys_def
  by (auto simp: applyToNode_def updateNodeStatus_def runs node_view_def mark_def sql_update_def)

lemma deploys_each: "deploys i (set ns) (apply_each i revision msg ns) db D"
proof (induction ns)
  case (Cons n ns)
  show ?case using deploys_try [OF deploys_wrap [OF deploys_apply] Cons] by simp
qed (simp add: deploys_nil)

text \<open>A list in a strategy, executed in stages, is covered: every stage continues where the one before it stopped, and the last reaches
  the end.\<close>

lemma stage_count_le: "k \<le> n \<Longrightarrow> k \<le> stage_count n k want \<and> stage_count n k want \<le> n"
  by (auto simp: stage_count_def Let_def)

lemma stage_count_end: "k \<le> n \<Longrightarrow> stage_count n k n = n"
  by (auto simp: stage_count_def Let_def)

lemma stage_join: "k \<le> c \<Longrightarrow> set (drop k (take c ns)) \<union> set (drop c ns) = set (drop k ns)"
  by (metis append_take_drop_id drop_take drop_drop le_add_diff_inverse2 set_append)

lemma deploys_stages:
  "k \<le> length ns \<Longrightarrow> stages \<noteq> [] \<Longrightarrow> snd (last stages) = length ns \<Longrightarrow>
     deploys i (set (drop k ns)) (run_stages_from i revision ns k stages) db D"
proof (induction i revision ns k stages rule: run_stages_from.induct)
  case (2 i revision ns k pct want stages)
  let ?c = "stage_count (length ns) k want"
  have c: "k \<le> ?c" "?c \<le> length ns" using stage_count_le 2(3) by blast+
  have "deploys i (set (drop ?c ns)) (run_stages_from i revision ns ?c stages) db D"
  proof (cases "stages = []")
    case True
    then show ?thesis using 2(3,5) stage_count_end [of k "length ns"] deploys_nil by simp
  next
    case False
    then show ?thesis using 2(1,2) [of ?c] c(2) 2(5) by (cases "?c < length ns") auto
  qed
  then have "deploys i (set (drop ?c ns)) (if ?c < length ns then bind_prog (sleep 30) (\<lambda>_. run_stages_from i revision ns ?c stages)
      else run_stages_from i revision ns ?c stages) db D"
    using deploys_sleep by (simp split: if_split del: drop_eq_Nil2 drop_all)
  from deploys_try [OF deploys_each [of i "drop k (take ?c ns)"] this] show ?case
    unfolding run_stages_from.simps Let_def stage_join [OF c(1)] .
qed simp

lemma deploys_all:
  assumes "dd_faults d = []" and "dd_panel d = db" and "dd_deployments d = D"
  shows "\<exists>d'. run_prog (apply_all i revision ns k) d = (k, d') \<and> node_view d' = mark i (set ns) (node_view d)
    \<and> dd_faults d' = [] \<and> dd_panel d' = db \<and> dd_deployments d' = D"
  using assms
proof (induction ns arbitrary: d)
  case (Cons n ns)
  obtain d1 where d1: "run_prog (applyToNode i n revision) d = (Inr (), d1)" "node_view d1 = mark i {n} (node_view d)"
    "dd_faults d1 = []" "dd_panel d1 = db" "dd_deployments d1 = D"
    using deploys_apply Cons.prems unfolding deploys_def by blast
  from Cons.IH [OF d1(3-5)] show ?case using d1(1,2) by (simp add: run_bind mark_mark)
qed simp

lemma run_health:
  "dd_faults d = [] \<Longrightarrow> run_prog (CheckNodeHealth [n]) d = (Inr [(n, health_of (dd_panel d) n)], d)"
  by (simp add: CheckNodeHealth_def runs)

lemma deploys_roll: "(\<And>n. n \<in> set ns \<Longrightarrow> health_of db n = ''healthy'') \<Longrightarrow> deploys i (set ns) (roll_each i revision ns) db D"
proof (induction ns)
  case (Cons n ns)
  have "deploys i (set ns) (try_prog (wrap_err msg (CheckNodeHealth [n])) (\<lambda>health. if map_of health n \<noteq> Some ''healthy''
      then Done (Inl bad) else roll_each i revision ns)) db D" for msg bad
    using Cons unfolding deploys_def by (simp add: run_try run_wrap run_health)
  from deploys_try [OF deploys_wrap [OF deploys_apply] deploys_sleep [OF this]] show ?case by simp
qed (simp add: deploys_nil)

definition pending_of :: "int \<Rightarrow> deploy_db \<Rightarrow> int list" where
  "pending_of i d = sort (map ns_node_id (sql_where (\<lambda>r. ns_deployment_id r = i \<and> ns_status r = ''pending'') (dd_nodes d)))"

lemma run_pending: "dd_faults d = [] \<Longrightarrow> run_prog (getPendingNodes i) d = (Inr (pending_of i d), d)"
  by (simp add: getPendingNodes_def runs pending_of_def)

lemma pending_of_view: "set (pending_of i d) = {n. (i, n, ''pending'') \<in> set (node_view d)}"
  by (auto simp: pending_of_def node_view_def image_iff)

lemma strategy_deploys:
  assumes "dd_faults d = []" and "sql_one (\<lambda>r. dp_id r = i) (dd_deployments d) = Some r" and "pending_of i d \<noteq> []"
    and "\<And>n. n \<in> set (pending_of i d) \<Longrightarrow> health_of (dd_panel d) n = ''healthy''"
    and "strategy \<in> {''all_at_once'', ''canary'', ''staged'', ''rolling''}"
  shows "\<exists>d'. run_prog (execute_strategy strategy i) d = (Inr (), d') \<and> node_view d' = mark i (set (pending_of i d)) (node_view d)"
proof -
  note start = run_pending [OF assms(1)] run_getDeployment [OF assms(1,2)]
  let ?ns = "pending_of i d" and ?rev = "dp_revision_id r" and ?db = "dd_panel d" and ?D = "dd_deployments d"
  have use: "\<exists>d'. run_prog p d = (Inr (), d') \<and> node_view d' = mark i (set ?ns) (node_view d)" if "deploys i (set ?ns) p ?db ?D" for p
    using that assms(1) unfolding deploys_def by blast
  consider "strategy = ''all_at_once''" | "strategy = ''canary''" | "strategy = ''staged''" | "strategy = ''rolling''" using assms(5) by auto
  then show ?thesis
  proof cases
    case 1
    then show ?thesis using deploys_all [OF assms(1) refl refl, of i ?rev ?ns 0]
      by (auto simp: execute_strategy_def executeAllAtOnce_def run_try run_bind start)
  next
    case 2
    obtain n ns where ns: "?ns = n # ns" using assms(3) by (cases ?ns) auto
    have "deploys i (set ns) (try_prog (wrap_err msg (CheckNodeHealth [n])) (\<lambda>health. if map_of health n \<noteq> Some ''healthy''
        then bad else apply_each i ?rev lbl ns)) ?db ?D" for msg bad lbl
      using deploys_each [of i ns ?rev lbl ?db ?D] assms(4) ns unfolding deploys_def by (simp add: run_try run_wrap run_health)
    from deploys_try [OF deploys_wrap [OF deploys_apply] deploys_sleep [OF this]]
    have all: "deploys i (set ?ns) (try_prog (wrap_err msg' (applyToNode i n ?rev)) (\<lambda>_. bind_prog (sleep 30) (\<lambda>_.
        try_prog (wrap_err msg (CheckNodeHealth [n])) (\<lambda>health. if map_of health n \<noteq> Some ''healthy''
        then bad else apply_each i ?rev lbl ns)))) ?db ?D" for msg' msg bad lbl
      unfolding ns by simp
    from use [OF all] show ?thesis
      using 2 ns by (simp add: execute_strategy_def executeCanary_def run_try start)
  next
    case 3
    have "deploys i (set ?ns) (run_stages_from i ?rev ?ns 0 [(''10'', length ?ns div 10), (''50'', length ?ns div 2), (''100'', length ?ns)]) ?db ?D"
      using deploys_stages [of 0 ?ns "[(''10'', length ?ns div 10), (''50'', length ?ns div 2), (''100'', length ?ns)]"]
      by (simp del: run_stages_from.simps)
    from use [OF this] show ?thesis using 3 assms(3) by (simp add: execute_strategy_def executeStaged_def run_try start del: run_stages_from.simps)
  next
    case 4
    from use [OF deploys_roll [OF assms(4)]] show ?thesis using 4 by (simp add: execute_strategy_def executeRolling_def run_try start)
  qed
qed

lemma mark_pending:
  assumes "distinct (map (\<lambda>(a, n, s). (a, n)) v)"
  shows "mark i {n. (i, n, ''pending'') \<in> set v} v = map (\<lambda>(a, n, s). (a, n, if a = i \<and> s = ''pending'' then ''completed'' else s)) v"
  unfolding mark_def
proof (rule map_cong [OF refl])
  fix x assume "x \<in> set v"
  then obtain a n s where x: "x = (a, n, s)" "(a, n, s) \<in> set v" by (metis surj_pair)
  with assms have "(a, n, ''pending'') \<in> set v \<longleftrightarrow> s = ''pending''" using inj_onD [of "\<lambda>(a, n, s). (a, n)" "set v" "(a, n, s)" "(a, n, ''pending'')"]
    by (auto simp: distinct_map)
  then show "(case x of (a, n, s) \<Rightarrow> (a, n, if a = i \<and> n \<in> {n. (i, n, ''pending'') \<in> set v} then ''completed'' else s))
      = (case x of (a, n, s) \<Rightarrow> (a, n, if a = i \<and> s = ''pending'' then ''completed'' else s))" unfolding x(1) by auto
qed

text \<open>C33: every strategy deploys to every node. When the store works, nothing obstructs the deployment and its nodes are healthy, an
  execution succeeds under each of the four strategies, with exactly the pending nodes of the deployment completed: no stage
  skips one or does one of another deployment.\<close>
theorem execution_covers_nodes:
  assumes "dd_faults d = []" and "sql_one (\<lambda>r. dp_id r = i) (dd_deployments d) = Some r" and "dp_status r = ''pending''"
    and "in_progress_elsewhere i d = 0" and "dp_strategy r \<in> {''all_at_once'', ''canary'', ''staged'', ''rolling''}"
    and "\<exists>n. (i, n, ''pending'') \<in> set (node_view d)" and "\<And>n. (i, n, ''pending'') \<in> set (node_view d) \<Longrightarrow> health_of (dd_panel d) n = ''healthy''"
    and "distinct (map (\<lambda>(a, n, s). (a, n)) (node_view d))"
  shows "\<exists>d'. run_prog (ExecuteDeployment i) d = (Inr (), d') \<and> ended i ''completed'' '''' d d'
    \<and> node_view d' = map (\<lambda>(a, n, s). (a, n, if a = i \<and> s = ''pending'' then ''completed'' else s)) (node_view d)"
proof -
  define d1 where "d1 = set_deployment (\<lambda>r. dp_id r = i) (\<lambda>r. r\<lparr>dp_started_at := Some (dd_now d)\<rparr>)
      (set_deployment (\<lambda>r. dp_id r = i) (\<lambda>r. r\<lparr>dp_status := ''in_progress''\<rparr>) d)"
  have same: "pending_of i d1 = pending_of i d" "node_view d1 = node_view d" "dd_panel d1 = dd_panel d" "dd_faults d1 = []"
    using assms(1) by (simp_all add: d1_def pending_of_def node_view_def)
  have row: "\<exists>r1. sql_one (\<lambda>r. dp_id r = i) (dd_deployments d1) = Some r1" using assms(2) by (simp add: d1_def sql_one_update_same)
  have ne: "pending_of i d1 \<noteq> []" using assms(6) pending_of_view [of i d] same(1) by auto
  obtain d2 where s: "run_prog (execute_strategy (dp_strategy r) i) d1 = (Inr (), d2)" "node_view d2 = mark i (set (pending_of i d)) (node_view d)"
    using strategy_deploys [of d1 i _ "dp_strategy r"] row ne assms(5,7) same pending_of_view [of i d] by auto
  show ?thesis
    by (rule execute_end [OF assms(1-4)])
      (use s mark_pending [OF assms(8)] in \<open>auto simp: pending_of_view d1_def [symmetric] node_view_def\<close>)
qed

definition online_deploy :: deploy_db where
  "online_deploy = (demo_deploy ''pending'')\<lparr>dd_panel := demo_db\<lparr>t_nodes := [demo_node\<lparr>n_status := ''online''\<rparr>]\<rparr>\<rparr>"

theorem execution_covers_nodes_witness:
  "\<exists>d'. run_prog (ExecuteDeployment 1) online_deploy = (Inr (), d') \<and> ended 1 ''completed'' [] online_deploy d'
    \<and> node_view d' = map (\<lambda>(a, n, s). (a, n, if a = 1 \<and> s = ''pending'' then ''completed'' else s)) (node_view online_deploy)"
proof (rule execution_covers_nodes)
  show "dd_faults online_deploy = []" by code_simp
  show "sql_one (\<lambda>r. dp_id r = 1) (dd_deployments online_deploy) = Some (dep_row 1 ''rolling'' ''pending'')" by code_simp
  show "dp_status (dep_row 1 ''rolling'' ''pending'') = ''pending''" by code_simp
  show "in_progress_elsewhere 1 online_deploy = 0" by code_simp
  show "dp_strategy (dep_row 1 ''rolling'' ''pending'') \<in> {''all_at_once'', ''canary'', ''staged'', ''rolling''}" by code_simp
  have v: "node_view online_deploy = [(1, 1, ''pending''), (2, 1, ''pending'')]" by code_simp
  then show "\<exists>n. (1, n, ''pending'') \<in> set (node_view online_deploy)" by auto
  have "health_of (dd_panel online_deploy) 1 = ''healthy''" by code_simp
  then show "health_of (dd_panel online_deploy) n = ''healthy''" if "(1, n, ''pending'') \<in> set (node_view online_deploy)" for n
    using that unfolding v by auto
  show "distinct (map (\<lambda>(a, n, s). (a, n)) (node_view online_deploy))" unfolding v by simp
qed

section \<open>Recovery and timeouts\<close>

lemma run_recover_each:
  "dd_faults d = [] \<Longrightarrow> run_prog (recover_each is) d = ((), d\<lparr>
     dd_deployments := sql_update (\<lambda>r. dp_id r \<in> set is) (\<lambda>r. r\<lparr>dp_status := ''failed'', dp_completed_at := Some (dd_now d)\<rparr>) (dd_deployments d),
     dd_nodes := sql_update (\<lambda>r. ns_deployment_id r \<in> set is \<and> (ns_status r = ''pending'' \<or> ns_status r = ''applying''))
       (\<lambda>r. r\<lparr>ns_status := ''failed''\<rparr>) (dd_nodes d)\<rparr>)"
proof (induction "is" arbitrary: d)
  case Nil
  then show ?case by (cases d) (simp add: sql_update_def)
next
  case (Cons i "is")
  let ?d = "fail_open_nodes i (set_deployment (\<lambda>r. dp_id r = i) (\<lambda>r. r\<lparr>dp_status := ''failed'', dp_completed_at := Some (dd_now d)\<rparr>) d)"
  have f: "dd_faults ?d = []" "dd_now ?d = dd_now d" using Cons.prems by (simp_all add: fail_open_nodes_def)
  have "run_prog (recover_each (i # is)) d = run_prog (recover_each is) ?d" using Cons.prems by (simp add: run_bind run_exec)
  also have "\<dots> = ((), ?d\<lparr>dd_deployments := sql_update (\<lambda>r. dp_id r \<in> set is) (\<lambda>r. r\<lparr>dp_status := ''failed'', dp_completed_at := Some (dd_now d)\<rparr>) (dd_deployments ?d),
     dd_nodes := sql_update (\<lambda>r. ns_deployment_id r \<in> set is \<and> (ns_status r = ''pending'' \<or> ns_status r = ''applying''))
       (\<lambda>r. r\<lparr>ns_status := ''failed''\<rparr>) (dd_nodes ?d)\<rparr>)" using Cons.IH [OF f(1)] unfolding f(2) .
  finally show ?case
    by (simp add: fail_open_nodes_def set_nodes_def set_deployment_def sql_update_def) (rule deploy_db.fold_congs; auto)
qed

text \<open>a restart leaves nothing in progress. When the store works, recovery marks exactly the deployments in progress as failed now,
  with their open nodes, and changes nothing else, a node already deployed included.\<close>
theorem recovery_exact:
  assumes "dd_faults d = []" and "distinct (map dp_id (dd_deployments d))"
  shows "run_prog RecoverStaleDeployments d = (Inr (), d\<lparr>
     dd_deployments := map (\<lambda>r. if dp_status r = ''in_progress'' then r\<lparr>dp_status := ''failed'', dp_completed_at := Some (dd_now d)\<rparr> else r) (dd_deployments d),
     dd_nodes := map (\<lambda>r. if ns_deployment_id r \<in> active d \<and> ns_status r \<in> {''pending'', ''applying''} then r\<lparr>ns_status := ''failed''\<rparr> else r) (dd_nodes d)\<rparr>)"
proof -
  let ?stale = "map dp_id (sql_where (\<lambda>r. dp_status r = ''in_progress'') (dd_deployments d))"
  have act: "set ?stale = active d" by (auto simp: active_def)
  have "dp_id r \<in> set ?stale \<longleftrightarrow> dp_status r = ''in_progress''" if "r \<in> set (dd_deployments d)" for r
    using that inj_onD [of dp_id "set (dd_deployments d)" r] assms(2) by (auto simp: distinct_map)
  then have "sql_update (\<lambda>r. dp_id r \<in> set ?stale) f (dd_deployments d) = map (\<lambda>r. if dp_status r = ''in_progress'' then f r else r) (dd_deployments d)" for f
    by (auto simp: sql_update_def)
  then show ?thesis
    using assms(1) unfolding RecoverStaleDeployments_def
    by (simp add: run_try run_wrap run_read run_bind run_recover_each act [simplified]) (simp add: sql_update_def)
qed

theorem recovery_exact_witness:
  "active (snd (run_prog RecoverStaleDeployments (demo_deploy ''in_progress''))) = {}"
proof -
  have "dd_faults (demo_deploy ''in_progress'') = []" "distinct (map dp_id (dd_deployments (demo_deploy ''in_progress'')))" by code_simp+
  from recovery_exact [OF this] show ?thesis by (simp only: snd_conv) code_simp
qed

lemma run_time_out_each:
  "dd_faults d = [] \<Longrightarrow> distinct (map fst late) \<Longrightarrow> run_prog (time_out_each now late) d = ((), d\<lparr>
     dd_deployments := map (\<lambda>r. case map_of late (dp_id r) of None \<Rightarrow> r
       | Some msg \<Rightarrow> r\<lparr>dp_status := ''failed'', dp_completed_at := Some (now div second), dp_error := msg\<rparr>) (dd_deployments d),
     dd_nodes := sql_update (\<lambda>r. ns_deployment_id r \<in> fst ` set late \<and> (ns_status r = ''pending'' \<or> ns_status r = ''applying''))
       (\<lambda>r. r\<lparr>ns_status := ''failed''\<rparr>) (dd_nodes d)\<rparr>)"
proof (induction now late arbitrary: d rule: time_out_each.induct)
  case (1 now)
  then show ?case by (cases d) (simp add: sql_update_def)
next
  case (2 now i msg late)
  let ?d = "fail_open_nodes i (set_deployment (\<lambda>r. dp_id r = i)
      (\<lambda>r. r\<lparr>dp_status := ''failed'', dp_completed_at := Some (now div second), dp_error := msg\<rparr>) d)"
  have f: "dd_faults ?d = []" using 2(2) by (simp add: fail_open_nodes_def)
  have late: "map_of late i = None" "distinct (map fst late)" using 2(3) by (simp_all add: map_of_eq_None_iff)
  have "run_prog (time_out_each now ((i, msg) # late)) d = run_prog (time_out_each now late) ?d" using 2(2) by (simp add: run_bind run_exec)
  also note 2(1) [OF f late(2)]
  finally show ?case
    using late(1) by (simp add: fail_open_nodes_def set_nodes_def set_deployment_def sql_update_def) (rule deploy_db.fold_congs; auto)
qed

definition is_late :: "timeout_config \<Rightarrow> int \<Rightarrow> deployment_row \<Rightarrow> bool" where
  "is_late c now r \<longleftrightarrow> dp_status r = ''in_progress'' \<and> (\<exists>t. dp_started_at r = Some t \<and> elapsed_since now t > timeout_of c (dp_strategy r))"

text \<open>the sweep times out what is late and nothing else. When the store works, the deployments in progress whose age exceeds the
  limit of their strategy become failed with a message that names age and strategy, their open nodes fail, and every other row
  stays as it is. A deployment exactly at its limit is not late, and neither is one whose start has not been recorded.\<close>
theorem timeouts_exact:
  assumes "dd_faults d = []" and "distinct (map dp_id (dd_deployments d))"
  shows "run_prog (EnforceTimeouts fmt_dur c now) d = (Inr (), d\<lparr>
     dd_deployments := map (\<lambda>r. if is_late c now r then r\<lparr>dp_status := ''failed'', dp_completed_at := Some (now div second),
         dp_error := ''deployment timed out after '' @ fmt_dur (elapsed_since now (the (dp_started_at r))) @ '' (strategy: '' @ dp_strategy r @ '')''\<rparr> else r) (dd_deployments d),
     dd_nodes := map (\<lambda>r. if ns_deployment_id r \<in> dp_id ` {r \<in> set (dd_deployments d). is_late c now r} \<and> ns_status r \<in> {''pending'', ''applying''}
       then r\<lparr>ns_status := ''failed''\<rparr> else r) (dd_nodes d)\<rparr>)"
proof -
  let ?late = "is_late c now"
  have t: "timed_out c now = ?late" by (auto simp: fun_eq_iff timed_out_def is_late_def split: option.splits)
  define msg where "msg = (\<lambda>r :: deployment_row. ''deployment timed out after '' @ fmt_dur (elapsed_since now (the (dp_started_at r))) @ '' (strategy: '' @ dp_strategy r @ '')'')"
  define rows where "rows = map (\<lambda>r. (dp_id r, msg r)) (sql_where ?late (dd_deployments d))"
  have keys: "fst ` set rows = dp_id ` {r \<in> set (dd_deployments d). ?late r}" by (auto simp: rows_def image_iff)
  have dist: "distinct (map fst rows)" using assms(2) by (simp add: rows_def comp_def sql_where_def distinct_map_filter)
  have look: "map_of rows (dp_id r) = (if ?late r then Some (msg r) else None)" if r: "r \<in> set (dd_deployments d)" for r
  proof (cases "?late r")
    case True
    then have "(dp_id r, msg r) \<in> set rows" using r by (auto simp: rows_def image_iff)
    then show ?thesis using True map_of_is_SomeI [OF dist] by simp
  next
    case False
    then have "dp_id r \<notin> fst ` set rows" unfolding keys using r inj_onD [of dp_id "set (dd_deployments d)" r] assms(2) by (auto simp: distinct_map)
    then show ?thesis using False by (simp add: map_of_eq_None_iff)
  qed
  have "run_prog (EnforceTimeouts fmt_dur c now) d = (Inr (), snd (run_prog (time_out_each now rows) d))"
    using assms(1) unfolding EnforceTimeouts_def t rows_def msg_def by (simp add: run_try run_wrap run_read run_bind split_def)
  moreover have "map (\<lambda>r. case map_of rows (dp_id r) of None \<Rightarrow> r | Some m \<Rightarrow> f r m) (dd_deployments d)
      = map (\<lambda>r. if ?late r then f r (msg r) else r) (dd_deployments d)" for f
    by (rule map_cong) (simp_all add: look)
  ultimately show ?thesis using run_time_out_each [OF assms(1) dist] by (simp add: sql_update_def keys) (simp add: msg_def)
qed

theorem timeouts_exact_witness:
  "map dp_status (dd_deployments (snd (run_prog (EnforceTimeouts (\<lambda>_. ''5m1s'') DefaultTimeoutConfig (401 * second))
     (set_deployment (\<lambda>r. True) (\<lambda>r. r\<lparr>dp_status := ''in_progress'', dp_started_at := Some 100\<rparr>) (demo_deploy ''completed''))))) = [''in_progress'', ''failed'']"
proof -
  let ?d = "set_deployment (\<lambda>r. True) (\<lambda>r. r\<lparr>dp_status := ''in_progress'', dp_started_at := Some 100\<rparr>) (demo_deploy ''completed'')"
  have "dd_faults ?d = []" "distinct (map dp_id (dd_deployments ?d))" by code_simp+
  note r = timeouts_exact [OF this, of "\<lambda>_. ''5m1s''" DefaultTimeoutConfig "401 * second"]
  show ?thesis unfolding r
    by (simp add: demo_deploy_def dep_row_def set_deployment_def elapsed_since_def timeout_of_def DefaultTimeoutConfig_def is_late_def)
qed

end
