(* ===== verification/Spec2Isabelle.thy ===== *)
theory Spec2Isabelle
  imports Hub AgentAccounting Auth Deployment
begin

text \<open>
  A verification of antimage, a panel that manages proxy nodes through agents, written in Go under \<open>src/internal\<close>.

  \<^bold>\<open>The program.\<close> The panel keeps its state in one SQLite database. An operator or a tenant changes services, subjects (the paying
  customers) and nodes through the service layer; each change that concerns a node is committed together with a new revision of
  that node's desired-state document. The hub tells the node's agent, which dials in over a control stream; the agent
  fetches the document, verifies its digest, hands it to the reconciler, which drives one adapter per protocol through
  observe, plan, apply and confirm, and reports. The panel advances the node only for a verified report. The agent also reports
  the traffic of every subject; the panel adds it up, bills it with the coefficients of node and service, freezes a
  subject that is over its quota and republishes. Tenants (resellers) sell subjects against a credit ledger. Deployments roll a revision out
  to nodes by one of four strategies.

  \<^bold>\<open>The theories\<close>, each the model of the files it names at its top, with its lemmas:

  \<^item> \<open>Prelude\<close>: Go maps and sets, SQL tables, results, the locale \<open>invariant_machine\<close> of runs; the rest imports it.
  \<^item> \<open>Store\<close>: the tables of \<open>panel/store/migrations\<close>, \<open>Store.Write\<close> (all or nothing) and the audit log of \<open>panel/audit\<close>.
  \<^item> \<open>NodeStatus\<close>: \<open>panel/nodes/state_machine.go\<close>, the table of transitions and what follows from it.
  \<^item> \<open>Document\<close>: \<open>panel/nodes/document.go, snapshot.go, egress.go, dns.go, outbound_params.go\<close>, the document as a function of the
    database: who is in it, in which order, and that it does not depend on the order of rows.
  \<^item> \<open>Convergence\<close>: \<open>panel/nodes/commit.go, convergence.go, enroll.go\<close> and the sweeps: a commit writes a revision exactly when the
    document changes, revisions are contiguous, and a node is online at a revision only after a report with its digest.
  \<^item> \<open>Billable\<close>, \<open>Accounting\<close>, \<open>Quota\<close>: \<open>billable.go, usage.go, rollup.go, bill.go, quota.go\<close>: 128-bit arithmetic on words, reports
    counted at most once, rollups that lose and repeat no byte, exactly the subjects over quota frozen and taken out of every document.
  \<^item> \<open>AgentAccounting\<close>: \<open>node/agent/accounting.go\<close>, the agent's counters and sequence numbers, and the way of a byte from the counter
    to the bill.
  \<^item> \<open>Subjects\<close>, \<open>Resellers\<close>, \<open>Trade\<close>: \<open>panel/subjects\<close> and \<open>panel/resellers\<close>: subjects with sealed credentials, tokens and expiry; tenants,
    ledger and provisioning. \<open>Resellers\<close> uses subjects through an interface, as the code does, and \<open>Trade\<close> shows that tenants stay
    solvent in every run.
  \<^item> \<open>Tenancy\<close>: \<open>panel/rbac\<close> and \<open>panel/service\<close>: permissions, scopes and every operation of the service layer; a tenant neither sees
    nor changes anything of another.
  \<^item> \<open>Auth\<close>: \<open>panel/auth/session.go, ratelimit.go\<close> and the handlers of login, logout, sessions, second factor, passwords and the status of an
    admin in \<open>panel/httpapi\<close>. The locale \<open>throttled\<close> is the contract of a handler behind the limiter, from which the number of wrong
    guesses per window follows; it is interpreted on login, confirmation and removal of the second factor. A login proves both factors, an ended session
    stays ended, a change of password cuts every cookie off; what breaks when requests overlap is shown too.
  \<^item> \<open>Enforcer\<close>: \<open>node/enforcement/enforcement.go\<close>: limits on devices, addresses and connections with the indexes behind them.
  \<^item> \<open>Adapters\<close>, \<open>Reconcile\<close>, \<open>StubAdapter\<close>: the adapter contract and registry (\<open>node/adapter/adapter.go\<close>, \<open>node/agent/registry.go\<close>), the
    reconciler (\<open>node/agent/reconcile.go\<close>) over arbitrary adapters, and the file adapter (\<open>node/adapter/stub/stub.go\<close>). The locales
    \<open>adapter_family\<close> and \<open>adapter_progress\<close> state what the reconciler relies on; \<open>StubAdapter\<close> interprets both on the file adapter, over a
    directory whose every system call may fail. A converged report is true, one run converges on a host that answers, foreign files
    survive and a crash never leaves a truncated one.
  \<^item> \<open>AgentLoop\<close>: \<open>node/agent/client.go, enforcement.go\<close> and the handlers of \<open>panel/control/control_service.go\<close>: one reconciliation from the
    database to the host and back, commands, and the backoff.
  \<^item> \<open>Hub\<close>: \<open>panel/control/hub.go\<close>: channels with identities, every interleaving of streams, notifications and commands; no step panics, a
    bump is not lost, one stream per node is live and a caller gets the answer to its own command.
  \<^item> \<open>Deployment\<close>: \<open>panel/deployment\<close>: an operation is a program of atomic accesses to the store, each of which may fail; operations
    interleave at every access. Two running deployments never share a node, an execution ends and covers its nodes, recovery and
    timeouts are exact.

  \<^bold>\<open>How state and effects are modelled.\<close> A struct is a record, a table a list of rows in a record \<open>panel_db\<close>, a transaction a function to
  an error or the next database. A loop is a structural recursion, except \<open>applyWithRetry\<close>, a function with a measure. No definition needs
  fuel. An \<open>int64\<close> is a word in \<open>Billable\<close> and \<open>Quota\<close>, where it is multiplied, and an integer with its wrap-around written
  out or a stated bound elsewhere. Time, randomness and faults are arguments or part of the state.

  \<^bold>\<open>Parameters.\<close> Canonical JSON, SHA-256, password hashing and one-time passwords, the JSON and base64 decoders, sealing and the random source are arguments. Hypotheses on them are
  named in the theorem that needs them: unsealing undoes sealing, a digest has no newline. Each has a witness with concrete functions.

  \<^bold>\<open>Not modelled.\<close> The other HTTP handlers, the web page, the Telegram bot and notifications (transport and presentation over the modelled operations);
  the generated protocol code, TLS, dialling and the certificate authority; the adapters of xray, sing-box, OpenVPN, ocserv, L2TP, WireGuard
  and Hysteria 2, which render files of and run programs outside this repository; node metrics, dashboards and health scores in
  floating point; templates, bulk wrappers and import tools over the modelled operations; the inside of password hashing and one-time passwords; migrations as
  text. Failures of the disk below a transaction are modelled in \<open>Deployment\<close> and \<open>StubAdapter\<close> only.
\<close>

end
